(* ===== verification/Go_Base.thy ===== *)
theory Go_Base
  imports Main "HOL-Library.Monad_Syntax" "HOL-Library.Multiset" "HOL-Library.AList"
begin

text \<open>
  The prelude of the development: how the Go constructs the sources use are rendered in
  HOL, and the lemmas about lists and options that the component theories share.

  A Go \<open>int\<close> is an \<open>int\<close>. A Go expression that can panic (an index or a slice bound out
  of range, an explicit \<open>panic\<close>) has an \<open>option\<close> type, \<open>None\<close> being the panic; a
  function whose body can panic is written in the option monad, so that the first panic
  ends it. A slice is a list and \<open>[]\<close> stands for both the nil and the empty slice, which
  the modelled code never tells apart.
\<close>

section \<open>Slices\<close>

text \<open>\<open>xs[i]\<close>, \<open>xs[i] = v\<close>, \<open>xs[i:]\<close> and \<open>xs[:i]\<close>.\<close>

definition slice_get :: "'a list \<Rightarrow> int \<Rightarrow> 'a option" where
  "slice_get xs i = (if 0 \<le> i \<and> i < int (length xs) then Some (xs ! nat i) else None)"

definition slice_set :: "'a list \<Rightarrow> int \<Rightarrow> 'a \<Rightarrow> 'a list option" where
  "slice_set xs i v = (if 0 \<le> i \<and> i < int (length xs) then Some (xs[nat i := v]) else None)"

definition slice_from :: "'a list \<Rightarrow> int \<Rightarrow> 'a list option" where
  "slice_from xs i = (if 0 \<le> i \<and> i \<le> int (length xs) then Some (drop (nat i) xs) else None)"

definition slice_to :: "'a list \<Rightarrow> int \<Rightarrow> 'a list option" where
  "slice_to xs i = (if 0 \<le> i \<and> i \<le> int (length xs) then Some (take (nat i) xs) else None)"

named_theorems slice_defs \<open>definitions of the slice operations\<close>

declare slice_get_def [slice_defs] slice_set_def [slice_defs]
  slice_from_def [slice_defs] slice_to_def [slice_defs]

lemma slice_get_in [simp]:
  "0 \<le> i \<Longrightarrow> i < int (length xs) \<Longrightarrow> slice_get xs i = Some (xs ! nat i)"
  by (simp add: slice_get_def)

lemma slice_set_in [simp]:
  "0 \<le> i \<Longrightarrow> i < int (length xs) \<Longrightarrow> slice_set xs i v = Some (xs[nat i := v])"
  by (simp add: slice_set_def)

lemma slice_from_in [simp]:
  "0 \<le> i \<Longrightarrow> i \<le> int (length xs) \<Longrightarrow> slice_from xs i = Some (drop (nat i) xs)"
  by (simp add: slice_from_def)

lemma slice_to_in [simp]:
  "0 \<le> i \<Longrightarrow> i \<le> int (length xs) \<Longrightarrow> slice_to xs i = Some (take (nat i) xs)"
  by (simp add: slice_to_def)

lemma slice_get_eq_Some:
  "slice_get xs i = Some x \<longleftrightarrow> 0 \<le> i \<and> i < int (length xs) \<and> x = xs ! nat i"
  by (auto simp: slice_get_def)

lemma slice_set_eq_Some:
  "slice_set xs i v = Some ys \<longleftrightarrow> 0 \<le> i \<and> i < int (length xs) \<and> ys = xs[nat i := v]"
  by (auto simp: slice_set_def)

lemma slice_set_length: "slice_set xs i v = Some ys \<Longrightarrow> length ys = length xs"
  by (auto simp: slice_set_eq_Some)

section \<open>Lists and options\<close>

lemma bind_eq_Some_iff [simp]:
  "Option.bind m f = Some y \<longleftrightarrow> (\<exists>x. m = Some x \<and> f x = Some y)"
  by (cases m) auto

lemma nth_take_append:
  "k \<le> length xs \<Longrightarrow>
   (take k xs @ ys) ! i = (if i < k then xs ! i else ys ! (i - k))"
  by (auto simp: nth_append)

lemma hd_take_append [simp]:
  "0 < k \<Longrightarrow> xs \<noteq> [] \<Longrightarrow> hd (take k xs @ ys) = hd xs"
  by (cases xs; cases k) auto

text \<open>Two majorities of the same finite set meet.\<close>

lemma majorities_meet:
  assumes "finite S" "A \<subseteq> S" "B \<subseteq> S"
    and "card S < 2 * card A" "card S < 2 * card B"
  shows "A \<inter> B \<noteq> {}"
proof
  assume "A \<inter> B = {}"
  moreover have "finite A" "finite B"
    using assms by (auto intro: finite_subset)
  ultimately have "card (A \<union> B) = card A + card B"
    by (simp add: card_Un_disjoint)
  moreover have "card (A \<union> B) \<le> card S"
    using assms by (intro card_mono) auto
  ultimately show False
    using assms by simp
qed

text \<open>
  In a sorted list the element at the lower median is the greatest value that more than half
  of the elements reach.
\<close>

lemma length_filter_sorted_ge:
  assumes "sorted xs" "k < length xs"
  shows "length xs - k \<le> length (filter (\<lambda>x. xs ! k \<le> x) xs)"
proof -
  have "filter (\<lambda>x. xs ! k \<le> x) (drop k xs) = drop k xs"
    using assms by (auto simp: filter_id_conv in_set_conv_nth sorted_iff_nth_mono)
  then have "length (filter (\<lambda>x. xs ! k \<le> x) (take k xs @ drop k xs)) \<ge> length xs - k"
    unfolding filter_append by simp
  then show ?thesis
    by simp
qed

lemma length_filter_sorted_gt:
  assumes "sorted xs" "k < length xs" "xs ! k < m"
  shows "length (filter (\<lambda>x. m \<le> x) xs) \<le> length xs - Suc k"
proof -
  have "x < m" if x: "x \<in> set (take (Suc k) xs)" for x
  proof -
    obtain j where "j < Suc k" "x = xs ! j"
      using x assms(2) by (auto simp: in_set_conv_nth)
    then have "x \<le> xs ! k"
      using assms(1,2) by (auto intro: sorted_nth_mono)
    then show ?thesis
      using assms(3) by simp
  qed
  then have "filter (\<lambda>x. m \<le> x) (take (Suc k) xs) = []"
    by (force simp: filter_empty_conv)
  then have "filter (\<lambda>x. m \<le> x) (take (Suc k) xs @ drop (Suc k) xs) = filter (\<lambda>x. m \<le> x) (drop (Suc k) xs)"
    unfolding filter_append by simp
  then show ?thesis
    by (metis append_take_drop_id length_drop length_filter_le)
qed

lemma length_filter_sort: "length (filter P (sort xs)) = card {i. i < length xs \<and> P (xs ! i)}"
proof -
  have "length (filter P (sort xs)) = size (filter_mset P (mset (sort xs)))"
    by (metis mset_filter size_mset)
  also have "\<dots> = length (filter P xs)"
    by (metis mset_filter mset_sort size_mset)
  finally show ?thesis
    by (simp add: length_filter_conv_card)
qed

lemma sorted_median:
  fixes xs :: "int list"
  assumes "xs \<noteq> []"
  defines "m \<equiv> sort xs ! ((length xs - 1) div 2)"
  shows "length xs < 2 * card {i. i < length xs \<and> c \<le> xs ! i} \<longleftrightarrow> c \<le> m"
proof -
  let ?k = "(length xs - 1) div 2"
  have k: "?k < length (sort xs)"
    using assms(1) by (cases xs) auto
  have up: "length xs - ?k \<le> card {i. i < length xs \<and> m \<le> xs ! i}"
    using length_filter_sorted_ge[OF sorted_sort k] unfolding m_def length_filter_sort by simp
  show ?thesis
  proof
    assume c: "c \<le> m"
    then have "card {i. i < length xs \<and> m \<le> xs ! i} \<le> card {i. i < length xs \<and> c \<le> xs ! i}"
      by (intro card_mono) auto
    with up show "length xs < 2 * card {i. i < length xs \<and> c \<le> xs ! i}"
      using k by auto
  next
    assume maj: "length xs < 2 * card {i. i < length xs \<and> c \<le> xs ! i}"
    show "c \<le> m"
    proof (rule ccontr)
      assume "\<not> c \<le> m"
      then have "card {i. i < length xs \<and> c \<le> xs ! i} \<le> length xs - Suc ?k"
        using length_filter_sorted_gt[OF sorted_sort k, of c] unfolding m_def length_filter_sort by simp
      with maj show False
        using assms(1) by (cases xs) auto
    qed
  qed
qed

section \<open>Maps\<close>

text \<open>
  A Go map is an association list with distinct keys. The order of its pairs is the order in
  which a \<open>range\<close> loop visits them; Go leaves that order open, so where a result could
  depend on it a theorem says that it does not: \<open>same_map\<close> relates the lists that are the
  same map. \<open>m[k] = v\<close> is \<open>AList.update\<close>, \<open>delete(m, k)\<close> is \<open>AList.delete\<close>, and reading an
  absent key gives the zero value \<open>z\<close> of the value type.
\<close>

type_synonym ('k, 'v) go_map = "('k \<times> 'v) list"

definition gm_get :: "'v \<Rightarrow> ('k, 'v) go_map \<Rightarrow> 'k \<Rightarrow> 'v" where
  "gm_get z m k = (case map_of m k of None \<Rightarrow> z | Some v \<Rightarrow> v)"

abbreviation gm_keys :: "('k, 'v) go_map \<Rightarrow> 'k set" where
  "gm_keys m \<equiv> fst ` set m"

abbreviation gm_ok :: "('k, 'v) go_map \<Rightarrow> bool" where
  "gm_ok m \<equiv> distinct (map fst m)"

definition same_map :: "('k, 'v) go_map \<Rightarrow> ('k, 'v) go_map \<Rightarrow> bool" where
  "same_map m m' \<longleftrightarrow> gm_ok m \<and> gm_ok m' \<and> map_of m = map_of m'"

lemma gm_get_update [simp]:
  "gm_get z (AList.update k v m) k' = (if k' = k then v else gm_get z m k')"
  by (simp add: gm_get_def update_conv')

lemma gm_get_delete [simp]:
  "gm_get z (AList.delete k m) k' = (if k' = k then z else gm_get z m k')"
  by (simp add: gm_get_def delete_conv')

lemma gm_get_Nil [simp]: "gm_get z [] k = z"
  by (simp add: gm_get_def)

lemma gm_get_absent: "k \<notin> gm_keys m \<Longrightarrow> gm_get z m k = z"
  unfolding map_of_eq_None_iff[symmetric] by (simp add: gm_get_def)

lemma gm_keys_update [simp]: "gm_keys (AList.update k v m) = insert k (gm_keys m)"
  by (induction m) auto

lemma gm_keys_delete [simp]: "gm_keys (AList.delete k m) = gm_keys m - {k}"
  by (induction m) auto

lemma gm_in: "gm_ok m \<Longrightarrow> (k, v) \<in> set m \<Longrightarrow> gm_get z m k = v"
  by (simp add: gm_get_def)

lemma gm_get_in: "k \<in> gm_keys m \<Longrightarrow> (k, gm_get z m k) \<in> set m"
  by (cases "map_of m k") (auto simp: gm_get_def map_of_eq_None_iff dest: map_of_SomeD)

lemma same_map_keys: "same_map m m' \<Longrightarrow> gm_keys m = gm_keys m'"
  by (metis dom_map_of_conv_image_fst same_map_def)

lemma same_map_get: "same_map m m' \<Longrightarrow> gm_get z m k = gm_get z m' k"
  by (simp add: same_map_def gm_get_def)

lemma same_map_update: "same_map m m' \<Longrightarrow> same_map (AList.update k v m) (AList.update k v m')"
  by (simp add: same_map_def distinct_update update_conv')

lemma same_map_delete: "same_map m m' \<Longrightarrow> same_map (AList.delete k m) (AList.delete k m')"
  by (simp add: same_map_def distinct_delete delete_conv')

lemma same_map_sort_keys:
  fixes m :: "('k :: linorder, 'v) go_map"
  assumes "same_map m m'"
  shows "sort (map fst m) = sort (map fst m')"
proof -
  have "set (map fst m) = set (map fst m')"
    using same_map_keys[OF assms] by simp
  then show ?thesis
    using assms unfolding same_map_def
    by (metis distinct_remdups_id sorted_list_of_set_sort_remdups)
qed

text \<open>How a sum over the values changes when one value is replaced.\<close>

lemma sum_values_update:
  fixes f :: "'v \<Rightarrow> 'a :: cancel_comm_monoid_add"
  assumes "f z = 0"
  shows "(\<Sum>(k, v) \<leftarrow> AList.update k v m. f v) + f (gm_get z m k) = (\<Sum>(k, v) \<leftarrow> m. f v) + f v"
  using assms by (induction m) (auto simp: gm_get_def ac_simps)

end
