(* ===== verification/Raft_Log.thy ===== *)
theory Raft_Log
  imports Go_Base
begin

text \<open>
  The replicated log of \<^verbatim>\<open>src/src/raft/raft_log.go\<close>: a snapshot of the entries
  up to and including \<open>snapLastIdx\<close> and the entries after it. Slot 0 of \<open>tailLog\<close> is a
  placeholder for the entry at \<open>snapLastIdx\<close>, of which only the term is kept.

  The second half relates this representation to the log it stands for, a plain list of
  entries indexed from 0: \<open>represents L rl\<close>. Each operation is shown to implement the
  operation on plain lists that the replication protocol is described with.
\<close>

section \<open>Data and operations\<close>

text \<open>\<open>LogEntry\<close>; the command is an interface value, \<open>None\<close> being nil.\<close>

record 'c log_entry =
  le_Term :: int
  le_CommandValid :: bool
  le_Command :: "'c option"

abbreviation (input) InvalidTerm :: int where "InvalidTerm \<equiv> 0"
abbreviation (input) InvalidIndex :: int where "InvalidIndex \<equiv> 0"

record ('c, 'b) raft_log =
  snapLastIdx :: int
  snapLastTerm :: int
  snapshot :: "'b list"
  tailLog :: "'c log_entry list"

text \<open>\<open>LogEntry{Term: t}\<close>, the other fields at their zero values.\<close>

definition mock_entry :: "int \<Rightarrow> 'c log_entry" where
  "mock_entry t = \<lparr>le_Term = t, le_CommandValid = False, le_Command = None\<rparr>"

definition NewLog :: "int \<Rightarrow> int \<Rightarrow> 'b list \<Rightarrow> 'c log_entry list \<Rightarrow> ('c, 'b) raft_log" where
  "NewLog idx term snap entries =
     \<lparr>snapLastIdx = idx, snapLastTerm = term, snapshot = snap,
      tailLog = mock_entry term # entries\<rparr>"

definition log_size :: "('c, 'b) raft_log \<Rightarrow> int" where
  "log_size rl = snapLastIdx rl + int (length (tailLog rl))"

definition log_idx :: "('c, 'b) raft_log \<Rightarrow> int \<Rightarrow> int option" where
  "log_idx rl logicIdx =
     (if logicIdx < snapLastIdx rl \<or> logicIdx \<ge> log_size rl then None
      else Some (logicIdx - snapLastIdx rl))"

definition log_at :: "('c, 'b) raft_log \<Rightarrow> int \<Rightarrow> 'c log_entry option" where
  "log_at rl logicIdx = do { i \<leftarrow> log_idx rl logicIdx; slice_get (tailLog rl) i }"

definition log_last :: "('c, 'b) raft_log \<Rightarrow> int \<times> int" where
  "log_last rl =
     (if length (tailLog rl) = 0 then (snapLastIdx rl, snapLastTerm rl)
      else let i = length (tailLog rl) - 1
           in (snapLastIdx rl + int i, le_Term (tailLog rl ! i)))"

text \<open>The loop of \<open>firstFor\<close>: stop at the first entry of the term or of a later one.\<close>

fun firstFor_loop :: "int \<Rightarrow> int \<Rightarrow> int \<Rightarrow> 'c log_entry list \<Rightarrow> int" where
  "firstFor_loop term base idx [] = InvalidIndex"
| "firstFor_loop term base idx (e # es) =
     (if le_Term e = term then idx + base
      else if le_Term e > term then InvalidIndex
      else firstFor_loop term base (idx + 1) es)"

definition log_firstFor :: "('c, 'b) raft_log \<Rightarrow> int \<Rightarrow> int" where
  "log_firstFor rl term = firstFor_loop term (snapLastIdx rl) 0 (tailLog rl)"

definition log_tail :: "('c, 'b) raft_log \<Rightarrow> int \<Rightarrow> 'c log_entry list option" where
  "log_tail rl startIdx =
     (if startIdx \<ge> log_size rl then Some []
      else let startIdx = (if startIdx < snapLastIdx rl then snapLastIdx rl else startIdx)
           in do { i \<leftarrow> log_idx rl startIdx; slice_from (tailLog rl) i })"

definition log_append :: "('c, 'b) raft_log \<Rightarrow> 'c log_entry \<Rightarrow> ('c, 'b) raft_log" where
  "log_append rl e = rl\<lparr>tailLog := tailLog rl @ [e]\<rparr>"

definition log_appendFrom ::
    "('c, 'b) raft_log \<Rightarrow> int \<Rightarrow> 'c log_entry list \<Rightarrow> ('c, 'b) raft_log option" where
  "log_appendFrom rl logicPrevIndex entries = do {
     i \<leftarrow> log_idx rl logicPrevIndex;
     keep \<leftarrow> slice_to (tailLog rl) (i + 1);
     Some (rl\<lparr>tailLog := keep @ entries\<rparr>) }"

definition log_doSnapshot ::
    "('c, 'b) raft_log \<Rightarrow> int \<Rightarrow> 'b list \<Rightarrow> ('c, 'b) raft_log option" where
  "log_doSnapshot rl index snap =
     (if index \<le> snapLastIdx rl \<or> index \<ge> log_size rl then Some rl
      else do {
        i \<leftarrow> log_idx rl index;
        e \<leftarrow> slice_get (tailLog rl) i;
        rest \<leftarrow> slice_from (tailLog rl) (i + 1);
        Some \<lparr>snapLastIdx = index, snapLastTerm = le_Term e, snapshot = snap,
              tailLog = mock_entry (le_Term e) # rest\<rparr> })"

definition log_installSnapshot ::
    "('c, 'b) raft_log \<Rightarrow> int \<Rightarrow> int \<Rightarrow> 'b list \<Rightarrow> ('c, 'b) raft_log option" where
  "log_installSnapshot rl index term snap =
     (if index \<le> snapLastIdx rl then Some rl
      else do {
        newTailLog \<leftarrow>
          (if log_size rl > index + 1 then do {
             i \<leftarrow> log_idx rl index;
             rest \<leftarrow> slice_from (tailLog rl) (i + 1);
             Some (mock_entry term # rest) }
           else Some [mock_entry term]);
        Some \<lparr>snapLastIdx = index, snapLastTerm = term, snapshot = snap,
              tailLog = newTailLog\<rparr> })"

section \<open>Well-formed logs\<close>

text \<open>
  The invariant of every log the program builds: the placeholder exists and carries the
  term of the snapshot.
\<close>

definition log_inv :: "('c, 'b) raft_log \<Rightarrow> bool" where
  "log_inv rl \<longleftrightarrow> 0 \<le> snapLastIdx rl \<and> tailLog rl \<noteq> [] \<and>
     le_Term (hd (tailLog rl)) = snapLastTerm rl"

definition term_at :: "('c, 'b) raft_log \<Rightarrow> int \<Rightarrow> int option" where
  "term_at rl i = map_option le_Term (log_at rl i)"

lemma mock_entry_Term [simp]: "le_Term (mock_entry t) = t"
  by (simp add: mock_entry_def)

lemma log_invD:
  assumes "log_inv rl"
  shows "0 \<le> snapLastIdx rl" "snapLastIdx rl < log_size rl" "tailLog rl \<noteq> []"
    "le_Term (hd (tailLog rl)) = snapLastTerm rl"
  using assms by (auto simp: log_inv_def log_size_def)

lemma log_idx_eq_Some:
  "log_idx rl i = Some j \<longleftrightarrow> snapLastIdx rl \<le> i \<and> i < log_size rl \<and> j = i - snapLastIdx rl"
  by (auto simp: log_idx_def)

lemma log_at_eq:
  "log_at rl i =
     (if snapLastIdx rl \<le> i \<and> i < log_size rl
      then Some (tailLog rl ! nat (i - snapLastIdx rl)) else None)"
  by (auto simp: log_at_def log_idx_def log_size_def)

lemma log_at_defined: "(\<exists>e. log_at rl i = Some e) \<longleftrightarrow> snapLastIdx rl \<le> i \<and> i < log_size rl"
  by (auto simp: log_at_eq)

lemma log_last_eq:
  "tailLog rl \<noteq> [] \<Longrightarrow> log_last rl = (log_size rl - 1, le_Term (last (tailLog rl)))"
  by (auto simp: log_last_def log_size_def Let_def last_conv_nth of_nat_diff Suc_leI)

lemma log_tail_eq:
  "snapLastIdx rl \<le> i \<Longrightarrow> log_tail rl i = Some (drop (nat (i - snapLastIdx rl)) (tailLog rl))"
  by (auto simp: log_tail_def log_idx_def log_size_def)

lemma log_appendFrom_eq:
  "log_appendFrom rl i es =
     (if snapLastIdx rl \<le> i \<and> i < log_size rl
      then Some (rl\<lparr>tailLog := take (nat (i - snapLastIdx rl) + 1) (tailLog rl) @ es\<rparr>)
      else None)"
  by (auto simp: log_appendFrom_def log_idx_def log_size_def nat_add_distrib)

lemma log_doSnapshot_eq:
  "log_doSnapshot rl i s =
     Some (if i \<le> snapLastIdx rl \<or> i \<ge> log_size rl then rl
           else let j = nat (i - snapLastIdx rl); t = le_Term (tailLog rl ! j)
                in \<lparr>snapLastIdx = i, snapLastTerm = t, snapshot = s,
                    tailLog = mock_entry t # drop (j + 1) (tailLog rl)\<rparr>)"
  by (auto simp: log_doSnapshot_def log_idx_def log_size_def Let_def nat_add_distrib)

lemma log_installSnapshot_eq:
  "log_installSnapshot rl i t s =
     Some (if i \<le> snapLastIdx rl then rl
           else \<lparr>snapLastIdx = i, snapLastTerm = t, snapshot = s,
                 tailLog = mock_entry t # drop (nat (i - snapLastIdx rl) + 1) (tailLog rl)\<rparr>)"
  by (auto simp: log_installSnapshot_def log_idx_def log_size_def nat_add_distrib)

lemmas log_op_eqs = log_at_eq log_tail_eq log_appendFrom_eq log_doSnapshot_eq
  log_installSnapshot_eq

text \<open>Every operation keeps the invariant.\<close>

lemma log_inv_NewLog [simp]: "log_inv (NewLog i t s es) \<longleftrightarrow> 0 \<le> i"
  by (auto simp: log_inv_def NewLog_def)

lemma log_inv_append [simp]: "log_inv rl \<Longrightarrow> log_inv (log_append rl e)"
  by (auto simp: log_inv_def log_append_def)

lemma log_inv_appendFrom:
  "log_inv rl \<Longrightarrow> log_appendFrom rl i es = Some rl' \<Longrightarrow> log_inv rl'"
  by (auto simp: log_inv_def log_appendFrom_eq split: if_splits)

lemma log_inv_doSnapshot:
  "log_inv rl \<Longrightarrow> log_doSnapshot rl i s = Some rl' \<Longrightarrow> log_inv rl'"
  by (auto simp: log_inv_def log_doSnapshot_eq Let_def split: if_splits)

lemma log_inv_installSnapshot:
  "log_inv rl \<Longrightarrow> log_installSnapshot rl i t s = Some rl' \<Longrightarrow> log_inv rl'"
  by (auto simp: log_inv_def log_installSnapshot_eq split: if_splits)

section \<open>The log a representation stands for\<close>

definition represents :: "'c log_entry list \<Rightarrow> ('c, 'b) raft_log \<Rightarrow> bool" where
  "represents L rl \<longleftrightarrow> log_inv rl \<and> snapLastIdx rl < int (length L) \<and>
     snapLastTerm rl = le_Term (L ! nat (snapLastIdx rl)) \<and>
     tl (tailLog rl) = drop (nat (snapLastIdx rl) + 1) L"

lemma representsD:
  assumes "represents L rl"
  shows "log_inv rl" "snapLastIdx rl < int (length L)"
    "snapLastTerm rl = le_Term (L ! nat (snapLastIdx rl))"
    "tl (tailLog rl) = drop (nat (snapLastIdx rl) + 1) L"
  using assms by (auto simp: represents_def)

lemma represents_tailLog:
  "represents L rl \<Longrightarrow> tailLog rl = hd (tailLog rl) # drop (nat (snapLastIdx rl) + 1) L"
  by (metis representsD(1,4) log_invD(3) list.collapse)

lemma represents_size:
  assumes "represents L rl"
  shows "log_size rl = int (length L)"
proof -
  have "length (tailLog rl) = length (hd (tailLog rl) # drop (nat (snapLastIdx rl) + 1) L)"
    by (metis assms represents_tailLog)
  then show ?thesis
    using representsD(1,2)[OF assms] by (auto simp: log_size_def log_inv_def)
qed

lemma represents_nth:
  assumes "represents L rl" "snapLastIdx rl < i" "i < int (length L)"
  shows "tailLog rl ! nat (i - snapLastIdx rl) = L ! nat i"
proof -
  let ?s = "snapLastIdx rl"
  have 0: "0 \<le> ?s"
    using representsD(1)[OF assms(1)] by (simp add: log_inv_def)
  obtain k where k: "nat (i - ?s) = Suc k" "nat i = nat ?s + 1 + k"
    using 0 assms(2) by (intro that[of "nat (i - ?s - 1)"]) auto
  have "tailLog rl ! Suc k = drop (nat ?s + 1) L ! k"
    by (subst represents_tailLog[OF assms(1)]) simp
  then show ?thesis
    using k 0 assms by simp
qed

lemma represents_at:
  "represents L rl \<Longrightarrow> snapLastIdx rl < i \<Longrightarrow> i < int (length L) \<Longrightarrow> log_at rl i = Some (L ! nat i)"
  by (simp add: log_at_eq represents_nth represents_size)

lemma represents_term_nth:
  assumes "represents L rl" "snapLastIdx rl \<le> i" "i < int (length L)"
  shows "le_Term (tailLog rl ! nat (i - snapLastIdx rl)) = le_Term (L ! nat i)"
proof (cases "i = snapLastIdx rl")
  case True
  then show ?thesis
    using representsD[OF assms(1)] by (auto simp: log_inv_def simp flip: hd_conv_nth)
next
  case False
  then show ?thesis
    using assms by (simp add: represents_nth)
qed

lemma represents_term_at:
  "represents L rl \<Longrightarrow> snapLastIdx rl \<le> i \<Longrightarrow> i < int (length L) \<Longrightarrow>
   term_at rl i = Some (le_Term (L ! nat i))"
  by (simp add: term_at_def log_at_eq represents_term_nth represents_size)

lemma represents_last:
  assumes "represents L rl"
  shows "log_last rl = (int (length L) - 1, le_Term (last L))"
proof -
  have inv: "log_inv rl" and L: "L \<noteq> []" and s: "snapLastIdx rl \<le> int (length L) - 1"
    using representsD[OF assms] by (auto simp: log_inv_def)
  have len: "length (tailLog rl) - 1 = nat (int (length L) - 1 - snapLastIdx rl)"
    using represents_size[OF assms] by (auto simp: log_size_def)
  have "nat (int (length L) - 1) = length L - 1"
    by simp
  then have "le_Term (last (tailLog rl)) = le_Term (last L)"
    using represents_term_nth[OF assms s] L log_invD(3)[OF inv]
    unfolding last_conv_nth[OF L] last_conv_nth[OF log_invD(3)[OF inv]] len by simp
  then show ?thesis
    using log_last_eq[OF log_invD(3)[OF inv]] assms by (simp add: represents_size)
qed

lemma represents_drop:
  assumes "represents L rl" "snapLastIdx rl < i"
  shows "drop (nat (i - snapLastIdx rl)) (tailLog rl) = drop (nat i) L"
proof -
  let ?s = "snapLastIdx rl"
  have 0: "0 \<le> ?s"
    using representsD(1)[OF assms(1)] by (simp add: log_inv_def)
  obtain k where k: "nat (i - ?s) = Suc k" "nat i = nat ?s + 1 + k"
    using 0 assms(2) by (intro that[of "nat (i - ?s - 1)"]) auto
  have "drop (Suc k) (tailLog rl) = drop k (drop (nat ?s + 1) L)"
    by (subst represents_tailLog[OF assms(1)]) simp
  then show ?thesis
    using k by (simp add: add.commute)
qed

lemma represents_tail:
  "represents L rl \<Longrightarrow> snapLastIdx rl < i \<Longrightarrow> log_tail rl i = Some (drop (nat i) L)"
  by (simp add: log_tail_eq represents_drop)

lemma represents_NewLog: "represents (mock_entry t # es) (NewLog 0 t s es)"
  by (simp add: represents_def log_inv_def NewLog_def)

lemma represents_append: "represents L rl \<Longrightarrow> represents (L @ [e]) (log_append rl e)"
  by (auto simp: represents_def log_inv_def log_append_def nth_append nat_less_iff)

lemma represents_hd_take:
  assumes "represents L rl" "snapLastIdx rl \<le> i" "i < int (length L)"
  shows "take (nat (i - snapLastIdx rl) + 1) (tailLog rl) =
    hd (tailLog rl) # take (nat (i - snapLastIdx rl)) (drop (nat (snapLastIdx rl) + 1) L)"
  by (subst represents_tailLog[OF assms(1)]) simp

text \<open>
  \<open>appendFrom(prev, entries)\<close> on a log that stands for \<open>L\<close> cuts \<open>L\<close> after \<open>prev\<close> and puts
  the new entries behind it.
\<close>

lemma appendFrom_represents:
  assumes "represents L rl" "snapLastIdx rl \<le> prev" "prev < int (length L)"
  shows "\<exists>rl'. log_appendFrom rl prev es = Some rl' \<and>
    represents (take (nat prev + 1) L @ es) rl' \<and> snapshot rl' = snapshot rl"
proof -
  let ?s = "snapLastIdx rl"
  have 0: "0 \<le> ?s"
    using representsD(1)[OF assms(1)] by (simp add: log_inv_def)
  have nat: "nat (prev - ?s) = nat prev - nat ?s" "nat ?s \<le> nat prev" "nat prev < length L"
    using 0 assms by (auto simp: nat_diff_distrib nat_less_iff)
  have "tl (take (nat (prev - ?s) + 1) (tailLog rl)) = drop (nat ?s + 1) (take (nat prev + 1) L)"
    unfolding represents_hd_take[OF assms] using nat by (simp add: drop_take)
  moreover have "drop (nat ?s + 1) (take (nat prev + 1) L @ es)
      = drop (nat ?s + 1) (take (nat prev + 1) L) @ es"
    using nat by simp
  moreover have "tl (take (nat (prev - ?s) + 1) (tailLog rl) @ es)
      = tl (take (nat (prev - ?s) + 1) (tailLog rl)) @ es"
    using log_invD(3)[OF representsD(1)[OF assms(1)]] by (cases "tailLog rl") auto
  ultimately show ?thesis
    using assms nat representsD[OF assms(1)] represents_size[OF assms(1)]
    by (auto simp: log_appendFrom_eq represents_def log_inv_def nth_append)
qed

text \<open>
  Compaction by the application never changes the log: after
  \<open>doSnapshot(index, snapshot)\<close>, whatever the index, the representation still stands for
  the same \<open>L\<close>; when the index was inside the log it is the new snapshot index, its term
  is kept, and exactly the entries after it stay in memory.
\<close>

lemma doSnapshot_represents:
  assumes "represents L rl"
  shows "\<exists>rl'. log_doSnapshot rl index snap = Some rl' \<and> represents L rl' \<and>
    (if snapLastIdx rl < index \<and> index < int (length L)
     then snapLastIdx rl' = index \<and> snapLastTerm rl' = le_Term (L ! nat index) \<and>
       snapshot rl' = snap \<and> length (tailLog rl') = length L - nat index
     else rl' = rl)"
proof (cases "snapLastIdx rl < index \<and> index < int (length L)")
  case True
  let ?j = "nat (index - snapLastIdx rl)"
  have 0: "0 \<le> snapLastIdx rl"
    using representsD(1)[OF assms] by (simp add: log_inv_def)
  have trm: "le_Term (tailLog rl ! ?j) = le_Term (L ! nat index)"
    using True assms by (simp add: represents_nth)
  have eq: "nat (index + 1 - snapLastIdx rl) = ?j + 1" "nat (index + 1) = nat index + 1"
    using True 0 by auto
  then have rest: "drop (?j + 1) (tailLog rl) = drop (nat index + 1) L"
    using represents_drop[OF assms, of "index + 1"] True by simp
  have len: "Suc (length L - (nat index + 1)) = length L - nat index"
    using True 0 by (auto simp: nat_less_iff)
  show ?thesis
    using True 0 assms trm rest len represents_size[OF assms]
    by (simp add: log_doSnapshot_eq Let_def represents_def log_inv_def)
next
  case False
  then show ?thesis
    using assms by (auto simp: log_doSnapshot_eq represents_size)
qed

text \<open>
  (C24) \<open>installSnapshot(index, term, snapshot)\<close> past the current snapshot makes the log
  stand for the snapshotted prefix \<open>P\<close> followed by whatever the receiver had after
  \<open>index\<close>. The receiver's suffix is kept whether or not its own entry at \<open>index\<close> had the
  snapshot's term.
\<close>

theorem installSnapshot_represents:
  assumes "represents L rl" "snapLastIdx rl < index"
    and "int (length P) = index + 1" "le_Term (last P) = t"
  shows "\<exists>rl'. log_installSnapshot rl index t snap = Some rl' \<and>
    represents (P @ drop (nat index + 1) L) rl' \<and>
    snapLastIdx rl' = index \<and> snapLastTerm rl' = t \<and> snapshot rl' = snap"
proof -
  let ?j = "nat (index - snapLastIdx rl)"
  have 0: "0 \<le> snapLastIdx rl"
    using representsD(1)[OF assms(1)] by (simp add: log_inv_def)
  have eq: "nat (index + 1 - snapLastIdx rl) = ?j + 1" "nat (index + 1) = nat index + 1"
    using assms(2) 0 by auto
  have rest: "drop (?j + 1) (tailLog rl) = drop (nat index + 1) L"
    using represents_drop[OF assms(1), of "index + 1"] assms(2) eq by simp
  have P: "length P = nat index + 1" "P \<noteq> []"
    using assms(2,3) 0 by auto
  then have "P ! nat index = last P"
    by (simp add: last_conv_nth)
  then show ?thesis
    using assms 0 rest P
    by (simp add: log_installSnapshot_eq represents_def log_inv_def nth_append)
qed

theorem installSnapshot_represents_witness:
  "\<exists>rl'. log_installSnapshot (NewLog 0 0 [] [mock_entry 1, mock_entry 1] :: (nat, nat) raft_log)
       1 2 [7] = Some rl' \<and>
     represents [mock_entry 0, mock_entry 2, mock_entry 1] rl' \<and>
     snapLastIdx rl' = 1 \<and> snapLastTerm rl' = 2 \<and> snapshot rl' = [7]"
  using installSnapshot_represents[OF represents_NewLog[of 0 "[mock_entry 1, mock_entry 1]" "[]"],
      of 1 "[mock_entry 0, mock_entry 2]" 2 "[7]"]
  by (simp add: NewLog_def)

section \<open>Searching a term\<close>

lemma firstFor_loop_bounds:
  "firstFor_loop t b i es = k \<Longrightarrow> k \<noteq> 0 \<Longrightarrow> i + b \<le> k \<and> k < i + b + int (length es)"
  by (induction t b i es rule: firstFor_loop.induct) (auto split: if_splits)

lemma firstFor_loop_found:
  "firstFor_loop t b i es = k \<Longrightarrow> k \<noteq> 0 \<Longrightarrow>
   le_Term (es ! nat (k - b - i)) = t \<and> (\<forall>j < nat (k - b - i). le_Term (es ! j) < t)"
proof (induction t b i es rule: firstFor_loop.induct)
  case (2 t b i e es)
  show ?case
  proof (cases "le_Term e = t")
    case True
    then show ?thesis
      using 2 by auto
  next
    case False
    with 2 have lt: "le_Term e < t" and rec: "firstFor_loop t b (i + 1) es = k"
      by (auto split: if_splits)
    have "i + 1 + b \<le> k"
      using firstFor_loop_bounds[OF rec "2.prems"(2)] by simp
    then have k: "nat (k - b - i) = Suc (nat (k - b - (i + 1)))"
      by auto
    show ?thesis
      using "2.IH" False lt rec "2.prems"(2) k
      by (auto simp: less_Suc_eq_0_disj)
  qed
qed simp

lemma firstFor_loop_absent:
  "sorted (map le_Term es) \<Longrightarrow> 0 < i + b \<Longrightarrow> firstFor_loop t b i es = 0 \<Longrightarrow>
   t \<notin> le_Term ` set es"
  by (induction t b i es rule: firstFor_loop.induct) (force split: if_splits)+

lemma firstFor_found:
  assumes "log_firstFor rl t = k" "k \<noteq> 0"
  shows "snapLastIdx rl \<le> k" "k < log_size rl" "term_at rl k = Some t"
    and "\<And>j u. term_at rl j = Some u \<Longrightarrow> j < k \<Longrightarrow> u < t"
proof -
  have loop: "firstFor_loop t (snapLastIdx rl) 0 (tailLog rl) = k"
    using assms(1) by (simp add: log_firstFor_def)
  show b: "snapLastIdx rl \<le> k" "k < log_size rl"
    using firstFor_loop_bounds[OF loop assms(2)] by (auto simp: log_size_def)
  show "term_at rl k = Some t"
    using b firstFor_loop_found[OF loop assms(2)] by (simp add: term_at_def log_at_eq)
  show "u < t" if "term_at rl j = Some u" "j < k" for j u
    using that b firstFor_loop_found[OF loop assms(2)]
    by (auto simp: term_at_def log_at_eq split: if_splits)
qed

end
