(* ===== verification/Raft_State.thy ===== *)
theory Raft_State
  imports Raft_Log
begin

text \<open>
  The state of one peer of \<^verbatim>\<open>src/src/raft/raft.go\<close>, its role changes, and its
  stable storage (\<^verbatim>\<open>persister.go\<close>, \<^verbatim>\<open>raft_persistence.go\<close> and the two
  persistence methods of \<^verbatim>\<open>raft_log.go\<close>).

  Every method whose name ends in \<open>Locked\<close>, and every RPC handler, runs with \<open>rf.mu\<close>
  held, so each is one atomic state transformer. The encoding a \<open>labgob\<close> encoder writes is
  a gob stream: a list of self-describing values that a decoder reads back one by one,
  failing at the end of the stream or on a value of another type.
\<close>

section \<open>Gob streams and the persister\<close>

datatype 'c gob = GobInt int | GobEntries "'c log_entry list"

fun decode_int :: "'c gob list \<Rightarrow> (int \<times> 'c gob list) option" where
  "decode_int (GobInt i # r) = Some (i, r)"
| "decode_int _ = None"

fun decode_entries :: "'c gob list \<Rightarrow> ('c log_entry list \<times> 'c gob list) option" where
  "decode_entries (GobEntries es # r) = Some (es, r)"
| "decode_entries _ = None"

record ('c, 'b) persister =
  ps_raftstate :: "'c gob list"
  ps_snapshot :: "'b list"

definition MakePersister :: "('c, 'b) persister" where
  "MakePersister = \<lparr>ps_raftstate = [], ps_snapshot = []\<rparr>"

definition ps_Copy :: "('c, 'b) persister \<Rightarrow> ('c, 'b) persister" where
  "ps_Copy ps = MakePersister\<lparr>ps_raftstate := ps_raftstate ps, ps_snapshot := ps_snapshot ps\<rparr>"

definition ps_ReadRaftState :: "('c, 'b) persister \<Rightarrow> 'c gob list" where
  "ps_ReadRaftState ps = ps_raftstate ps"

text \<open>The number of bytes a gob stream takes is a detail of the encoder: an argument.\<close>

definition ps_RaftStateSize :: "('c gob list \<Rightarrow> int) \<Rightarrow> ('c, 'b) persister \<Rightarrow> int" where
  "ps_RaftStateSize gob_len ps = gob_len (ps_raftstate ps)"

definition ps_Save :: "('c, 'b) persister \<Rightarrow> 'c gob list \<Rightarrow> 'b list \<Rightarrow> ('c, 'b) persister" where
  "ps_Save ps raftstate snap = ps\<lparr>ps_raftstate := raftstate, ps_snapshot := snap\<rparr>"

definition ps_ReadSnapshot :: "('c, 'b) persister \<Rightarrow> 'b list" where
  "ps_ReadSnapshot ps = ps_snapshot ps"

definition ps_SnapshotSize :: "('c, 'b) persister \<Rightarrow> int" where
  "ps_SnapshotSize ps = int (length (ps_snapshot ps))"

text \<open>
  \<open>RaftLog.persist\<close> and \<open>RaftLog.readPersist\<close>. A decoding error leaves the fields read
  before it overwritten, as in the source; the flag is \<open>True\<close> when there was none.
\<close>

definition log_persist :: "('c, 'b) raft_log \<Rightarrow> 'c gob list" where
  "log_persist rl = [GobInt (snapLastIdx rl), GobInt (snapLastTerm rl), GobEntries (tailLog rl)]"

definition log_readPersist :: "('c, 'b) raft_log \<Rightarrow> 'c gob list \<Rightarrow> bool \<times> ('c, 'b) raft_log" where
  "log_readPersist rl d =
     (case decode_int d of
        None \<Rightarrow> (False, rl)
      | Some (lastIdx, d) \<Rightarrow>
          let rl = rl\<lparr>snapLastIdx := lastIdx\<rparr> in
          (case decode_int d of
             None \<Rightarrow> (False, rl)
           | Some (lastTerm, d) \<Rightarrow>
               let rl = rl\<lparr>snapLastTerm := lastTerm\<rparr> in
               (case decode_entries d of
                  None \<Rightarrow> (False, rl)
                | Some (log, d) \<Rightarrow> (True, rl\<lparr>tailLog := log\<rparr>))))"

section \<open>A peer\<close>

datatype role = Follower | Candidate | Leader

text \<open>
  Where the goroutine of \<open>applicationTicker\<close> stands: before the lock, parked in
  \<open>applyCond.Wait\<close>, woken by a signal, sending entries to \<open>applyCh\<close> (the collected entries
  and how many of them have been sent), or sending a snapshot (and whether it was sent).
\<close>

datatype 'c apply_pc =
  ApplyTop | ApplyParked | ApplyWoken
| ApplyEntries "'c log_entry list" nat
| ApplySnap bool

record ('c, 'b) raft =
  npeers :: nat
  persister :: "('c, 'b) persister"
  me :: int
  dead :: bool
  role :: role
  currentTerm :: int
  votedFor :: int
  rlog :: "('c, 'b) raft_log"
  nextIndex :: "int list"
  matchIndex :: "int list"
  commitIndex :: int
  lastApplied :: int
  snapPending :: bool
  applier :: "'c apply_pc"
  electionStart :: int
  electionTimeout :: int

definition persistLocked :: "('c, 'b) raft \<Rightarrow> ('c, 'b) raft" where
  "persistLocked rf =
     rf\<lparr>persister := ps_Save (persister rf)
          (GobInt (currentTerm rf) # GobInt (votedFor rf) # log_persist (rlog rf))
          (snapshot (rlog rf))\<rparr>"

definition readPersist :: "('c, 'b) raft \<Rightarrow> 'c gob list \<Rightarrow> ('c, 'b) raft" where
  "readPersist rf data =
     (if data = [] then rf
      else case decode_int data of
        None \<Rightarrow> rf
      | Some (term, d) \<Rightarrow>
          let rf = rf\<lparr>currentTerm := term\<rparr> in
          (case decode_int d of
             None \<Rightarrow> rf
           | Some (voted, d) \<Rightarrow>
               let rf = rf\<lparr>votedFor := voted\<rparr>;
                   (ok, rl) = log_readPersist (rlog rf) d;
                   rf = rf\<lparr>rlog := rl\<rparr>
               in if \<not> ok then rf
                  else let rf = rf\<lparr>rlog := (rlog rf)\<lparr>snapshot := ps_ReadSnapshot (persister rf)\<rparr>\<rparr>
                       in if snapLastIdx (rlog rf) > commitIndex rf
                          then rf\<lparr>commitIndex := snapLastIdx (rlog rf),
                                  lastApplied := snapLastIdx (rlog rf)\<rparr>
                          else rf))"

text \<open>
  \<open>Make\<close>, up to the start of its two goroutines. The election timer is not set: its zero
  value lies in the past, so the first tick of \<open>electionTicker\<close> starts an election.
\<close>

definition Make :: "nat \<Rightarrow> int \<Rightarrow> ('c, 'b) persister \<Rightarrow> ('c, 'b) raft" where
  "Make n i ps =
     readPersist
       \<lparr>npeers = n, persister = ps, me = i, dead = False, role = Follower,
        currentTerm = 1, votedFor = -1, rlog = NewLog InvalidIndex InvalidTerm [] [],
        nextIndex = replicate n 0, matchIndex = replicate n 0,
        commitIndex = 0, lastApplied = 0, snapPending = False, applier = ApplyTop,
        electionStart = 0, electionTimeout = 0\<rparr>
       (ps_ReadRaftState ps)"

definition becomeFollowerLocked :: "int \<Rightarrow> ('c, 'b) raft \<Rightarrow> ('c, 'b) raft" where
  "becomeFollowerLocked term rf =
     (if term < currentTerm rf then rf
      else let shouldPersist = (currentTerm rf \<noteq> term);
               rf = rf\<lparr>role := Follower,
                       votedFor := (if term > currentTerm rf then -1 else votedFor rf),
                       currentTerm := term\<rparr>
           in if shouldPersist then persistLocked rf else rf)"

definition becomeCandidateLocked :: "('c, 'b) raft \<Rightarrow> ('c, 'b) raft" where
  "becomeCandidateLocked rf =
     (if role rf = Leader then rf
      else persistLocked
             (rf\<lparr>currentTerm := currentTerm rf + 1, role := Candidate, votedFor := me rf\<rparr>))"

text \<open>The loop of \<open>becomeLeaderLocked\<close> over the peers \<open>0 .. k - 1\<close>.\<close>

fun leaderView_loop :: "nat \<Rightarrow> int \<Rightarrow> int list \<Rightarrow> int list \<Rightarrow> (int list \<times> int list) option" where
  "leaderView_loop 0 sz next match = Some (next, match)"
| "leaderView_loop (Suc k) sz next match = do {
     (next, match) \<leftarrow> leaderView_loop k sz next match;
     next \<leftarrow> slice_set next (int k) sz;
     match \<leftarrow> slice_set match (int k) 0;
     Some (next, match) }"

definition becomeLeaderLocked :: "('c, 'b) raft \<Rightarrow> ('c, 'b) raft option" where
  "becomeLeaderLocked rf =
     (if role rf \<noteq> Candidate then Some rf
      else do {
        (next, match) \<leftarrow> leaderView_loop (npeers rf) (log_size (rlog rf)) (nextIndex rf) (matchIndex rf);
        Some (rf\<lparr>role := Leader, nextIndex := next, matchIndex := match\<rparr>) })"

definition GetState :: "('c, 'b) raft \<Rightarrow> int \<times> bool" where
  "GetState rf = (currentTerm rf, role rf = Leader)"

definition GetRaftStateSize :: "('c gob list \<Rightarrow> int) \<Rightarrow> ('c, 'b) raft \<Rightarrow> int" where
  "GetRaftStateSize gob_len rf = ps_RaftStateSize gob_len (persister rf)"

definition Start :: "'c option \<Rightarrow> ('c, 'b) raft \<Rightarrow> (int \<times> int \<times> bool) \<times> ('c, 'b) raft" where
  "Start command rf =
     (if role rf \<noteq> Leader then ((0, 0, False), rf)
      else let e = \<lparr>le_Term = currentTerm rf, le_CommandValid = True, le_Command = command\<rparr>;
               rf = persistLocked (rf\<lparr>rlog := log_append (rlog rf) e\<rparr>)
           in ((log_size (rlog rf) - 1, currentTerm rf, True), rf))"

definition Kill :: "('c, 'b) raft \<Rightarrow> ('c, 'b) raft" where
  "Kill rf = rf\<lparr>dead := True\<rparr>"

definition killed :: "('c, 'b) raft \<Rightarrow> bool" where
  "killed rf = dead rf"

definition contextLostLocked :: "role \<Rightarrow> int \<Rightarrow> ('c, 'b) raft \<Rightarrow> bool" where
  "contextLostLocked r term rf = (\<not> (currentTerm rf = term \<and> role rf = r))"

text \<open>\<open>applyCond.Signal()\<close>: it wakes the goroutine parked in \<open>Wait\<close> and is lost otherwise.\<close>

definition signalApply :: "('c, 'b) raft \<Rightarrow> ('c, 'b) raft" where
  "signalApply rf = (if applier rf = ApplyParked then rf\<lparr>applier := ApplyWoken\<rparr> else rf)"

section \<open>Invariants of a peer\<close>

text \<open>
  The type invariant: the log is well formed and the leader's view has one slot per peer.
\<close>

definition raft_inv :: "('c, 'b) raft \<Rightarrow> bool" where
  "raft_inv rf \<longleftrightarrow> log_inv (rlog rf) \<and> 0 \<le> me rf \<and> me rf < int (npeers rf) \<and>
     length (nextIndex rf) = npeers rf \<and> length (matchIndex rf) = npeers rf"

text \<open>
  What a crash must not lose is the triple of term, vote and log. \<open>durable rf\<close> says that a
  peer restarted now from its persister would come up with exactly the triple in memory.
\<close>

abbreviation stable :: "('c, 'b) raft \<Rightarrow> int \<times> int \<times> ('c, 'b) raft_log" where
  "stable rf \<equiv> (currentTerm rf, votedFor rf, rlog rf)"

abbreviation restart :: "('c, 'b) raft \<Rightarrow> ('c, 'b) raft" where
  "restart rf \<equiv> Make (npeers rf) (me rf) (persister rf)"

definition durable :: "('c, 'b) raft \<Rightarrow> bool" where
  "durable rf \<longleftrightarrow> stable (restart rf) = stable rf"

named_theorems raft_frames \<open>fields a peer operation leaves alone\<close>

lemma persistLocked_frame [raft_frames, simp]:
  "npeers (persistLocked rf) = npeers rf" "me (persistLocked rf) = me rf"
  "dead (persistLocked rf) = dead rf" "role (persistLocked rf) = role rf"
  "currentTerm (persistLocked rf) = currentTerm rf" "votedFor (persistLocked rf) = votedFor rf"
  "rlog (persistLocked rf) = rlog rf" "nextIndex (persistLocked rf) = nextIndex rf"
  "matchIndex (persistLocked rf) = matchIndex rf"
  "commitIndex (persistLocked rf) = commitIndex rf"
  "lastApplied (persistLocked rf) = lastApplied rf"
  "snapPending (persistLocked rf) = snapPending rf" "applier (persistLocked rf) = applier rf"
  "electionStart (persistLocked rf) = electionStart rf"
  "electionTimeout (persistLocked rf) = electionTimeout rf"
  by (simp_all add: persistLocked_def)

lemma log_readPersist_persist:
  "log_readPersist rl (log_persist rl') =
     (True, rl\<lparr>snapLastIdx := snapLastIdx rl', snapLastTerm := snapLastTerm rl',
               tailLog := tailLog rl'\<rparr>)"
  by (simp add: log_readPersist_def log_persist_def)

lemma Make_saved:
  "Make n i (ps_Save ps (GobInt t # GobInt v # log_persist rl) (snapshot rl)) =
     \<lparr>npeers = n, persister = ps_Save ps (GobInt t # GobInt v # log_persist rl) (snapshot rl),
      me = i, dead = False, role = Follower, currentTerm = t, votedFor = v, rlog = rl,
      nextIndex = replicate n 0, matchIndex = replicate n 0,
      commitIndex = max 0 (snapLastIdx rl), lastApplied = max 0 (snapLastIdx rl),
      snapPending = False, applier = ApplyTop, electionStart = 0, electionTimeout = 0\<rparr>"
  by (cases rl)
    (simp add: Make_def readPersist_def ps_ReadRaftState_def ps_Save_def ps_ReadSnapshot_def
      NewLog_def log_readPersist_persist Let_def)

lemma durable_persistLocked [simp]: "durable (persistLocked rf)"
  unfolding durable_def by (simp add: persistLocked_def Make_saved)

lemma durable_cong:
  "persister rf' = persister rf \<Longrightarrow> npeers rf' = npeers rf \<Longrightarrow> me rf' = me rf \<Longrightarrow>
   stable rf' = stable rf \<Longrightarrow> durable rf' = durable rf"
  by (simp add: durable_def)

lemma Make_frame [simp]:
  "npeers (Make n i ps) = n" "me (Make n i ps) = i" "persister (Make n i ps) = ps"
  "role (Make n i ps) = Follower" "dead (Make n i ps) = False"
  "length (nextIndex (Make n i ps)) = n" "length (matchIndex (Make n i ps)) = n"
  "snapPending (Make n i ps) = False" "applier (Make n i ps) = ApplyTop"
  by (auto simp: Make_def readPersist_def Let_def split: option.splits prod.splits)

lemma durable_Make [simp]: "durable (Make n i ps)"
  by (simp add: durable_def)

text \<open>A fresh peer: an empty persister holds nothing, and a restart finds the same defaults.\<close>

lemma Make_fresh:
  "Make n i MakePersister =
     \<lparr>npeers = n, persister = MakePersister, me = i, dead = False, role = Follower,
      currentTerm = 1, votedFor = -1, rlog = NewLog 0 0 [] [],
      nextIndex = replicate n 0, matchIndex = replicate n 0,
      commitIndex = 0, lastApplied = 0, snapPending = False, applier = ApplyTop,
      electionStart = 0, electionTimeout = 0\<rparr>"
  by (simp add: Make_def readPersist_def ps_ReadRaftState_def MakePersister_def)

section \<open>Role changes\<close>

lemma becomeFollowerLocked_frame [raft_frames, simp]:
  "npeers (becomeFollowerLocked t rf) = npeers rf" "me (becomeFollowerLocked t rf) = me rf"
  "rlog (becomeFollowerLocked t rf) = rlog rf" "dead (becomeFollowerLocked t rf) = dead rf"
  "nextIndex (becomeFollowerLocked t rf) = nextIndex rf"
  "matchIndex (becomeFollowerLocked t rf) = matchIndex rf"
  "commitIndex (becomeFollowerLocked t rf) = commitIndex rf"
  "lastApplied (becomeFollowerLocked t rf) = lastApplied rf"
  "snapPending (becomeFollowerLocked t rf) = snapPending rf"
  "applier (becomeFollowerLocked t rf) = applier rf"
  by (simp_all add: becomeFollowerLocked_def Let_def)

lemma becomeFollowerLocked_term [simp]:
  "currentTerm (becomeFollowerLocked t rf) = max t (currentTerm rf)"
  by (simp add: becomeFollowerLocked_def Let_def)

lemma becomeFollowerLocked_votedFor [simp]:
  "votedFor (becomeFollowerLocked t rf) = (if t > currentTerm rf then -1 else votedFor rf)"
  by (simp add: becomeFollowerLocked_def Let_def)

lemma becomeFollowerLocked_role [simp]:
  "role (becomeFollowerLocked t rf) = (if t < currentTerm rf then role rf else Follower)"
  by (simp add: becomeFollowerLocked_def Let_def)

lemma durable_becomeFollowerLocked [simp]:
  assumes "durable rf"
  shows "durable (becomeFollowerLocked t rf)"
proof (cases "t = currentTerm rf")
  case True
  then show ?thesis
    using assms by (auto simp: becomeFollowerLocked_def Let_def durable_def)
next
  case False
  then show ?thesis
    using assms by (simp add: becomeFollowerLocked_def Let_def)
qed

lemma becomeCandidateLocked_frame [raft_frames, simp]:
  "npeers (becomeCandidateLocked rf) = npeers rf" "me (becomeCandidateLocked rf) = me rf"
  "rlog (becomeCandidateLocked rf) = rlog rf" "dead (becomeCandidateLocked rf) = dead rf"
  "nextIndex (becomeCandidateLocked rf) = nextIndex rf"
  "matchIndex (becomeCandidateLocked rf) = matchIndex rf"
  "commitIndex (becomeCandidateLocked rf) = commitIndex rf"
  "lastApplied (becomeCandidateLocked rf) = lastApplied rf"
  "snapPending (becomeCandidateLocked rf) = snapPending rf"
  "applier (becomeCandidateLocked rf) = applier rf"
  by (simp_all add: becomeCandidateLocked_def)

lemma becomeCandidateLocked_eq:
  "role rf \<noteq> Leader \<Longrightarrow>
   currentTerm (becomeCandidateLocked rf) = currentTerm rf + 1 \<and>
   votedFor (becomeCandidateLocked rf) = me rf \<and> role (becomeCandidateLocked rf) = Candidate"
  by (simp add: becomeCandidateLocked_def)

lemma durable_becomeCandidateLocked [simp]:
  "durable rf \<Longrightarrow> durable (becomeCandidateLocked rf)"
  by (simp add: becomeCandidateLocked_def)

lemma leaderView_loop_eq:
  "k \<le> length nx \<Longrightarrow> k \<le> length mx \<Longrightarrow>
   leaderView_loop k sz nx mx = Some (replicate k sz @ drop k nx, replicate k 0 @ drop k mx)"
  by (induction k)
    (auto simp: slice_set_def list_update_append replicate_append_same Cons_nth_drop_Suc[symmetric])

lemma becomeLeaderLocked_eq:
  assumes "raft_inv rf"
  shows "becomeLeaderLocked rf =
    Some (if role rf \<noteq> Candidate then rf
          else rf\<lparr>role := Leader, nextIndex := replicate (npeers rf) (log_size (rlog rf)),
                  matchIndex := replicate (npeers rf) 0\<rparr>)"
  using assms by (simp add: becomeLeaderLocked_def raft_inv_def leaderView_loop_eq)

lemma becomeLeaderLocked_stable:
  "becomeLeaderLocked rf = Some rf' \<Longrightarrow>
   stable rf' = stable rf \<and> persister rf' = persister rf \<and> npeers rf' = npeers rf \<and>
   me rf' = me rf \<and> commitIndex rf' = commitIndex rf \<and> lastApplied rf' = lastApplied rf \<and>
   snapPending rf' = snapPending rf \<and> applier rf' = applier rf"
  by (auto simp: becomeLeaderLocked_def split: if_splits prod.splits)

lemma signalApply_frame [raft_frames, simp]:
  "npeers (signalApply rf) = npeers rf" "me (signalApply rf) = me rf"
  "persister (signalApply rf) = persister rf" "role (signalApply rf) = role rf"
  "currentTerm (signalApply rf) = currentTerm rf" "votedFor (signalApply rf) = votedFor rf"
  "rlog (signalApply rf) = rlog rf" "nextIndex (signalApply rf) = nextIndex rf"
  "matchIndex (signalApply rf) = matchIndex rf" "commitIndex (signalApply rf) = commitIndex rf"
  "lastApplied (signalApply rf) = lastApplied rf" "snapPending (signalApply rf) = snapPending rf"
  "dead (signalApply rf) = dead rf"
  by (simp_all add: signalApply_def)

lemma durable_signalApply [simp]: "durable (signalApply rf) = durable rf"
  by (rule durable_cong) simp_all

lemma raft_inv_cong:
  "rlog rf' = rlog rf \<Longrightarrow> me rf' = me rf \<Longrightarrow> npeers rf' = npeers rf \<Longrightarrow>
   length (nextIndex rf') = length (nextIndex rf) \<Longrightarrow>
   length (matchIndex rf') = length (matchIndex rf) \<Longrightarrow> raft_inv rf' = raft_inv rf"
  by (simp add: raft_inv_def)

lemma raft_inv_simps [simp]:
  "raft_inv (persistLocked rf) = raft_inv rf"
  "raft_inv (signalApply rf) = raft_inv rf"
  "raft_inv (becomeFollowerLocked t rf) = raft_inv rf"
  "raft_inv (becomeCandidateLocked rf) = raft_inv rf"
  by (rule raft_inv_cong; simp)+

lemma Start_stable:
  "Start c rf = (r, rf') \<Longrightarrow> durable rf \<Longrightarrow>
   durable rf' \<and> currentTerm rf' = currentTerm rf \<and> votedFor rf' = votedFor rf \<and> role rf' = role rf"
  by (auto simp: Start_def Let_def split: if_splits)

lemma raft_inv_Start: "raft_inv rf \<Longrightarrow> raft_inv (snd (Start c rf))"
  by (simp add: Start_def Let_def raft_inv_def)

end
