(* ===== verification/Raft_Election.thy ===== *)
theory Raft_Election
  imports Raft_State
begin

text \<open>
  Leader election, \<^verbatim>\<open>src/src/raft/raft_election.go\<close>: the election timer, the
  \<open>RequestVote\<close> handler, the loop of \<open>startElection\<close> that asks every other peer, and what
  each of its goroutines does with the reply. The clock reading of \<open>time.Now()\<close> and the
  result of \<open>rand.Int63()\<close> are arguments. Durations are in nanoseconds.
\<close>

section \<open>The timer\<close>

definition electionTimeoutMin :: int where "electionTimeoutMin = 250 * 1000000"
definition electionTimeoutMax :: int where "electionTimeoutMax = 400 * 1000000"

definition resetElectionTimerLocked :: "int \<Rightarrow> int \<Rightarrow> ('c, 'b) raft \<Rightarrow> ('c, 'b) raft" where
  "resetElectionTimerLocked now rnd rf =
     rf\<lparr>electionStart := now,
        electionTimeout := electionTimeoutMin + rnd mod (electionTimeoutMax - electionTimeoutMin)\<rparr>"

definition isElectionTimeoutLocked :: "int \<Rightarrow> ('c, 'b) raft \<Rightarrow> bool" where
  "isElectionTimeoutLocked now rf = (now - electionStart rf > electionTimeout rf)"

section \<open>Voting\<close>

definition isMoreUpToDateLocked :: "int \<Rightarrow> int \<Rightarrow> ('c, 'b) raft \<Rightarrow> bool" where
  "isMoreUpToDateLocked candidateIndex candidateTerm rf =
     (let (lastIndex, lastTerm) = log_last (rlog rf)
      in if lastTerm \<noteq> candidateTerm then lastTerm > candidateTerm
         else lastIndex > candidateIndex)"

record vote_args =
  va_Term :: int
  va_CandidateId :: int
  va_LastLogIndex :: int
  va_LastLogTerm :: int

record vote_reply =
  vr_Term :: int
  vr_VoteGranted :: bool

definition RequestVote ::
    "int \<Rightarrow> int \<Rightarrow> vote_args \<Rightarrow> ('c, 'b) raft \<Rightarrow> vote_reply \<times> ('c, 'b) raft" where
  "RequestVote now rnd args rf =
     (let reply = \<lparr>vr_Term = currentTerm rf, vr_VoteGranted = False\<rparr>
      in if va_Term args < currentTerm rf then (reply, rf)
         else let rf = (if va_Term args > currentTerm rf
                        then becomeFollowerLocked (va_Term args) rf else rf)
              in if votedFor rf \<noteq> -1 then (reply, rf)
                 else if isMoreUpToDateLocked (va_LastLogIndex args) (va_LastLogTerm args) rf
                 then (reply, rf)
                 else (reply\<lparr>vr_VoteGranted := True\<rparr>,
                       resetElectionTimerLocked now rnd
                         (persistLocked (rf\<lparr>votedFor := va_CandidateId args\<rparr>))))"

section \<open>Running an election\<close>

text \<open>
  The loop of \<open>startElection\<close> over the peers \<open>0 .. k - 1\<close>: the own vote, and the calls the
  goroutines will make.
\<close>

fun askVotes_loop ::
    "nat \<Rightarrow> int \<Rightarrow> vote_args \<Rightarrow> int \<times> (int \<times> vote_args) list" where
  "askVotes_loop 0 self args = (0, [])"
| "askVotes_loop (Suc k) self args =
     (let (votes, calls) = askVotes_loop k self args
      in if int k = self then (votes + 1, calls)
         else (votes, calls @ [(int k, args)]))"

definition startElection ::
    "int \<Rightarrow> ('c, 'b) raft \<Rightarrow> int \<times> (int \<times> vote_args) list" where
  "startElection term rf =
     (if contextLostLocked Candidate term rf then (0, [])
      else let (lastIdx, lastTerm) = log_last (rlog rf)
           in askVotes_loop (npeers rf) (me rf)
                \<lparr>va_Term = currentTerm rf, va_CandidateId = me rf,
                 va_LastLogIndex = lastIdx, va_LastLogTerm = lastTerm\<rparr>)"

text \<open>
  The rest of \<open>askVoteFromPeer\<close> once \<open>sendRequestVote\<close> has returned. \<open>votes\<close> is the
  variable the goroutines of one election share; the flag says that a \<open>replicationTicker\<close>
  for this term was started.
\<close>

definition handleVoteReply ::
    "int \<Rightarrow> bool \<Rightarrow> vote_reply \<Rightarrow> int \<Rightarrow> ('c, 'b) raft \<Rightarrow> (bool \<times> int \<times> ('c, 'b) raft) option" where
  "handleVoteReply term ok reply votes rf =
     (if \<not> ok then Some (False, votes, rf)
      else if vr_Term reply > currentTerm rf
      then Some (False, votes, becomeFollowerLocked (vr_Term reply) rf)
      else if contextLostLocked Candidate term rf then Some (False, votes, rf)
      else if vr_VoteGranted reply then
        let votes = votes + 1
        in if votes > int (npeers rf) div 2 then do {
             rf \<leftarrow> becomeLeaderLocked rf;
             Some (True, votes, rf) }
           else Some (False, votes, rf)
      else Some (False, votes, rf))"

text \<open>
  One round of \<open>electionTicker\<close>: the new state and, when an election was started, the term
  passed to \<open>go rf.startElection\<close>.
\<close>

definition electionTicker_round :: "int \<Rightarrow> ('c, 'b) raft \<Rightarrow> int option \<times> ('c, 'b) raft" where
  "electionTicker_round now rf =
     (if killed rf then (None, rf)
      else if role rf \<noteq> Leader \<and> isElectionTimeoutLocked now rf
      then let rf = becomeCandidateLocked rf in (Some (currentTerm rf), rf)
      else (None, rf))"

section \<open>What the handlers keep\<close>

lemma resetElectionTimerLocked_frame [raft_frames, simp]:
  "npeers (resetElectionTimerLocked now rnd rf) = npeers rf"
  "me (resetElectionTimerLocked now rnd rf) = me rf"
  "persister (resetElectionTimerLocked now rnd rf) = persister rf"
  "dead (resetElectionTimerLocked now rnd rf) = dead rf"
  "role (resetElectionTimerLocked now rnd rf) = role rf"
  "currentTerm (resetElectionTimerLocked now rnd rf) = currentTerm rf"
  "votedFor (resetElectionTimerLocked now rnd rf) = votedFor rf"
  "rlog (resetElectionTimerLocked now rnd rf) = rlog rf"
  "nextIndex (resetElectionTimerLocked now rnd rf) = nextIndex rf"
  "matchIndex (resetElectionTimerLocked now rnd rf) = matchIndex rf"
  "commitIndex (resetElectionTimerLocked now rnd rf) = commitIndex rf"
  "lastApplied (resetElectionTimerLocked now rnd rf) = lastApplied rf"
  "snapPending (resetElectionTimerLocked now rnd rf) = snapPending rf"
  "applier (resetElectionTimerLocked now rnd rf) = applier rf"
  by (simp_all add: resetElectionTimerLocked_def)

lemma durable_resetElectionTimerLocked [simp]:
  "durable (resetElectionTimerLocked now rnd rf) = durable rf"
  by (rule durable_cong) simp_all

lemma raft_inv_resetElectionTimerLocked [simp]:
  "raft_inv (resetElectionTimerLocked now rnd rf) = raft_inv rf"
  by (rule raft_inv_cong) simp_all

text \<open>The timer is always re-armed inside the configured window.\<close>

lemma resetElectionTimerLocked_window:
  "electionTimeoutMin \<le> electionTimeout (resetElectionTimerLocked now rnd rf) \<and>
   electionTimeout (resetElectionTimerLocked now rnd rf) < electionTimeoutMax"
proof -
  have "rnd mod 150000000 < 150000000"
    by (rule pos_mod_bound) simp
  then show ?thesis
    by (simp add: resetElectionTimerLocked_def electionTimeoutMin_def electionTimeoutMax_def)
qed

text \<open>
  The effect a step may have on term, vote and role when it neither starts an election nor
  grants a vote nor wins: within a term the vote stays and the role can only fall back to
  follower; a new term is entered as a follower without a vote.
\<close>

definition quiet :: "('c, 'b) raft \<Rightarrow> ('c, 'b) raft \<Rightarrow> bool" where
  "quiet rf rf' \<longleftrightarrow> me rf' = me rf \<and> npeers rf' = npeers rf \<and>
     (if currentTerm rf' = currentTerm rf
      then votedFor rf' = votedFor rf \<and> role rf' \<in> {role rf, Follower}
      else currentTerm rf < currentTerm rf' \<and> votedFor rf' = -1 \<and> role rf' = Follower)"

lemma quiet_becomeFollowerLocked [simp]: "quiet rf (becomeFollowerLocked t rf)"
  by (auto simp: quiet_def)

lemma quiet_trans: "quiet a b \<Longrightarrow> quiet b c \<Longrightarrow> quiet a c"
  by (auto simp: quiet_def split: if_splits)

lemma quiet_same:
  "me rf' = me rf \<Longrightarrow> npeers rf' = npeers rf \<Longrightarrow> currentTerm rf' = currentTerm rf \<Longrightarrow>
   votedFor rf' = votedFor rf \<Longrightarrow> role rf' = role rf \<Longrightarrow> quiet rf rf'"
  by (simp add: quiet_def)

lemma isMoreUpToDate_lex:
  assumes "represents L (rlog rf)"
  shows "isMoreUpToDateLocked ci ct rf \<longleftrightarrow>
    ct < le_Term (last L) \<or> ct = le_Term (last L) \<and> ci < int (length L) - 1"
  using assms by (auto simp: isMoreUpToDateLocked_def represents_last)

section \<open>RequestVote\<close>

lemma RequestVote_grantedD:
  assumes "RequestVote now rnd args rf = (reply, rf')" "vr_VoteGranted reply"
  shows "currentTerm rf' = va_Term args" "votedFor rf' = va_CandidateId args"
    "currentTerm rf \<le> va_Term args"
    "currentTerm rf = va_Term args \<Longrightarrow> votedFor rf = -1"
    "role rf' \<in> {role rf, Follower}" "currentTerm rf < va_Term args \<Longrightarrow> role rf' = Follower"
  using assms by (auto simp: RequestVote_def Let_def split: if_splits)

lemma RequestVote_refusedD:
  assumes "RequestVote now rnd args rf = (reply, rf')" "\<not> vr_VoteGranted reply"
  shows "quiet rf rf'"
  using assms by (auto simp: RequestVote_def Let_def quiet_def split: if_splits)

lemma RequestVote_frame:
  assumes "RequestVote now rnd args rf = (reply, rf')"
  shows "me rf' = me rf" "npeers rf' = npeers rf" "rlog rf' = rlog rf"
    "nextIndex rf' = nextIndex rf" "matchIndex rf' = matchIndex rf"
    "commitIndex rf' = commitIndex rf" "lastApplied rf' = lastApplied rf"
    "snapPending rf' = snapPending rf" "applier rf' = applier rf"
    "raft_inv rf' = raft_inv rf"
  using assms by (auto simp: RequestVote_def Let_def raft_inv_def split: if_splits)

lemma RequestVote_durable:
  "RequestVote now rnd args rf = (reply, rf') \<Longrightarrow> durable rf \<Longrightarrow> durable rf'"
  by (auto simp: RequestVote_def Let_def split: if_splits)

text \<open>
  (C21) A peer grants its vote exactly when the candidate's term is not behind, it has not
  yet voted in that term, and the candidate's log is at least as up to date as its own
  (later last term, or same last term and at least the same length); in every other case it
  refuses. A granted vote is recorded, on stable storage too, before the reply is sent; the
  log is never touched.
\<close>

theorem RequestVote_grants_iff:
  assumes "represents L (rlog rf)" "RequestVote now rnd args rf = (reply, rf')" "durable rf"
  shows "(vr_VoteGranted reply \<longleftrightarrow>
      currentTerm rf \<le> va_Term args \<and>
      (currentTerm rf < va_Term args \<or> votedFor rf = -1) \<and>
      (le_Term (last L) < va_LastLogTerm args \<or>
       le_Term (last L) = va_LastLogTerm args \<and> int (length L) - 1 \<le> va_LastLogIndex args)) \<and>
    (vr_VoteGranted reply \<longrightarrow>
      currentTerm rf' = va_Term args \<and> votedFor rf' = va_CandidateId args) \<and>
    durable rf' \<and> rlog rf' = rlog rf"
proof -
  have up: "isMoreUpToDateLocked ci ct rf1 \<longleftrightarrow>
      ct < le_Term (last L) \<or> ct = le_Term (last L) \<and> ci < int (length L) - 1"
    if "rlog rf1 = rlog rf" for ci ct rf1
    using isMoreUpToDate_lex[of L rf1] assms(1) that by simp
  have "vr_VoteGranted reply \<longleftrightarrow> currentTerm rf \<le> va_Term args \<and>
      (currentTerm rf < va_Term args \<or> votedFor rf = -1) \<and>
      (le_Term (last L) < va_LastLogTerm args \<or>
       le_Term (last L) = va_LastLogTerm args \<and> int (length L) - 1 \<le> va_LastLogIndex args)"
    using assms(2) by (auto simp: RequestVote_def Let_def up split: if_splits)
  moreover have "vr_VoteGranted reply \<longrightarrow>
      currentTerm rf' = va_Term args \<and> votedFor rf' = va_CandidateId args"
    using RequestVote_grantedD(1,2)[OF assms(2)] by blast
  ultimately show ?thesis
    using RequestVote_durable[OF assms(2,3)] RequestVote_frame(3)[OF assms(2)] by blast
qed

theorem RequestVote_grants_iff_witness:
  "vr_VoteGranted (fst (RequestVote 0 0
     \<lparr>va_Term = 2, va_CandidateId = 1, va_LastLogIndex = 0, va_LastLogTerm = 0\<rparr>
     (Make 3 0 MakePersister :: (nat, nat) raft)))"
proof -
  let ?rf = "Make 3 0 MakePersister :: (nat, nat) raft"
  let ?a = "\<lparr>va_Term = 2, va_CandidateId = 1, va_LastLogIndex = 0, va_LastLogTerm = 0\<rparr>"
  have rep: "represents [mock_entry 0] (rlog ?rf)"
    using represents_NewLog[of 0 "[]" "[]"] by (simp add: Make_fresh)
  obtain reply rf' where r: "RequestVote 0 0 ?a ?rf = (reply, rf')"
    by (metis surj_pair)
  show ?thesis
    using RequestVote_grants_iff[OF rep r durable_Make] r by (simp add: Make_fresh)
qed

section \<open>Elections\<close>

lemma askVotes_loop_eq:
  "askVotes_loop k self args =
     (if 0 \<le> self \<and> self < int k then 1 else 0,
      map (\<lambda>p. (int p, args)) (filter (\<lambda>p. int p \<noteq> self) [0..<k]))"
  by (induction k) auto

lemma startElection_eq:
  "raft_inv rf \<Longrightarrow> startElection t rf =
     (if contextLostLocked Candidate t rf then (0, [])
      else (1, map (\<lambda>p. (int p, \<lparr>va_Term = currentTerm rf, va_CandidateId = me rf,
                                   va_LastLogIndex = fst (log_last (rlog rf)),
                                   va_LastLogTerm = snd (log_last (rlog rf))\<rparr>))
                 (filter (\<lambda>p. int p \<noteq> me rf) [0..<npeers rf])))"
  by (simp add: startElection_def askVotes_loop_eq raft_inv_def split: prod.splits)

lemma handleVoteReply_cases:
  assumes "handleVoteReply t ok reply votes rf = Some (b, votes', rf')"
  obtains (quiet) "votes' = votes" "quiet rf rf'" "b = False"
  | (counted) "ok" "vr_VoteGranted reply" "votes' = votes + 1" "role rf = Candidate"
      "currentTerm rf = t" "rf' = rf" "b = False" "votes' \<le> int (npeers rf) div 2"
  | (won) "ok" "vr_VoteGranted reply" "votes' = votes + 1" "role rf = Candidate"
      "currentTerm rf = t" "becomeLeaderLocked rf = Some rf'" "b = True"
      "int (npeers rf) div 2 < votes'"
  using assms
  by (auto simp: handleVoteReply_def contextLostLocked_def Let_def quiet_same split: if_splits)

lemma handleVoteReply_total:
  "raft_inv rf \<Longrightarrow> \<exists>b v rf'. handleVoteReply t ok reply votes rf = Some (b, v, rf')"
  by (auto simp: handleVoteReply_def Let_def becomeLeaderLocked_eq)

lemma becomeLeaderLocked_inv:
  assumes "becomeLeaderLocked rf = Some rf'" "raft_inv rf"
  shows "raft_inv rf'"
  using assms(1) unfolding becomeLeaderLocked_eq[OF assms(2)]
  using assms(2) by (auto simp: raft_inv_def split: if_splits)

lemma handleVoteReply_durable:
  assumes "handleVoteReply t ok reply votes rf = Some (b, v, rf')" "durable rf"
  shows "durable rf'"
proof -
  have "durable rf1" if "becomeLeaderLocked rf = Some rf1" for rf1
    using becomeLeaderLocked_stable[OF that] assms(2) durable_cong[of rf1 rf] by simp
  then show ?thesis
    using assms by (auto simp: handleVoteReply_def Let_def split: if_splits)
qed

lemma handleVoteReply_inv:
  assumes "handleVoteReply t ok reply votes rf = Some (b, v, rf')" "raft_inv rf"
  shows "raft_inv rf'"
  using assms becomeLeaderLocked_inv[OF _ assms(2)]
  by (auto simp: handleVoteReply_def Let_def split: if_splits)

lemma electionTicker_round_cases:
  assumes "electionTicker_round now rf = (r, rf')"
  obtains (idle) "r = None" "rf' = rf"
  | (elect) "r = Some (currentTerm rf + 1)" "rf' = becomeCandidateLocked rf" "role rf \<noteq> Leader"
      "currentTerm rf' = currentTerm rf + 1" "votedFor rf' = me rf" "role rf' = Candidate"
proof (cases "\<not> killed rf \<and> role rf \<noteq> Leader \<and> isElectionTimeoutLocked now rf")
  case True
  then have "r = Some (currentTerm (becomeCandidateLocked rf))" "rf' = becomeCandidateLocked rf"
    using assms by (auto simp: electionTicker_round_def Let_def)
  then show ?thesis
    using becomeCandidateLocked_eq[of rf] True elect by metis
next
  case False
  then show ?thesis
    using assms idle by (auto simp: electionTicker_round_def split: if_splits)
qed

text \<open>
  A cluster of one peer never gets a leader. \<open>startElection\<close> counts the candidate's
  own vote but compares the count with the majority only when a reply arrives, and with no
  other peer there is no call and no reply.
\<close>

lemma single_peer_never_elected:
  assumes "raft_inv rf" "npeers rf = 1"
  shows "snd (startElection t rf) = []"
  using assms by (auto simp: startElection_eq filter_empty_conv raft_inv_def)

end
