(* ===== verification/Raft_Replication.thy ===== *)
theory Raft_Replication
  imports Raft_Election
begin

text \<open>
  Log replication, \<^verbatim>\<open>src/src/raft/raft_replication.go\<close>, and log compaction,
  \<^verbatim>\<open>src/src/raft/raft_compaction.go\<close>: the \<open>AppendEntries\<close> and \<open>InstallSnapshot\<close>
  handlers, what the leader sends to each peer, and what it does with the replies.
\<close>

section \<open>AppendEntries\<close>

record 'c append_args =
  aa_Term :: int
  aa_LeaderId :: int
  aa_PrevLogIndex :: int
  aa_PrevLogTerm :: int
  aa_Entries :: "'c log_entry list"
  aa_LeaderCommit :: int

record append_reply =
  ar_Term :: int
  ar_Success :: bool
  ar_ConfilictIndex :: int
  ar_ConfilictTerm :: int

definition AppendEntries ::
    "int \<Rightarrow> int \<Rightarrow> 'c append_args \<Rightarrow> ('c, 'b) raft \<Rightarrow> (append_reply \<times> ('c, 'b) raft) option" where
  "AppendEntries now rnd args rf =
     (let reply = \<lparr>ar_Term = currentTerm rf, ar_Success = False,
                   ar_ConfilictIndex = 0, ar_ConfilictTerm = 0\<rparr>
      in if aa_Term args < currentTerm rf then Some (reply, rf)
         else let rf = becomeFollowerLocked (aa_Term args) rf;
                  prev = aa_PrevLogIndex args
              in if prev \<ge> log_size (rlog rf)
                 then Some (reply\<lparr>ar_ConfilictTerm := InvalidTerm,
                                  ar_ConfilictIndex := log_size (rlog rf)\<rparr>,
                            resetElectionTimerLocked now rnd rf)
                 else if prev < snapLastIdx (rlog rf)
                 then Some (reply\<lparr>ar_ConfilictTerm := snapLastTerm (rlog rf),
                                  ar_ConfilictIndex := snapLastIdx (rlog rf)\<rparr>,
                            resetElectionTimerLocked now rnd rf)
                 else do {
                   e \<leftarrow> log_at (rlog rf) prev;
                   if le_Term e \<noteq> aa_PrevLogTerm args
                   then Some (reply\<lparr>ar_ConfilictTerm := le_Term e,
                                    ar_ConfilictIndex := log_firstFor (rlog rf) (le_Term e)\<rparr>,
                              resetElectionTimerLocked now rnd rf)
                   else do {
                     rl \<leftarrow> log_appendFrom (rlog rf) prev (aa_Entries args);
                     let rf = persistLocked (rf\<lparr>rlog := rl\<rparr>);
                         rf = (if aa_LeaderCommit args > commitIndex rf
                               then signalApply (rf\<lparr>commitIndex := aa_LeaderCommit args\<rparr>)
                               else rf)
                     in Some (reply\<lparr>ar_Success := True\<rparr>, resetElectionTimerLocked now rnd rf)
                   } })"

section \<open>The leader\<close>

text \<open>
  \<open>sort.Ints\<close> puts a slice in increasing order; the index is \<open>(len(peers) - 1) / 2\<close>.
\<close>

definition getMajorityIndexLocked :: "('c, 'b) raft \<Rightarrow> int option" where
  "getMajorityIndexLocked rf =
     (let tmpIndexes = take (npeers rf) (matchIndex rf)
                         @ replicate (npeers rf - length (matchIndex rf)) 0
      in slice_get (sort tmpIndexes) ((int (npeers rf) - 1) div 2))"

text \<open>
  \<open>replicateToPeer\<close> after \<open>sendAppendEntries\<close> has returned, in three parts: where to probe
  next after a mismatch, the commit rule, and the whole continuation.
\<close>

definition probeIndex :: "append_reply \<Rightarrow> int \<Rightarrow> ('c, 'b) raft_log \<Rightarrow> int" where
  "probeIndex reply prevIndex rl =
     (let next = (if ar_ConfilictTerm reply = InvalidTerm then ar_ConfilictIndex reply
                  else let firstIndex = log_firstFor rl (ar_ConfilictTerm reply)
                       in if firstIndex \<noteq> InvalidIndex then firstIndex
                          else ar_ConfilictIndex reply)
      in if next > prevIndex then prevIndex else next)"

definition advanceCommit :: "('c, 'b) raft \<Rightarrow> ('c, 'b) raft option" where
  "advanceCommit rf = do {
     majorityMatched \<leftarrow> getMajorityIndexLocked rf;
     if majorityMatched > commitIndex rf then do {
       e \<leftarrow> log_at (rlog rf) majorityMatched;
       if le_Term e = currentTerm rf
       then Some (signalApply (rf\<lparr>commitIndex := majorityMatched\<rparr>))
       else Some rf }
     else Some rf }"

definition handleAppendReply ::
    "int \<Rightarrow> int \<Rightarrow> 'c append_args \<Rightarrow> bool \<Rightarrow> append_reply \<Rightarrow> ('c, 'b) raft \<Rightarrow>
     ('c, 'b) raft option" where
  "handleAppendReply term peer args ok reply rf =
     (if \<not> ok then Some rf
      else if ar_Term reply > currentTerm rf then Some (becomeFollowerLocked (ar_Term reply) rf)
      else if contextLostLocked Leader term rf then Some rf
      else if \<not> ar_Success reply then do {
        prevIndex \<leftarrow> slice_get (nextIndex rf) peer;
        let nextPrevIndex = probeIndex reply prevIndex (rlog rf) - 1;
        next \<leftarrow> slice_set (nextIndex rf) peer (probeIndex reply prevIndex (rlog rf));
        _ \<leftarrow> (if nextPrevIndex \<ge> snapLastIdx (rlog rf)
             then map_option le_Term (log_at (rlog rf) nextPrevIndex)
             else Some InvalidTerm);
        Some (rf\<lparr>nextIndex := next\<rparr>) }
      else do {
        let m = aa_PrevLogIndex args + int (length (aa_Entries args));
        match \<leftarrow> slice_set (matchIndex rf) peer m;
        next \<leftarrow> slice_set (nextIndex rf) peer (m + 1);
        advanceCommit (rf\<lparr>matchIndex := match, nextIndex := next\<rparr>) })"

record 'b snap_args =
  sa_Term :: int
  sa_LeaderId :: int
  sa_LastIncludedIndex :: int
  sa_LastIncludedTerm :: int
  sa_Snapshot :: "'b list"

text \<open>The goroutines \<open>startReplication\<close> starts.\<close>

datatype ('c, 'b) send =
  SendAppend int "'c append_args"
| SendSnap int "'b snap_args"

text \<open>
  The body of the loop of \<open>startReplication\<close>, and the loop over the peers \<open>0 .. k - 1\<close>.
\<close>

definition replicate_peer ::
    "int \<Rightarrow> ('c, 'b) raft \<Rightarrow> (('c, 'b) send list \<times> ('c, 'b) raft) option" where
  "replicate_peer peer rf =
     (if peer = me rf then do {
        match \<leftarrow> slice_set (matchIndex rf) peer (log_size (rlog rf) - 1);
        next \<leftarrow> slice_set (nextIndex rf) peer (log_size (rlog rf));
        Some ([], rf\<lparr>matchIndex := match, nextIndex := next\<rparr>) }
      else do {
        n \<leftarrow> slice_get (nextIndex rf) peer;
        let prevIdx = n - 1;
        if prevIdx < snapLastIdx (rlog rf)
        then Some ([SendSnap peer
                     \<lparr>sa_Term = currentTerm rf, sa_LeaderId = me rf,
                      sa_LastIncludedIndex = snapLastIdx (rlog rf),
                      sa_LastIncludedTerm = snapLastTerm (rlog rf),
                      sa_Snapshot = snapshot (rlog rf)\<rparr>], rf)
        else do {
          e \<leftarrow> log_at (rlog rf) prevIdx;
          entries \<leftarrow> log_tail (rlog rf) (prevIdx + 1);
          Some ([SendAppend peer
                  \<lparr>aa_Term = currentTerm rf, aa_LeaderId = me rf,
                   aa_PrevLogIndex = prevIdx, aa_PrevLogTerm = le_Term e,
                   aa_Entries = entries, aa_LeaderCommit = commitIndex rf\<rparr>], rf) } })"

fun replicate_loop ::
    "nat \<Rightarrow> ('c, 'b) raft \<Rightarrow> (('c, 'b) send list \<times> ('c, 'b) raft) option" where
  "replicate_loop 0 rf = Some ([], rf)"
| "replicate_loop (Suc k) rf = do {
     (sends, rf) \<leftarrow> replicate_loop k rf;
     (sends', rf) \<leftarrow> replicate_peer (int k) rf;
     Some (sends @ sends', rf) }"

definition startReplication ::
    "int \<Rightarrow> ('c, 'b) raft \<Rightarrow> (bool \<times> ('c, 'b) send list \<times> ('c, 'b) raft) option" where
  "startReplication term rf =
     (if contextLostLocked Leader term rf then Some (False, [], rf)
      else do {
        (sends, rf) \<leftarrow> replicate_loop (npeers rf) rf;
        Some (True, sends, rf) })"

text \<open>One round of \<open>replicationTicker\<close>; the flag says whether the loop goes on.\<close>

definition replicationTicker_round ::
    "int \<Rightarrow> ('c, 'b) raft \<Rightarrow> (bool \<times> ('c, 'b) send list \<times> ('c, 'b) raft) option" where
  "replicationTicker_round term rf =
     (if killed rf then Some (False, [], rf) else startReplication term rf)"

section \<open>Compaction\<close>

definition Snapshot :: "int \<Rightarrow> 'b list \<Rightarrow> ('c, 'b) raft \<Rightarrow> ('c, 'b) raft option" where
  "Snapshot index snap rf =
     (if index > commitIndex rf then Some rf
      else if index \<le> snapLastIdx (rlog rf) then Some rf
      else do {
        rl \<leftarrow> log_doSnapshot (rlog rf) index snap;
        Some (persistLocked (rf\<lparr>rlog := rl\<rparr>)) })"

definition InstallSnapshot :: "'b snap_args \<Rightarrow> ('c, 'b) raft \<Rightarrow> (int \<times> ('c, 'b) raft) option" where
  "InstallSnapshot args rf =
     (let replyTerm = currentTerm rf
      in if sa_Term args < currentTerm rf then Some (replyTerm, rf)
         else let rf = becomeFollowerLocked (sa_Term args) rf
              in if snapLastIdx (rlog rf) \<ge> sa_LastIncludedIndex args then Some (replyTerm, rf)
                 else do {
                   rl \<leftarrow> log_installSnapshot (rlog rf) (sa_LastIncludedIndex args)
                           (sa_LastIncludedTerm args) (sa_Snapshot args);
                   Some (replyTerm,
                     signalApply ((persistLocked (rf\<lparr>rlog := rl\<rparr>))\<lparr>snapPending := True\<rparr>)) })"

text \<open>The rest of \<open>installToPeer\<close> once \<open>sendInstallSnapshot\<close> has returned.\<close>

definition handleSnapReply ::
    "int \<Rightarrow> int \<Rightarrow> 'b snap_args \<Rightarrow> bool \<Rightarrow> int \<Rightarrow> ('c, 'b) raft \<Rightarrow> ('c, 'b) raft option" where
  "handleSnapReply term peer args ok replyTerm rf =
     (if \<not> ok then Some rf
      else if replyTerm > currentTerm rf then Some (becomeFollowerLocked replyTerm rf)
      else if contextLostLocked Leader term rf then Some rf
      else do {
        m \<leftarrow> slice_get (matchIndex rf) peer;
        if sa_LastIncludedIndex args > m then do {
          match \<leftarrow> slice_set (matchIndex rf) peer (sa_LastIncludedIndex args);
          next \<leftarrow> slice_set (nextIndex rf) peer (sa_LastIncludedIndex args + 1);
          Some (rf\<lparr>matchIndex := match, nextIndex := next\<rparr>) }
        else Some rf })"

section \<open>What the handlers keep\<close>

text \<open>
  The steps below keep the type invariant and durability and are quiet for elections. The
  three facts are collected in one predicate so that each handler needs one lemma.
\<close>

definition benign :: "('c, 'b) raft \<Rightarrow> ('c, 'b) raft \<Rightarrow> bool" where
  "benign rf rf' \<longleftrightarrow> quiet rf rf' \<and> (raft_inv rf \<longrightarrow> raft_inv rf') \<and> (durable rf \<longrightarrow> durable rf')"

lemma benign_refl [simp]: "benign rf rf"
  by (simp add: benign_def quiet_same)

lemma benign_trans: "benign a b \<Longrightarrow> benign b c \<Longrightarrow> benign a c"
  by (auto simp: benign_def intro: quiet_trans)

lemma benign_becomeFollowerLocked [simp]: "benign rf (becomeFollowerLocked t rf)"
  by (simp add: benign_def)

lemma benign_reset [simp]: "benign rf (resetElectionTimerLocked now rnd rf)"
  by (simp add: benign_def quiet_same)

lemma benign_signalApply [simp]: "benign rf (signalApply rf)"
  by (simp add: benign_def quiet_same)

text \<open>Changes of volatile fields, and a new log that is persisted at once.\<close>

lemma benign_volatile:
  assumes "stable rf' = stable rf" "persister rf' = persister rf" "me rf' = me rf"
    "npeers rf' = npeers rf" "role rf' = role rf"
    "length (nextIndex rf') = length (nextIndex rf)"
    "length (matchIndex rf') = length (matchIndex rf)"
  shows "benign rf rf'"
  using assms durable_cong[of rf' rf] raft_inv_cong[of rf' rf]
  by (simp add: benign_def quiet_same)

lemma benign_new_log:
  "(log_inv (rlog rf) \<Longrightarrow> log_inv rl) \<Longrightarrow> benign rf (persistLocked (rf\<lparr>rlog := rl\<rparr>))"
  by (auto simp: benign_def quiet_def raft_inv_def)

lemma AppendEntries_total: "\<exists>r. AppendEntries now rnd args rf = Some r"
  by (cases "snapLastIdx (rlog rf) \<le> aa_PrevLogIndex args \<and> aa_PrevLogIndex args < log_size (rlog rf)")
    (auto simp: AppendEntries_def Let_def log_at_eq log_appendFrom_eq)

text \<open>The three outcomes of \<open>AppendEntries\<close>.\<close>

lemma AppendEntries_cases:
  assumes "AppendEntries now rnd args rf = Some (reply, rf')"
  obtains (stale) "aa_Term args < currentTerm rf" "rf' = rf" "\<not> ar_Success reply"
      "ar_Term reply = currentTerm rf"
  | (reject) "currentTerm rf \<le> aa_Term args" "\<not> ar_Success reply"
      "ar_Term reply = currentTerm rf"
      "rf' = resetElectionTimerLocked now rnd (becomeFollowerLocked (aa_Term args) rf)"
      "term_at (rlog rf) (aa_PrevLogIndex args) \<noteq> Some (aa_PrevLogTerm args)"
  | (accept) rl where "currentTerm rf \<le> aa_Term args" "ar_Success reply"
      "ar_Term reply = currentTerm rf"
      "term_at (rlog rf) (aa_PrevLogIndex args) = Some (aa_PrevLogTerm args)"
      "log_appendFrom (rlog rf) (aa_PrevLogIndex args) (aa_Entries args) = Some rl"
      "rf' = resetElectionTimerLocked now rnd
         (let r = persistLocked (becomeFollowerLocked (aa_Term args) rf\<lparr>rlog := rl\<rparr>)
          in if aa_LeaderCommit args > commitIndex rf
             then signalApply (r\<lparr>commitIndex := aa_LeaderCommit args\<rparr>) else r)"
proof (cases "aa_Term args < currentTerm rf")
  case True
  then have "rf' = rf \<and> \<not> ar_Success reply \<and> ar_Term reply = currentTerm rf"
    using assms by (auto simp: AppendEntries_def)
  with True show ?thesis
    by (intro stale) auto
next
  case False
  show ?thesis
  proof (cases "term_at (rlog rf) (aa_PrevLogIndex args) = Some (aa_PrevLogTerm args)")
    case True
    then obtain e where e: "log_at (rlog rf) (aa_PrevLogIndex args) = Some e"
        "le_Term e = aa_PrevLogTerm args"
      by (auto simp: term_at_def)
    then have range: "snapLastIdx (rlog rf) \<le> aa_PrevLogIndex args"
        "aa_PrevLogIndex args < log_size (rlog rf)"
      by (auto simp: log_at_eq split: if_splits)
    then obtain rl where rl:
        "log_appendFrom (rlog rf) (aa_PrevLogIndex args) (aa_Entries args) = Some rl"
      by (simp add: log_appendFrom_eq)
    have "ar_Success reply \<and> ar_Term reply = currentTerm rf \<and>
      rf' = resetElectionTimerLocked now rnd
         (let r = persistLocked (becomeFollowerLocked (aa_Term args) rf\<lparr>rlog := rl\<rparr>)
          in if aa_LeaderCommit args > commitIndex rf
             then signalApply (r\<lparr>commitIndex := aa_LeaderCommit args\<rparr>) else r)"
      using assms False e range rl by (auto simp: AppendEntries_def Let_def)
    with False True rl show ?thesis
      by (intro accept[of rl]) (auto simp: not_less)
  next
    case rej: False
    then have "\<not> ar_Success reply \<and> ar_Term reply = currentTerm rf \<and>
      rf' = resetElectionTimerLocked now rnd (becomeFollowerLocked (aa_Term args) rf)"
      using assms False
      by (auto simp: AppendEntries_def Let_def term_at_def log_at_eq split: if_splits)
    with False rej show ?thesis
      by (intro reject) (auto simp: not_less)
  qed
qed

lemma AppendEntries_benign:
  assumes "AppendEntries now rnd args rf = Some (reply, rf')"
  shows "benign rf rf'"
  using assms
proof (cases rule: AppendEntries_cases)
  case reject
  then show ?thesis
    by (meson benign_becomeFollowerLocked benign_reset benign_trans)
next
  case (accept rl)
  let ?rf = "becomeFollowerLocked (aa_Term args) rf"
  let ?r = "persistLocked (?rf\<lparr>rlog := rl\<rparr>)"
  have "benign ?rf ?r"
    using log_inv_appendFrom accept(5) by (intro benign_new_log) auto
  moreover have "benign ?r rf'"
    by (rule benign_volatile) (simp_all add: accept(6) Let_def signalApply_def)
  ultimately show ?thesis
    by (meson benign_becomeFollowerLocked benign_trans)
qed simp

lemma Snapshot_benign: "Snapshot i s rf = Some rf' \<Longrightarrow> benign rf rf'"
  by (auto simp: Snapshot_def intro!: benign_new_log intro: log_inv_doSnapshot split: if_splits)

lemma InstallSnapshot_benign:
  assumes "InstallSnapshot args rf = Some (t, rf')"
  shows "benign rf rf'"
proof -
  let ?rf = "becomeFollowerLocked (sa_Term args) rf"
  have "benign rf (signalApply ((persistLocked (?rf\<lparr>rlog := rl\<rparr>))\<lparr>snapPending := True\<rparr>))"
    if "log_installSnapshot (rlog rf) i u s = Some rl" for rl i u s
  proof -
    have "benign ?rf (persistLocked (?rf\<lparr>rlog := rl\<rparr>))"
      using log_inv_installSnapshot[OF _ that] by (intro benign_new_log) simp
    moreover have "benign x (signalApply (x\<lparr>snapPending := True\<rparr>))" for x :: "('a, 'b) raft"
      by (rule benign_volatile) (simp_all add: signalApply_def)
    ultimately show ?thesis
      by (meson benign_becomeFollowerLocked benign_trans)
  qed
  then show ?thesis
    using assms by (auto simp: InstallSnapshot_def Let_def split: if_splits)
qed

text \<open>The outcomes of an \<open>AppendEntries\<close> reply at the leader.\<close>

lemma probeIndex_le: "probeIndex reply i rl \<le> i"
  by (simp add: probeIndex_def Let_def)

lemma advanceCommit_cases:
  assumes "advanceCommit rf = Some rf'"
  obtains (same) "rf' = rf"
  | (commit) c where "getMajorityIndexLocked rf = Some c" "commitIndex rf < c"
      "term_at (rlog rf) c = Some (currentTerm rf)" "rf' = signalApply (rf\<lparr>commitIndex := c\<rparr>)"
proof -
  obtain c where c: "getMajorityIndexLocked rf = Some c"
    using assms by (auto simp: advanceCommit_def)
  show ?thesis
  proof (cases "commitIndex rf < c \<and> term_at (rlog rf) c = Some (currentTerm rf)")
    case True
    then have "rf' = signalApply (rf\<lparr>commitIndex := c\<rparr>)"
      using assms c by (auto simp: advanceCommit_def term_at_def)
    with True c show ?thesis
      by (intro commit) auto
  next
    case False
    then have "rf' = rf"
      using assms c by (auto simp: advanceCommit_def term_at_def split: if_splits)
    then show ?thesis
      by (rule same)
  qed
qed

lemma handleAppendReply_cases:
  assumes "handleAppendReply t peer args ok reply rf = Some rf'"
  obtains (same) "rf' = rf"
  | (stepdown) "rf' = becomeFollowerLocked (ar_Term reply) rf" "currentTerm rf < ar_Term reply"
  | (probe) "rf' = rf\<lparr>nextIndex := (nextIndex rf)
        [nat peer := probeIndex reply (nextIndex rf ! nat peer) (rlog rf)]\<rparr>"
      "0 \<le> peer" "peer < int (length (nextIndex rf))"
      "\<not> ar_Success reply" "role rf = Leader" "currentTerm rf = t"
  | (matched) m where "m = aa_PrevLogIndex args + int (length (aa_Entries args))"
      "ok" "ar_Success reply" "role rf = Leader" "currentTerm rf = t"
      "0 \<le> peer" "peer < int (length (matchIndex rf))"
      "advanceCommit (rf\<lparr>matchIndex := (matchIndex rf)[nat peer := m],
              nextIndex := (nextIndex rf)[nat peer := m + 1]\<rparr>) = Some rf'"
proof -
  consider "\<not> ok" | "ok" "ar_Term reply > currentTerm rf"
    | "ok" "\<not> ar_Term reply > currentTerm rf" "contextLostLocked Leader t rf"
    | "ok" "\<not> ar_Term reply > currentTerm rf" "role rf = Leader" "currentTerm rf = t" "\<not> ar_Success reply"
    | "ok" "\<not> ar_Term reply > currentTerm rf" "role rf = Leader" "currentTerm rf = t" "ar_Success reply"
    unfolding contextLostLocked_def by blast
  then show ?thesis
  proof cases
    case 4
    then have "rf' = rf\<lparr>nextIndex := (nextIndex rf)
        [nat peer := probeIndex reply (nextIndex rf ! nat peer) (rlog rf)]\<rparr> \<and>
      0 \<le> peer \<and> peer < int (length (nextIndex rf))"
      using assms
      by (auto simp: handleAppendReply_def contextLostLocked_def Let_def slice_set_eq_Some
          slice_get_eq_Some split: if_splits)
    with 4 show ?thesis
      by (intro probe) auto
  next
    case 5
    let ?m = "aa_PrevLogIndex args + int (length (aa_Entries args))"
    have "0 \<le> peer \<and> peer < int (length (matchIndex rf)) \<and>
      advanceCommit (rf\<lparr>matchIndex := (matchIndex rf)[nat peer := ?m],
              nextIndex := (nextIndex rf)[nat peer := ?m + 1]\<rparr>) = Some rf'"
      using assms 5
      by (auto simp: handleAppendReply_def contextLostLocked_def Let_def slice_set_eq_Some)
    with 5 show ?thesis
      by (intro matched[OF refl]) auto
  qed (use assms in \<open>simp_all add: handleAppendReply_def same stepdown\<close>)
qed

lemma advanceCommit_benign:
  assumes "advanceCommit rf = Some rf'"
  shows "benign rf rf'"
  using assms
  by (cases rule: advanceCommit_cases) (auto simp: signalApply_def intro!: benign_volatile)

lemma handleAppendReply_benign:
  assumes "handleAppendReply t peer args ok reply rf = Some rf'"
  shows "benign rf rf'"
  using assms
proof (cases rule: handleAppendReply_cases)
  case probe
  then show ?thesis
    by (intro benign_volatile) simp_all
next
  case (matched m)
  show ?thesis
    by (rule benign_trans[OF _ advanceCommit_benign[OF matched(8)]]) (rule benign_volatile; simp)
qed simp_all

lemma handleSnapReply_benign:
  assumes "handleSnapReply t peer args ok r rf = Some rf'"
  shows "benign rf rf'"
proof (cases "ok \<and> r > currentTerm rf")
  case True
  then show ?thesis
    using assms by (auto simp: handleSnapReply_def)
next
  case False
  then show ?thesis
    using assms
    by (auto simp: handleSnapReply_def slice_set_eq_Some intro!: benign_volatile split: if_splits)
qed

lemma replicate_peer_frame:
  assumes "replicate_peer p rf = Some (sends, rf')"
  shows "rf' = rf\<lparr>matchIndex := matchIndex rf', nextIndex := nextIndex rf'\<rparr> \<and>
    length (nextIndex rf') = length (nextIndex rf) \<and>
    length (matchIndex rf') = length (matchIndex rf)"
  using assms
  by (cases "p = me rf")
    (auto simp: replicate_peer_def Let_def slice_set_eq_Some split: if_splits)

lemma replicate_loop_frame:
  "replicate_loop k rf = Some (sends, rf') \<Longrightarrow>
   rf' = rf\<lparr>matchIndex := matchIndex rf', nextIndex := nextIndex rf'\<rparr> \<and>
     length (nextIndex rf') = length (nextIndex rf) \<and>
     length (matchIndex rf') = length (matchIndex rf)"
proof (induction k arbitrary: sends rf')
  case (Suc k)
  obtain s1 rf1 s2 where 1: "replicate_loop k rf = Some (s1, rf1)"
    and 2: "replicate_peer (int k) rf1 = Some (s2, rf')"
    using Suc.prems by auto
  note a = Suc.IH[OF 1]
  note b = replicate_peer_frame[OF 2]
  have "rf' = rf1\<lparr>matchIndex := matchIndex rf', nextIndex := nextIndex rf'\<rparr>"
    using b by blast
  also have "\<dots> = rf\<lparr>matchIndex := matchIndex rf', nextIndex := nextIndex rf'\<rparr>"
    by (subst conjunct1[OF a]) simp
  finally show ?case
    using a b by presburger
qed simp

lemma startReplication_frame:
  assumes "startReplication t rf = Some (b, sends, rf')"
  shows "rf' = rf\<lparr>matchIndex := matchIndex rf', nextIndex := nextIndex rf'\<rparr> \<and>
    length (nextIndex rf') = length (nextIndex rf) \<and>
    length (matchIndex rf') = length (matchIndex rf)"
proof (cases "contextLostLocked Leader t rf")
  case True
  then show ?thesis
    using assms by (auto simp: startReplication_def)
next
  case False
  then have "\<exists>s. replicate_loop (npeers rf) rf = Some (s, rf')"
    using assms by (auto simp: startReplication_def)
  then show ?thesis
    using replicate_loop_frame by blast
qed

lemma startReplication_benign:
  assumes "startReplication t rf = Some (b, sends, rf')"
  shows "benign rf rf'"
proof -
  have "benign rf (rf\<lparr>matchIndex := m, nextIndex := n\<rparr>)"
    if "length n = length (nextIndex rf)" "length m = length (matchIndex rf)" for m n
    by (rule benign_volatile) (use that in simp_all)
  then show ?thesis
    using startReplication_frame[OF assms] by metis
qed

lemma Start_benign: "benign rf (snd (Start c rf))"
  by (auto simp: Start_def Let_def intro!: benign_new_log)

section \<open>AppendEntries over whole logs\<close>


text \<open>
  (C10) The handler of \<open>AppendEntries\<close>, over the log the peer's representation stands for. It
  never panics. It accepts exactly when the leader's term is not behind and the log holds an
  entry at \<open>PrevLogIndex\<close> that has term \<open>PrevLogTerm\<close>; then the log is cut after that
  entry and continued with the leader's entries, and the commit index rises to
  \<open>LeaderCommit\<close> if that is higher. Otherwise log and commit index stay. In both cases term,
  vote and log are on stable storage when the reply is sent.
\<close>

theorem AppendEntries_spec:
  assumes "represents L (rlog rf)" "durable rf"
  shows "\<exists>reply rf'. AppendEntries now rnd args rf = Some (reply, rf') \<and> durable rf' \<and>
    (ar_Success reply \<longleftrightarrow> currentTerm rf \<le> aa_Term args \<and> snapLastIdx (rlog rf) \<le> aa_PrevLogIndex args \<and>
       aa_PrevLogIndex args < int (length L) \<and> le_Term (L ! nat (aa_PrevLogIndex args)) = aa_PrevLogTerm args) \<and>
    (if ar_Success reply
     then represents (take (nat (aa_PrevLogIndex args) + 1) L @ aa_Entries args) (rlog rf') \<and>
          commitIndex rf' = max (commitIndex rf) (aa_LeaderCommit args)
     else rlog rf' = rlog rf \<and> commitIndex rf' = commitIndex rf) \<and>
    ar_Term reply = currentTerm rf \<and> currentTerm rf' = max (aa_Term args) (currentTerm rf) \<and>
    (if currentTerm rf \<le> aa_Term args then role rf' = Follower else rf' = rf)"
proof -
  let ?prev = "aa_PrevLogIndex args"
  obtain reply rf' where r: "AppendEntries now rnd args rf = Some (reply, rf')"
    using AppendEntries_total by (metis prod.collapse)
  have dur: "durable rf'"
    using AppendEntries_benign[OF r] assms(2) by (simp add: benign_def)
  have at: "term_at (rlog rf) ?prev = Some u \<longleftrightarrow> snapLastIdx (rlog rf) \<le> ?prev \<and>
      ?prev < int (length L) \<and> le_Term (L ! nat ?prev) = u" for u
    using represents_term_at[OF assms(1)] represents_size[OF assms(1)]
    by (auto simp: term_at_def log_at_eq represents_term_nth[OF assms(1)])
  from r show ?thesis
  proof (cases rule: AppendEntries_cases)
    case (accept rl)
    then have "represents (take (nat ?prev + 1) L @ aa_Entries args) rl"
      using appendFrom_represents[OF assms(1), of ?prev "aa_Entries args"] at by auto
    with accept show ?thesis
      using r dur at[of "aa_PrevLogTerm args"] by (auto simp: Let_def)
  qed (use r dur at[of "aa_PrevLogTerm args"] in auto)
qed

theorem AppendEntries_spec_witness:
  "\<exists>reply rf'. AppendEntries 0 0 \<lparr>aa_Term = 2, aa_LeaderId = 1, aa_PrevLogIndex = 0,
       aa_PrevLogTerm = 0, aa_Entries = [mock_entry 2, mock_entry 2], aa_LeaderCommit = 1\<rparr>
       (Make 3 0 MakePersister :: (nat, nat) raft) = Some (reply, rf') \<and> ar_Success reply \<and>
     represents [mock_entry 0, mock_entry 2, mock_entry 2] (rlog rf') \<and> commitIndex rf' = 1"
proof -
  let ?rf = "Make 3 0 MakePersister :: (nat, nat) raft"
  have rep: "represents [mock_entry 0] (rlog ?rf)"
    using represents_NewLog[of 0 "[]" "[]"] by (simp add: Make_fresh)
  show ?thesis
    using AppendEntries_spec[OF rep durable_Make, of 0 0 "\<lparr>aa_Term = 2, aa_LeaderId = 1,
        aa_PrevLogIndex = 0, aa_PrevLogTerm = 0, aa_Entries = [mock_entry 2, mock_entry 2],
        aa_LeaderCommit = 1\<rparr>"]
    by (auto simp: Make_fresh NewLog_def)
qed

section \<open>The commit rule\<close>

text \<open>
  The index \<open>getMajorityIndexLocked\<close> picks, the lower median of the sorted match indexes,
  is the greatest one that a strict majority of the peers has reached.
\<close>

definition majority_reach :: "('c, 'b) raft \<Rightarrow> int \<Rightarrow> bool" where
  "majority_reach rf c \<longleftrightarrow> npeers rf < 2 * card {p. p < npeers rf \<and> c \<le> matchIndex rf ! p}"

lemma getMajorityIndexLocked_median:
  assumes "raft_inv rf"
  obtains m where "getMajorityIndexLocked rf = Some m" "\<And>c. c \<le> m \<longleftrightarrow> majority_reach rf c"
proof -
  have len: "length (matchIndex rf) = npeers rf" "matchIndex rf \<noteq> []"
    using assms by (auto simp: raft_inv_def)
  let ?k = "(length (matchIndex rf) - 1) div 2"
  have "(int (npeers rf) - 1) div 2 = int ?k"
    using len by (cases "matchIndex rf") (auto simp: zdiv_int)
  moreover have "?k < length (matchIndex rf)"
    using len(2) by (cases "matchIndex rf") auto
  ultimately have "getMajorityIndexLocked rf = Some (sort (matchIndex rf) ! ?k)"
    using len by (simp add: getMajorityIndexLocked_def slice_get_def)
  then show ?thesis
    using that sorted_median[OF len(2)] len(1) by (simp add: majority_reach_def)
qed

lemma majority_reach_witness:
  assumes "majority_reach rf c"
  obtains p where "p < npeers rf" "c \<le> matchIndex rf ! p"
proof -
  have "{p. p < npeers rf \<and> c \<le> matchIndex rf ! p} \<noteq> {}"
    using assms by (intro notI) (simp add: majority_reach_def)
  then show ?thesis
    using that by blast
qed

lemma advanceCommit_eq:
  assumes inv: "raft_inv rf" and le: "\<forall>p < npeers rf. matchIndex rf ! p < log_size (rlog rf)"
    and snap: "snapLastIdx (rlog rf) \<le> commitIndex rf"
    and m: "getMajorityIndexLocked rf = Some m" "\<And>c. c \<le> m \<longleftrightarrow> majority_reach rf c"
  shows "advanceCommit rf = Some (if commitIndex rf < m \<and> term_at (rlog rf) m = Some (currentTerm rf)
    then signalApply (rf\<lparr>commitIndex := m\<rparr>) else rf)"
proof -
  obtain p where "p < npeers rf" "m \<le> matchIndex rf ! p"
    using majority_reach_witness m(2) by blast
  then have "m < log_size (rlog rf)"
    using le by fastforce
  then show ?thesis
    using m(1) snap by (auto simp: advanceCommit_def term_at_def log_at_eq)
qed

text \<open>
  (C6) The commit rule. When the leader of term \<open>t\<close> gets a positive reply it records what the
  peer now holds, and its commit index becomes the greatest index a strict majority of the
  peers has reached if that is an advance and the entry there is of the leader's own term;
  in every other case it stays. The log, the term and the vote do not change, and the
  handler does not panic as long as no match index points past the log.
\<close>

theorem leader_commit_rule:
  assumes "raft_inv rf" "role rf = Leader" "0 \<le> peer" "peer < int (npeers rf)"
    and "ar_Success reply" "ar_Term reply \<le> currentTerm rf"
    and "aa_PrevLogIndex args + int (length (aa_Entries args)) < log_size (rlog rf)"
    and "\<forall>p < npeers rf. matchIndex rf ! p < log_size (rlog rf)"
    and "snapLastIdx (rlog rf) \<le> commitIndex rf"
  shows "\<exists>rf' m. handleAppendReply (currentTerm rf) peer args True reply rf = Some rf' \<and>
    matchIndex rf' = (matchIndex rf)
      [nat peer := aa_PrevLogIndex args + int (length (aa_Entries args))] \<and>
    (\<forall>c. c \<le> m \<longleftrightarrow> npeers rf < 2 * card {p. p < npeers rf \<and> c \<le> matchIndex rf' ! p}) \<and>
    commitIndex rf' = (if commitIndex rf < m \<and> term_at (rlog rf) m = Some (currentTerm rf)
      then m else commitIndex rf) \<and> stable rf' = stable rf"
proof -
  let ?m = "aa_PrevLogIndex args + int (length (aa_Entries args))"
  let ?r = "rf\<lparr>matchIndex := (matchIndex rf)[nat peer := ?m],
              nextIndex := (nextIndex rf)[nat peer := ?m + 1]\<rparr>"
  have len: "length (matchIndex rf) = npeers rf" "length (nextIndex rf) = npeers rf"
    using assms(1) by (auto simp: raft_inv_def)
  then have h: "handleAppendReply (currentTerm rf) peer args True reply rf = advanceCommit ?r"
    using assms(2-6) by (simp add: handleAppendReply_def contextLostLocked_def Let_def)
  have inv: "raft_inv ?r"
    using assms(1) by (subst raft_inv_cong[of ?r rf]) simp_all
  have le: "\<forall>p < npeers ?r. matchIndex ?r ! p < log_size (rlog ?r)"
    using assms(3,4,7,8) len by (auto simp: nth_list_update)
  obtain m where m: "getMajorityIndexLocked ?r = Some m" "\<And>c. c \<le> m \<longleftrightarrow> majority_reach ?r c"
    using getMajorityIndexLocked_median[OF inv] by blast
  have adv: "advanceCommit ?r = Some (if commitIndex rf < m \<and> term_at (rlog rf) m = Some (currentTerm rf)
      then signalApply (?r\<lparr>commitIndex := m\<rparr>) else ?r)"
    using advanceCommit_eq[OF inv le _ m] assms(9) by simp
  have maj: "\<forall>c. c \<le> m \<longleftrightarrow> npeers rf < 2 * card {p. p < npeers rf \<and> c \<le> matchIndex ?r ! p}"
    using m(2) by (simp add: majority_reach_def)
  show ?thesis
    unfolding h adv
    by (rule exI, rule exI[of _ m], intro conjI, rule refl) (use maj in simp_all)
qed

theorem leader_commit_rule_witness:
  "\<exists>rf'. handleAppendReply 1 1 \<lparr>aa_Term = 1, aa_LeaderId = 0, aa_PrevLogIndex = 0,
       aa_PrevLogTerm = 0, aa_Entries = [mock_entry 1], aa_LeaderCommit = 0\<rparr> True
       \<lparr>ar_Term = 1, ar_Success = True, ar_ConfilictIndex = 0, ar_ConfilictTerm = 0\<rparr>
       ((Make 3 0 MakePersister :: (nat, nat) raft)
          \<lparr>role := Leader, rlog := NewLog 0 0 [] [mock_entry 1], matchIndex := [1, 0, 0]\<rparr>)
       = Some rf' \<and> matchIndex rf' = [1, 1, 0] \<and> commitIndex rf' = 1"
proof -
  let ?rf = "(Make 3 0 MakePersister :: (nat, nat) raft)
          \<lparr>role := Leader, rlog := NewLog 0 0 [] [mock_entry 1], matchIndex := [1, 0, 0]\<rparr>"
  let ?args = "\<lparr>aa_Term = 1, aa_LeaderId = 0, aa_PrevLogIndex = 0, aa_PrevLogTerm = 0,
       aa_Entries = [mock_entry 1], aa_LeaderCommit = 0\<rparr> :: nat append_args"
  let ?reply = "\<lparr>ar_Term = 1, ar_Success = True, ar_ConfilictIndex = 0, ar_ConfilictTerm = 0\<rparr>"
  have "raft_inv ?rf" "\<forall>p < npeers ?rf. matchIndex ?rf ! p < log_size (rlog ?rf)"
    by (auto simp: raft_inv_def Make_fresh log_inv_def log_size_def NewLog_def numeral_3_eq_3 less_Suc_eq)
  then obtain rf' m where r: "handleAppendReply 1 1 ?args True ?reply ?rf = Some rf'"
      "matchIndex rf' = [1, 1, 0]"
      "\<And>c. c \<le> m \<longleftrightarrow> 3 < 2 * card {p. p < 3 \<and> c \<le> [1, 1, 0] ! p}"
      "commitIndex rf' = (if 0 < m \<and> term_at (rlog ?rf) m = Some 1 then m else 0)"
    using leader_commit_rule[of ?rf 1 ?reply ?args]
    by (fastforce simp: Make_fresh log_size_def NewLog_def)
  have three: "{p. p < 3 \<and> P p} = set (filter P [0..<3])" for P :: "nat \<Rightarrow> bool"
    by auto
  have "m = 1"
    using r(3)[of 1] r(3)[of 2] unfolding three by (simp add: upt_rec)
  then show ?thesis
    using r(1,2,4) by (simp add: term_at_def log_at_eq log_size_def NewLog_def)
qed

section \<open>What the leader sends\<close>

text \<open>The peer a message is for, and the index of its next entry at that peer.\<close>

fun send_ok :: "'c log_entry list \<Rightarrow> ('c, 'b) raft \<Rightarrow> ('c, 'b) send \<Rightarrow> bool" where
  "send_ok L rf (SendAppend p a) \<longleftrightarrow>
     aa_Term a = currentTerm rf \<and> aa_LeaderId a = me rf \<and> aa_LeaderCommit a = commitIndex rf \<and>
     snapLastIdx (rlog rf) \<le> aa_PrevLogIndex a \<and> aa_PrevLogIndex a = nextIndex rf ! nat p - 1 \<and>
     aa_PrevLogTerm a = le_Term (L ! nat (aa_PrevLogIndex a)) \<and>
     take (nat (aa_PrevLogIndex a) + 1) L @ aa_Entries a = L"
| "send_ok L rf (SendSnap p a) \<longleftrightarrow>
     sa_Term a = currentTerm rf \<and> sa_LeaderId a = me rf \<and> nextIndex rf ! nat p \<le> snapLastIdx (rlog rf) \<and>
     sa_LastIncludedIndex a = snapLastIdx (rlog rf) \<and>
     sa_LastIncludedTerm a = le_Term (L ! nat (snapLastIdx (rlog rf))) \<and>
     sa_Snapshot a = snapshot (rlog rf)"

fun send_to :: "('c, 'b) send \<Rightarrow> int" where
  "send_to (SendAppend p a) = p"
| "send_to (SendSnap p a) = p"

lemma replicate_peer_other:
  assumes L: "represents L (rlog rf)" and p: "int k \<noteq> me rf" "k < length (nextIndex rf)"
    and nxt: "0 < nextIndex rf ! k" "nextIndex rf ! k \<le> int (length L)"
  shows "\<exists>m. replicate_peer (int k) rf = Some ([m], rf) \<and> send_to m = int k \<and> send_ok L rf m"
proof (cases "nextIndex rf ! k - 1 < snapLastIdx (rlog rf)")
  case True
  then show ?thesis
    using p representsD(3)[OF L] by (simp add: replicate_peer_def Let_def)
next
  case False
  let ?i = "nextIndex rf ! k"
  have "log_tail (rlog rf) ?i = Some (drop (nat ?i) L)"
    using False by (intro represents_tail[OF L]) simp
  moreover have "nat (?i - 1) + 1 = nat ?i"
    using nxt by simp
  moreover obtain e where "log_at (rlog rf) (?i - 1) = Some e" "le_Term e = le_Term (L ! nat (?i - 1))"
    using False nxt represents_term_at[OF L, of "?i - 1"] by (auto simp: term_at_def)
  ultimately show ?thesis
    using False p by (simp add: replicate_peer_def Let_def)
qed

lemma replicate_loop_sends:
  assumes L: "represents L (rlog rf)" and inv: "raft_inv rf"
    and nxt: "\<forall>p < npeers rf. 0 < nextIndex rf ! p \<and> nextIndex rf ! p \<le> int (length L)"
  shows "k \<le> npeers rf \<Longrightarrow> \<exists>sends rf'. replicate_loop k rf = Some (sends, rf') \<and>
    map send_to sends = map int (filter (\<lambda>p. int p \<noteq> me rf) [0..<k]) \<and> list_all (send_ok L rf) sends \<and>
    rf' = (if me rf < int k
           then rf\<lparr>matchIndex := (matchIndex rf)[nat (me rf) := int (length L) - 1],
                   nextIndex := (nextIndex rf)[nat (me rf) := int (length L)]\<rparr> else rf)"
proof (induction k)
  case 0
  then show ?case
    using inv by (simp add: raft_inv_def)
next
  case (Suc k)
  then obtain sends rf' where IH: "replicate_loop k rf = Some (sends, rf')"
      "map send_to sends = map int (filter (\<lambda>p. int p \<noteq> me rf) [0..<k])" "list_all (send_ok L rf) sends"
      "rf' = (if me rf < int k
           then rf\<lparr>matchIndex := (matchIndex rf)[nat (me rf) := int (length L) - 1],
                   nextIndex := (nextIndex rf)[nat (me rf) := int (length L)]\<rparr> else rf)"
    by auto
  have len: "k < length (nextIndex rf)" "k < length (matchIndex rf)"
    using Suc.prems inv by (auto simp: raft_inv_def)
  show ?case
  proof (cases "int k = me rf")
    case True
    then show ?thesis
      using IH len represents_size[OF L] by (auto simp: replicate_peer_def)
  next
    case False
    have neq: "nat (me rf) \<noteq> k"
      using False inv by (auto simp: raft_inv_def)
    have "\<exists>m. replicate_peer (int k) rf' = Some ([m], rf') \<and> send_to m = int k \<and> send_ok L rf' m"
      using False neq len nxt Suc.prems L by (intro replicate_peer_other) (auto simp: IH(4))
    then obtain m where m: "replicate_peer (int k) rf' = Some ([m], rf')" "send_to m = int k"
        "send_ok L rf' m"
      by blast
    have "send_ok L rf m"
      using m(2,3) neq by (cases m) (auto simp: IH(4) split: if_splits)
    then show ?thesis
      using IH m False by (auto simp: less_le)
  qed
qed

text \<open>
  A round of replication. While the leader's next indexes lie inside its log, the round
  starts exactly one message to every other peer, in peer order, and none to itself. Each
  \<open>AppendEntries\<close> carries the term of the entry before \<open>nextIndex\<close> and all entries from
  there on, so a receiver that accepts it ends up with exactly the leader's log; a peer
  whose next index has been compacted away is sent the leader's snapshot instead. The
  leader's own slot is set to its last index.
\<close>

lemma startReplication_sends:
  assumes "represents L (rlog rf)" "raft_inv rf" "role rf = Leader"
    and "\<forall>p < npeers rf. 0 < nextIndex rf ! p \<and> nextIndex rf ! p \<le> int (length L)"
  shows "\<exists>sends rf'. startReplication (currentTerm rf) rf = Some (True, sends, rf') \<and>
    map send_to sends = map int (filter (\<lambda>p. int p \<noteq> me rf) [0..<npeers rf]) \<and>
    list_all (send_ok L rf) sends \<and>
    rf' = rf\<lparr>matchIndex := (matchIndex rf)[nat (me rf) := int (length L) - 1],
             nextIndex := (nextIndex rf)[nat (me rf) := int (length L)]\<rparr>"
  using replicate_loop_sends[OF assms(1,2,4) order_refl] assms(2,3)
  by (auto simp: startReplication_def contextLostLocked_def raft_inv_def)

text \<open>
  \<open>Start\<close> on a leader appends exactly one entry with the leader's term and the command,
  returns its index and has it on stable storage before returning; on any other peer it does
  nothing and says so.
\<close>

lemma Start_spec:
  assumes "represents L (rlog rf)" "Start cmd rf = ((index, trm, isLeader), rf')"
  shows "isLeader = (role rf = Leader) \<and>
    (if role rf = Leader
     then index = int (length L) \<and> trm = currentTerm rf \<and>
       represents (L @ [\<lparr>le_Term = trm, le_CommandValid = True, le_Command = cmd\<rparr>]) (rlog rf') \<and>
       stable (restart rf') = stable rf' \<and> currentTerm rf' = currentTerm rf
     else rf' = rf)"
proof (cases "role rf = Leader")
  case True
  let ?e = "\<lparr>le_Term = currentTerm rf, le_CommandValid = True, le_Command = cmd\<rparr>"
  let ?rf = "persistLocked (rf\<lparr>rlog := log_append (rlog rf) ?e\<rparr>)"
  have rep: "represents (L @ [?e]) (log_append (rlog rf) ?e)"
    using assms(1) by (rule represents_append)
  have "rf' = ?rf" "isLeader" "trm = currentTerm rf" "index = log_size (rlog ?rf) - 1"
    using assms(2) True by (auto simp: Start_def Let_def)
  then show ?thesis
    using True rep represents_size[OF rep] durable_persistLocked[of "rf\<lparr>rlog := log_append (rlog rf) ?e\<rparr>"]
    by (simp add: durable_def)
next
  case False
  then show ?thesis
    using assms(2) by (simp add: Start_def)
qed

section \<open>A delayed message\<close>

lemma AppendEntries_accepts:
  assumes "represents L (rlog rf)" "currentTerm rf \<le> aa_Term args"
    and "snapLastIdx (rlog rf) \<le> aa_PrevLogIndex args" "aa_PrevLogIndex args < int (length L)"
    and "le_Term (L ! nat (aa_PrevLogIndex args)) = aa_PrevLogTerm args"
  shows "\<exists>reply rf'. AppendEntries now rnd args rf = Some (reply, rf') \<and> ar_Success reply \<and>
    currentTerm rf' = aa_Term args \<and> snapLastIdx (rlog rf') = snapLastIdx (rlog rf) \<and>
    represents (take (nat (aa_PrevLogIndex args) + 1) L @ aa_Entries args) (rlog rf')"
proof -
  obtain reply rf' where r: "AppendEntries now rnd args rf = Some (reply, rf')"
    using AppendEntries_total by (metis prod.collapse)
  have at: "term_at (rlog rf) (aa_PrevLogIndex args) = Some (aa_PrevLogTerm args)"
    using represents_term_at[OF assms(1,3,4)] assms(5) by simp
  from r show ?thesis
  proof (cases rule: AppendEntries_cases)
    case (accept rl)
    then show ?thesis
      using r appendFrom_represents[OF assms(1,3,4), of "aa_Entries args"] assms(2)
      by (auto simp: Let_def log_appendFrom_eq split: if_splits)
  qed (use assms(2) at in auto)
qed

text \<open>
  (C36) A delayed \<open>AppendEntries\<close> undoes a later one. The handler cuts the log after
  \<open>PrevLogIndex\<close> whether or not the entries that follow agree with the message. So when a
  leader's message with the entries \<open>es\<close> is overtaken by its later message with \<open>es @ rest\<close>,
  both are accepted, and the peer ends up without the entries \<open>rest\<close> it has acknowledged
  and the leader may have counted as replicated.
\<close>

theorem delayed_append_truncates:
  assumes "represents L (rlog rf)" "currentTerm rf \<le> aa_Term args"
    and "snapLastIdx (rlog rf) \<le> aa_PrevLogIndex args" "aa_PrevLogIndex args < int (length L)"
    and "le_Term (L ! nat (aa_PrevLogIndex args)) = aa_PrevLogTerm args"
    and "aa_Entries args = es"
  shows "\<exists>r1 rf1 r2 rf2.
    AppendEntries now rnd (args\<lparr>aa_Entries := es @ rest\<rparr>) rf = Some (r1, rf1) \<and> ar_Success r1 \<and>
    represents (take (nat (aa_PrevLogIndex args) + 1) L @ es @ rest) (rlog rf1) \<and>
    AppendEntries now' rnd' args rf1 = Some (r2, rf2) \<and> ar_Success r2 \<and>
    represents (take (nat (aa_PrevLogIndex args) + 1) L @ es) (rlog rf2)"
proof -
  let ?i = "nat (aa_PrevLogIndex args) + 1" and ?late = "args\<lparr>aa_Entries := es @ rest\<rparr>"
  obtain r1 rf1 where 1: "AppendEntries now rnd ?late rf = Some (r1, rf1)" "ar_Success r1"
      "currentTerm rf1 = aa_Term args" "snapLastIdx (rlog rf1) = snapLastIdx (rlog rf)"
      "represents (take ?i L @ es @ rest) (rlog rf1)"
    using AppendEntries_accepts[of L rf ?late now rnd] assms by auto
  have i: "?i \<le> length L" "0 \<le> aa_PrevLogIndex args"
    using assms(3,4) representsD(1)[OF assms(1)] by (auto simp: log_inv_def nat_less_iff Suc_le_eq)
  have "\<exists>r2 rf2. AppendEntries now' rnd' args rf1 = Some (r2, rf2) \<and> ar_Success r2 \<and>
      currentTerm rf2 = aa_Term args \<and> snapLastIdx (rlog rf2) = snapLastIdx (rlog rf1) \<and>
      represents (take ?i (take ?i L @ es @ rest) @ aa_Entries args) (rlog rf2)"
    using 1 i assms by (intro AppendEntries_accepts) (auto simp: nth_append)
  then show ?thesis
    using 1 i assms(6) by auto
qed

theorem delayed_append_truncates_witness:
  "\<exists>r1 rf1 r2 rf2. AppendEntries 0 0 \<lparr>aa_Term = 1, aa_LeaderId = 1, aa_PrevLogIndex = 0,
       aa_PrevLogTerm = 0, aa_Entries = [mock_entry 1, mock_entry 1], aa_LeaderCommit = 0\<rparr>
       (Make 3 0 MakePersister :: (nat, nat) raft) = Some (r1, rf1) \<and> ar_Success r1 \<and>
     AppendEntries 0 0 \<lparr>aa_Term = 1, aa_LeaderId = 1, aa_PrevLogIndex = 0,
       aa_PrevLogTerm = 0, aa_Entries = [mock_entry 1], aa_LeaderCommit = 0\<rparr> rf1 = Some (r2, rf2) \<and>
     ar_Success r2 \<and> represents [mock_entry 0, mock_entry 1] (rlog rf2)"
proof -
  let ?rf = "Make 3 0 MakePersister :: (nat, nat) raft"
  have rep: "represents [mock_entry 0] (rlog ?rf)"
    using represents_NewLog[of 0 "[]" "[]"] by (simp add: Make_fresh)
  show ?thesis
    using delayed_append_truncates[OF rep, of "\<lparr>aa_Term = 1, aa_LeaderId = 1, aa_PrevLogIndex = 0,
        aa_PrevLogTerm = 0, aa_Entries = [mock_entry 1], aa_LeaderCommit = 0\<rparr>" "[mock_entry 1]" 0 0
        "[mock_entry 1]" 0 0]
    by (fastforce simp: Make_fresh NewLog_def)
qed

section \<open>A follower that has compacted too far\<close>

text \<open>
  A leader and one of its followers. \<open>ps_sent\<close> holds every message the leader has sent to that
  follower and \<open>ps_replies\<close> every answer of the follower, so that messages and replies may arrive
  late, repeatedly, in any order or not at all. Meanwhile the leader accepts commands and handles the
  replies of the other peers, and both may take further steps that leave their logs alone.
\<close>

record ('c, 'b) pair_sys =
  ps_leader :: "('c, 'b) raft"
  ps_follower :: "('c, 'b) raft"
  ps_sent :: "('c, 'b) send list"
  ps_replies :: "('c append_args \<times> append_reply) list"

inductive pair_step :: "int \<Rightarrow> ('c, 'b) pair_sys \<Rightarrow> ('c, 'b) pair_sys \<Rightarrow> bool" for peer where
  pr_round: "startReplication (currentTerm (ps_leader S)) (ps_leader S) = Some (b, sends, rf) \<Longrightarrow>
     pair_step peer S (S\<lparr>ps_leader := rf, ps_sent := ps_sent S @ filter (\<lambda>m. send_to m = peer) sends\<rparr>)"
| pr_append: "SendAppend peer args \<in> set (ps_sent S) \<Longrightarrow> AppendEntries now rnd args (ps_follower S) = Some (reply, rf) \<Longrightarrow>
     pair_step peer S (S\<lparr>ps_follower := rf, ps_replies := ps_replies S @ [(args, reply)]\<rparr>)"
| pr_install: "SendSnap peer snap \<in> set (ps_sent S) \<Longrightarrow> InstallSnapshot snap (ps_follower S) = Some (t, rf) \<Longrightarrow>
     pair_step peer S (S\<lparr>ps_follower := rf\<rparr>)"
| pr_installed: "SendSnap peer snap \<in> set (ps_sent S) \<Longrightarrow>
     handleSnapReply (sa_Term snap) peer snap ok t (ps_leader S) = Some rf \<Longrightarrow> pair_step peer S (S\<lparr>ps_leader := rf\<rparr>)"
| pr_reply: "(args, reply) \<in> set (ps_replies S) \<Longrightarrow>
     handleAppendReply (aa_Term args) peer args ok reply (ps_leader S) = Some rf \<Longrightarrow> pair_step peer S (S\<lparr>ps_leader := rf\<rparr>)"
| pr_start: "pair_step peer S (S\<lparr>ps_leader := snd (Start command (ps_leader S))\<rparr>)"
| pr_other: "p \<noteq> peer \<Longrightarrow> handleAppendReply t p args ok reply (ps_leader S) = Some rf \<Longrightarrow>
     currentTerm rf = currentTerm (ps_leader S) \<Longrightarrow> pair_step peer S (S\<lparr>ps_leader := rf\<rparr>)"
| pr_leader: "rf = (ps_leader S)\<lparr>commitIndex := c, lastApplied := a, snapPending := b, applier := pc\<rparr> \<Longrightarrow>
     pair_step peer S (S\<lparr>ps_leader := rf\<rparr>)"
| pr_follower: "rlog rf = rlog (ps_follower S) \<Longrightarrow> currentTerm rf = currentTerm (ps_follower S) \<Longrightarrow>
     pair_step peer S (S\<lparr>ps_follower := rf\<rparr>)"

text \<open>
  The situation: the entry before \<open>nextIndex\<close> is in the leader's log but below the follower's
  snapshot, and the leader's log has no entry of the snapshot's term below \<open>nextIndex\<close>.
\<close>

definition stuck :: "int \<Rightarrow> ('c, 'b) raft \<Rightarrow> ('c, 'b) raft \<Rightarrow> bool" where
  "stuck peer lf ff \<longleftrightarrow> role lf = Leader \<and> raft_inv lf \<and> 0 \<le> peer \<and> peer < int (npeers lf) \<and> peer \<noteq> me lf \<and>
     log_inv (rlog ff) \<and> currentTerm ff \<le> currentTerm lf \<and> snapLastTerm (rlog ff) \<noteq> InvalidTerm \<and>
     (let n = nextIndex lf ! nat peer; first = log_firstFor (rlog lf) (snapLastTerm (rlog ff))
      in snapLastIdx (rlog lf) < n \<and> n \<le> log_size (rlog lf) \<and> n \<le> snapLastIdx (rlog ff) \<and>
         (first = InvalidIndex \<or> n \<le> first))"

lemma stuckD:
  assumes "stuck peer lf ff"
  shows "role lf = Leader" "raft_inv lf" "0 \<le> peer" "peer < int (npeers lf)" "peer \<noteq> me lf" "log_inv (rlog ff)"
    "currentTerm ff \<le> currentTerm lf" "snapLastTerm (rlog ff) \<noteq> InvalidTerm"
    "snapLastIdx (rlog lf) < nextIndex lf ! nat peer" "nextIndex lf ! nat peer \<le> log_size (rlog lf)"
    "nextIndex lf ! nat peer \<le> snapLastIdx (rlog ff)"
    "log_firstFor (rlog lf) (snapLastTerm (rlog ff)) = InvalidIndex \<or>
     nextIndex lf ! nat peer \<le> log_firstFor (rlog lf) (snapLastTerm (rlog ff))"
  using assms by (simp_all add: stuck_def Let_def)

text \<open>What the leader sends then, and the answer.\<close>

lemma replicate_loop_peer:
  assumes "peer \<noteq> me rf" "0 \<le> peer" "0 \<le> me rf" "snapLastIdx (rlog rf) < nextIndex rf ! nat peer"
  shows "replicate_loop k rf = Some (sends, rf') \<Longrightarrow>
    nextIndex rf' ! nat peer = nextIndex rf ! nat peer \<and> matchIndex rf' ! nat peer = matchIndex rf ! nat peer \<and>
    (\<forall>m\<in>set sends. send_to m = peer \<longrightarrow> (\<exists>args. m = SendAppend peer args \<and> aa_Term args = currentTerm rf \<and>
       aa_PrevLogIndex args = nextIndex rf ! nat peer - 1))"
proof (induction k arbitrary: sends rf')
  case (Suc k)
  then obtain s1 rf1 s2 where 1: "replicate_loop k rf = Some (s1, rf1)"
    and 2: "replicate_peer (int k) rf1 = Some (s2, rf')" and s: "sends = s1 @ s2"
    by auto
  note IH = Suc.IH[OF 1]
  have eq: "rf1 = rf\<lparr>matchIndex := matchIndex rf1, nextIndex := nextIndex rf1\<rparr>"
    using replicate_loop_frame[OF 1] by blast
  have rf1: "me rf1 = me rf" "rlog rf1 = rlog rf" "currentTerm rf1 = currentTerm rf"
    by (subst eq, simp)+
  show ?case
  proof (cases "int k = me rf")
    case True
    then have "nat peer \<noteq> k"
      using assms(1,2) by auto
    then show ?thesis
      using 2 IH True by (auto simp: replicate_peer_def rf1 s slice_set_eq_Some)
  next
    case False
    have "rf' = rf1"
      using 2 False by (auto simp: replicate_peer_def Let_def rf1 split: if_splits)
    moreover have "\<exists>args. m = SendAppend peer args \<and> aa_Term args = currentTerm rf \<and>
       aa_PrevLogIndex args = nextIndex rf ! nat peer - 1" if "m \<in> set s2" "send_to m = peer" for m
      using 2 False that IH assms(4)
      by (auto simp: replicate_peer_def Let_def rf1 slice_get_eq_Some split: if_splits)
    ultimately show ?thesis
      using IH by (auto simp: s)
  qed
qed simp

lemma stuck_probe:
  assumes "stuck peer lf ff"
  shows "\<exists>args. replicate_peer peer lf = Some ([SendAppend peer args], lf) \<and>
    aa_PrevLogIndex args = nextIndex lf ! nat peer - 1"
proof -
  note D = stuckD[OF assms]
  have "\<exists>e. log_at (rlog lf) (nextIndex lf ! nat peer - 1) = Some e"
    using D(9,10) by (simp add: log_at_eq)
  moreover have "peer < int (length (nextIndex lf))"
    using D(2,4) by (simp add: raft_inv_def)
  ultimately show ?thesis
    using D(3,5,9) by (auto simp: replicate_peer_def Let_def log_tail_eq)
qed

definition rejection :: "('c, 'b) raft \<Rightarrow> int \<Rightarrow> append_reply \<Rightarrow> bool" where
  "rejection ff t reply \<longleftrightarrow> \<not> ar_Success reply \<and> ar_Term reply \<le> t \<and>
     ar_ConfilictIndex reply = snapLastIdx (rlog ff) \<and> ar_ConfilictTerm reply = snapLastTerm (rlog ff)"

lemma stuck_rejects:
  assumes "stuck peer lf ff" "aa_Term args = currentTerm lf" "aa_PrevLogIndex args = nextIndex lf ! nat peer - 1"
    and "AppendEntries now rnd args ff = Some (reply, ff')"
  shows "rejection ff (currentTerm lf) reply \<and> rlog ff' = rlog ff \<and> currentTerm ff' = currentTerm lf"
proof -
  note D = stuckD[OF assms(1)]
  have "aa_PrevLogIndex args < snapLastIdx (rlog ff)" "aa_PrevLogIndex args < log_size (rlog ff)"
    using D(11) assms(3) log_invD(2)[OF D(6)] by simp_all
  then show ?thesis
    using assms(2,4) D(7) by (auto simp: AppendEntries_def Let_def rejection_def)
qed

lemma stuck_ignores:
  assumes "stuck peer lf ff" "rejection ff (currentTerm lf) reply"
  shows "handleAppendReply t peer args ok reply lf = Some lf"
proof -
  note D = stuckD[OF assms(1)]
  let ?n = "nextIndex lf ! nat peer"
  have "probeIndex reply ?n (rlog lf) = ?n"
    using assms(2) D(8,11,12) by (auto simp: probeIndex_def rejection_def Let_def)
  moreover have "\<exists>e. log_at (rlog lf) (?n - 1) = Some e"
    using D(9,10) by (simp add: log_at_eq)
  moreover have "peer < int (length (nextIndex lf))"
    using D(2,4) by (simp add: raft_inv_def)
  ultimately show ?thesis
    using assms(2) D(3,9) by (auto simp: handleAppendReply_def contextLostLocked_def rejection_def Let_def)
qed

text \<open>The leader's log may grow: an index that is found later is not below \<open>nextIndex\<close>.\<close>

lemma firstFor_loop_append:
  "firstFor_loop t b i (es @ [e]) = firstFor_loop t b i es \<or> firstFor_loop t b i (es @ [e]) = i + b + int (length es)"
  by (induction t b i es rule: firstFor_loop.induct) auto

definition leader_frame :: "int \<Rightarrow> ('c, 'b) raft \<Rightarrow> ('c, 'b) raft \<Rightarrow> bool" where
  "leader_frame peer lf lf' \<longleftrightarrow> role lf' = role lf \<and> currentTerm lf' = currentTerm lf \<and> npeers lf' = npeers lf \<and> me lf' = me lf \<and>
     nextIndex lf' ! nat peer = nextIndex lf ! nat peer \<and> matchIndex lf' ! nat peer = matchIndex lf ! nat peer \<and>
     (raft_inv lf \<longrightarrow> raft_inv lf') \<and> (rlog lf' = rlog lf \<or> (\<exists>e. rlog lf' = log_append (rlog lf) e))"

lemma leader_frame_refl [simp]: "leader_frame peer lf lf"
  by (simp add: leader_frame_def)

lemma stuck_leader_frame:
  assumes "stuck peer lf ff" "leader_frame peer lf lf'"
  shows "stuck peer lf' ff"
proof -
  note D = stuckD[OF assms(1)]
  let ?first = "\<lambda>rl. log_firstFor rl (snapLastTerm (rlog ff))"
  have "snapLastIdx (rlog lf') = snapLastIdx (rlog lf) \<and> log_size (rlog lf) \<le> log_size (rlog lf') \<and>
      (?first (rlog lf') = ?first (rlog lf) \<or> log_size (rlog lf) \<le> ?first (rlog lf'))"
    using assms(2) firstFor_loop_append[of "snapLastTerm (rlog ff)" "snapLastIdx (rlog lf)" 0 "tailLog (rlog lf)"]
    by (fastforce simp: leader_frame_def log_append_def log_size_def log_firstFor_def)
  then show ?thesis
    using D assms(2) unfolding stuck_def leader_frame_def Let_def by auto
qed

lemma stuck_follower: "stuck peer lf ff \<Longrightarrow> rlog ff' = rlog ff \<Longrightarrow> currentTerm ff' \<le> currentTerm lf \<Longrightarrow> stuck peer lf ff'"
  by (simp add: stuck_def)

lemma leader_frame_round:
  assumes "stuck peer lf ff" "startReplication (currentTerm lf) lf = Some (b, sends, lf')"
  shows "leader_frame peer lf lf' \<and> (\<forall>m\<in>set sends. send_to m = peer \<longrightarrow> (\<exists>args. m = SendAppend peer args \<and>
    aa_Term args = currentTerm lf \<and> aa_PrevLogIndex args = nextIndex lf ! nat peer - 1))"
proof -
  note D = stuckD[OF assms(1)]
  have loop: "replicate_loop (npeers lf) lf = Some (sends, lf')"
    using assms(2) D(1) by (auto simp: startReplication_def contextLostLocked_def)
  have eq: "lf' = lf\<lparr>matchIndex := matchIndex lf', nextIndex := nextIndex lf'\<rparr>"
    using replicate_loop_frame[OF loop] by blast
  have "role lf' = role lf" "currentTerm lf' = currentTerm lf" "npeers lf' = npeers lf" "me lf' = me lf" "rlog lf' = rlog lf"
    by (subst eq, simp)+
  moreover have "raft_inv lf \<longrightarrow> raft_inv lf'"
    using startReplication_benign[OF assms(2)] by (simp add: benign_def)
  moreover have "0 \<le> me lf"
    using D(2) by (simp add: raft_inv_def)
  ultimately show ?thesis
    using replicate_loop_peer[OF D(5,3) _ D(9) loop] by (simp add: leader_frame_def)
qed

lemma leader_frame_other:
  assumes "handleAppendReply t p args ok reply lf = Some lf'" "p \<noteq> peer" "0 \<le> peer" "currentTerm lf' = currentTerm lf"
  shows "leader_frame peer lf lf'"
proof -
  have inv: "raft_inv lf \<longrightarrow> raft_inv lf'"
    using handleAppendReply_benign[OF assms(1)] by (simp add: benign_def)
  show ?thesis
    using assms(1)
  proof (cases rule: handleAppendReply_cases)
    case stepdown
    then show ?thesis
      using assms(4) by simp
  next
    case probe
    then show ?thesis
      using assms(2,3) inv by (simp add: leader_frame_def)
  next
    case (matched m)
    have "nat p \<noteq> nat peer"
      using matched(6) assms(2,3) by auto
    then show ?thesis
      using inv by (cases rule: advanceCommit_cases[OF matched(8)]) (simp_all add: leader_frame_def signalApply_def)
  qed simp
qed

definition stuck_run :: "int \<Rightarrow> ('c, 'b) raft \<Rightarrow> ('c, 'b) raft \<Rightarrow> ('c, 'b) pair_sys \<Rightarrow> bool" where
  "stuck_run peer lf ff S \<longleftrightarrow> stuck peer (ps_leader S) (ps_follower S) \<and> rlog (ps_follower S) = rlog ff \<and>
     currentTerm (ps_leader S) = currentTerm lf \<and>
     nextIndex (ps_leader S) ! nat peer = nextIndex lf ! nat peer \<and> matchIndex (ps_leader S) ! nat peer = matchIndex lf ! nat peer \<and>
     (\<forall>m\<in>set (ps_sent S). \<exists>args. m = SendAppend peer args \<and> aa_Term args = currentTerm lf \<and>
        aa_PrevLogIndex args = nextIndex lf ! nat peer - 1) \<and>
     (\<forall>(args, reply)\<in>set (ps_replies S). rejection ff (currentTerm lf) reply)"

lemma stuck_run_init:
  "stuck peer lf ff \<Longrightarrow> stuck_run peer lf ff \<lparr>ps_leader = lf, ps_follower = ff, ps_sent = [], ps_replies = []\<rparr>"
  by (simp add: stuck_run_def)

lemma stuck_run_leader:
  assumes "stuck_run peer lf ff S" "leader_frame peer (ps_leader S) rf"
  shows "stuck_run peer lf ff (S\<lparr>ps_leader := rf\<rparr>)"
proof -
  have "stuck peer rf (ps_follower S)"
    using assms stuck_leader_frame unfolding stuck_run_def by blast
  then show ?thesis
    using assms by (simp add: stuck_run_def leader_frame_def)
qed

lemma stuck_run_step:
  assumes "pair_step peer S S'" "stuck_run peer lf ff S"
  shows "stuck_run peer lf ff S'"
proof -
  have st: "stuck peer (ps_leader S) (ps_follower S)"
    using assms(2) by (simp add: stuck_run_def)
  show ?thesis
    using assms(1)
  proof (cases rule: pair_step.cases)
    case (pr_round b sends rf)
    note r = leader_frame_round[OF st pr_round(2)]
    have "stuck_run peer lf ff (S\<lparr>ps_leader := rf\<rparr>)"
      using stuck_run_leader[OF assms(2)] r by blast
    then show ?thesis
      using r assms(2) by (auto simp: pr_round(1) stuck_run_def)
  next
    case (pr_append args now rnd reply rf)
    then have "aa_Term args = currentTerm (ps_leader S)" "aa_PrevLogIndex args = nextIndex (ps_leader S) ! nat peer - 1"
      using assms(2) by (auto simp: stuck_run_def)
    note r = stuck_rejects[OF st this pr_append(3)]
    have "stuck peer (ps_leader S) rf"
      using r by (intro stuck_follower[OF st]) auto
    then show ?thesis
      using r assms(2) by (auto simp: pr_append(1) stuck_run_def rejection_def)
  next
    case (pr_reply args reply ok rf)
    have "rejection (ps_follower S) (currentTerm (ps_leader S)) reply"
      using assms(2) pr_reply(2) by (auto simp: stuck_run_def rejection_def)
    then have "rf = ps_leader S"
      using stuck_ignores[OF st] pr_reply(3) by simp
    then show ?thesis
      using assms(2) by (simp add: pr_reply(1))
  next
    case (pr_start command)
    have "leader_frame peer (ps_leader S) (snd (Start command (ps_leader S)))"
      using Start_benign[of "ps_leader S" command] by (auto simp: leader_frame_def benign_def Start_def Let_def)
    then show ?thesis
      unfolding pr_start by (rule stuck_run_leader[OF assms(2)])
  next
    case (pr_other p t args ok reply rf)
    then show ?thesis
      using stuck_run_leader[OF assms(2) leader_frame_other[OF pr_other(3,2) stuckD(3)[OF st] pr_other(4)]] by simp
  next
    case (pr_leader rf c a b pc)
    then have "leader_frame peer (ps_leader S) rf"
      by (simp add: leader_frame_def raft_inv_def)
    then show ?thesis
      unfolding pr_leader(1) by (rule stuck_run_leader[OF assms(2)])
  next
    case (pr_follower rf)
    have "stuck peer (ps_leader S) rf"
      using pr_follower stuckD(7)[OF st] by (intro stuck_follower[OF st]) auto
    then show ?thesis
      using assms(2) pr_follower by (simp add: stuck_run_def)
  qed (use assms(2) in \<open>auto simp: stuck_run_def\<close>)
qed

text \<open>
  (C37) A follower that has compacted its log past the leader's probe is not caught up. It answers
  the probe with its snapshot index, which lies above \<open>nextIndex\<close>; the leader only ever lowers
  \<open>nextIndex\<close>, so unless it knows an earlier index of the snapshot's term it leaves everything as
  it was and sends the same probe again. However many rounds of replication follow, whatever
  commands the leader accepts and other peers reply, and however messages and replies are delayed,
  reordered, repeated or lost: the follower's log stays as it is, every reply refuses, the leader
  counts no entry as replicated there, and its next message is again an \<open>AppendEntries\<close> with the
  same \<open>PrevLogIndex\<close> and never a snapshot. This lasts as long as the leader keeps its term and does
  not compact its log, and the follower keeps its log and learns of no other term.
\<close>

theorem compacted_follower_stuck:
  assumes "stuck peer lf ff"
    and "(pair_step peer)\<^sup>*\<^sup>* \<lparr>ps_leader = lf, ps_follower = ff, ps_sent = [], ps_replies = []\<rparr> S"
  shows "rlog (ps_follower S) = rlog ff \<and> (\<forall>(args, reply)\<in>set (ps_replies S). \<not> ar_Success reply) \<and>
    nextIndex (ps_leader S) ! nat peer = nextIndex lf ! nat peer \<and>
    matchIndex (ps_leader S) ! nat peer = matchIndex lf ! nat peer \<and>
    (\<exists>args. replicate_peer peer (ps_leader S) = Some ([SendAppend peer args], ps_leader S) \<and>
      aa_PrevLogIndex args = nextIndex lf ! nat peer - 1)"
proof -
  have "stuck_run peer lf ff S"
    using assms(2)
  proof (induction rule: rtranclp_induct)
    case base
    show ?case
      by (rule stuck_run_init[OF assms(1)])
  next
    case (step S S')
    show ?case
      by (rule stuck_run_step[OF step(2,3)])
  qed
  then show ?thesis
    using stuck_probe[of peer "ps_leader S" "ps_follower S"]
    by (auto simp: stuck_run_def rejection_def)
qed

text \<open>A whole round: probe, refusal and reply; then the next probe is the same.\<close>

theorem compacted_follower_stuck_witness:
  "\<exists>lf ff S args reply. stuck 1 lf ff \<and>
     (pair_step 1)\<^sup>*\<^sup>* \<lparr>ps_leader = lf, ps_follower = ff, ps_sent = [], ps_replies = []\<rparr> S \<and>
     ps_replies S = [(args, reply)] \<and> \<not> ar_Success reply \<and> aa_PrevLogIndex args = 0 \<and>
     handleAppendReply 2 1 args True reply (ps_leader S) = Some (ps_leader S) \<and>
     rlog (ps_follower S) = NewLog 2 1 [7] [mock_entry 1] \<and> nextIndex (ps_leader S) ! 1 = 1 \<and>
     (\<exists>args'. replicate_peer 1 (ps_leader S) = Some ([SendAppend 1 args'], ps_leader S :: (nat, nat) raft) \<and>
        aa_PrevLogIndex args' = 0)"
proof -
  let ?lf = "(Make 3 0 MakePersister :: (nat, nat) raft)\<lparr>role := Leader, currentTerm := 2,
      rlog := NewLog 0 0 [] [mock_entry 1, mock_entry 1, mock_entry 2], nextIndex := [4, 1, 4]\<rparr>"
  let ?ff = "(Make 3 1 MakePersister :: (nat, nat) raft)\<lparr>rlog := NewLog 2 1 [7] [mock_entry 1]\<rparr>"
  let ?S = "\<lparr>ps_leader = ?lf, ps_follower = ?ff, ps_sent = [], ps_replies = []\<rparr>"
  have st: "stuck 1 ?lf ?ff"
    by (simp add: stuck_def raft_inv_def Make_fresh log_firstFor_def NewLog_def mock_entry_def log_size_def log_inv_def)
  obtain sends lf1 args where r: "startReplication 2 ?lf = Some (True, sends, lf1)"
      "filter (\<lambda>m. send_to m = 1) sends = [SendAppend 1 args]" "aa_Term args = 2" "aa_PrevLogIndex args = 0"
    by (simp add: startReplication_def contextLostLocked_def Make_fresh eval_nat_numeral replicate_peer_def Let_def
        log_at_eq log_tail_eq log_size_def NewLog_def slice_set_def slice_get_def)
  let ?S1 = "?S\<lparr>ps_leader := lf1, ps_sent := [SendAppend 1 args]\<rparr>"
  have 1: "pair_step 1 ?S ?S1"
    using pr_round[of ?S True sends lf1 1] r(1,2) by simp
  obtain reply ff1 where a: "AppendEntries 0 0 args ?ff = Some (reply, ff1)"
    using AppendEntries_total[of 0 0 args ?ff] by fastforce
  let ?S2 = "?S1\<lparr>ps_follower := ff1, ps_replies := [(args, reply)]\<rparr>"
  have 2: "pair_step 1 ?S1 ?S2"
    using pr_append[of 1 args ?S1 0 0 reply ff1] a by simp
  have "stuck_run 1 ?lf ?ff ?S2"
    by (rule stuck_run_step[OF 2 stuck_run_step[OF 1 stuck_run_init[OF st]]])
  then have "handleAppendReply 2 1 args True reply lf1 = Some lf1"
    by (intro stuck_ignores[of 1 lf1 ff1]) (simp_all add: stuck_run_def rejection_def)
  then have 3: "pair_step 1 ?S2 ?S2"
    using pr_reply[of args reply ?S2 1 True lf1] r(3) by simp
  have "(pair_step 1)\<^sup>*\<^sup>* ?S ?S2"
    using 1 2 3 by (meson converse_rtranclp_into_rtranclp r_into_rtranclp)
  with r(4) st compacted_follower_stuck[OF st this] \<open>handleAppendReply 2 1 args True reply lf1 = Some lf1\<close> show ?thesis
    by (intro exI[of _ ?lf] exI[of _ ?ff] exI[of _ ?S2] exI[of _ args] exI[of _ reply]) (simp add: Make_fresh)
qed

end
