(* ===== verification/Raft_Application.thy ===== *)
theory Raft_Application
  imports Raft_Replication
begin

text \<open>
  The goroutine that hands committed entries to the service,
  \<^verbatim>\<open>src/src/raft/raft_application.go\<close>. It gives up the lock twice per round, in
  \<open>applyCond.Wait\<close> and while it sends on \<open>applyCh\<close>, so a round is several atomic steps and
  the handlers of the other theories may run in between.
\<close>

section \<open>The steps of the goroutine\<close>

record ('c, 'b) apply_msg =
  am_CommandValid :: bool
  am_Command :: "'c option"
  am_CommandIndex :: int
  am_SnapshotValid :: bool
  am_Snapshot :: "'b list"
  am_SnapshotTerm :: int
  am_SnapshotIndex :: int

text \<open>The loop that copies the entries \<open>i, \<dots>, i + n - 1\<close> out of the log.\<close>

fun collect_loop :: "('c, 'b) raft_log \<Rightarrow> int \<Rightarrow> nat \<Rightarrow> 'c log_entry list option" where
  "collect_loop rl i 0 = Some []"
| "collect_loop rl i (Suc n) = do {
     e \<leftarrow> log_at rl i;
     es \<leftarrow> collect_loop rl (i + 1) n;
     Some (e # es) }"

text \<open>From the wake-up to the first \<open>Unlock\<close>.\<close>

definition apply_collect :: "('c, 'b) raft \<Rightarrow> ('c, 'b) raft option" where
  "apply_collect rf =
     (if snapPending rf then Some (rf\<lparr>applier := ApplySnap False\<rparr>)
      else let rf = (if lastApplied rf < snapLastIdx (rlog rf)
                     then rf\<lparr>lastApplied := snapLastIdx (rlog rf)\<rparr> else rf);
               start = lastApplied rf + 1;
               end' = (if commitIndex rf \<ge> log_size (rlog rf) then log_size (rlog rf) - 1
                       else commitIndex rf)
           in do {
             entries \<leftarrow> collect_loop (rlog rf) start (nat (end' + 1 - start));
             Some (rf\<lparr>applier := ApplyEntries entries 0\<rparr>) })"

text \<open>One send on \<open>applyCh\<close>; the index and the snapshot are read without the lock.\<close>

definition apply_command_msg :: "('c, 'b) raft \<Rightarrow> 'c log_entry \<Rightarrow> nat \<Rightarrow> ('c, 'b) apply_msg" where
  "apply_command_msg rf e i =
     \<lparr>am_CommandValid = le_CommandValid e, am_Command = le_Command e,
      am_CommandIndex = lastApplied rf + 1 + int i, am_SnapshotValid = False,
      am_Snapshot = [], am_SnapshotTerm = 0, am_SnapshotIndex = 0\<rparr>"

definition apply_snapshot_msg :: "('c, 'b) raft \<Rightarrow> ('c, 'b) apply_msg" where
  "apply_snapshot_msg rf =
     \<lparr>am_CommandValid = False, am_Command = None, am_CommandIndex = 0, am_SnapshotValid = True,
      am_Snapshot = snapshot (rlog rf), am_SnapshotTerm = snapLastTerm (rlog rf),
      am_SnapshotIndex = snapLastIdx (rlog rf)\<rparr>"

text \<open>From the second \<open>Lock\<close> to the end of the round.\<close>

definition apply_finish_entries :: "nat \<Rightarrow> ('c, 'b) raft \<Rightarrow> ('c, 'b) raft" where
  "apply_finish_entries n rf = rf\<lparr>lastApplied := lastApplied rf + int n, applier := ApplyTop\<rparr>"

definition apply_finish_snapshot :: "('c, 'b) raft \<Rightarrow> ('c, 'b) raft" where
  "apply_finish_snapshot rf =
     (let rf = rf\<lparr>lastApplied := snapLastIdx (rlog rf)\<rparr>;
          rf = (if commitIndex rf < lastApplied rf then rf\<lparr>commitIndex := lastApplied rf\<rparr> else rf)
      in rf\<lparr>snapPending := False, applier := ApplyTop\<rparr>)"

text \<open>
  The next step of \<open>applicationTicker\<close> and the message it sends, if any. A parked
  goroutine has no step of its own, and neither has one that found the peer killed.
\<close>

definition applicationTicker_step ::
    "('c, 'b) raft \<Rightarrow> (('c, 'b) apply_msg option \<times> ('c, 'b) raft) option" where
  "applicationTicker_step rf =
     (case applier rf of
        ApplyTop \<Rightarrow> Some (None, if killed rf then rf else rf\<lparr>applier := ApplyParked\<rparr>)
      | ApplyParked \<Rightarrow> Some (None, rf)
      | ApplyWoken \<Rightarrow> map_option (Pair None) (apply_collect rf)
      | ApplyEntries es k \<Rightarrow>
          Some (if k < length es
                then (Some (apply_command_msg rf (es ! k) k), rf\<lparr>applier := ApplyEntries es (k + 1)\<rparr>)
                else (None, apply_finish_entries (length es) rf))
      | ApplySnap sent \<Rightarrow>
          Some (if \<not> sent then (Some (apply_snapshot_msg rf), rf\<lparr>applier := ApplySnap True\<rparr>)
                else (None, apply_finish_snapshot rf)))"

section \<open>What the steps keep\<close>

lemma apply_collect_frame:
  assumes "apply_collect rf = Some rf'"
  shows "rf' = rf\<lparr>lastApplied := lastApplied rf', applier := applier rf'\<rparr>"
  using assms by (auto simp: apply_collect_def Let_def split: if_splits)

lemma apply_collect_benign:
  assumes "apply_collect rf = Some rf'"
  shows "benign rf rf'"
proof -
  have "benign rf (rf\<lparr>lastApplied := l, applier := a\<rparr>)" for l a
    by (rule benign_volatile) simp_all
  then show ?thesis
    using apply_collect_frame[OF assms] by metis
qed

lemma apply_finish_benign [simp]:
  "benign rf (apply_finish_entries n rf)" "benign rf (apply_finish_snapshot rf)"
  by (rule benign_volatile; simp add: apply_finish_entries_def apply_finish_snapshot_def Let_def)+

lemma benign_applier [simp]: "benign rf (rf\<lparr>applier := a\<rparr>)"
  by (rule benign_volatile) simp_all

lemma applicationTicker_step_benign:
  "applicationTicker_step rf = Some (msg, rf') \<Longrightarrow> benign rf rf'"
  by (auto simp: applicationTicker_step_def apply_collect_benign
      split: apply_pc.splits if_splits)

lemma collect_loop_eq:
  "snapLastIdx rl \<le> i \<Longrightarrow> i + int n \<le> log_size rl \<Longrightarrow>
   collect_loop rl i n = Some (take n (drop (nat (i - snapLastIdx rl)) (tailLog rl)))"
proof (induction n arbitrary: i)
  case (Suc n)
  have lt: "nat (i - snapLastIdx rl) < length (tailLog rl)"
    using Suc.prems by (auto simp: log_size_def)
  have nat: "nat (i + 1 - snapLastIdx rl) = Suc (nat (i - snapLastIdx rl))"
    using Suc.prems by auto
  have "drop (nat (i - snapLastIdx rl)) (tailLog rl) =
      tailLog rl ! nat (i - snapLastIdx rl) # drop (nat (i + 1 - snapLastIdx rl)) (tailLog rl)"
    unfolding nat by (rule Cons_nth_drop_Suc[OF lt, symmetric])
  then show ?case
    using Suc.prems Suc.IH[of "i + 1"] by (simp add: log_at_eq)
qed simp

text \<open>The goroutine never panics: it only reads entries the log holds.\<close>

lemma applicationTicker_step_total:
  assumes "raft_inv rf"
  shows "\<exists>r. applicationTicker_step rf = Some r"
proof -
  have "\<exists>r. apply_collect rf = Some r"
  proof (cases "snapPending rf")
    case False
    let ?la = "max (lastApplied rf) (snapLastIdx (rlog rf))"
    let ?fin = "min (commitIndex rf) (log_size (rlog rf) - 1)"
    have "\<exists>es. collect_loop (rlog rf) (?la + 1) (nat (?fin - ?la)) = Some es"
    proof (cases "?la \<le> ?fin")
      case True
      then have "?la + 1 + int (nat (?fin - ?la)) \<le> log_size (rlog rf)"
        by linarith
      then show ?thesis
        using collect_loop_eq[of "rlog rf" "?la + 1" "nat (?fin - ?la)"] by simp
    next
      case False
      then have "nat (?fin - ?la) = 0"
        by linarith
      then show ?thesis
        by (metis collect_loop.simps(1))
    qed
    moreover have "(if commitIndex rf \<ge> log_size (rlog rf) then log_size (rlog rf) - 1
         else commitIndex rf) = ?fin"
      by simp
    ultimately show ?thesis
      using False by (auto simp: apply_collect_def Let_def max_def)
  qed (simp add: apply_collect_def)
  then show ?thesis
    by (auto simp: applicationTicker_step_def split: apply_pc.splits)
qed


section \<open>Runs of the goroutine among the handlers\<close>

text \<open>
  Steps of the other goroutines as the application goroutine sees them: they leave
  \<open>lastApplied\<close> alone and can at most wake it. \<open>d\<close> is the index the service has been taken to: it
  asks to compact the log only up to there. Every handler may run at any time, also while the
  goroutine has given up the lock to send.
\<close>

inductive other_step :: "int \<Rightarrow> ('c, 'b) raft \<Rightarrow> ('c, 'b) raft \<Rightarrow> bool" for d :: int where
  os_vote: "RequestVote now rnd va rf = (vr, rf') \<Longrightarrow> other_step d rf rf'"
| os_tick: "electionTicker_round now rf = (t, rf') \<Longrightarrow> other_step d rf rf'"
| os_vote_reply: "handleVoteReply t ok vr v rf = Some (b, v', rf') \<Longrightarrow> other_step d rf rf'"
| os_append: "AppendEntries now rnd aa rf = Some (ar, rf') \<Longrightarrow> other_step d rf rf'"
| os_append_reply: "handleAppendReply t p aa ok ar rf = Some rf' \<Longrightarrow> other_step d rf rf'"
| os_replicate: "startReplication t rf = Some (b, sends, rf') \<Longrightarrow> other_step d rf rf'"
| os_snap_reply: "handleSnapReply t p sa ok rt rf = Some rf' \<Longrightarrow> other_step d rf rf'"
| os_start: "Start cmd rf = (r, rf') \<Longrightarrow> other_step d rf rf'"
| os_kill: "other_step d rf (Kill rf)"
| os_compact: "Snapshot i snap rf = Some rf' \<Longrightarrow> i \<le> d \<Longrightarrow> other_step d rf rf'"
| os_install: "InstallSnapshot sa rf = Some (rt, rf') \<Longrightarrow> other_step d rf rf'"

text \<open>
  A step that replaces the snapshot after the goroutine has sent it and before the goroutine has
  recorded that.
\<close>

definition overtakes :: "('c, 'b) raft \<Rightarrow> ('c, 'b) raft \<Rightarrow> bool" where
  "overtakes rf rf' \<longleftrightarrow> applier rf = ApplySnap True \<and> snapLastIdx (rlog rf') \<noteq> snapLastIdx (rlog rf)"

text \<open>
  What such a step changes of the part the goroutine works on: nothing, except that the
  snapshot index may have grown to an index the service has reached, or that a new snapshot
  with a greater index is pending.
\<close>

definition app_keeps :: "int \<Rightarrow> ('c, 'b) raft \<Rightarrow> ('c, 'b) raft \<Rightarrow> bool" where
  "app_keeps d rf rf' \<longleftrightarrow> lastApplied rf' = lastApplied rf \<and>
     (applier rf' = applier rf \<or> applier rf = ApplyParked \<and> applier rf' = ApplyWoken) \<and>
     (snapPending rf' = snapPending rf \<and>
        (snapLastIdx (rlog rf') = snapLastIdx (rlog rf) \<or> snapLastIdx (rlog rf') \<le> d \<and>
           snapLastIdx (rlog rf) \<le> snapLastIdx (rlog rf')) \<or>
      snapPending rf' \<and> snapLastIdx (rlog rf) < snapLastIdx (rlog rf'))"

lemma app_keeps_same:
  "lastApplied rf' = lastApplied rf \<Longrightarrow> snapPending rf' = snapPending rf \<Longrightarrow>
   snapLastIdx (rlog rf') = snapLastIdx (rlog rf) \<Longrightarrow> applier rf' = applier rf \<Longrightarrow>
   app_keeps d rf rf'"
  by (simp add: app_keeps_def)

lemma applier_signalApply:
  "applier (signalApply rf) = applier rf \<or> applier rf = ApplyParked \<and> applier (signalApply rf) = ApplyWoken"
  by (simp add: signalApply_def)

lemma app_keeps_signal [simp]:
  "app_keeps d rf (signalApply (rf\<lparr>commitIndex := c\<rparr>))"
  using applier_signalApply[of "rf\<lparr>commitIndex := c\<rparr>"] by (simp add: app_keeps_def)

lemma app_keeps_before:
  "app_keeps d rf1 rf' \<Longrightarrow> lastApplied rf1 = lastApplied rf \<Longrightarrow> snapPending rf1 = snapPending rf \<Longrightarrow>
   snapLastIdx (rlog rf1) = snapLastIdx (rlog rf) \<Longrightarrow> applier rf1 = applier rf \<Longrightarrow> app_keeps d rf rf'"
  by (simp add: app_keeps_def)

lemma AppendEntries_app_keeps:
  assumes "AppendEntries now rnd args rf = Some (reply, rf')"
  shows "app_keeps d rf rf'"
  using assms
proof (cases rule: AppendEntries_cases)
  case (accept rl)
  have "snapLastIdx rl = snapLastIdx (rlog rf)"
    using accept(5) by (auto simp: log_appendFrom_eq split: if_splits)
  then show ?thesis
    using accept(6) applier_signalApply[of "(persistLocked (becomeFollowerLocked (aa_Term args) rf
        \<lparr>rlog := rl\<rparr>))\<lparr>commitIndex := aa_LeaderCommit args\<rparr>"]
    by (auto simp: app_keeps_def Let_def)
qed (simp_all add: app_keeps_same)

lemma handleAppendReply_app_keeps:
  assumes "handleAppendReply t p args ok reply rf = Some rf'"
  shows "app_keeps d rf rf'"
  using assms
proof (cases rule: handleAppendReply_cases)
  case (matched m)
  let ?r = "rf\<lparr>matchIndex := (matchIndex rf)[nat p := m], nextIndex := (nextIndex rf)[nat p := m + 1]\<rparr>"
  have "app_keeps d ?r rf'"
    using matched(8) by (cases rule: advanceCommit_cases) (simp_all add: app_keeps_same)
  then show ?thesis
    by (rule app_keeps_before) simp_all
qed (simp_all add: app_keeps_same)

lemma InstallSnapshot_app_keeps:
  assumes "InstallSnapshot args rf = Some (t, rf')"
  shows "app_keeps d rf rf'"
proof -
  have "app_keeps d rf (signalApply ((persistLocked ((becomeFollowerLocked u rf)\<lparr>rlog := rl\<rparr>))
      \<lparr>snapPending := True\<rparr>))" if "snapLastIdx (rlog rf) < snapLastIdx rl" for u rl
    using that applier_signalApply[of "(persistLocked ((becomeFollowerLocked u rf)\<lparr>rlog := rl\<rparr>))
      \<lparr>snapPending := True\<rparr>"] by (simp add: app_keeps_def)
  then show ?thesis
    using assms by (auto simp: InstallSnapshot_def log_installSnapshot_eq Let_def app_keeps_same split: if_splits)
qed

lemma Snapshot_app_keeps:
  assumes "Snapshot i snap rf = Some rf'" "i \<le> d"
  shows "app_keeps d rf rf'"
  using assms
  by (auto simp: Snapshot_def log_doSnapshot_eq app_keeps_def Let_def split: if_splits)

lemma startReplication_app_keeps:
  assumes "startReplication t rf = Some (b, sends, rf')"
  shows "app_keeps d rf rf'"
proof -
  obtain m n where "rf' = rf\<lparr>matchIndex := m, nextIndex := n\<rparr>"
    using startReplication_frame[OF assms] by blast
  then show ?thesis
    by (simp add: app_keeps_same)
qed

lemma other_step_app_keeps: "other_step d rf rf' \<Longrightarrow> app_keeps d rf rf'"
proof (induction rule: other_step.induct)
  case os_vote
  then show ?case
    by (intro app_keeps_same) (simp_all add: RequestVote_frame[OF os_vote])
next
  case os_tick
  then show ?case
    by (auto elim!: electionTicker_round_cases intro!: app_keeps_same)
next
  case os_vote_reply
  then show ?case
    by (auto simp: handleVoteReply_def Let_def app_keeps_same dest!: becomeLeaderLocked_stable
        split: if_splits)
next
  case os_snap_reply
  then show ?case
    by (auto simp: handleSnapReply_def app_keeps_same split: if_splits)
next
  case os_start
  then show ?case
    by (auto simp: Start_def log_append_def Let_def app_keeps_same split: if_splits)
next
  case os_kill
  show ?case
    by (simp add: Kill_def app_keeps_same)
qed (blast intro: AppendEntries_app_keeps handleAppendReply_app_keeps startReplication_app_keeps
    Snapshot_app_keeps InstallSnapshot_app_keeps)+

definition reached :: "int \<Rightarrow> ('c, 'b) apply_msg \<Rightarrow> int" where
  "reached d m = (if am_SnapshotValid m then am_SnapshotIndex m else am_CommandIndex m)"

text \<open>
  What happens between a peer and its service: the peer sends a message, or a snapshot that it
  has just sent is overtaken by a newer one, with the given index, which the bookkeeping after
  the send then takes for sent.
\<close>

datatype ('c, 'b) app_event = Sent "('c, 'b) apply_msg" | Overtaken int

inductive app_trace ::
    "('c, 'b) raft \<Rightarrow> ('c, 'b) app_event list \<Rightarrow> ('c, 'b) raft \<Rightarrow> int \<Rightarrow> bool" for rf0 :: "('c, 'b) raft"
  where
  at_start: "app_trace rf0 [] rf0 (lastApplied rf0)"
| at_other: "app_trace rf0 evs rf d \<Longrightarrow> other_step d rf rf' \<Longrightarrow> \<not> overtakes rf rf' \<Longrightarrow> app_trace rf0 evs rf' d"
| at_overtaken: "app_trace rf0 evs rf d \<Longrightarrow> other_step d rf rf' \<Longrightarrow> overtakes rf rf' \<Longrightarrow>
    app_trace rf0 (evs @ [Overtaken (snapLastIdx (rlog rf'))]) rf' (snapLastIdx (rlog rf'))"
| at_silent: "app_trace rf0 evs rf d \<Longrightarrow> applicationTicker_step rf = Some (None, rf') \<Longrightarrow> app_trace rf0 evs rf' d"
| at_send: "app_trace rf0 evs rf d \<Longrightarrow> applicationTicker_step rf = Some (Some m, rf') \<Longrightarrow>
    app_trace rf0 (evs @ [Sent m]) rf' (reached d m)"

text \<open>The runs in which no snapshot is overtaken, given by their messages.\<close>

definition app_run :: "('c, 'b) raft \<Rightarrow> ('c, 'b) apply_msg list \<Rightarrow> ('c, 'b) raft \<Rightarrow> int \<Rightarrow> bool" where
  "app_run rf0 ms rf d \<longleftrightarrow> app_trace rf0 (map Sent ms) rf d"

text \<open>
  A sequence of messages is gap-free from index \<open>d\<close> on when every command has the index
  after the one the service has reached; a snapshot takes the service to its own index.
\<close>

primrec gap_free :: "int \<Rightarrow> ('c, 'b) apply_msg list \<Rightarrow> bool" where
  "gap_free d [] = True"
| "gap_free d (m # ms) =
     ((am_SnapshotValid m \<or> am_CommandIndex m = d + 1) \<and> gap_free (reached d m) ms)"

text \<open>
  For all events: a newer snapshot can only overtake one that was just sent, as \<open>b\<close> says, and
  the sequence goes on behind the newer one.
\<close>

fun event_index :: "int \<Rightarrow> ('c, 'b) app_event \<Rightarrow> int" where
  "event_index d (Sent m) = reached d m"
| "event_index d (Overtaken k) = k"

fun after_snapshot :: "bool \<Rightarrow> ('c, 'b) app_event \<Rightarrow> bool" where
  "after_snapshot b (Sent m) = am_SnapshotValid m"
| "after_snapshot b (Overtaken k) = b"

fun event_ok :: "bool \<Rightarrow> int \<Rightarrow> ('c, 'b) app_event \<Rightarrow> bool" where
  "event_ok b d (Sent m) = (am_SnapshotValid m \<or> am_CommandIndex m = d + 1)"
| "event_ok b d (Overtaken k) = (b \<and> d < k)"

primrec gap_free_events :: "bool \<Rightarrow> int \<Rightarrow> ('c, 'b) app_event list \<Rightarrow> bool" where
  "gap_free_events b d [] = True"
| "gap_free_events b d (e # es) = (event_ok b d e \<and> gap_free_events (after_snapshot b e) (event_index d e) es)"

lemma gap_free_events_snoc:
  "gap_free_events b d (es @ [e]) \<longleftrightarrow>
     gap_free_events b d es \<and> event_ok (foldl after_snapshot b es) (foldl event_index d es) e"
  by (induction es arbitrary: b d) auto

lemma gap_free_events_Sent: "gap_free_events b d (map Sent ms) \<longleftrightarrow> gap_free d ms"
  by (induction ms arbitrary: b d) auto

lemma foldl_event_index_Sent: "foldl event_index d (map Sent ms) = foldl reached d ms"
  by (induction ms arbitrary: d) auto

text \<open>\<open>b\<close> says whether the last message was a snapshot.\<close>

definition app_inv :: "bool \<Rightarrow> int \<Rightarrow> ('c, 'b) raft \<Rightarrow> bool" where
  "app_inv b d rf \<longleftrightarrow>
     (case applier rf of
        ApplyEntries es k \<Rightarrow> d = lastApplied rf + int k \<and> k \<le> length es \<and>
          (snapPending rf \<or> snapLastIdx (rlog rf) \<le> d)
      | ApplySnap sent \<Rightarrow> d = (if sent then snapLastIdx (rlog rf) else lastApplied rf) \<and> (sent \<longrightarrow> b)
      | _ \<Rightarrow> d = lastApplied rf \<and> (snapPending rf \<or> snapLastIdx (rlog rf) \<le> d))"

lemma app_inv_keeps: "app_keeps d rf rf' \<Longrightarrow> \<not> overtakes rf rf' \<Longrightarrow> app_inv b d rf \<Longrightarrow> app_inv b d rf'"
  by (auto simp: app_keeps_def overtakes_def app_inv_def split: apply_pc.splits if_splits)

lemma app_inv_overtaken:
  assumes "app_keeps d rf rf'" "overtakes rf rf'" "app_inv b d rf"
  shows "app_inv b (snapLastIdx (rlog rf')) rf' \<and> b \<and> d < snapLastIdx (rlog rf')"
  using assms by (auto simp: app_keeps_def overtakes_def app_inv_def)

lemma app_inv_silent:
  assumes "applicationTicker_step rf = Some (None, rf')" "app_inv b d rf"
  shows "app_inv b d rf'"
  using assms
  by (auto simp: applicationTicker_step_def app_inv_def apply_collect_def apply_finish_entries_def
      apply_finish_snapshot_def Let_def split: apply_pc.splits if_splits)

lemma app_inv_send:
  assumes "applicationTicker_step rf = Some (Some m, rf')" "app_inv b d rf"
  shows "app_inv (am_SnapshotValid m) (reached d m) rf' \<and> (am_SnapshotValid m \<or> am_CommandIndex m = d + 1)"
  using assms
  by (auto simp: applicationTicker_step_def app_inv_def apply_command_msg_def apply_snapshot_msg_def
      reached_def split: apply_pc.splits if_splits)

lemma app_trace_inv:
  "app_trace rf0 evs rf d \<Longrightarrow> app_inv False (lastApplied rf0) rf0 \<Longrightarrow>
   app_inv (foldl after_snapshot False evs) d rf \<and> gap_free_events False (lastApplied rf0) evs \<and>
   d = foldl event_index (lastApplied rf0) evs"
proof (induction rule: app_trace.induct)
  case (at_other evs rf d rf')
  then show ?case
    using app_inv_keeps[OF other_step_app_keeps[OF at_other(2)]] by blast
next
  case (at_overtaken evs rf d rf')
  then show ?case
    using app_inv_overtaken[OF other_step_app_keeps[OF at_overtaken(2)] at_overtaken(3)]
    by (auto simp: gap_free_events_snoc)
next
  case (at_silent evs rf d rf')
  then show ?case
    using app_inv_silent by blast
next
  case (at_send evs rf d m rf')
  then show ?case
    using app_inv_send[OF at_send(2)] by (auto simp: gap_free_events_snoc)
qed simp

lemma app_run_inv:
  assumes "app_run rf0 ms rf d" "app_inv False (lastApplied rf0) rf0"
  shows "gap_free (lastApplied rf0) ms \<and> d = foldl reached (lastApplied rf0) ms"
  using app_trace_inv[OF assms(1)[unfolded app_run_def] assms(2)]
  by (simp add: gap_free_events_Sent foldl_event_index_Sent)

lemma app_inv_Make:
  assumes "ps = MakePersister \<or> ps = persister (persistLocked rf)"
  shows "app_inv False (lastApplied (Make n i ps)) (Make n i ps)"
  using assms by (auto simp: app_inv_def Make_fresh persistLocked_def Make_saved NewLog_def)

text \<open>A run of a fresh peer that receives one committed command from a leader and passes it on.\<close>

lemma app_run_one_command:
  fixes c :: 'c
  shows "\<exists>(m :: ('c, 'b) apply_msg) rf. app_run (Make 3 0 MakePersister) [m] rf 1 \<and>
    am_CommandValid m \<and> \<not> am_SnapshotValid m \<and> am_CommandIndex m = 1 \<and> am_Command m = Some c"
proof -
  let ?init = "Make 3 0 MakePersister :: ('c, 'b) raft"
  let ?e = "\<lparr>le_Term = 1, le_CommandValid = True, le_Command = Some c\<rparr>"
  let ?args = "\<lparr>aa_Term = 1, aa_LeaderId = 1, aa_PrevLogIndex = 0, aa_PrevLogTerm = 0,
      aa_Entries = [?e], aa_LeaderCommit = 1\<rparr>"
  let ?parked = "?init\<lparr>applier := ApplyParked\<rparr>"
  have 1: "app_trace ?init [] ?parked 0"
    using app_trace.at_silent[OF app_trace.at_start, of ?init ?parked]
    by (simp add: applicationTicker_step_def Make_fresh killed_def)
  obtain rf1 where r1: "AppendEntries 0 0 ?args ?parked = Some (\<lparr>ar_Term = 1, ar_Success = True,
      ar_ConfilictIndex = 0, ar_ConfilictTerm = 0\<rparr>, rf1)" "applier rf1 = ApplyWoken"
      "lastApplied rf1 = 0" "commitIndex rf1 = 1" "snapPending rf1 = False"
      "rlog rf1 = NewLog 0 0 [] [?e]"
    by (simp add: AppendEntries_def Make_fresh becomeFollowerLocked_def NewLog_def log_size_def
        log_at_eq log_appendFrom_eq signalApply_def persistLocked_def resetElectionTimerLocked_def)
  then have 2: "app_trace ?init [] rf1 0"
    using app_trace.at_other[OF 1 other_step.os_append[OF r1(1)]] by (simp add: overtakes_def)
  let ?busy = "rf1\<lparr>applier := ApplyEntries [?e] 0\<rparr>"
  have "applicationTicker_step rf1 = Some (None, ?busy)"
    using r1 by (simp add: applicationTicker_step_def apply_collect_def NewLog_def log_size_def log_at_eq)
  then have 3: "app_trace ?init [] ?busy 0"
    using app_trace.at_silent[OF 2] by blast
  have "applicationTicker_step ?busy = Some (Some (apply_command_msg ?busy ?e 0),
      rf1\<lparr>applier := ApplyEntries [?e] 1\<rparr>)"
    by (simp add: applicationTicker_step_def)
  note 4 = app_trace.at_send[OF 3 this]
  then show ?thesis
    using r1(3)
    by (intro exI[of _ "apply_command_msg ?busy ?e 0"] exI[of _ "rf1\<lparr>applier := ApplyEntries [?e] 1\<rparr>"])
      (auto simp: app_run_def apply_command_msg_def reached_def)
qed

text \<open>A run of a fresh peer that sends a snapshot of index 5 while one of index 9 is installed.\<close>

lemma app_trace_overtaken:
  "\<exists>(m :: ('c, 'b) apply_msg) rf. app_trace (Make 3 0 MakePersister) [Sent m, Overtaken 9] rf 9 \<and>
    am_SnapshotValid m \<and> am_SnapshotIndex m = 5"
proof -
  let ?init = "Make 3 0 MakePersister :: ('c, 'b) raft"
  let ?args = "\<lambda>k. \<lparr>sa_Term = 1, sa_LeaderId = 1, sa_LastIncludedIndex = k, sa_LastIncludedTerm = 1, sa_Snapshot = []\<rparr>"
  let ?parked = "?init\<lparr>applier := ApplyParked\<rparr>"
  have 1: "app_trace ?init [] ?parked 0"
    using app_trace.at_silent[OF app_trace.at_start, of ?init ?parked]
    by (simp add: applicationTicker_step_def Make_fresh killed_def)
  obtain rf1 where r1: "InstallSnapshot (?args 5) ?parked = Some (1, rf1)" "applier rf1 = ApplyWoken"
      "snapPending rf1" "snapLastIdx (rlog rf1) = 5" "currentTerm rf1 = 1"
    by (simp add: InstallSnapshot_def Make_fresh becomeFollowerLocked_def NewLog_def log_installSnapshot_eq
        signalApply_def persistLocked_def)
  then have 2: "app_trace ?init [] rf1 0"
    using app_trace.at_other[OF 1 other_step.os_install[OF r1(1)]] by (simp add: overtakes_def)
  have 3: "app_trace ?init [] (rf1\<lparr>applier := ApplySnap False\<rparr>) 0"
    using r1 by (intro app_trace.at_silent[OF 2]) (simp add: applicationTicker_step_def apply_collect_def)
  let ?sent = "rf1\<lparr>applier := ApplySnap True\<rparr>"
  let ?m = "apply_snapshot_msg (rf1\<lparr>applier := ApplySnap False\<rparr>)"
  have step: "applicationTicker_step (rf1\<lparr>applier := ApplySnap False\<rparr>) = Some (Some ?m, ?sent)"
    by (simp add: applicationTicker_step_def)
  have m: "am_SnapshotValid ?m" "am_SnapshotIndex ?m = 5"
    using r1(4) by (simp_all add: apply_snapshot_msg_def)
  have 4: "app_trace ?init [Sent ?m] ?sent 5"
    using app_trace.at_send[OF 3 step] m by (simp add: reached_def)
  obtain rt rf2 where r2: "InstallSnapshot (?args 9) ?sent = Some (rt, rf2)" "overtakes ?sent rf2" "snapLastIdx (rlog rf2) = 9"
    using r1 by (simp add: InstallSnapshot_def log_installSnapshot_eq overtakes_def Let_def)
  then show ?thesis
    using app_trace.at_overtaken[OF 4 other_step.os_install[OF r2(1)] r2(2)] m by auto
qed



text \<open>
  A woken goroutine with no snapshot pending takes exactly the committed entries the
  service has not seen: those behind \<open>lastApplied\<close> up to the commit index, as far as the
  log goes, in log order.
\<close>

lemma applicationTicker_collects:
  assumes L: "represents L (rlog rf)" and pc: "applier rf = ApplyWoken" "\<not> snapPending rf"
    and la: "snapLastIdx (rlog rf) \<le> lastApplied rf"
  shows "applicationTicker_step rf = Some (None, rf\<lparr>applier := ApplyEntries
    (drop (nat (lastApplied rf) + 1) (take (nat (commitIndex rf) + 1) L)) 0\<rparr>)"
proof -
  let ?la = "lastApplied rf" and ?fin = "min (commitIndex rf) (log_size (rlog rf) - 1)"
  let ?n = "nat (?fin - ?la)"
  have 0: "0 \<le> ?la" and size: "log_size (rlog rf) = int (length L)"
    using la representsD(1)[OF L] represents_size[OF L] by (auto simp: log_inv_def)
  have eq: "drop (nat ?la + 1) (take (nat (commitIndex rf) + 1) L) = take ?n (drop (nat ?la + 1) L)"
  proof (cases "?la < int (length L)")
    case True
    have "nat (commitIndex rf) - nat ?la = nat (commitIndex rf - ?la)"
      using 0 by simp
    then show ?thesis
      using 0 True by (cases "commitIndex rf < int (length L)") (auto simp: drop_take size nat_diff_distrib')
  qed simp
  have "collect_loop (rlog rf) (?la + 1) ?n = Some (take ?n (drop (nat ?la + 1) L))"
  proof (cases "?la < ?fin")
    case True
    have "nat (?la + 1) = nat ?la + 1"
      using 0 by simp
    then show ?thesis
      using True la collect_loop_eq[of "rlog rf" "?la + 1" ?n] represents_drop[OF L, of "?la + 1"]
      by simp
  next
    case False
    then have "?n = 0"
      by linarith
    then show ?thesis
      by (metis collect_loop.simps(1) take0)
  qed
  then show ?thesis
    using pc la eq
    by (cases "commitIndex rf < log_size (rlog rf)")
      (simp_all add: applicationTicker_step_def apply_collect_def Let_def min_def)
qed

section \<open>Two shortcomings\<close>

text \<open>
  (C39) A wake-up that arrives while the goroutine is sending is lost. When the commit index
  rises during a batch, the goroutine finishes the batch, waits on \<open>applyCond\<close> again without
  looking at the commit index, and stays parked with committed entries not delivered until
  some later commit signals it again.
\<close>

theorem signal_during_batch_lost:
  assumes "applier rf = ApplyEntries es (length es)" "\<not> killed rf"
    and "AppendEntries now rnd args rf = Some (reply, rf1)" "ar_Success reply"
    and "lastApplied rf + int (length es) < aa_LeaderCommit args"
  shows "\<exists>rf2 rf3. applicationTicker_step rf1 = Some (None, rf2) \<and>
    applicationTicker_step rf2 = Some (None, rf3) \<and> lastApplied rf3 < commitIndex rf3 \<and>
    applicationTicker_step rf3 = Some (None, rf3)"
proof -
  have 1: "applier rf1 = ApplyEntries es (length es)" "lastApplied rf1 = lastApplied rf"
    using AppendEntries_app_keeps[OF assms(3)] assms(1) by (auto simp: app_keeps_def)
  have 2: "commitIndex rf1 \<ge> aa_LeaderCommit args" "dead rf1 = dead rf"
    using assms(3)
    by (cases rule: AppendEntries_cases; use assms(4) in \<open>auto simp: Let_def signalApply_def
        becomeFollowerLocked_def\<close>)+
  show ?thesis
    using 1 2 assms(2,5)
    by (simp add: applicationTicker_step_def apply_finish_entries_def killed_def)
qed

theorem signal_during_batch_lost_witness:
  "\<exists>rf1 rf2 rf3. AppendEntries 0 0 \<lparr>aa_Term = 1, aa_LeaderId = 1, aa_PrevLogIndex = 1,
       aa_PrevLogTerm = 1, aa_Entries = [mock_entry 1], aa_LeaderCommit = 2\<rparr>
       ((Make 3 0 MakePersister :: (nat, nat) raft)\<lparr>rlog := NewLog 0 0 [] [mock_entry 1],
          applier := ApplyEntries [mock_entry 1] 1\<rparr>) = Some rf1 \<and>
     applicationTicker_step (snd rf1) = Some (None, rf2) \<and>
     applicationTicker_step rf2 = Some (None, rf3) \<and> lastApplied rf3 < commitIndex rf3"
proof -
  let ?rf = "(Make 3 0 MakePersister :: (nat, nat) raft)\<lparr>rlog := NewLog 0 0 [] [mock_entry 1],
          applier := ApplyEntries [mock_entry 1] 1\<rparr>"
  let ?args = "\<lparr>aa_Term = 1, aa_LeaderId = 1, aa_PrevLogIndex = 1,
       aa_PrevLogTerm = 1, aa_Entries = [mock_entry 1], aa_LeaderCommit = 2\<rparr> :: nat append_args"
  have rep: "represents [mock_entry 0, mock_entry 1] (rlog ?rf)"
    using represents_NewLog[of 0 "[mock_entry 1]" "[]"] by simp
  obtain reply rf1 where r: "AppendEntries 0 0 ?args ?rf = Some (reply, rf1)" "ar_Success reply"
    using AppendEntries_accepts[OF rep, of ?args 0 0] by (auto simp: Make_fresh NewLog_def)
  show ?thesis
    using signal_during_batch_lost[OF _ _ r] r by (fastforce simp: Make_fresh killed_def)
qed

text \<open>
  A snapshot can be skipped. When the leader's next snapshot arrives while the goroutine
  is sending the previous one, the bookkeeping after the send takes the new snapshot's index
  for applied and clears \<open>snapPending\<close>: the service never gets the new snapshot and the
  commands between the two are never delivered.
\<close>

lemma snapshot_during_send_skipped:
  assumes "applier rf = ApplySnap True"
    and "currentTerm rf \<le> sa_Term args" "snapLastIdx (rlog rf) < sa_LastIncludedIndex args"
  shows "\<exists>rt rf1 rf2. InstallSnapshot args rf = Some (rt, rf1) \<and>
    snapshot (rlog rf1) = sa_Snapshot args \<and> snapPending rf1 \<and>
    applicationTicker_step rf1 = Some (None, rf2) \<and> applier rf2 = ApplyTop \<and>
    lastApplied rf2 = sa_LastIncludedIndex args \<and> \<not> snapPending rf2 \<and> overtakes rf rf1"
  using assms
  by (simp add: InstallSnapshot_def log_installSnapshot_eq applicationTicker_step_def
      apply_finish_snapshot_def signalApply_def overtakes_def Let_def)

end
