(* ===== verification/Election_Safety.thy ===== *)
theory Election_Safety
  imports Raft_Application
begin

text \<open>
  Clusters of peers that elect leaders, and the theorem that a term has at most one leader.

  The cluster is generic in the peer: \<open>peer_ops\<close> lists the operations a peer offers, and
  \<open>cluster_step\<close> lets any peer take any step at any time. Vote requests are RPC calls: request
  and reply may be delayed, reordered and lost, and a handler may execute a request repeatedly,
  before and after the execution that answers the call; the goroutine that made the call takes
  one reply. A crash replaces a peer by one restarted from its
  stable storage and ends all its goroutines. Every step that has no part in elections is an
  arbitrary \<open>p_quiet\<close> step, whatever the messages that cause it.

  The locale \<open>election_peer\<close> states what the proof needs of a peer. It is interpreted below
  for the peers of \<^verbatim>\<open>raft.go\<close>.
\<close>

section \<open>Clusters\<close>

record 's peer_ops =
  p_id :: "'s \<Rightarrow> int"
  p_term :: "'s \<Rightarrow> int"
  p_vote :: "'s \<Rightarrow> int"
  p_role :: "'s \<Rightarrow> role"
  p_inv :: "'s \<Rightarrow> bool"
  p_tick :: "int \<Rightarrow> int \<Rightarrow> 's \<Rightarrow> int option \<times> 's"
  p_elect :: "int \<Rightarrow> int \<Rightarrow> int \<Rightarrow> 's \<Rightarrow> (int \<times> (int \<times> vote_args) list) \<times> 's"
  p_request :: "int \<Rightarrow> int \<Rightarrow> vote_args \<Rightarrow> 's \<Rightarrow> vote_reply \<times> 's"
  p_reply :: "int \<Rightarrow> vote_reply \<Rightarrow> int \<Rightarrow> 's \<Rightarrow> (bool \<times> int \<times> 's) option"
  p_claim :: "int \<Rightarrow> 's \<Rightarrow> 's option"
  p_quiet :: "'s \<Rightarrow> 's \<Rightarrow> bool"
  p_restart :: "'s \<Rightarrow> 's"

datatype vote_call = Asked vote_args | Answered vote_reply

text \<open>
  \<open>spawned\<close> holds the elections whose goroutine has not run yet, \<open>tally\<close> the vote counter
  the goroutines of one election share, \<open>calls\<close> the vote requests under way, by candidate,
  term and callee, and \<open>claims\<close> the elections that have been counted as won but whose
  candidate has not yet taken its lock again to become leader.
\<close>

record 's cluster =
  peers :: "int \<Rightarrow> 's"
  spawned :: "(int \<times> int) set"
  tally :: "int \<times> int \<Rightarrow> int"
  calls :: "int \<times> int \<times> int \<Rightarrow> vote_call option"
  claims :: "(int \<times> int) set"

abbreviation peer_ids :: "nat \<Rightarrow> int set" where
  "peer_ids n \<equiv> {0..<int n}"

abbreviation set_peer :: "int \<Rightarrow> 's \<Rightarrow> 's cluster \<Rightarrow> 's cluster" where
  "set_peer i s c \<equiv> c\<lparr>peers := (peers c)(i := s)\<rparr>"

definition place_calls ::
    "int \<Rightarrow> int \<Rightarrow> (int \<times> vote_args) list \<Rightarrow> (int \<times> int \<times> int \<Rightarrow> vote_call option) \<Rightarrow>
     int \<times> int \<times> int \<Rightarrow> vote_call option" where
  "place_calls i t cs m = (\<lambda>(x, u, q).
     if x = i \<and> u = t then
       (case map_of cs q of None \<Rightarrow> m (x, u, q) | Some a \<Rightarrow> Some (Asked a))
     else m (x, u, q))"

text \<open>
  \<open>request\<close> is the execution of a request whose reply goes to the caller, \<open>repeated\<close> any other
  execution of a request, with arguments that somebody once sent or with any others.
\<close>

inductive cluster_step :: "'s peer_ops \<Rightarrow> nat \<Rightarrow> 's cluster \<Rightarrow> 's cluster \<Rightarrow> bool"
  for P :: "'s peer_ops" and n :: nat
  where
  tick: "i \<in> peer_ids n \<Longrightarrow> p_tick P now rnd (peers c i) = (None, s) \<Longrightarrow>
    cluster_step P n c (set_peer i s c)"
| timeout: "i \<in> peer_ids n \<Longrightarrow> p_tick P now rnd (peers c i) = (Some t, s) \<Longrightarrow>
    cluster_step P n c ((set_peer i s c)\<lparr>spawned := insert (i, t) (spawned c)\<rparr>)"
| elect: "(i, t) \<in> spawned c \<Longrightarrow> p_elect P now rnd t (peers c i) = ((v, cs), s) \<Longrightarrow>
    cluster_step P n c ((set_peer i s c)\<lparr>spawned := spawned c - {(i, t)},
      tally := (tally c)((i, t) := v), calls := place_calls i t cs (calls c)\<rparr>)"
| request: "calls c (i, t, p) = Some (Asked a) \<Longrightarrow> p_request P now rnd a (peers c p) = (r, s) \<Longrightarrow>
    cluster_step P n c ((set_peer p s c)\<lparr>calls := (calls c)((i, t, p) := Some (Answered r))\<rparr>)"
| repeated: "p \<in> peer_ids n \<Longrightarrow> p_request P now rnd a (peers c p) = (r, s) \<Longrightarrow> cluster_step P n c (set_peer p s c)"
| reply: "calls c (i, t, p) = Some (Answered r) \<Longrightarrow>
    p_reply P t r (tally c (i, t)) (peers c i) = Some (b, v, s) \<Longrightarrow>
    cluster_step P n c ((set_peer i s c)\<lparr>tally := (tally c)((i, t) := v),
      calls := (calls c)((i, t, p) := None),
      claims := (if b then insert (i, t) (claims c) else claims c)\<rparr>)"
| lost: "cluster_step P n c (c\<lparr>calls := (calls c)(k := None)\<rparr>)"
| claim: "(i, t) \<in> claims c \<Longrightarrow> p_claim P t (peers c i) = Some s \<Longrightarrow>
    cluster_step P n c ((set_peer i s c)\<lparr>claims := claims c - {(i, t)}\<rparr>)"
| quiet: "i \<in> peer_ids n \<Longrightarrow> p_quiet P (peers c i) s \<Longrightarrow> cluster_step P n c (set_peer i s c)"
| crash: "i \<in> peer_ids n \<Longrightarrow>
    cluster_step P n c ((set_peer i (p_restart P (peers c i)) c)\<lparr>
      spawned := {k \<in> spawned c. fst k \<noteq> i}, claims := {k \<in> claims c. fst k \<noteq> i},
      calls := (\<lambda>k. if fst k = i then None else calls c k)\<rparr>)"

definition start_cluster :: "(int \<Rightarrow> 's) \<Rightarrow> 's cluster" where
  "start_cluster s0 = \<lparr>peers = s0, spawned = {}, tally = (\<lambda>_. 0), calls = (\<lambda>_. None), claims = {}\<rparr>"

inductive cluster_reachable :: "'s peer_ops \<Rightarrow> nat \<Rightarrow> (int \<Rightarrow> 's) \<Rightarrow> 's cluster \<Rightarrow> bool"
  for P :: "'s peer_ops" and n :: nat and s0 :: "int \<Rightarrow> 's"
  where
  start: "cluster_reachable P n s0 (start_cluster s0)"
| step: "cluster_reachable P n s0 c \<Longrightarrow> cluster_step P n c c' \<Longrightarrow> cluster_reachable P n s0 c'"

section \<open>What an electing peer must satisfy\<close>

text \<open>
  A step is vote-keeping when the term never falls, a vote cast in a term is never changed
  in that term, and the peer does not become candidate or leader.
\<close>

definition vote_keeping :: "'s peer_ops \<Rightarrow> 's \<Rightarrow> 's \<Rightarrow> bool" where
  "vote_keeping P s s' \<longleftrightarrow> p_id P s' = p_id P s \<and>
     (p_inv P s \<longrightarrow> p_inv P s') \<and> p_term P s \<le> p_term P s' \<and>
     (p_term P s' = p_term P s \<longrightarrow> p_vote P s \<noteq> -1 \<longrightarrow> p_vote P s' = p_vote P s) \<and>
     (p_role P s' \<noteq> Follower \<longrightarrow> p_term P s' = p_term P s \<and> p_role P s' = p_role P s)"

locale election_peer =
  fixes P :: "'s peer_ops" and n :: nat
  assumes tick_idle: "p_inv P s \<Longrightarrow> p_tick P now rnd s = (None, s') \<Longrightarrow> vote_keeping P s s'"
    and tick_timeout: "p_inv P s \<Longrightarrow> p_tick P now rnd s = (Some t, s') \<Longrightarrow>
      p_id P s' = p_id P s \<and> p_inv P s' \<and> p_term P s < t \<and> p_term P s' = t \<and>
      p_vote P s' = p_id P s \<and> p_role P s' = Candidate"
    and elect_calls: "p_inv P s \<Longrightarrow> p_elect P now rnd t s = ((v, cs), s') \<Longrightarrow>
      vote_keeping P s s' \<and> (cs \<noteq> [] \<longrightarrow> v \<le> 1) \<and>
      (\<forall>(q, a) \<in> set cs. q \<in> peer_ids n \<and> q \<noteq> p_id P s \<and>
         va_Term a = t \<and> va_CandidateId a = p_id P s)"
    and request_granted: "p_inv P s \<Longrightarrow> p_request P now rnd a s = (r, s') \<Longrightarrow> vr_VoteGranted r \<Longrightarrow>
      p_term P s' = va_Term a \<and> p_vote P s' = va_CandidateId a"
    and request_keeps: "p_inv P s \<Longrightarrow> p_request P now rnd a s = (r, s') \<Longrightarrow> vote_keeping P s s'"
    and reply_counts: "p_inv P s \<Longrightarrow> p_reply P t r v s = Some (b, v', s') \<Longrightarrow>
      v' = v \<and> \<not> b \<and> vote_keeping P s s' \<or>
      v' = v + 1 \<and> vr_VoteGranted r \<and> p_id P s' = p_id P s \<and> p_inv P s' \<and>
        p_term P s' = p_term P s \<and> p_vote P s' = p_vote P s \<and>
        (p_role P s' = p_role P s \<or> p_role P s' = Leader \<and> p_term P s = t \<and> int n < 2 * v') \<and>
        (b \<longrightarrow> int n < 2 * v')"
    and claim_wins: "p_inv P s \<Longrightarrow> p_claim P t s = Some s' \<Longrightarrow>
      p_id P s' = p_id P s \<and> p_inv P s' \<and> p_term P s' = p_term P s \<and> p_vote P s' = p_vote P s \<and>
      (p_role P s' = p_role P s \<or> p_role P s' = Leader \<and> p_term P s = t)"
    and quiet_keeps: "p_inv P s \<Longrightarrow> p_quiet P s s' \<Longrightarrow> vote_keeping P s s'"
    and restart_keeps: "p_inv P s \<Longrightarrow>
      p_id P (p_restart P s) = p_id P s \<and> p_inv P (p_restart P s) \<and>
      p_term P (p_restart P s) = p_term P s \<and> p_vote P (p_restart P s) = p_vote P s \<and>
      p_role P (p_restart P s) = Follower"

section \<open>The invariant\<close>

text \<open>
  The proof keeps two histories that the program does not store: \<open>G\<close>, the votes ever cast,
  as triples of voter, term and candidate, and \<open>K\<close>, for each election the voters whose
  replies have been counted.
\<close>

definition voters :: "(int \<times> int \<times> int) set \<Rightarrow> int \<times> int \<Rightarrow> int set" where
  "voters G e = {v. (v, snd e, fst e) \<in> G}"

definition has_quorum :: "nat \<Rightarrow> (int \<times> int \<times> int) set \<Rightarrow> int \<times> int \<Rightarrow> bool" where
  "has_quorum n G e \<longleftrightarrow> int n < 2 * int (card (voters G e))"

definition inv_peers :: "'s peer_ops \<Rightarrow> nat \<Rightarrow> 's cluster \<Rightarrow> bool" where
  "inv_peers P n c \<longleftrightarrow> (\<forall>i \<in> peer_ids n. p_inv P (peers c i) \<and> p_id P (peers c i) = i)"

definition inv_votes :: "'s peer_ops \<Rightarrow> nat \<Rightarrow> 's cluster \<Rightarrow> (int \<times> int \<times> int) set \<Rightarrow> bool" where
  "inv_votes P n c G \<longleftrightarrow>
     (\<forall>v t x. (v, t, x) \<in> G \<longrightarrow>
        v \<in> peer_ids n \<and> x \<in> peer_ids n \<and> t \<le> p_term P (peers c v) \<and>
        (t = p_term P (peers c v) \<longrightarrow> p_vote P (peers c v) = x)) \<and>
     (\<forall>v t x y. (v, t, x) \<in> G \<longrightarrow> (v, t, y) \<in> G \<longrightarrow> x = y)"

definition inv_counts :: "'s peer_ops \<Rightarrow> nat \<Rightarrow> 's cluster \<Rightarrow> (int \<times> int \<times> int) set \<Rightarrow>
    (int \<times> int \<Rightarrow> int set) \<Rightarrow> bool" where
  "inv_counts P n c G K \<longleftrightarrow> (\<forall>e. K e \<subseteq> voters G e) \<and>
     (\<forall>x t. p_term P (peers c x) < t \<longrightarrow> K (x, t) = {})"

definition call_ok :: "(int \<times> int \<times> int) set \<Rightarrow> int \<Rightarrow> int \<Rightarrow> int \<Rightarrow> vote_call \<Rightarrow> bool" where
  "call_ok G x t p cl =
     (case cl of Asked a \<Rightarrow> va_Term a = t \<and> va_CandidateId a = x
      | Answered r \<Rightarrow> vr_VoteGranted r \<longrightarrow> (p, t, x) \<in> G)"

definition inv_calls :: "'s peer_ops \<Rightarrow> nat \<Rightarrow> 's cluster \<Rightarrow> (int \<times> int \<times> int) set \<Rightarrow>
    (int \<times> int \<Rightarrow> int set) \<Rightarrow> bool" where
  "inv_calls P n c G K \<longleftrightarrow> (\<forall>x t p cl. calls c (x, t, p) = Some cl \<longrightarrow>
     x \<in> peer_ids n \<and> p \<in> peer_ids n \<and> t \<le> p_term P (peers c x) \<and> p \<notin> K (x, t) \<and>
     tally c (x, t) \<le> int (card (K (x, t))) \<and> call_ok G x t p cl)"

definition inv_spawned :: "nat \<Rightarrow> 's cluster \<Rightarrow> (int \<times> int \<times> int) set \<Rightarrow>
    (int \<times> int \<Rightarrow> int set) \<Rightarrow> bool" where
  "inv_spawned n c G K \<longleftrightarrow> (\<forall>x t. (x, t) \<in> spawned c \<longrightarrow>
     (x, t, x) \<in> G \<and> K (x, t) = {} \<and> (\<forall>p. calls c (x, t, p) = None))"

definition inv_wins :: "'s peer_ops \<Rightarrow> nat \<Rightarrow> 's cluster \<Rightarrow> (int \<times> int \<times> int) set \<Rightarrow> bool" where
  "inv_wins P n c G \<longleftrightarrow> (\<forall>e \<in> claims c. fst e \<in> peer_ids n \<and> has_quorum n G e) \<and>
     (\<forall>i \<in> peer_ids n. p_role P (peers c i) = Leader \<longrightarrow> has_quorum n G (i, p_term P (peers c i)))"

definition election_inv :: "'s peer_ops \<Rightarrow> nat \<Rightarrow> 's cluster \<Rightarrow> (int \<times> int \<times> int) set \<Rightarrow>
    (int \<times> int \<Rightarrow> int set) \<Rightarrow> bool" where
  "election_inv P n c G K \<longleftrightarrow> inv_peers P n c \<and> inv_votes P n c G \<and> inv_counts P n c G K \<and>
     inv_calls P n c G K \<and> inv_spawned n c G K \<and> inv_wins P n c G"

lemmas election_invD = election_inv_def[THEN iffD1]

lemmas inv_defs = inv_peers_def inv_votes_def inv_counts_def inv_calls_def inv_spawned_def
  inv_wins_def

lemma voters_finite: "inv_votes P n c G \<Longrightarrow> finite (voters G e) \<and> voters G e \<subseteq> peer_ids n"
  by (rule conjI, rule finite_subset[of _ "peer_ids n"]) (auto simp: voters_def inv_votes_def)

lemma quorum_mono:
  assumes "has_quorum n G e" "G \<subseteq> G'" "inv_votes P n c G'"
  shows "has_quorum n G' e"
proof -
  have "card (voters G e) \<le> card (voters G' e)"
    using assms(2) voters_finite[OF assms(3)] by (intro card_mono) (auto simp: voters_def)
  then show ?thesis
    using assms(1) by (simp add: has_quorum_def)
qed

text \<open>Two elections of the same term that both have a quorum have the same candidate.\<close>

lemma quorums_agree:
  assumes "inv_votes P n c G" "has_quorum n G (x, t)" "has_quorum n G (y, t)"
  shows "x = y"
proof -
  have "voters G (x, t) \<inter> voters G (y, t) \<noteq> {}"
    using assms(2,3) voters_finite[OF assms(1)]
    by (intro majorities_meet[of "peer_ids n"]) (auto simp: has_quorum_def)
  then obtain v where "(v, t, x) \<in> G" "(v, t, y) \<in> G"
    by (auto simp: voters_def)
  then show ?thesis
    using assms(1) unfolding inv_votes_def by blast
qed

text \<open>Replacing one peer keeps the invariant if its votes and its leadership stay justified.\<close>

lemma inv_set_peer:
  assumes inv: "election_inv P n c G K" and i: "i \<in> peer_ids n"
    and s: "p_inv P s" "p_id P s = i" "p_term P (peers c i) \<le> p_term P s"
    and votes: "\<And>t x. (i, t, x) \<in> G \<Longrightarrow> t = p_term P s \<Longrightarrow> p_vote P s = x"
    and wins: "p_role P s = Leader \<Longrightarrow> has_quorum n G (i, p_term P s)"
  shows "election_inv P n (set_peer i s c) G K"
proof -
  have "inv_votes P n (set_peer i s c) G"
    using inv s votes unfolding election_inv_def inv_votes_def by fastforce
  moreover have "inv_calls P n (set_peer i s c) G K"
    using inv s unfolding election_inv_def inv_calls_def by fastforce
  moreover have "inv_counts P n (set_peer i s c) G K"
    using inv s by (auto simp: election_inv_def inv_counts_def)
  ultimately show ?thesis
    using inv s wins by (auto simp: election_inv_def inv_peers_def inv_spawned_def inv_wins_def)
qed

lemma inv_vote_keeping:
  assumes inv: "election_inv P n c G K" and i: "i \<in> peer_ids n"
    and s: "vote_keeping P (peers c i) s"
  shows "election_inv P n (set_peer i s c) G K"
proof (rule inv_set_peer[OF inv i])
  have p: "p_inv P (peers c i)" "p_id P (peers c i) = i"
    using inv i by (auto simp: election_inv_def inv_peers_def)
  show "p_inv P s" "p_id P s = i" "p_term P (peers c i) \<le> p_term P s"
    using s p by (auto simp: vote_keeping_def)
  show "p_vote P s = x" if "(i, t, x) \<in> G" "t = p_term P s" for t x
  proof -
    have "x \<in> peer_ids n" "t \<le> p_term P (peers c i)"
      "t = p_term P (peers c i) \<longrightarrow> p_vote P (peers c i) = x"
      using inv that by (auto simp: election_inv_def inv_votes_def)
    then show ?thesis
      using s that(2) by (auto simp: vote_keeping_def)
  qed
  show "has_quorum n G (i, p_term P s)" if "p_role P s = Leader"
    using inv s i that by (auto simp: election_inv_def inv_wins_def vote_keeping_def)
qed

text \<open>Recording a vote the peer holds.\<close>

lemma inv_record_vote:
  assumes inv: "election_inv P n c G K" and i: "i \<in> peer_ids n" and x: "x \<in> peer_ids n"
    and v: "p_vote P (peers c i) = x" "p_term P (peers c i) = t"
  shows "election_inv P n c (insert (i, t, x) G) K"
proof -
  let ?G = "insert (i, t, x) G"
  have votes: "inv_votes P n c ?G"
    using inv i x v unfolding election_inv_def inv_votes_def by fastforce
  have q: "has_quorum n G e \<Longrightarrow> has_quorum n ?G e" for e
    using quorum_mono[OF _ _ votes] by blast
  have "inv_counts P n c ?G K"
    using inv by (auto simp: election_inv_def inv_counts_def voters_def)
  moreover have "inv_calls P n c ?G K"
    using inv unfolding election_inv_def inv_calls_def call_ok_def
    by (auto split: vote_call.splits)
  ultimately show ?thesis
    using inv votes q unfolding election_inv_def inv_spawned_def inv_wins_def by blast
qed

lemma inv_callD:
  assumes "election_inv P n c G K" "calls c (x, t, p) = Some cl"
  shows "x \<in> peer_ids n" "p \<in> peer_ids n" "t \<le> p_term P (peers c x)" "p \<notin> K (x, t)"
    "tally c (x, t) \<le> int (card (K (x, t)))" "call_ok G x t p cl"
  using assms unfolding election_inv_def inv_calls_def by blast+

text \<open>Dropping calls, spawned elections or claims keeps the invariant.\<close>

lemma inv_drop:
  assumes inv: "election_inv P n c G K" and p: "peers c' = peers c"
    and sub: "spawned c' \<subseteq> spawned c" "claims c' \<subseteq> claims c" "tally c' = tally c"
    and calls: "\<And>k. calls c' k = None \<or> calls c' k = calls c k"
  shows "election_inv P n c' G K"
proof -
  have "inv_calls P n c' G K"
    unfolding inv_calls_def p sub(3)
  proof (intro allI impI)
    fix x t q cl
    assume "calls c' (x, t, q) = Some cl"
    then have "calls c (x, t, q) = Some cl"
      using calls[of "(x, t, q)"] by simp
    from inv_callD[OF inv this]
    show "x \<in> peer_ids n \<and> q \<in> peer_ids n \<and> t \<le> p_term P (peers c x) \<and> q \<notin> K (x, t) \<and>
        tally c (x, t) \<le> int (card (K (x, t))) \<and> call_ok G x t q cl"
      by (intro conjI)
  qed
  moreover have "inv_spawned n c' G K"
  proof -
    have "(x, t, x) \<in> G \<and> K (x, t) = {} \<and> (\<forall>q. calls c' (x, t, q) = None)"
      if "(x, t) \<in> spawned c'" for x t
    proof -
      have "(x, t, x) \<in> G" "K (x, t) = {}" "\<And>q. calls c (x, t, q) = None"
        using inv that sub(1) unfolding election_inv_def inv_spawned_def by blast+
      then show ?thesis
        using calls by (metis (full_types))
    qed
    then show ?thesis
      by (auto simp: inv_spawned_def)
  qed
  moreover have "inv_wins P n c' G"
    using inv sub(2) p unfolding election_inv_def inv_wins_def by auto
  ultimately show ?thesis
    using inv p by (simp add: election_inv_def inv_peers_def inv_votes_def inv_counts_def)
qed

context election_peer
begin

lemma peers_ok:
  "election_inv P n c G K \<Longrightarrow> i \<in> peer_ids n \<Longrightarrow> p_inv P (peers c i) \<and> p_id P (peers c i) = i"
  by (simp add: election_inv_def inv_peers_def)

lemma step_timeout:
  assumes inv: "election_inv P n c G K" and i: "i \<in> peer_ids n"
    and tick: "p_tick P now rnd (peers c i) = (Some t, s)"
  shows "election_inv P n ((set_peer i s c)\<lparr>spawned := insert (i, t) (spawned c)\<rparr>)
    (insert (i, t, i) G) K"
proof -
  have ok: "p_inv P (peers c i)" "p_id P (peers c i) = i"
    using peers_ok[OF inv i] by auto
  have s: "p_id P s = i" "p_inv P s" "p_term P (peers c i) < t" "p_term P s = t"
      "p_vote P s = i" "p_role P s = Candidate"
    using tick_timeout[OF ok(1) tick] ok(2) by auto
  have fresh: "(i, t, x) \<notin> G" for x
    using inv s(3) unfolding election_inv_def inv_votes_def by fastforce
  have 1: "election_inv P n (set_peer i s c) G K"
    by (rule inv_set_peer[OF inv i]) (use s fresh in auto)
  have 2: "election_inv P n (set_peer i s c) (insert (i, t, i) G) K"
    by (rule inv_record_vote[OF 1 i i]) (use s in auto)
  have "K (i, t) = {}"
    using inv s(3) by (auto simp: election_inv_def inv_counts_def)
  moreover have "calls c (i, t, p) = None" for p
    using inv_callD(3)[OF inv, of i t p] s(3) by (cases "calls c (i, t, p)") auto
  ultimately show ?thesis
    using 2 by (auto simp: election_inv_def inv_defs)
qed

lemma step_elect:
  assumes inv: "election_inv P n c G K" and sp: "(i, t) \<in> spawned c"
    and el: "p_elect P now rnd t (peers c i) = ((v, cs), s)"
  shows "\<exists>K'. election_inv P n ((set_peer i s c)\<lparr>spawned := spawned c - {(i, t)},
      tally := (tally c)((i, t) := v), calls := place_calls i t cs (calls c)\<rparr>) G K'"
proof -
  have own: "(i, t, i) \<in> G" "K (i, t) = {}" "\<And>p. calls c (i, t, p) = None"
    using inv sp by (auto simp: election_inv_def inv_spawned_def)
  have i: "i \<in> peer_ids n" and t: "t \<le> p_term P (peers c i)"
    using inv own(1) by (auto simp: election_inv_def inv_votes_def)
  have ok: "p_inv P (peers c i)" "p_id P (peers c i) = i"
    using peers_ok[OF inv i] by auto
  have keep: "vote_keeping P (peers c i) s" and v: "cs \<noteq> [] \<longrightarrow> v \<le> 1"
    and cs: "\<And>q a. (q, a) \<in> set cs \<Longrightarrow> q \<in> peer_ids n \<and> q \<noteq> i \<and> va_Term a = t \<and> va_CandidateId a = i"
    using elect_calls[OF ok(1) el] ok(2) by auto
  have 1: "election_inv P n (set_peer i s c) G K"
    by (rule inv_vote_keeping[OF inv i keep])
  let ?K = "K((i, t) := {i})"
  let ?c = "(set_peer i s c)\<lparr>spawned := spawned c - {(i, t)},
      tally := (tally c)((i, t) := v), calls := place_calls i t cs (calls c)\<rparr>"
  have "inv_counts P n ?c G ?K"
    using 1 own(1) t keep by (auto simp: election_inv_def inv_counts_def voters_def vote_keeping_def)
  moreover have "inv_calls P n ?c G ?K"
  proof -
    have old: "inv_calls P n (set_peer i s c) G K"
      using 1 by (simp add: election_inv_def)
    have new: "q \<in> peer_ids n \<and> q \<noteq> i \<and> va_Term a = t \<and> va_CandidateId a = i \<and> v \<le> 1"
      if "map_of cs q = Some a" for q a
      using cs[OF map_of_SomeD[OF that]] v map_of_SomeD[OF that] by auto
    have t': "t \<le> p_term P s"
      using t keep by (simp add: vote_keeping_def)
    show ?thesis
      unfolding inv_calls_def
    proof (intro allI impI)
      fix x u p cl
      assume cl: "calls ?c (x, u, p) = Some cl"
      show "x \<in> peer_ids n \<and> p \<in> peer_ids n \<and> u \<le> p_term P (peers ?c x) \<and> p \<notin> ?K (x, u) \<and>
        tally ?c (x, u) \<le> int (card (?K (x, u))) \<and> call_ok G x u p cl"
      proof (cases "x = i \<and> u = t")
        case True
        then obtain a where "map_of cs p = Some a" "cl = Asked a"
          using cl own(3) by (auto simp: place_calls_def split: option.splits)
        then show ?thesis
          using new True i t' by (simp add: call_ok_def)
      next
        case False
        then have "calls (set_peer i s c) (x, u, p) = Some cl"
          using cl by (auto simp: place_calls_def split: if_splits)
        then show ?thesis
          using old False unfolding inv_calls_def by auto
      qed
    qed
  qed
  moreover have "inv_spawned n ?c G ?K"
    using 1 by (auto simp: election_inv_def inv_spawned_def place_calls_def)
  ultimately have "election_inv P n ?c G ?K"
    using 1 by (auto simp: election_inv_def inv_peers_def inv_votes_def inv_wins_def)
  then show ?thesis
    by blast
qed

lemma step_request:
  assumes inv: "election_inv P n c G K" and call: "calls c (i, t, p) = Some (Asked a)"
    and req: "p_request P now rnd a (peers c p) = (r, s)"
  shows "\<exists>G'. G \<subseteq> G' \<and> election_inv P n
    ((set_peer p s c)\<lparr>calls := (calls c)((i, t, p) := Some (Answered r))\<rparr>) G' K"
proof -
  have c: "i \<in> peer_ids n" "p \<in> peer_ids n" "va_Term a = t" "va_CandidateId a = i"
    using inv_callD[OF inv call] by (auto simp: call_ok_def)
  have ok: "p_inv P (peers c p)"
    using peers_ok[OF inv c(2)] by auto
  have 1: "election_inv P n (set_peer p s c) G K"
    by (rule inv_vote_keeping[OF inv c(2) request_keeps[OF ok req]])
  define G' where "G' = (if vr_VoteGranted r then insert (p, t, i) G else G)"
  have 2: "election_inv P n (set_peer p s c) G' K"
    using inv_record_vote[OF 1 c(2,1)] request_granted[OF ok req] c 1 by (auto simp: G'_def)
  have "inv_calls P n ((set_peer p s c)\<lparr>calls := (calls c)((i, t, p) := Some (Answered r))\<rparr>) G' K"
    unfolding inv_calls_def
  proof (intro allI impI)
    fix x u q cl
    let ?c = "(set_peer p s c)\<lparr>calls := (calls c)((i, t, p) := Some (Answered r))\<rparr>"
    assume cl: "calls ?c (x, u, q) = Some cl"
    then have old: "\<exists>cl'. calls (set_peer p s c) (x, u, q) = Some cl'"
      using call by (auto split: if_splits)
    have "call_ok G' x u q cl"
      using cl 2 by (auto simp: election_inv_def inv_calls_def call_ok_def G'_def split: if_splits)
    then show "x \<in> peer_ids n \<and> q \<in> peer_ids n \<and> u \<le> p_term P (peers ?c x) \<and> q \<notin> K (x, u) \<and>
        tally ?c (x, u) \<le> int (card (K (x, u))) \<and> call_ok G' x u q cl"
      using old 2 unfolding election_inv_def inv_calls_def by fastforce
  qed
  moreover have "inv_spawned n ((set_peer p s c)\<lparr>calls := (calls c)((i, t, p) := Some (Answered r))\<rparr>) G' K"
    using 2 call unfolding election_inv_def inv_spawned_def by fastforce
  ultimately have "election_inv P n
      ((set_peer p s c)\<lparr>calls := (calls c)((i, t, p) := Some (Answered r))\<rparr>) G' K"
    using 2 by (auto simp: election_inv_def inv_peers_def inv_votes_def inv_counts_def inv_wins_def)
  moreover have "G \<subseteq> G'"
    by (auto simp: G'_def)
  ultimately show ?thesis
    by blast
qed

text \<open>The calls after a granted vote of \<open>p\<close> was counted for the candidacy \<open>(i, t)\<close>.\<close>

lemma inv_calls_counted:
  assumes 1: "election_inv P n c G K" and card: "card (insert p (K (i, t))) = card (K (i, t)) + 1"
    and v: "v = tally c (i, t) + 1" "tally c (i, t) \<le> int (card (K (i, t)))"
  shows "inv_calls P n (c\<lparr>tally := (tally c)((i, t) := v), calls := (calls c)((i, t, p) := None), claims := cs\<rparr>) G
    (K((i, t) := insert p (K (i, t))))"
  unfolding inv_calls_def
proof (intro allI impI)
  let ?c = "c\<lparr>tally := (tally c)((i, t) := v), calls := (calls c)((i, t, p) := None), claims := cs\<rparr>"
  let ?K = "K((i, t) := insert p (K (i, t)))"
  fix x u q cl'
  assume "calls ?c (x, u, q) = Some cl'"
  then have old: "calls c (x, u, q) = Some cl'" and ne: "(x, u, q) \<noteq> (i, t, p)"
    by (auto split: if_splits)
  have "tally ?c (x, u) \<le> int (card (?K (x, u)))"
    using inv_callD(5)[OF 1 old] card v by auto
  then show "x \<in> peer_ids n \<and> q \<in> peer_ids n \<and> u \<le> p_term P (peers ?c x) \<and> q \<notin> ?K (x, u) \<and>
      tally ?c (x, u) \<le> int (card (?K (x, u))) \<and> call_ok G x u q cl'"
    using inv_callD[OF 1 old] ne by auto
qed

lemma step_reply:
  assumes inv: "election_inv P n c G K" and call: "calls c (i, t, p) = Some (Answered r)"
    and rep: "p_reply P t r (tally c (i, t)) (peers c i) = Some (b, v, s)"
  shows "\<exists>K'. election_inv P n ((set_peer i s c)\<lparr>tally := (tally c)((i, t) := v),
      calls := (calls c)((i, t, p) := None),
      claims := (if b then insert (i, t) (claims c) else claims c)\<rparr>) G K'"
proof -
  let ?c = "(set_peer i s c)\<lparr>tally := (tally c)((i, t) := v),
      calls := (calls c)((i, t, p) := None),
      claims := (if b then insert (i, t) (claims c) else claims c)\<rparr>"
  note cl = inv_callD[OF inv call]
  have ok: "p_inv P (peers c i)" "p_id P (peers c i) = i"
    using peers_ok[OF inv cl(1)] by auto
  show ?thesis
  proof (cases "v = tally c (i, t)")
    case True
    then have v: "v = tally c (i, t)" "\<not> b" "vote_keeping P (peers c i) s"
      using reply_counts[OF ok(1) rep] by auto
    have "election_inv P n (set_peer i s c) G K"
      by (rule inv_vote_keeping[OF inv cl(1) v(3)])
    then have "election_inv P n ?c G K"
      by (rule inv_drop) (use v(1,2) in auto)
    then show ?thesis
      by blast
  next
    case False
    then have v: "v = tally c (i, t) + 1" "vr_VoteGranted r" and s: "p_id P s = p_id P (peers c i)"
      "p_inv P s" "p_term P s = p_term P (peers c i)" "p_vote P s = p_vote P (peers c i)"
      and won: "p_role P s = p_role P (peers c i) \<or>
        p_role P s = Leader \<and> p_term P (peers c i) = t \<and> int n < 2 * v"
      and b: "b \<longrightarrow> int n < 2 * v"
      using reply_counts[OF ok(1) rep] by auto
    let ?K = "K((i, t) := insert p (K (i, t)))"
    have votes: "inv_votes P n c G" and sub: "\<And>e. K e \<subseteq> voters G e"
      using inv by (auto simp: election_inv_def inv_counts_def)
    have pG: "p \<in> voters G (i, t)"
      using cl(6) v(2) by (simp add: call_ok_def voters_def)
    have fin: "finite (K (i, t))"
      by (rule finite_subset[OF sub conjunct1[OF voters_finite[OF votes]]])
    have card: "card (?K (i, t)) = card (K (i, t)) + 1"
      using fin cl(4) by simp
    have le: "card (?K (i, t)) \<le> card (voters G (i, t))"
      using conjunct1[OF voters_finite[OF votes]] sub[of "(i, t)"] pG by (intro card_mono) auto
    have q: "int n < 2 * v \<Longrightarrow> has_quorum n G (i, t)"
      using card le cl(5) v(1) by (simp add: has_quorum_def)
    have 1: "election_inv P n (set_peer i s c) G K"
    proof (rule inv_set_peer[OF inv cl(1)])
      show "p_vote P s = x" if "(i, u, x) \<in> G" "u = p_term P s" for u x
        using votes that s by (auto simp: inv_votes_def)
      show "has_quorum n G (i, p_term P s)" if "p_role P s = Leader"
        using won that q inv s(3) cl(1) by (auto simp: election_inv_def inv_wins_def)
    qed (use s ok in auto)
    have "inv_calls P n ?c G ?K"
      using inv_calls_counted[OF 1, of p i t v] card cl(5) v(1) by simp
    moreover have "inv_counts P n ?c G ?K"
      using 1 pG cl(3) s(3) by (auto simp: election_inv_def inv_counts_def)
    moreover have "inv_spawned n ?c G ?K"
      using 1 call by (auto simp: election_inv_def inv_spawned_def)
    moreover have "inv_wins P n ?c G"
      using 1 b q cl(1) by (auto simp: election_inv_def inv_wins_def)
    ultimately have "election_inv P n ?c G ?K"
      using 1 by (auto simp: election_inv_def inv_peers_def inv_votes_def)
    then show ?thesis
      by blast
  qed
qed

lemma step_claim:
  assumes inv: "election_inv P n c G K" and cl: "(i, t) \<in> claims c"
    and win: "p_claim P t (peers c i) = Some s"
  shows "election_inv P n ((set_peer i s c)\<lparr>claims := claims c - {(i, t)}\<rparr>) G K"
proof -
  have q: "i \<in> peer_ids n" "has_quorum n G (i, t)"
    using inv cl by (auto simp: election_inv_def inv_wins_def)
  have ok: "p_inv P (peers c i)" "p_id P (peers c i) = i"
    using peers_ok[OF inv q(1)] by auto
  have s: "p_id P s = i" "p_inv P s" "p_term P s = p_term P (peers c i)"
      "p_vote P s = p_vote P (peers c i)"
      "p_role P s = p_role P (peers c i) \<or> p_role P s = Leader \<and> p_term P (peers c i) = t"
    using claim_wins[OF ok(1) win] ok(2) by auto
  have "election_inv P n (set_peer i s c) G K"
  proof (rule inv_set_peer[OF inv q(1)])
    show "p_vote P s = x" if "(i, u, x) \<in> G" "u = p_term P s" for u x
      using inv that s by (auto simp: election_inv_def inv_votes_def)
    show "has_quorum n G (i, p_term P s)" if "p_role P s = Leader"
      using that q s inv by (auto simp: election_inv_def inv_wins_def)
  qed (use s in auto)
  then show ?thesis
    by (rule inv_drop) auto
qed

lemma step_crash:
  assumes inv: "election_inv P n c G K" and i: "i \<in> peer_ids n"
  shows "election_inv P n ((set_peer i (p_restart P (peers c i)) c)\<lparr>
      spawned := {k \<in> spawned c. fst k \<noteq> i}, claims := {k \<in> claims c. fst k \<noteq> i},
      calls := (\<lambda>k. if fst k = i then None else calls c k)\<rparr>) G K"
proof -
  let ?s = "p_restart P (peers c i)"
  have ok: "p_inv P (peers c i)" "p_id P (peers c i) = i"
    using peers_ok[OF inv i] by auto
  note s = restart_keeps[OF ok(1)]
  have "election_inv P n (set_peer i ?s c) G K"
  proof (rule inv_set_peer[OF inv i])
    show "p_vote P ?s = x" if "(i, u, x) \<in> G" "u = p_term P ?s" for u x
      using inv that s by (auto simp: election_inv_def inv_votes_def)
  qed (use s ok in auto)
  then show ?thesis
    by (rule inv_drop) auto
qed

lemma step_lost:
  "election_inv P n c G K \<Longrightarrow> election_inv P n (c\<lparr>calls := (calls c)(k := None)\<rparr>) G K"
  by (erule inv_drop) auto

text \<open>Every step of the cluster keeps the invariant, and never forgets a vote.\<close>

lemma step_inv:
  assumes "cluster_step P n c c'" "election_inv P n c G K"
  shows "\<exists>G' K'. G \<subseteq> G' \<and> election_inv P n c' G' K'"
  using assms
proof (cases rule: cluster_step.cases)
  case (tick i now rnd s)
  have "vote_keeping P (peers c i) s"
    by (rule tick_idle[OF conjunct1[OF peers_ok[OF assms(2) tick(2)]] tick(3)])
  from inv_vote_keeping[OF assms(2) tick(2) this] show ?thesis
    unfolding tick(1) by blast
next
  case (timeout i now rnd t s)
  from step_timeout[OF assms(2) timeout(2,3)] show ?thesis
    unfolding timeout(1) by blast
next
  case (elect i t now rnd v cs s)
  from step_elect[OF assms(2) elect(2,3)] show ?thesis
    unfolding elect(1) by blast
next
  case (request i t p a now rnd r s)
  from step_request[OF assms(2) request(2,3)] show ?thesis
    unfolding request(1) by blast
next
  case (repeated p now rnd a r s)
  have "vote_keeping P (peers c p) s"
    by (rule request_keeps[OF conjunct1[OF peers_ok[OF assms(2) repeated(2)]] repeated(3)])
  from inv_vote_keeping[OF assms(2) repeated(2) this] show ?thesis
    unfolding repeated(1) by blast
next
  case (reply i t p r b v s)
  from step_reply[OF assms(2) reply(2,3)] show ?thesis
    unfolding reply(1) by blast
next
  case (lost k)
  from step_lost[OF assms(2)] show ?thesis
    unfolding lost(1) by blast
next
  case (claim i t s)
  from step_claim[OF assms(2) claim(2,3)] show ?thesis
    unfolding claim(1) by blast
next
  case (quiet i s)
  have "vote_keeping P (peers c i) s"
    by (rule quiet_keeps[OF conjunct1[OF peers_ok[OF assms(2) quiet(2)]] quiet(3)])
  from inv_vote_keeping[OF assms(2) quiet(2) this] show ?thesis
    unfolding quiet(1) by blast
next
  case (crash i)
  from step_crash[OF assms(2) crash(2)] show ?thesis
    unfolding crash(1) by blast
qed

lemma start_inv:
  assumes "\<And>i. i \<in> peer_ids n \<Longrightarrow> p_inv P (s0 i) \<and> p_id P (s0 i) = i \<and> p_role P (s0 i) = Follower"
  shows "election_inv P n (start_cluster s0) {} (\<lambda>_. {})"
  using assms by (auto simp: election_inv_def inv_defs start_cluster_def voters_def)

lemma reachable_inv:
  assumes "cluster_reachable P n s0 c"
    and "\<And>i. i \<in> peer_ids n \<Longrightarrow> p_inv P (s0 i) \<and> p_id P (s0 i) = i \<and> p_role P (s0 i) = Follower"
  shows "\<exists>G K. election_inv P n c G K"
  using assms(1)
proof (induction rule: cluster_reachable.induct)
  case start
  then show ?case
    using start_inv[OF assms(2)] by blast
next
  case (step c c')
  then show ?case
    using step_inv by blast
qed

lemma one_leader_per_term:
  assumes "cluster_reachable P n s0 c"
    and "\<And>i. i \<in> peer_ids n \<Longrightarrow> p_inv P (s0 i) \<and> p_id P (s0 i) = i \<and> p_role P (s0 i) = Follower"
    and "i \<in> peer_ids n" "j \<in> peer_ids n"
    and "p_role P (peers c i) = Leader" "p_role P (peers c j) = Leader"
    and "p_term P (peers c i) = p_term P (peers c j)"
  shows "i = j"
proof -
  obtain G K where inv: "election_inv P n c G K"
    using reachable_inv[OF assms(1,2)] by blast
  then have "inv_votes P n c G" "has_quorum n G (i, p_term P (peers c i))"
    "has_quorum n G (j, p_term P (peers c i))"
    using assms(3-7) by (auto simp: election_inv_def inv_wins_def)
  then show ?thesis
    by (rule quorums_agree)
qed

end

end
