(* ===== verification/Raft_Cluster.thy ===== *)
theory Raft_Cluster
  imports Election_Safety
begin

text \<open>
  Clusters of the peers of \<^verbatim>\<open>src/src/raft/raft.go\<close>: the interpretation of the
  election interface by \<open>electionTicker\<close>, \<open>startElection\<close>, \<open>RequestVote\<close> and the handling
  of vote replies, with every other operation of a peer as a step that may happen at any
  time with any arguments.
\<close>

section \<open>The steps of a peer outside elections\<close>

inductive raft_other :: "('c, 'b) raft \<Rightarrow> ('c, 'b) raft \<Rightarrow> bool" where
  append: "AppendEntries now rnd args rf = Some (reply, rf') \<Longrightarrow> raft_other rf rf'"
| append_reply: "handleAppendReply t peer args ok reply rf = Some rf' \<Longrightarrow> raft_other rf rf'"
| replicate: "startReplication t rf = Some (b, sends, rf') \<Longrightarrow> raft_other rf rf'"
| install: "InstallSnapshot sargs rf = Some (rt, rf') \<Longrightarrow> raft_other rf rf'"
| install_reply: "handleSnapReply t peer sargs ok rt rf = Some rf' \<Longrightarrow> raft_other rf rf'"
| snapshot: "Snapshot i snap rf = Some rf' \<Longrightarrow> raft_other rf rf'"
| start: "raft_other rf (snd (Start cmd rf))"
| application: "applicationTicker_step rf = Some (msg, rf') \<Longrightarrow> raft_other rf rf'"
| kill: "raft_other rf (Kill rf)"

lemma raft_other_benign: "raft_other rf rf' \<Longrightarrow> benign rf rf'"
  by (induction rule: raft_other.induct)
    (auto intro: AppendEntries_benign handleAppendReply_benign startReplication_benign
      InstallSnapshot_benign handleSnapReply_benign Snapshot_benign Start_benign
      applicationTicker_step_benign benign_volatile simp: Kill_def)

text \<open>
  (C16) No operation of a peer ever leaves term, vote or log ahead of stable storage: if a
  peer restarted now would come up with the term, vote and log it has in memory, then so
  would it after any step, whether a vote, an election, an append, a snapshot or an
  application step. Together with a fresh or restarted peer being durable, a crash between
  any two steps loses nothing of the three.
\<close>

theorem every_step_durable:
  assumes "durable rf"
  shows "(\<forall>now rnd args. durable (snd (RequestVote now rnd args rf))) \<and>
    (\<forall>now. durable (snd (electionTicker_round now rf))) \<and>
    (\<forall>t ok reply v b v' rf'. handleVoteReply t ok reply v rf = Some (b, v', rf') \<longrightarrow> durable rf') \<and>
    (\<forall>rf'. raft_other rf rf' \<longrightarrow> durable rf') \<and>
    stable (restart rf) = stable rf"
proof (intro conjI allI impI)
  show "durable (snd (RequestVote now rnd args rf))" for now rnd args
    using RequestVote_durable[OF _ assms] by (metis prod.collapse)
  show "durable (snd (electionTicker_round now rf))" for now
    using assms by (simp add: electionTicker_round_def Let_def)
  show "durable rf'" if "handleVoteReply t ok reply v rf = Some (b, v', rf')" for t ok reply v b v' rf'
    by (rule handleVoteReply_durable[OF that assms])
  show "durable rf'" if "raft_other rf rf'" for rf'
    using raft_other_benign[OF that] assms by (simp add: benign_def)
  show "stable (restart rf) = stable rf"
    using assms by (simp add: durable_def)
qed

theorem every_step_durable_witness:
  "durable (snd (electionTicker_round 1 (Make 3 0 MakePersister :: (nat, nat) raft)))"
  using every_step_durable[OF durable_Make[of 3 0 "MakePersister :: (nat, nat) persister"]]
  by blast

section \<open>Clusters of raft peers\<close>

definition raft_ops :: "nat \<Rightarrow> ('c, 'b) raft peer_ops" where
  "raft_ops n =
     \<lparr>p_id = me, p_term = currentTerm, p_vote = votedFor, p_role = role,
      p_inv = (\<lambda>rf. raft_inv rf \<and> durable rf \<and> npeers rf = n),
      p_tick = (\<lambda>now rnd. electionTicker_round now),
      p_elect = (\<lambda>now rnd t rf. (startElection t rf, rf)),
      p_request = RequestVote,
      p_reply = (\<lambda>t r v rf. map_option (\<lambda>(b, v, rf). (False, v, rf)) (handleVoteReply t True r v rf)),
      p_claim = (\<lambda>t rf. Some rf),
      p_quiet = raft_other,
      p_restart = restart\<rparr>"

lemma raft_ops_simps [simp]:
  "p_id (raft_ops n) = me" "p_term (raft_ops n) = currentTerm" "p_vote (raft_ops n) = votedFor"
  "p_role (raft_ops n) = role"
  "p_inv (raft_ops n) rf \<longleftrightarrow> raft_inv rf \<and> durable rf \<and> npeers rf = n"
  "p_tick (raft_ops n) now rnd = electionTicker_round now"
  "p_elect (raft_ops n) now rnd t rf = (startElection t rf, rf)"
  "p_request (raft_ops n) = RequestVote"
  "p_reply (raft_ops n) t r v rf =
     map_option (\<lambda>(b, v, rf). (False, v, rf)) (handleVoteReply t True r v rf)"
  "p_claim (raft_ops n) t rf = Some rf"
  "p_quiet (raft_ops n) = raft_other" "p_restart (raft_ops n) = restart"
  by (simp_all add: raft_ops_def)

lemma benign_vote_keeping: "benign rf rf' \<Longrightarrow> vote_keeping (raft_ops n) rf rf'"
  by (auto simp: benign_def quiet_def vote_keeping_def split: if_splits)

lemma RequestVote_vote_keeping:
  assumes "RequestVote now rnd args rf = (reply, rf')"
  shows "vote_keeping (raft_ops n) rf rf'"
proof (cases "vr_VoteGranted reply")
  case True
  note g = RequestVote_grantedD[OF assms True]
  have "role rf' \<noteq> Follower \<Longrightarrow> currentTerm rf' = currentTerm rf \<and> role rf' = role rf"
    using g by (cases "currentTerm rf < va_Term args") auto
  then show ?thesis
    using g RequestVote_frame[OF assms] RequestVote_durable[OF assms]
    by (auto simp: vote_keeping_def)
next
  case False
  then have "benign rf rf'"
    using RequestVote_refusedD[OF assms] RequestVote_frame(10)[OF assms] RequestVote_durable[OF assms]
    by (simp add: benign_def)
  then show ?thesis
    by (rule benign_vote_keeping)
qed

lemma raft_inv_restart:
  assumes "raft_inv rf" "durable rf"
  shows "raft_inv (restart rf)"
  using assms by (simp add: raft_inv_def durable_def)

lemma handleVoteReply_law:
  assumes inv: "raft_inv rf" "durable rf"
    and rep: "handleVoteReply t True r v rf = Some (b, v', rf')"
  shows "v' = v \<and> benign rf rf' \<or>
    v' = v + 1 \<and> vr_VoteGranted r \<and> me rf' = me rf \<and> npeers rf' = npeers rf \<and>
      currentTerm rf' = currentTerm rf \<and> votedFor rf' = votedFor rf \<and>
      (role rf' = role rf \<or> role rf' = Leader \<and> currentTerm rf = t \<and> int (npeers rf) < 2 * v')"
  using rep
proof (cases rule: handleVoteReply_cases)
  case quiet
  then show ?thesis
    using handleVoteReply_inv[OF rep inv(1)] handleVoteReply_durable[OF rep inv(2)]
    by (simp add: benign_def)
next
  case counted
  then show ?thesis
    by simp
next
  case won
  then have "int (npeers rf) < 2 * v'"
    by presburger
  moreover have "role rf' = Leader"
    using won(6) becomeLeaderLocked_eq[OF inv(1)] won(4) by auto
  ultimately show ?thesis
    using won becomeLeaderLocked_stable[OF won(6)] by auto
qed

interpretation raft_peers: election_peer "raft_ops n :: ('c, 'b) raft peer_ops" n
proof
  fix s s' :: "('c, 'b) raft" and now rnd
  assume "p_inv (raft_ops n) s" "p_tick (raft_ops n) now rnd s = (None, s')"
  then show "vote_keeping (raft_ops n) s s'"
    by (auto elim!: electionTicker_round_cases intro: benign_vote_keeping)
next
  fix s s' :: "('c, 'b) raft" and now rnd t
  assume "p_inv (raft_ops n) s" "p_tick (raft_ops n) now rnd s = (Some t, s')"
  then show "p_id (raft_ops n) s' = p_id (raft_ops n) s \<and> p_inv (raft_ops n) s' \<and>
      p_term (raft_ops n) s < t \<and> p_term (raft_ops n) s' = t \<and>
      p_vote (raft_ops n) s' = p_id (raft_ops n) s \<and> p_role (raft_ops n) s' = Candidate"
    by (auto elim!: electionTicker_round_cases)
next
  fix s s' :: "('c, 'b) raft" and now rnd t v cs
  assume "p_inv (raft_ops n) s" "p_elect (raft_ops n) now rnd t s = ((v, cs), s')"
  then show "vote_keeping (raft_ops n) s s' \<and> (cs \<noteq> [] \<longrightarrow> v \<le> 1) \<and>
      (\<forall>(q, a) \<in> set cs. q \<in> peer_ids n \<and> q \<noteq> p_id (raft_ops n) s \<and>
         va_Term a = t \<and> va_CandidateId a = p_id (raft_ops n) s)"
    by (auto simp: startElection_eq contextLostLocked_def benign_vote_keeping split: if_splits)
next
  fix s s' :: "('c, 'b) raft" and now rnd a r
  assume "p_request (raft_ops n) now rnd a s = (r, s')" "vr_VoteGranted r"
  then show "p_term (raft_ops n) s' = va_Term a \<and> p_vote (raft_ops n) s' = va_CandidateId a"
    using RequestVote_grantedD by auto
next
  fix s s' :: "('c, 'b) raft" and now rnd a r
  assume "p_request (raft_ops n) now rnd a s = (r, s')"
  then show "vote_keeping (raft_ops n) s s'"
    by (auto intro: RequestVote_vote_keeping)
next
  fix s s' :: "('c, 'b) raft" and t r v b v'
  assume s: "p_inv (raft_ops n) s" and r: "p_reply (raft_ops n) t r v s = Some (b, v', s')"
  then obtain b' where h: "handleVoteReply t True r v s = Some (b', v', s')" and b: "\<not> b"
    by auto
  have inv: "raft_inv s" "durable s" "npeers s = n"
    using s by auto
  note keep = handleVoteReply_inv[OF h inv(1)] handleVoteReply_durable[OF h inv(2)]
  from handleVoteReply_law[OF inv(1,2) h]
  show "v' = v \<and> \<not> b \<and> vote_keeping (raft_ops n) s s' \<or>
      v' = v + 1 \<and> vr_VoteGranted r \<and> p_id (raft_ops n) s' = p_id (raft_ops n) s \<and>
        p_inv (raft_ops n) s' \<and> p_term (raft_ops n) s' = p_term (raft_ops n) s \<and>
        p_vote (raft_ops n) s' = p_vote (raft_ops n) s \<and>
        (p_role (raft_ops n) s' = p_role (raft_ops n) s \<or>
         p_role (raft_ops n) s' = Leader \<and> p_term (raft_ops n) s = t \<and> int n < 2 * v') \<and>
        (b \<longrightarrow> int n < 2 * v')"
    using b keep inv(3) benign_vote_keeping[of s s' n] by auto
next
  fix s s' :: "('c, 'b) raft"
  assume "p_quiet (raft_ops n) s s'"
  then show "vote_keeping (raft_ops n) s s'"
    by (auto intro: benign_vote_keeping raft_other_benign)
next
  fix s :: "('c, 'b) raft"
  assume "p_inv (raft_ops n) s"
  then show "p_id (raft_ops n) (p_restart (raft_ops n) s) = p_id (raft_ops n) s \<and>
      p_inv (raft_ops n) (p_restart (raft_ops n) s) \<and>
      p_term (raft_ops n) (p_restart (raft_ops n) s) = p_term (raft_ops n) s \<and>
      p_vote (raft_ops n) (p_restart (raft_ops n) s) = p_vote (raft_ops n) s \<and>
      p_role (raft_ops n) (p_restart (raft_ops n) s) = Follower"
    using raft_inv_restart[of s] by (auto simp: durable_def)
qed auto

text \<open>A cluster of \<open>n\<close> fresh peers.\<close>

definition raft_cluster_start :: "nat \<Rightarrow> int \<Rightarrow> ('c, 'b) raft" where
  "raft_cluster_start n i = Make n i MakePersister"

lemma raft_cluster_start_ok:
  "i \<in> peer_ids n \<Longrightarrow>
   p_inv (raft_ops n) (raft_cluster_start n i) \<and> p_id (raft_ops n) (raft_cluster_start n i) = i \<and>
   p_role (raft_ops n) (raft_cluster_start n i) = Follower"
  by (simp add: raft_cluster_start_def raft_inv_def Make_fresh) (simp add: durable_def Make_fresh)

text \<open>
  (C1) Election safety. In every state that a cluster of \<open>n\<close> peers can reach from a fresh
  start, two peers that both believe to be the leader of the same term are the same peer.
  Peers may time out, vote, crash and restart at any moment, vote requests and replies may
  be delayed, reordered or lost, requests may be executed repeatedly, and every handler may run
  at any time with any arguments; only the replies to vote requests are those of the calls made.
\<close>

theorem raft_election_safety:
  assumes "cluster_reachable (raft_ops n) n (raft_cluster_start n) c"
    and "i \<in> {0..<int n}" "j \<in> {0..<int n}"
    and "role (peers c i) = Leader" "role (peers c j) = Leader"
    and "currentTerm (peers c i) = currentTerm (peers c j)"
  shows "i = j"
  using raft_peers.one_leader_per_term[OF assms(1) raft_cluster_start_ok] assms(2-6) by simp

text \<open>A run of three peers in which peer 0 wins term 2 with the vote of peer 1.\<close>

lemma raft_run_leader:
  "\<exists>c :: (nat, nat) raft cluster. cluster_reachable (raft_ops 3) 3 (raft_cluster_start 3) c \<and>
     role (peers c 0) = Leader \<and> currentTerm (peers c 0) = 2"
proof -
  let ?P = "raft_ops 3 :: (nat, nat) raft peer_ops"
  let ?init = "raft_cluster_start 3 :: int \<Rightarrow> (nat, nat) raft"
  let ?a = "\<lparr>va_Term = 2, va_CandidateId = 0, va_LastLogIndex = 0, va_LastLogTerm = 0\<rparr>"
  let ?cand = "becomeCandidateLocked (?init 0)"
  have last: "log_last (NewLog 0 0 [] [] :: (nat, nat) raft_log) = (0, 0)"
    by (simp add: log_last_def NewLog_def mock_entry_def log_size_def)
  have "p_tick ?P 1 0 (?init 0) = (Some 2, ?cand)"
    by (simp add: raft_cluster_start_def Make_fresh electionTicker_round_def killed_def
        isElectionTimeoutLocked_def becomeCandidateLocked_def persistLocked_def)
  then obtain c1 where 1: "cluster_reachable ?P 3 ?init c1" "(0, 2) \<in> spawned c1" "peers c1 0 = ?cand"
      "peers c1 1 = ?init 1"
    using cluster_reachable.step[OF cluster_reachable.start
        cluster_step.timeout[of 0 3 ?P 1 0 "start_cluster ?init" 2 ?cand]]
    by (fastforce simp: start_cluster_def)
  have inv: "raft_inv ?cand" "role ?cand = Candidate" "currentTerm ?cand = 2" "me ?cand = 0" "npeers ?cand = 3"
      "rlog ?cand = NewLog 0 0 [] []"
    by (simp_all add: raft_cluster_start_def raft_inv_def becomeCandidateLocked_def Make_fresh)
  then have "p_elect ?P 0 0 2 (peers c1 0) = ((1, [(1, ?a), (2, ?a)]), ?cand)"
    by (simp add: 1 startElection_eq contextLostLocked_def upt_rec last)
  from cluster_reachable.step[OF 1(1) cluster_step.elect[OF 1(2) this]]
  obtain c2 where 2: "cluster_reachable ?P 3 ?init c2" "calls c2 (0, 2, 1) = Some (Asked ?a)"
      "peers c2 0 = ?cand" "peers c2 1 = ?init 1" "tally c2 (0, 2) = 1"
    by (fastforce simp: place_calls_def 1)
  define r where "r = \<lparr>vr_Term = 1, vr_VoteGranted = True\<rparr>"
  have "fst (p_request ?P 0 0 ?a (peers c2 1)) = r"
    by (simp add: 2 raft_cluster_start_def RequestVote_def Make_fresh becomeFollowerLocked_def
        persistLocked_def isMoreUpToDateLocked_def last r_def)
  then obtain s1 where r: "p_request ?P 0 0 ?a (peers c2 1) = (r, s1)"
    by (metis prod.collapse)
  from cluster_reachable.step[OF 2(1) cluster_step.request[OF 2(2) r]]
  obtain c3 where 3: "cluster_reachable ?P 3 ?init c3" "calls c3 (0, 2, 1) = Some (Answered r)"
      "peers c3 0 = ?cand" "tally c3 (0, 2) = 1"
    by (fastforce simp: 2)
  obtain s2 where s2: "p_reply ?P 2 r (tally c3 (0, 2)) (peers c3 0) = Some (False, 2, s2)"
      "role s2 = Leader" "currentTerm s2 = 2"
    using inv by (auto simp: 3 r_def handleVoteReply_def contextLostLocked_def becomeLeaderLocked_eq)
  from cluster_reachable.step[OF 3(1) cluster_step.reply[OF 3(2) s2(1)]]
  show ?thesis
    using s2(2,3) by fastforce
qed

theorem raft_election_safety_witness:
  "\<exists>(c :: (nat, nat) raft cluster) i. cluster_reachable (raft_ops 3) 3 (raft_cluster_start 3) c \<and>
     role (peers c i) = Leader \<and> currentTerm (peers c i) = 2 \<and> i = 0"
proof -
  obtain c :: "(nat, nat) raft cluster" where
    c: "cluster_reachable (raft_ops 3) 3 (raft_cluster_start 3) c"
      "role (peers c 0) = Leader" "currentTerm (peers c 0) = 2"
    using raft_run_leader by blast
  then show ?thesis
    using raft_election_safety[OF c(1), of 0 0] by fastforce
qed

end
