(* ===== verification/Raft_Storage.thy ===== *)
theory Raft_Storage
  imports Raft_State
begin

text \<open>
  The storage interfaces of \<^verbatim>\<open>src/src/raft/storage.go\<close> and their two implementations,
  \<^verbatim>\<open>storage_memory.go\<close> and \<^verbatim>\<open>storage_badger.go\<close>. All methods hold the lock of
  their struct, so each is one atomic step. A method that returns a value and an error is a
  function to a sum type; a method that returns an error is a function to an optional error
  and the new state.
\<close>

section \<open>The interfaces\<close>

text \<open>\<open>StorageError\<close>, and any other error, which only the database of \<open>BadgerStorage\<close> returns.\<close>

datatype 'e storage_error = ErrNotFound | ErrCorrupted | ErrClosed | OtherError 'e

record 'x storage_write =
  wr_Key :: string
  wr_Value :: "'x list"
  wr_Delete :: bool

record 'c raft_state =
  rs_CurrentTerm :: int
  rs_VotedFor :: int
  rs_Log :: "'c gob list"

record 'b raft_snapshot =
  sn_Index :: int
  sn_Term :: int
  sn_Data :: "'b list"

text \<open>What the encoder writes for the two structs; they have no fields it can fail on.\<close>

datatype ('c, 'b) store_gob = GobRaftState "'c raft_state" | GobSnapshot "'b raft_snapshot"

fun decode_state :: "('c, 'b) store_gob list \<Rightarrow> 'c raft_state option" where
  "decode_state (GobRaftState st # _) = Some st"
| "decode_state _ = None"

fun decode_snapshot :: "('c, 'b) store_gob list \<Rightarrow> 'b raft_snapshot option" where
  "decode_snapshot (GobSnapshot sn # _) = Some sn"
| "decode_snapshot _ = None"

text \<open>\<open>RaftStorage\<close>: the methods an implementation with state \<open>'s\<close> offers to a node.\<close>

record ('c, 'b, 's, 'e) raft_storage =
  so_SaveRaftState :: "'c raft_state \<Rightarrow> 's \<Rightarrow> 'e option \<times> 's"
  so_LoadRaftState :: "'s \<Rightarrow> 'e + 'c raft_state"
  so_SaveSnapshot :: "'b raft_snapshot \<Rightarrow> 's \<Rightarrow> 'e option \<times> 's"
  so_LoadSnapshot :: "'s \<Rightarrow> 'e + 'b raft_snapshot"

abbreviation raftStateKey :: string where "raftStateKey \<equiv> ''raft_state''"
abbreviation snapshotKey :: string where "snapshotKey \<equiv> ''snapshot''"

section \<open>In memory\<close>

record 'x mem_storage =
  mst_data :: "string \<rightharpoonup> 'x list"
  mst_closed :: bool

definition NewMemoryStorage :: "'x mem_storage" where
  "NewMemoryStorage = \<lparr>mst_data = Map.empty, mst_closed = False\<rparr>"

definition mst_Get :: "string \<Rightarrow> 'x mem_storage \<Rightarrow> 'e storage_error + 'x list" where
  "mst_Get key s =
     (if mst_closed s then Inl ErrClosed
      else case mst_data s key of None \<Rightarrow> Inl ErrNotFound | Some val \<Rightarrow> Inr val)"

definition mst_Set :: "string \<Rightarrow> 'x list \<Rightarrow> 'x mem_storage \<Rightarrow> 'e storage_error option \<times> 'x mem_storage" where
  "mst_Set key val s =
     (if mst_closed s then (Some ErrClosed, s)
      else (None, s\<lparr>mst_data := (mst_data s)(key \<mapsto> val)\<rparr>))"

definition mst_Delete :: "string \<Rightarrow> 'x mem_storage \<Rightarrow> 'e storage_error option \<times> 'x mem_storage" where
  "mst_Delete key s =
     (if mst_closed s then (Some ErrClosed, s)
      else (None, s\<lparr>mst_data := (mst_data s)(key := None)\<rparr>))"

definition mst_Has :: "string \<Rightarrow> 'x mem_storage \<Rightarrow> 'e storage_error + bool" where
  "mst_Has key s = (if mst_closed s then Inl ErrClosed else Inr (mst_data s key \<noteq> None))"

definition perform :: "'x storage_write \<Rightarrow> (string \<rightharpoonup> 'x list) \<Rightarrow> (string \<rightharpoonup> 'x list)" where
  "perform w m = (if wr_Delete w then m(wr_Key w := None) else m(wr_Key w \<mapsto> wr_Value w))"

definition mst_BatchWrite :: "'x storage_write list \<Rightarrow> 'x mem_storage \<Rightarrow>
    'e storage_error option \<times> 'x mem_storage" where
  "mst_BatchWrite writes s =
     (if mst_closed s then (Some ErrClosed, s)
      else (None, s\<lparr>mst_data := fold perform writes (mst_data s)\<rparr>))"

definition mst_Sync :: "'x mem_storage \<Rightarrow> 'e storage_error option" where
  "mst_Sync s = None"

definition mst_Close :: "'x mem_storage \<Rightarrow> 'e storage_error option \<times> 'x mem_storage" where
  "mst_Close s = (None, s\<lparr>mst_closed := True, mst_data := Map.empty\<rparr>)"

record ('c, 'b) mem_raft_storage =
  mrs_storage :: "('c, 'b) store_gob mem_storage"
  mrs_raftState :: "('c, 'b) store_gob list"
  mrs_snapshot :: "('c, 'b) store_gob list"

definition NewMemoryRaftStorage :: "('c, 'b) mem_raft_storage" where
  "NewMemoryRaftStorage = \<lparr>mrs_storage = NewMemoryStorage, mrs_raftState = [], mrs_snapshot = []\<rparr>"

definition mrs_SaveRaftState :: "'c raft_state \<Rightarrow> ('c, 'b) mem_raft_storage \<Rightarrow>
    'e storage_error option \<times> ('c, 'b) mem_raft_storage" where
  "mrs_SaveRaftState state s = (None, s\<lparr>mrs_raftState := [GobRaftState state]\<rparr>)"

definition mrs_LoadRaftState :: "('c, 'b) mem_raft_storage \<Rightarrow> 'e storage_error + 'c raft_state" where
  "mrs_LoadRaftState s =
     (if mrs_raftState s = [] then Inl ErrNotFound
      else case decode_state (mrs_raftState s) of None \<Rightarrow> Inl ErrCorrupted | Some state \<Rightarrow> Inr state)"

definition mrs_SaveSnapshot :: "'b raft_snapshot \<Rightarrow> ('c, 'b) mem_raft_storage \<Rightarrow>
    'e storage_error option \<times> ('c, 'b) mem_raft_storage" where
  "mrs_SaveSnapshot snap s = (None, s\<lparr>mrs_snapshot := [GobSnapshot snap]\<rparr>)"

definition mrs_LoadSnapshot :: "('c, 'b) mem_raft_storage \<Rightarrow> 'e storage_error + 'b raft_snapshot" where
  "mrs_LoadSnapshot s =
     (if mrs_snapshot s = [] then Inl ErrNotFound
      else case decode_snapshot (mrs_snapshot s) of None \<Rightarrow> Inl ErrCorrupted | Some snap \<Rightarrow> Inr snap)"

text \<open>The number of bytes of an encoding is a detail of the encoder: an argument.\<close>

definition mrs_RaftStateSize :: "(('c, 'b) store_gob list \<Rightarrow> int) \<Rightarrow> ('c, 'b) mem_raft_storage \<Rightarrow> int" where
  "mrs_RaftStateSize gob_len s = gob_len (mrs_raftState s)"

definition mrs_SnapshotSize :: "(('c, 'b) store_gob list \<Rightarrow> int) \<Rightarrow> ('c, 'b) mem_raft_storage \<Rightarrow> int" where
  "mrs_SnapshotSize gob_len s = gob_len (mrs_snapshot s)"

definition mrs_Close :: "('c, 'b) mem_raft_storage \<Rightarrow> 'e storage_error option \<times> ('c, 'b) mem_raft_storage" where
  "mrs_Close s = (let (err, st) = mst_Close (mrs_storage s) in (err, s\<lparr>mrs_storage := st\<rparr>))"

definition mem_store :: "('c, 'b, ('c, 'b) mem_raft_storage, 'e storage_error) raft_storage" where
  "mem_store = \<lparr>so_SaveRaftState = mrs_SaveRaftState, so_LoadRaftState = mrs_LoadRaftState,
     so_SaveSnapshot = mrs_SaveSnapshot, so_LoadSnapshot = mrs_LoadSnapshot\<rparr>"

section \<open>On a Badger database\<close>

text \<open>
  The database is a parameter: reading a key in a transaction, copying the value of an item,
  the error with which a transaction that has staged some writes refuses a further one,
  committing the staged writes, \<open>Sync\<close>, \<open>Close\<close> and \<open>Open\<close>.
\<close>

datatype 'e badger_error = ErrKeyNotFound | BadgerError 'e

record ('db, 'i, 'x, 'e) badger =
  bg_get :: "'db \<Rightarrow> string \<Rightarrow> 'e badger_error + 'i"
  bg_value :: "'i \<Rightarrow> 'e + 'x list"
  bg_stage :: "'db \<Rightarrow> 'x storage_write list \<Rightarrow> 'x storage_write \<Rightarrow> 'e option"
  bg_commit :: "'db \<Rightarrow> 'x storage_write list \<Rightarrow> 'e option \<times> 'db"
  bg_sync :: "'db \<Rightarrow> 'e option"
  bg_close :: "'db \<Rightarrow> 'e option \<times> 'db"
  bg_open :: "string \<Rightarrow> 'e + 'db"

record 'db badger_storage =
  bst_db :: 'db
  bst_closed :: bool

definition NewBadgerStorage :: "('db, 'i, 'x, 'e) badger \<Rightarrow> string \<Rightarrow> 'e + 'db badger_storage" where
  "NewBadgerStorage B dataDir =
     (case bg_open B dataDir of Inl err \<Rightarrow> Inl err | Inr db \<Rightarrow> Inr \<lparr>bst_db = db, bst_closed = False\<rparr>)"

definition bst_Get :: "('db, 'i, 'x, 'e) badger \<Rightarrow> string \<Rightarrow> 'db badger_storage \<Rightarrow> 'e storage_error + 'x list" where
  "bst_Get B key s =
     (if bst_closed s then Inl ErrClosed
      else case bg_get B (bst_db s) key of
          Inl ErrKeyNotFound \<Rightarrow> Inl ErrNotFound
        | Inl (BadgerError err) \<Rightarrow> Inl (OtherError err)
        | Inr item \<Rightarrow> (case bg_value B item of Inl err \<Rightarrow> Inl (OtherError err) | Inr val \<Rightarrow> Inr val))"

text \<open>\<open>db.Update\<close>: the first write that is refused discards the transaction.\<close>

fun update_loop :: "('db, 'i, 'x, 'e) badger \<Rightarrow> 'db \<Rightarrow> 'x storage_write list \<Rightarrow> 'x storage_write list \<Rightarrow>
    'e option \<times> 'db" where
  "update_loop B db staged [] = bg_commit B db staged"
| "update_loop B db staged (w # ws) =
     (case bg_stage B db staged w of
        Some err \<Rightarrow> (Some err, db)
      | None \<Rightarrow> update_loop B db (staged @ [w]) ws)"

definition bst_Update :: "('db, 'i, 'x, 'e) badger \<Rightarrow> 'x storage_write list \<Rightarrow> 'db badger_storage \<Rightarrow>
    'e storage_error option \<times> 'db badger_storage" where
  "bst_Update B ws s =
     (if bst_closed s then (Some ErrClosed, s)
      else let (err, db) = update_loop B (bst_db s) [] ws
           in (map_option OtherError err, s\<lparr>bst_db := db\<rparr>))"

definition bst_Set :: "('db, 'i, 'x, 'e) badger \<Rightarrow> string \<Rightarrow> 'x list \<Rightarrow> 'db badger_storage \<Rightarrow>
    'e storage_error option \<times> 'db badger_storage" where
  "bst_Set B key val = bst_Update B [\<lparr>wr_Key = key, wr_Value = val, wr_Delete = False\<rparr>]"

definition bst_Delete :: "('db, 'i, 'x, 'e) badger \<Rightarrow> string \<Rightarrow> 'db badger_storage \<Rightarrow>
    'e storage_error option \<times> 'db badger_storage" where
  "bst_Delete B key = bst_Update B [\<lparr>wr_Key = key, wr_Value = [], wr_Delete = True\<rparr>]"

definition bst_Has :: "('db, 'i, 'x, 'e) badger \<Rightarrow> string \<Rightarrow> 'db badger_storage \<Rightarrow> 'e storage_error + bool" where
  "bst_Has B key s =
     (if bst_closed s then Inl ErrClosed
      else case bg_get B (bst_db s) key of
          Inl ErrKeyNotFound \<Rightarrow> Inr False
        | Inl (BadgerError err) \<Rightarrow> Inl (OtherError err)
        | Inr item \<Rightarrow> Inr True)"

definition bst_BatchWrite :: "('db, 'i, 'x, 'e) badger \<Rightarrow> 'x storage_write list \<Rightarrow> 'db badger_storage \<Rightarrow>
    'e storage_error option \<times> 'db badger_storage" where
  "bst_BatchWrite B writes = bst_Update B writes"

definition bst_Sync :: "('db, 'i, 'x, 'e) badger \<Rightarrow> 'db badger_storage \<Rightarrow> 'e storage_error option" where
  "bst_Sync B s = (if bst_closed s then Some ErrClosed else map_option OtherError (bg_sync B (bst_db s)))"

definition bst_Close :: "('db, 'i, 'x, 'e) badger \<Rightarrow> 'db badger_storage \<Rightarrow>
    'e storage_error option \<times> 'db badger_storage" where
  "bst_Close B s =
     (if bst_closed s then (None, s)
      else let (err, db) = bg_close B (bst_db s)
           in (map_option OtherError err, s\<lparr>bst_closed := True, bst_db := db\<rparr>))"

definition brs_SaveRaftState :: "('db, 'i, ('c, 'b) store_gob, 'e) badger \<Rightarrow> 'c raft_state \<Rightarrow>
    'db badger_storage \<Rightarrow> 'e storage_error option \<times> 'db badger_storage" where
  "brs_SaveRaftState B state = bst_Set B raftStateKey [GobRaftState state]"

definition brs_LoadRaftState :: "('db, 'i, ('c, 'b) store_gob, 'e) badger \<Rightarrow> 'db badger_storage \<Rightarrow>
    'e storage_error + 'c raft_state" where
  "brs_LoadRaftState B s =
     (case bst_Get B raftStateKey s of
        Inl err \<Rightarrow> Inl err
      | Inr data \<Rightarrow> (case decode_state data of None \<Rightarrow> Inl ErrCorrupted | Some state \<Rightarrow> Inr state))"

definition brs_SaveSnapshot :: "('db, 'i, ('c, 'b) store_gob, 'e) badger \<Rightarrow> 'b raft_snapshot \<Rightarrow>
    'db badger_storage \<Rightarrow> 'e storage_error option \<times> 'db badger_storage" where
  "brs_SaveSnapshot B snap = bst_Set B snapshotKey [GobSnapshot snap]"

definition brs_LoadSnapshot :: "('db, 'i, ('c, 'b) store_gob, 'e) badger \<Rightarrow> 'db badger_storage \<Rightarrow>
    'e storage_error + 'b raft_snapshot" where
  "brs_LoadSnapshot B s =
     (case bst_Get B snapshotKey s of
        Inl err \<Rightarrow> Inl err
      | Inr data \<Rightarrow> (case decode_snapshot data of None \<Rightarrow> Inl ErrCorrupted | Some snap \<Rightarrow> Inr snap))"

definition brs_RaftStateSize :: "('db, 'i, 'x, 'e) badger \<Rightarrow> ('x list \<Rightarrow> int) \<Rightarrow> 'db badger_storage \<Rightarrow> int" where
  "brs_RaftStateSize B gob_len s =
     (case bst_Get B raftStateKey s of Inl _ \<Rightarrow> 0 | Inr data \<Rightarrow> gob_len data)"

definition brs_SnapshotSize :: "('db, 'i, 'x, 'e) badger \<Rightarrow> ('x list \<Rightarrow> int) \<Rightarrow> 'db badger_storage \<Rightarrow> int" where
  "brs_SnapshotSize B gob_len s =
     (case bst_Get B snapshotKey s of Inl _ \<Rightarrow> 0 | Inr data \<Rightarrow> gob_len data)"

definition NewBadgerRaftStorage :: "('db, 'i, 'x, 'e) badger \<Rightarrow> string \<Rightarrow> 'e + 'db badger_storage" where
  "NewBadgerRaftStorage B dataDir = NewBadgerStorage B dataDir"

definition brs_Close :: "('db, 'i, 'x, 'e) badger \<Rightarrow> 'db badger_storage \<Rightarrow>
    'e storage_error option \<times> 'db badger_storage" where
  "brs_Close B s = bst_Close B s"

definition badger_store :: "('db, 'i, ('c, 'b) store_gob, 'e) badger \<Rightarrow>
    ('c, 'b, 'db badger_storage, 'e storage_error) raft_storage" where
  "badger_store B = \<lparr>so_SaveRaftState = brs_SaveRaftState B, so_LoadRaftState = brs_LoadRaftState B,
     so_SaveSnapshot = brs_SaveSnapshot B, so_LoadSnapshot = brs_LoadSnapshot B\<rparr>"

section \<open>What a node relies on\<close>

text \<open>
  The contract of \<open>RaftStorage\<close>: what was saved without error is what is loaded, a failed
  save changes nothing, and the two records do not disturb each other.
\<close>

locale raft_store =
  fixes S :: "('c, 'b, 's, 'e) raft_storage"
  assumes state_saved: "so_SaveRaftState S st s = (None, s') \<Longrightarrow> so_LoadRaftState S s' = Inr st"
    and state_failed: "so_SaveRaftState S st s = (Some e, s') \<Longrightarrow> so_LoadRaftState S s' = so_LoadRaftState S s"
    and state_keeps: "so_LoadSnapshot S (snd (so_SaveRaftState S st s)) = so_LoadSnapshot S s"
    and snap_saved: "so_SaveSnapshot S sn s = (None, s') \<Longrightarrow> so_LoadSnapshot S s' = Inr sn"
    and snap_failed: "so_SaveSnapshot S sn s = (Some e, s') \<Longrightarrow> so_LoadSnapshot S s' = so_LoadSnapshot S s"
    and snap_keeps: "so_LoadRaftState S (snd (so_SaveSnapshot S sn s)) = so_LoadRaftState S s"

text \<open>A node ignores the errors of its saves, so it also relies on there being none.\<close>

locale reliable_store = raft_store +
  assumes state_reliable: "fst (so_SaveRaftState S st s) = None"
    and snap_reliable: "fst (so_SaveSnapshot S sn s) = None"

datatype ('c, 'b) save_call = SaveState "'c raft_state" | SaveSnap "'b raft_snapshot"

fun saves :: "('c, 'b, 's, 'e) raft_storage \<Rightarrow> ('c, 'b) save_call list \<Rightarrow> 's \<Rightarrow> 'e option list \<times> 's" where
  "saves S [] s = ([], s)"
| "saves S (SaveState st # cs) s =
     (let (e, s) = so_SaveRaftState S st s; (es, s) = saves S cs s in (e # es, s))"
| "saves S (SaveSnap sn # cs) s =
     (let (e, s) = so_SaveSnapshot S sn s; (es, s) = saves S cs s in (e # es, s))"

text \<open>The newest record of a sequence of saves that succeeded, and \<open>x\<close> if there is none.\<close>

fun newest_state :: "(('c, 'b) save_call \<times> 'e option) list \<Rightarrow> 'e + 'c raft_state \<Rightarrow> 'e + 'c raft_state" where
  "newest_state [] x = x"
| "newest_state ((SaveState st, None) # cs) x = newest_state cs (Inr st)"
| "newest_state (c # cs) x = newest_state cs x"

fun newest_snap :: "(('c, 'b) save_call \<times> 'e option) list \<Rightarrow> 'e + 'b raft_snapshot \<Rightarrow> 'e + 'b raft_snapshot" where
  "newest_snap [] x = x"
| "newest_snap ((SaveSnap sn, None) # cs) x = newest_snap cs (Inr sn)"
| "newest_snap (c # cs) x = newest_snap cs x"

context raft_store
begin

lemma loads_newest:
  "saves S cs s = (es, s') \<Longrightarrow> length es = length cs \<and>
   so_LoadRaftState S s' = newest_state (zip cs es) (so_LoadRaftState S s) \<and>
   so_LoadSnapshot S s' = newest_snap (zip cs es) (so_LoadSnapshot S s)"
proof (induction cs arbitrary: s es)
  case (Cons c cs)
  show ?case
  proof (cases c)
    case (SaveState st)
    then obtain e s1 es1 where 1: "so_SaveRaftState S st s = (e, s1)" "saves S cs s1 = (es1, s')" "es = e # es1"
      using Cons.prems by (auto split: prod.splits)
    then show ?thesis
      using Cons.IH[OF 1(2)] SaveState state_saved[of st s s1] state_failed[of st s _ s1] state_keeps[of st s]
      by (cases e) auto
  next
    case (SaveSnap sn)
    then obtain e s1 es1 where 1: "so_SaveSnapshot S sn s = (e, s1)" "saves S cs s1 = (es1, s')" "es = e # es1"
      using Cons.prems by (auto split: prod.splits)
    then show ?thesis
      using Cons.IH[OF 1(2)] SaveSnap snap_saved[of sn s s1] snap_failed[of sn s _ s1] snap_keeps[of sn s]
      by (cases e) auto
  qed
qed simp

end

interpretation mem_store: reliable_store "mem_store :: ('c, 'b, ('c, 'b) mem_raft_storage, 'e storage_error) raft_storage"
  by unfold_locales (auto simp: mem_store_def mrs_SaveRaftState_def mrs_SaveSnapshot_def mrs_LoadRaftState_def
      mrs_LoadSnapshot_def)

text \<open>
  What is documented of the database. \<open>cont db\<close> are the pairs of an open database \<open>db\<close>
  (\<open>bst_closed\<close> keeps the storage from using a closed one). \<open>badger_ok\<close>: what a read reports,
  it reports truly, a committed transaction has performed its writes in order, and a failed one
  nothing. A read may still fail: \<open>badger_reads\<close> says of a database that it does not, for the keys
  that are not empty. The empty key is refused by reads and writes alike (\<open>badger_empty\<close>).
\<close>

definition badger_ok :: "('db, 'i, 'x, 'e) badger \<Rightarrow> ('db \<Rightarrow> string \<rightharpoonup> 'x list) \<Rightarrow> bool" where
  "badger_ok B cont \<longleftrightarrow>
     (\<forall>db k. bg_get B db k = Inl ErrKeyNotFound \<longrightarrow> cont db k = None) \<and>
     (\<forall>db k item. bg_get B db k = Inr item \<longrightarrow>
        (\<exists>v. cont db k = Some v \<and> (\<forall>v'. bg_value B item = Inr v' \<longrightarrow> v' = v))) \<and>
     (\<forall>db ws db'. bg_commit B db ws = (None, db') \<longrightarrow> cont db' = fold perform ws (cont db)) \<and>
     (\<forall>db ws e db'. bg_commit B db ws = (Some e, db') \<longrightarrow> cont db' = cont db)"

definition badger_reads :: "('db, 'i, 'x, 'e) badger \<Rightarrow> bool" where
  "badger_reads B \<longleftrightarrow>
     (\<forall>db k err. k \<noteq> [] \<longrightarrow> bg_get B db k \<noteq> Inl (BadgerError err)) \<and>
     (\<forall>db k item err. bg_get B db k = Inr item \<longrightarrow> bg_value B item \<noteq> Inl err)"

definition badger_empty :: "('db, 'i, 'x, 'e) badger \<Rightarrow> bool" where
  "badger_empty B \<longleftrightarrow>
     (\<forall>db. \<exists>err. bg_get B db [] = Inl (BadgerError err)) \<and>
     (\<forall>db ws w. wr_Key w = [] \<longrightarrow> bg_stage B db ws w \<noteq> None)"

definition stored :: "('db \<Rightarrow> string \<rightharpoonup> 'x list) \<Rightarrow> string \<Rightarrow> 'db badger_storage \<Rightarrow> 'e storage_error + 'x list" where
  "stored cont key s = (if bst_closed s then Inl ErrClosed
     else case cont (bst_db s) key of None \<Rightarrow> Inl ErrNotFound | Some v \<Rightarrow> Inr v)"

lemma badger_get_sound:
  assumes "badger_ok B cont"
  shows "bst_Get B key s = stored cont key s \<or> (\<exists>err. bst_Get B key s = Inl (OtherError err))"
proof (cases "bg_get B (bst_db s) key")
  case (Inl e)
  then show ?thesis
    using assms by (cases e) (auto simp: bst_Get_def stored_def badger_ok_def)
next
  case (Inr item)
  then obtain v where "cont (bst_db s) key = Some v" "\<And>v'. bg_value B item = Inr v' \<Longrightarrow> v' = v"
    using assms unfolding badger_ok_def by metis
  then show ?thesis
    using Inr by (cases "bg_value B item") (auto simp: bst_Get_def stored_def)
qed

lemma badger_get:
  assumes "badger_ok B cont" "badger_reads B" "key \<noteq> []"
  shows "bst_Get B key s = stored cont key s"
proof -
  have "bst_Get B key s \<noteq> Inl (OtherError err)" for err
    using assms(2,3) by (auto simp: bst_Get_def badger_reads_def split: sum.splits badger_error.splits)
  then show ?thesis
    using badger_get_sound[OF assms(1), of key s] by blast
qed

lemma update_loop_effect:
  assumes "badger_ok B cont" "update_loop B db staged ws = (e, db')"
  shows "cont db' = (if e = None then fold perform (staged @ ws) (cont db) else cont db)"
  using assms(2)
proof (induction ws arbitrary: staged)
  case Nil
  then show ?case
    using assms(1) unfolding badger_ok_def by (cases e) auto
next
  case (Cons w ws)
  then show ?case
    by (cases "bg_stage B db staged w") fastforce+
qed

text \<open>A transaction of the database is performed as a whole or not at all.\<close>

lemma badger_update:
  assumes "badger_ok B cont" "bst_Update B ws s = (e, s')"
  shows "bst_closed s' = bst_closed s" "bst_closed s \<Longrightarrow> e = Some ErrClosed"
    "cont (bst_db s') = (if e = None then fold perform ws (cont (bst_db s)) else cont (bst_db s))"
  using assms(2) update_loop_effect[OF assms(1), of "bst_db s" "[]" ws]
  by (auto simp: bst_Update_def split: if_splits prod.splits)

lemma badger_raft_store:
  assumes ok: "badger_ok B cont" and rd: "badger_reads B"
  shows "raft_store (badger_store B)"
proof -
  have set: "so_LoadRaftState (badger_store B) s' =
      (if e = None then Inr st else so_LoadRaftState (badger_store B) s) \<and>
      so_LoadSnapshot (badger_store B) s' = so_LoadSnapshot (badger_store B) s"
    if "so_SaveRaftState (badger_store B) st s = (e, s')" for st s e s'
    using that badger_update[OF ok, of "[\<lparr>wr_Key = raftStateKey, wr_Value = [GobRaftState st], wr_Delete = False\<rparr>]" s e s']
    by (auto simp: badger_store_def brs_SaveRaftState_def brs_LoadRaftState_def brs_LoadSnapshot_def bst_Set_def
        badger_get[OF ok rd] stored_def perform_def)
  have snap: "so_LoadSnapshot (badger_store B) s' =
      (if e = None then Inr sn else so_LoadSnapshot (badger_store B) s) \<and>
      so_LoadRaftState (badger_store B) s' = so_LoadRaftState (badger_store B) s"
    if "so_SaveSnapshot (badger_store B) sn s = (e, s')" for sn s e s'
    using that badger_update[OF ok, of "[\<lparr>wr_Key = snapshotKey, wr_Value = [GobSnapshot sn], wr_Delete = False\<rparr>]" s e s']
    by (auto simp: badger_store_def brs_SaveSnapshot_def brs_LoadRaftState_def brs_LoadSnapshot_def bst_Set_def
        badger_get[OF ok rd] stored_def perform_def)
  show ?thesis
    by unfold_locales (use set snap in \<open>force simp: prod_eq_iff\<close>)+
qed

text \<open>
  (C22) Whatever a node saves, in whichever order, and whichever of its saves fail: loading gives
  the newest Raft state and the newest snapshot that were saved without error. In memory no
  save fails; on a Badger database this holds of every database that keeps its documentation
  and whose reads do not fail.
\<close>

theorem storage_loads_newest:
  assumes "badger_ok B cont" "badger_reads B" "saves (badger_store B) cs s = (es, s')"
    and "saves mem_store cs m = (fs :: 'e storage_error option list, m')"
  shows "so_LoadRaftState (badger_store B) s' = newest_state (zip cs es) (so_LoadRaftState (badger_store B) s) \<and>
    so_LoadSnapshot (badger_store B) s' = newest_snap (zip cs es) (so_LoadSnapshot (badger_store B) s) \<and>
    fs = replicate (length cs) None \<and>
    mrs_LoadRaftState m' = newest_state (zip cs fs) (mrs_LoadRaftState m) \<and>
    mrs_LoadSnapshot m' = newest_snap (zip cs fs) (mrs_LoadSnapshot m)"
proof -
  note badger = raft_store.loads_newest[OF badger_raft_store[OF assms(1,2)] assms(3)]
  note mem = mem_store.loads_newest[OF assms(4)]
  have "fs = replicate (length cs) None"
    using assms(4)
  proof (induction cs arbitrary: m fs)
    case (Cons c cs)
    then show ?case
      by (cases c) (auto simp: mem_store_def mrs_SaveRaftState_def mrs_SaveSnapshot_def split: prod.splits)
  qed simp
  then show ?thesis
    using badger mem by (simp add: mem_store_def)
qed

text \<open>An example: a database that is just a map and refuses the empty key and values longer than three.\<close>

definition ex_badger :: "(string \<rightharpoonup> 'x list, 'x list, 'x, unit) badger" where
  "ex_badger = \<lparr>bg_get = (\<lambda>db k. if k = [] then Inl (BadgerError ())
       else case db k of None \<Rightarrow> Inl ErrKeyNotFound | Some v \<Rightarrow> Inr v), bg_value = Inr,
     bg_stage = (\<lambda>db ws w. if wr_Key w = [] \<or> 3 < length (wr_Value w) then Some () else None),
     bg_commit = (\<lambda>db ws. (None, fold perform ws db)), bg_sync = (\<lambda>db. None),
     bg_close = (\<lambda>db. (None, db)), bg_open = (\<lambda>_. Inr Map.empty)\<rparr>"

lemma ex_badger_ok: "badger_ok ex_badger (\<lambda>db. db)" "badger_reads ex_badger" "badger_empty ex_badger"
  by (auto simp: badger_ok_def badger_reads_def badger_empty_def ex_badger_def split: if_splits option.splits)

theorem storage_loads_newest_witness:
  "\<exists>(B :: (string \<Rightarrow> (nat, nat) store_gob list option, (nat, nat) store_gob list, _, unit) badger) s' es m'.
     badger_ok B (\<lambda>db. db) \<and> badger_reads B \<and>
     saves (badger_store B) [SaveState \<lparr>rs_CurrentTerm = 4, rs_VotedFor = 2, rs_Log = []\<rparr>]
       \<lparr>bst_db = Map.empty, bst_closed = False\<rparr> = (es, s') \<and>
     brs_LoadRaftState B s' = Inr \<lparr>rs_CurrentTerm = 4, rs_VotedFor = 2, rs_Log = []\<rparr> \<and>
     mrs_LoadRaftState (m' :: (nat, nat) mem_raft_storage) =
       (Inr \<lparr>rs_CurrentTerm = 4, rs_VotedFor = 2, rs_Log = []\<rparr> :: unit storage_error + _)"
proof -
  let ?B = "ex_badger :: (_, _, (nat, nat) store_gob, unit) badger"
  let ?st = "\<lparr>rs_CurrentTerm = 4, rs_VotedFor = 2, rs_Log = []\<rparr> :: nat raft_state"
  let ?s = "\<lparr>bst_db = Map.empty, bst_closed = False\<rparr> :: (string \<Rightarrow> (nat, nat) store_gob list option) badger_storage"
  obtain es s' where s: "saves (badger_store ?B) [SaveState ?st] ?s = (es, s')"
    by fastforce
  obtain fs :: "unit storage_error option list" and m' where
    m: "saves mem_store [SaveState ?st] (NewMemoryRaftStorage :: (nat, nat) mem_raft_storage) = (fs, m')"
    by fastforce
  have "es = [None]"
    using s by (simp add: badger_store_def brs_SaveRaftState_def bst_Set_def bst_Update_def ex_badger_def)
  then have "brs_LoadRaftState ?B s' = Inr ?st" "mrs_LoadRaftState m' = (Inr ?st :: unit storage_error + _)"
    using storage_loads_newest[OF ex_badger_ok(1,2) s m] by (simp_all add: badger_store_def)
  then show ?thesis
    using s ex_badger_ok(1,2) by blast
qed

section \<open>The two implementations\<close>

definition badger_abs :: "('db \<Rightarrow> string \<rightharpoonup> 'x list) \<Rightarrow> 'db badger_storage \<Rightarrow> 'x mem_storage" where
  "badger_abs cont s = \<lparr>mst_data = (if bst_closed s then Map.empty else cont (bst_db s)), mst_closed = bst_closed s\<rparr>"

lemma mst_Set_batch:
  "mst_Set key val = mst_BatchWrite [\<lparr>wr_Key = key, wr_Value = val, wr_Delete = False\<rparr>]"
  "mst_Delete key = mst_BatchWrite [\<lparr>wr_Key = key, wr_Value = [], wr_Delete = True\<rparr>]"
  by (auto simp: mst_Set_def mst_Delete_def mst_BatchWrite_def perform_def fun_eq_iff)

lemma badger_batch:
  assumes ok: "badger_ok B cont"
  shows "case bst_Update B ws s of (e, s') \<Rightarrow> if e = None \<or> e = Some ErrClosed
    then mst_BatchWrite ws (badger_abs cont s) = (e, badger_abs cont s')
    else badger_abs cont s' = badger_abs cont s"
proof -
  obtain e s' where u: "bst_Update B ws s = (e, s')"
    by fastforce
  have "\<not> bst_closed s \<Longrightarrow> e \<noteq> Some ErrClosed"
    using u by (auto simp: bst_Update_def split: prod.splits)
  then show ?thesis
    using badger_update[OF ok u] u by (auto simp: mst_BatchWrite_def badger_abs_def)
qed

lemma badger_has_sound:
  assumes "badger_ok B cont"
  shows "bst_Has B key s = mst_Has key (badger_abs cont s) \<or> (\<exists>err. bst_Has B key s = Inl (OtherError err))"
proof (cases "bg_get B (bst_db s) key")
  case (Inl e)
  then show ?thesis
    using assms by (cases e) (auto simp: bst_Has_def mst_Has_def badger_abs_def badger_ok_def)
next
  case (Inr item)
  then obtain v where "cont (bst_db s) key = Some v"
    using assms unfolding badger_ok_def by metis
  then show ?thesis
    using Inr by (auto simp: bst_Has_def mst_Has_def badger_abs_def)
qed

lemma badger_has:
  assumes "badger_ok B cont" "badger_reads B" "key \<noteq> []"
  shows "bst_Has B key s = mst_Has key (badger_abs cont s)"
proof -
  have "bst_Has B key s \<noteq> Inl (OtherError err)" for err
    using assms(2,3) by (auto simp: bst_Has_def badger_reads_def split: sum.splits badger_error.splits)
  then show ?thesis
    using badger_has_sound[OF assms(1), of key s] by blast
qed

lemma mst_Get_abs: "mst_Get key (badger_abs cont s) = stored cont key s"
  by (simp add: mst_Get_def badger_abs_def stored_def)

lemma update_loop_empty:
  assumes "badger_empty B"
  shows "\<exists>w \<in> set ws. wr_Key w = [] \<Longrightarrow> \<exists>err. update_loop B db staged ws = (Some err, db)"
proof (induction ws arbitrary: staged)
  case (Cons w ws)
  show ?case
  proof (cases "bg_stage B db staged w")
    case None
    then have "wr_Key w \<noteq> []"
      using assms unfolding badger_empty_def by metis
    then show ?thesis
      using Cons None by simp
  qed simp
qed simp

lemma badger_writes:
  assumes "badger_ok B cont"
  shows "case bst_BatchWrite B ws s of (e, s') \<Rightarrow> if e = None \<or> e = Some ErrClosed
      then mst_BatchWrite ws (badger_abs cont s) = (e, badger_abs cont s') else badger_abs cont s' = badger_abs cont s"
    and "case bst_Set B key val s of (e, s') \<Rightarrow> if e = None \<or> e = Some ErrClosed
      then mst_Set key val (badger_abs cont s) = (e, badger_abs cont s') else badger_abs cont s' = badger_abs cont s"
    and "case bst_Delete B key s of (e, s') \<Rightarrow> if e = None \<or> e = Some ErrClosed
      then mst_Delete key (badger_abs cont s) = (e, badger_abs cont s') else badger_abs cont s' = badger_abs cont s"
  unfolding bst_BatchWrite_def bst_Set_def bst_Delete_def mst_Set_batch by (rule badger_batch[OF assms])+

lemma badger_close:
  "badger_abs cont (snd (bst_Close B s)) = snd (mst_Close (badger_abs cont s) :: 'e storage_error option \<times> _)"
  by (auto simp: badger_abs_def bst_Close_def mst_Close_def split: prod.splits)

text \<open>The empty key, which the storage in memory takes as any other.\<close>

lemma badger_empty_key:
  assumes "badger_empty B" "\<not> bst_closed s"
  shows "\<exists>err. bst_Get B [] s = Inl (OtherError err)" "\<exists>err. bst_Has B [] s = Inl (OtherError err)"
    "\<exists>w \<in> set ws. wr_Key w = [] \<Longrightarrow> \<exists>err. bst_BatchWrite B ws s = (Some (OtherError err), s)"
proof -
  obtain err where "bg_get B (bst_db s) [] = Inl (BadgerError err)"
    using assms(1) unfolding badger_empty_def by blast
  then show "\<exists>err. bst_Get B [] s = Inl (OtherError err)" "\<exists>err. bst_Has B [] s = Inl (OtherError err)"
    using assms(2) by (simp_all add: bst_Get_def bst_Has_def)
  show "\<exists>err. bst_BatchWrite B ws s = (Some (OtherError err), s)" if "\<exists>w \<in> set ws. wr_Key w = []"
    using update_loop_empty[OF assms(1) that, of "bst_db s" "[]"] assms(2)
    by (auto simp: bst_BatchWrite_def bst_Update_def)
qed

text \<open>
  (C23) The storage on a Badger database refines the storage in memory. A read gives what memory
  gives or an error of the database, and what memory gives when the reads of the database do not
  fail and the key is not empty. A write, deletion or batch that it reports as done, or as refused
  because it is closed, acts as in memory, one that the database refuses changes nothing, and
  closing it is the same. On the empty key the two differ: memory takes it as any other, an open
  Badger storage refuses to read it, and refuses every batch that writes or deletes it.
\<close>

theorem badger_refines_memory:
  assumes "badger_ok B cont"
  shows "(bst_Get B key s = mst_Get key (badger_abs cont s) \<or> (\<exists>err. bst_Get B key s = Inl (OtherError err))) \<and>
    (bst_Has B key s = mst_Has key (badger_abs cont s) \<or> (\<exists>err. bst_Has B key s = Inl (OtherError err))) \<and>
    (badger_reads B \<and> key \<noteq> [] \<longrightarrow> bst_Get B key s = mst_Get key (badger_abs cont s) \<and>
      bst_Has B key s = mst_Has key (badger_abs cont s)) \<and>
    (badger_empty B \<and> \<not> bst_closed s \<longrightarrow>
      (\<exists>err. bst_Get B [] s = Inl (OtherError err)) \<and> (\<exists>err. bst_Has B [] s = Inl (OtherError err)) \<and>
      ((\<exists>w \<in> set ws. wr_Key w = []) \<longrightarrow> (\<exists>err. bst_BatchWrite B ws s = (Some (OtherError err), s)))) \<and>
    (case bst_BatchWrite B ws s of (e, s') \<Rightarrow> if e = None \<or> e = Some ErrClosed
      then mst_BatchWrite ws (badger_abs cont s) = (e, badger_abs cont s')
      else badger_abs cont s' = badger_abs cont s) \<and>
    (case bst_Set B key val s of (e, s') \<Rightarrow> if e = None \<or> e = Some ErrClosed
      then mst_Set key val (badger_abs cont s) = (e, badger_abs cont s')
      else badger_abs cont s' = badger_abs cont s) \<and>
    (case bst_Delete B key s of (e, s') \<Rightarrow> if e = None \<or> e = Some ErrClosed
      then mst_Delete key (badger_abs cont s) = (e, badger_abs cont s')
      else badger_abs cont s' = badger_abs cont s) \<and>
    badger_abs cont (snd (bst_Close B s)) = snd (mst_Close (badger_abs cont s) :: 'e storage_error option \<times> _)"
proof (intro conjI impI)
  assume "badger_reads B \<and> key \<noteq> []"
  then show "bst_Get B key s = mst_Get key (badger_abs cont s)" "bst_Has B key s = mst_Has key (badger_abs cont s)"
    using badger_get[OF assms] badger_has[OF assms] by (simp_all add: mst_Get_abs)
next
  assume "badger_empty B \<and> \<not> bst_closed s"
  note empty = badger_empty_key[OF conjunct1[OF this] conjunct2[OF this]]
  show "\<exists>err. bst_Get B [] s = Inl (OtherError err)" "\<exists>err. bst_Has B [] s = Inl (OtherError err)"
    by (fact empty)+
  show "\<exists>err. bst_BatchWrite B ws s = (Some (OtherError err), s)" if "\<exists>w \<in> set ws. wr_Key w = []"
    by (rule empty(3)[OF that])
next
  show "bst_Get B key s = mst_Get key (badger_abs cont s) \<or> (\<exists>err. bst_Get B key s = Inl (OtherError err))"
    unfolding mst_Get_abs by (rule badger_get_sound[OF assms])
qed (rule badger_has_sound[OF assms] badger_writes[OF assms] badger_close)+

text \<open>A write and the read of it, and the empty key, which only memory takes.\<close>

theorem badger_refines_memory_witness:
  "badger_ok ex_badger (\<lambda>db. db) \<and> badger_reads ex_badger \<and> badger_empty ex_badger \<and>
   mst_Get ''k'' (badger_abs (\<lambda>db. db) (snd (bst_Set ex_badger ''k'' [True] \<lparr>bst_db = Map.empty, bst_closed = False\<rparr>)))
     = (Inr [True] :: unit storage_error + _) \<and>
   (\<exists>err. bst_BatchWrite ex_badger [\<lparr>wr_Key = [], wr_Value = [True], wr_Delete = False\<rparr>] \<lparr>bst_db = Map.empty, bst_closed = False\<rparr>
     = (Some (OtherError err), \<lparr>bst_db = Map.empty, bst_closed = False\<rparr>))"
proof -
  let ?s = "\<lparr>bst_db = Map.empty, bst_closed = False\<rparr> :: (string \<rightharpoonup> bool list) badger_storage"
  let ?s1 = "snd (bst_Set ex_badger ''k'' [True] ?s)"
  have "bst_Get ex_badger ''k'' ?s1 = Inr [True]"
    by (simp add: ex_badger_def bst_Set_def bst_Update_def bst_Get_def perform_def)
  then have "mst_Get ''k'' (badger_abs (\<lambda>db. db) ?s1) = (Inr [True] :: unit storage_error + _)"
    using badger_refines_memory[OF ex_badger_ok(1), THEN conjunct2, THEN conjunct2, THEN conjunct1, THEN mp,
        OF conjI[OF ex_badger_ok(2)], THEN conjunct1, of "''k''" ?s1]
    by simp
  moreover have "\<exists>err. bst_BatchWrite ex_badger [\<lparr>wr_Key = [], wr_Value = [True], wr_Delete = False\<rparr>] ?s
     = (Some (OtherError err), ?s)"
    using badger_refines_memory[OF ex_badger_ok(1), THEN conjunct2, THEN conjunct2, THEN conjunct2, THEN conjunct1,
        THEN mp, OF conjI[OF ex_badger_ok(3)], THEN conjunct2, THEN conjunct2, THEN mp,
        of ?s "[\<lparr>wr_Key = [], wr_Value = [True], wr_Delete = False\<rparr>]"]
    by simp
  ultimately show ?thesis
    by (intro conjI ex_badger_ok)
qed

end
