(* ===== verification/Raft_Node.thy ===== *)
theory Raft_Node
  imports Raft_Storage Raft_Application
begin

text \<open>
  The node of \<^verbatim>\<open>src/src/raft/node.go\<close>: the Raft peer that runs on a pluggable
  transport and storage. Its log is the \<open>RaftLog\<close> of \<open>Raft_Log\<close>; its requests and replies
  have the fields of those of \<^verbatim>\<open>raft.go\<close>, with the types of \<^verbatim>\<open>transport.go\<close>.

  A method is an atomic transformer of the node, since it holds \<open>n.mu\<close>; \<open>None\<close> is a panic.
  The storage is given by its methods, a record \<open>S\<close>, and its state, a field of the node. The
  clock \<open>now\<close> and the random number \<open>rnd\<close> are arguments. \<open>enc\<close> says of which entries the
  encoder accepts the commands: it refuses a command whose type is not registered.
\<close>

section \<open>Configuration\<close>

record node_config =
  nc_ElectionTimeoutMin :: int
  nc_ElectionTimeoutMax :: int
  nc_ReplicateInterval :: int

definition DefaultNodeConfig :: node_config where
  "DefaultNodeConfig = \<lparr>nc_ElectionTimeoutMin = 250000000, nc_ElectionTimeoutMax = 400000000,
     nc_ReplicateInterval = 30000000\<rparr>"

definition nc_Validate :: "node_config \<Rightarrow> node_config" where
  "nc_Validate c =
     (let c = (if nc_ElectionTimeoutMin c \<le> 0
               then c\<lparr>nc_ElectionTimeoutMin := nc_ElectionTimeoutMin DefaultNodeConfig\<rparr> else c);
          c = (if nc_ElectionTimeoutMax c \<le> nc_ElectionTimeoutMin c
               then c\<lparr>nc_ElectionTimeoutMax := nc_ElectionTimeoutMax DefaultNodeConfig\<rparr> else c)
      in if nc_ReplicateInterval c \<le> 0
         then c\<lparr>nc_ReplicateInterval := nc_ReplicateInterval DefaultNodeConfig\<rparr> else c)"

section \<open>The node\<close>

type_synonym request_vote_request = vote_args
type_synonym request_vote_response = vote_reply
type_synonym 'c append_entries_request = "'c append_args"
type_synonym append_entries_response = append_reply
type_synonym 'b install_snapshot_request = "'b snap_args"

text \<open>
  Where the goroutine of \<open>applicationTicker\<close> stands: before the check of its waiting loop,
  waiting, sending the messages it has collected, or ended.
\<close>

datatype ('c, 'b) node_applier =
  NodeTop | NodeWaiting | NodeSending "('c, 'b) apply_msg list" | NodeEnded

record ('c, 'b, 's) node =
  nd_n :: nat
  nd_me :: int
  nd_storage :: 's
  nd_config :: node_config
  nd_dead :: bool
  nd_role :: role
  nd_currentTerm :: int
  nd_votedFor :: int
  nd_log :: "('c, 'b) raft_log"
  nd_nextIndex :: "int list"
  nd_matchIndex :: "int list"
  nd_commitIndex :: int
  nd_lastApplied :: int
  nd_snapPending :: bool
  nd_applier :: "('c, 'b) node_applier"
  nd_electionStart :: int
  nd_electionTimeout :: int

definition nd_serializeLog :: "('c log_entry list \<Rightarrow> bool) \<Rightarrow> ('c, 'b) raft_log \<Rightarrow> 'c gob list" where
  "nd_serializeLog enc rl = [GobInt (snapLastIdx rl), GobInt (snapLastTerm rl)] @
     (if enc (tailLog rl) then [GobEntries (tailLog rl)] else [])"

text \<open>\<open>deserializeLog\<close>: a decoding error leaves the log of the node as it was.\<close>

definition nd_deserializeLog :: "'c gob list \<Rightarrow> ('c, 'b, 's) node \<Rightarrow> ('c, 'b, 's) node" where
  "nd_deserializeLog data nd =
     (case decode_int data of
        None \<Rightarrow> nd
      | Some (idx, data) \<Rightarrow>
          (case decode_int data of
             None \<Rightarrow> nd
           | Some (term, data) \<Rightarrow>
               (case decode_entries data of
                  None \<Rightarrow> nd
                | Some (entries, _) \<Rightarrow>
                    nd\<lparr>nd_log := \<lparr>snapLastIdx = idx, snapLastTerm = term, snapshot = [], tailLog = entries\<rparr>\<rparr>)))"

text \<open>The errors of the storage are not looked at.\<close>

definition nd_persistLocked :: "('c log_entry list \<Rightarrow> bool) \<Rightarrow> ('c, 'b, 's, 'e) raft_storage \<Rightarrow>
    ('c, 'b, 's) node \<Rightarrow> ('c, 'b, 's) node" where
  "nd_persistLocked enc S nd =
     (let st = snd (so_SaveRaftState S \<lparr>rs_CurrentTerm = nd_currentTerm nd, rs_VotedFor = nd_votedFor nd,
                 rs_Log = nd_serializeLog enc (nd_log nd)\<rparr> (nd_storage nd));
          st = snd (so_SaveSnapshot S \<lparr>sn_Index = snapLastIdx (nd_log nd), sn_Term = snapLastTerm (nd_log nd),
                 sn_Data = snapshot (nd_log nd)\<rparr> st)
      in nd\<lparr>nd_storage := st\<rparr>)"

definition nd_loadFromStorage :: "('c, 'b, 's, 'e) raft_storage \<Rightarrow> ('c, 'b, 's) node \<Rightarrow> ('c, 'b, 's) node" where
  "nd_loadFromStorage S nd =
     (let nd = (case so_LoadRaftState S (nd_storage nd) of
           Inl _ \<Rightarrow> nd
         | Inr state \<Rightarrow>
             let nd = nd\<lparr>nd_currentTerm := rs_CurrentTerm state, nd_votedFor := rs_VotedFor state\<rparr>
             in if length (rs_Log state) > 0 then nd_deserializeLog (rs_Log state) nd else nd)
      in case so_LoadSnapshot S (nd_storage nd) of
           Inl _ \<Rightarrow> nd
         | Inr snap \<Rightarrow>
             let nd = nd\<lparr>nd_log := NewLog (sn_Index snap) (sn_Term snap) (sn_Data snap) []\<rparr>
             in if sn_Index snap > nd_commitIndex nd
                then nd\<lparr>nd_commitIndex := sn_Index snap, nd_lastApplied := sn_Index snap\<rparr> else nd)"

text \<open>\<open>rand.Int63n\<close> panics when the range is not positive.\<close>

definition nd_resetElectionTimerLocked :: "int \<Rightarrow> int \<Rightarrow> ('c, 'b, 's) node \<Rightarrow> ('c, 'b, 's) node option" where
  "nd_resetElectionTimerLocked now rnd nd =
     (let timeout = nc_ElectionTimeoutMax (nd_config nd) - nc_ElectionTimeoutMin (nd_config nd)
      in if timeout \<le> 0 then None
         else Some (nd\<lparr>nd_electionStart := now,
                       nd_electionTimeout := nc_ElectionTimeoutMin (nd_config nd) + rnd mod timeout\<rparr>))"

definition nd_isElectionTimeoutLocked :: "int \<Rightarrow> ('c, 'b, 's) node \<Rightarrow> bool" where
  "nd_isElectionTimeoutLocked now nd = (now - nd_electionStart nd > nd_electionTimeout nd)"

text \<open>\<open>NewNode\<close>, up to the start of its goroutines; \<open>None\<close> for the configuration is nil.\<close>

definition NewNode :: "('c, 'b, 's, 'e) raft_storage \<Rightarrow> node_config option \<Rightarrow> nat \<Rightarrow> int \<Rightarrow> 's \<Rightarrow> int \<Rightarrow> int \<Rightarrow>
    ('c, 'b, 's) node option" where
  "NewNode S config peerCount self storage now rnd =
     (let config = nc_Validate (case config of None \<Rightarrow> DefaultNodeConfig | Some c \<Rightarrow> c)
      in nd_resetElectionTimerLocked now rnd
           (nd_loadFromStorage S
              \<lparr>nd_n = peerCount, nd_me = self, nd_storage = storage, nd_config = config, nd_dead = False,
               nd_role = Follower, nd_currentTerm = 1, nd_votedFor = -1,
               nd_log = NewLog InvalidIndex InvalidTerm [] [],
               nd_nextIndex = replicate peerCount 0, nd_matchIndex = replicate peerCount 0,
               nd_commitIndex = 0, nd_lastApplied = 0, nd_snapPending = False, nd_applier = NodeTop,
               nd_electionStart = 0, nd_electionTimeout = 0\<rparr>))"

definition nd_GetState :: "('c, 'b, 's) node \<Rightarrow> int \<times> bool" where
  "nd_GetState nd = (nd_currentTerm nd, nd_role nd = Leader)"

definition nd_Start :: "('c log_entry list \<Rightarrow> bool) \<Rightarrow> ('c, 'b, 's, 'e) raft_storage \<Rightarrow> 'c option \<Rightarrow>
    ('c, 'b, 's) node \<Rightarrow> (int \<times> int \<times> bool) \<times> ('c, 'b, 's) node" where
  "nd_Start enc S command nd =
     (if nd_role nd \<noteq> Leader then ((0, 0, False), nd)
      else let e = \<lparr>le_Term = nd_currentTerm nd, le_CommandValid = True, le_Command = command\<rparr>;
               nd = nd_persistLocked enc S (nd\<lparr>nd_log := log_append (nd_log nd) e\<rparr>)
           in ((log_size (nd_log nd) - 1, nd_currentTerm nd, True), nd))"

definition nd_Kill :: "('c, 'b, 's) node \<Rightarrow> ('c, 'b, 's) node" where
  "nd_Kill nd = nd\<lparr>nd_dead := True\<rparr>"

definition nd_killed :: "('c, 'b, 's) node \<Rightarrow> bool" where
  "nd_killed nd = nd_dead nd"

text \<open>\<open>applyCond.Signal()\<close>: a waiting goroutine goes back to the check of its loop.\<close>

definition nd_signal :: "('c, 'b, 's) node \<Rightarrow> ('c, 'b, 's) node" where
  "nd_signal nd = (if nd_applier nd = NodeWaiting then nd\<lparr>nd_applier := NodeTop\<rparr> else nd)"

text \<open>The part of \<open>Stop\<close> before it waits for the goroutines.\<close>

definition nd_Stop :: "('c, 'b, 's) node \<Rightarrow> ('c, 'b, 's) node" where
  "nd_Stop nd = nd_signal (nd_Kill nd)"

definition nd_Snapshot :: "('c log_entry list \<Rightarrow> bool) \<Rightarrow> ('c, 'b, 's, 'e) raft_storage \<Rightarrow> int \<Rightarrow> 'b list \<Rightarrow>
    ('c, 'b, 's) node \<Rightarrow> ('c, 'b, 's) node option" where
  "nd_Snapshot enc S index snap nd =
     (if index > nd_commitIndex nd then Some nd
      else if index \<le> snapLastIdx (nd_log nd) then Some nd
      else do {
        rl \<leftarrow> log_doSnapshot (nd_log nd) index snap;
        Some (nd_persistLocked enc S (nd\<lparr>nd_log := rl\<rparr>)) })"

section \<open>Roles\<close>

definition nd_becomeFollowerLocked :: "('c log_entry list \<Rightarrow> bool) \<Rightarrow> ('c, 'b, 's, 'e) raft_storage \<Rightarrow> int \<Rightarrow>
    ('c, 'b, 's) node \<Rightarrow> ('c, 'b, 's) node" where
  "nd_becomeFollowerLocked enc S term nd =
     (if term < nd_currentTerm nd then nd
      else let shouldPersist = (nd_currentTerm nd \<noteq> term);
               nd = nd\<lparr>nd_role := Follower,
                       nd_votedFor := (if term > nd_currentTerm nd then -1 else nd_votedFor nd),
                       nd_currentTerm := term\<rparr>
           in if shouldPersist then nd_persistLocked enc S nd else nd)"

definition nd_becomeCandidateLocked :: "('c log_entry list \<Rightarrow> bool) \<Rightarrow> ('c, 'b, 's, 'e) raft_storage \<Rightarrow>
    int \<Rightarrow> int \<Rightarrow> ('c, 'b, 's) node \<Rightarrow> ('c, 'b, 's) node option" where
  "nd_becomeCandidateLocked enc S now rnd nd =
     (if nd_role nd = Leader then Some nd
      else do {
        nd \<leftarrow> nd_resetElectionTimerLocked now rnd
          (nd\<lparr>nd_currentTerm := nd_currentTerm nd + 1, nd_role := Candidate, nd_votedFor := nd_me nd\<rparr>);
        Some (nd_persistLocked enc S nd) })"

definition nd_becomeLeaderLocked :: "('c, 'b, 's) node \<Rightarrow> ('c, 'b, 's) node option" where
  "nd_becomeLeaderLocked nd =
     (if nd_role nd \<noteq> Candidate then Some nd
      else do {
        (next, match) \<leftarrow> leaderView_loop (nd_n nd) (log_size (nd_log nd)) (nd_nextIndex nd) (nd_matchIndex nd);
        Some (nd\<lparr>nd_role := Leader, nd_nextIndex := next, nd_matchIndex := match\<rparr>) })"

definition nd_isMoreUpToDateLocked :: "int \<Rightarrow> int \<Rightarrow> ('c, 'b, 's) node \<Rightarrow> bool" where
  "nd_isMoreUpToDateLocked candidateIndex candidateTerm nd =
     (let (lastIndex, lastTerm) = log_last (nd_log nd)
      in if lastTerm \<noteq> candidateTerm then lastTerm > candidateTerm else lastIndex > candidateIndex)"

definition nd_contextLostLocked :: "role \<Rightarrow> int \<Rightarrow> ('c, 'b, 's) node \<Rightarrow> bool" where
  "nd_contextLostLocked r term nd = (\<not> (nd_currentTerm nd = term \<and> nd_role nd = r))"

section \<open>Handlers\<close>

definition nd_HandleRequestVote :: "('c log_entry list \<Rightarrow> bool) \<Rightarrow> ('c, 'b, 's, 'e) raft_storage \<Rightarrow>
    int \<Rightarrow> int \<Rightarrow> request_vote_request \<Rightarrow> ('c, 'b, 's) node \<Rightarrow>
    (request_vote_response \<times> ('c, 'b, 's) node) option" where
  "nd_HandleRequestVote enc S now rnd req nd =
     (let resp = \<lparr>vr_Term = nd_currentTerm nd, vr_VoteGranted = False\<rparr>
      in if va_Term req < nd_currentTerm nd then Some (resp, nd)
         else let (resp, nd) =
                (if va_Term req > nd_currentTerm nd
                 then let nd = nd_becomeFollowerLocked enc S (va_Term req) nd
                      in (resp\<lparr>vr_Term := nd_currentTerm nd\<rparr>, nd)
                 else (resp, nd))
              in if nd_votedFor nd \<noteq> -1 \<and> nd_votedFor nd \<noteq> va_CandidateId req then Some (resp, nd)
                 else if nd_isMoreUpToDateLocked (va_LastLogIndex req) (va_LastLogTerm req) nd then Some (resp, nd)
                 else do {
                   nd \<leftarrow> nd_resetElectionTimerLocked now rnd
                     (nd_persistLocked enc S (nd\<lparr>nd_votedFor := va_CandidateId req\<rparr>));
                   Some (resp\<lparr>vr_VoteGranted := True\<rparr>, nd) })"

definition nd_acceptEntries :: "('c log_entry list \<Rightarrow> bool) \<Rightarrow> ('c, 'b, 's, 'e) raft_storage \<Rightarrow>
    'c append_entries_request \<Rightarrow> append_entries_response \<Rightarrow> ('c, 'b, 's) node \<Rightarrow>
    (append_entries_response \<times> ('c, 'b, 's) node) option" where
  "nd_acceptEntries enc S req resp nd = do {
     rl \<leftarrow> log_appendFrom (nd_log nd) (aa_PrevLogIndex req) (aa_Entries req);
     let nd = nd_persistLocked enc S (nd\<lparr>nd_log := rl\<rparr>);
     let nd = (if aa_LeaderCommit req > nd_commitIndex nd
       then let lastIdx = fst (log_last (nd_log nd))
            in nd_signal (nd\<lparr>nd_commitIndex := if aa_LeaderCommit req > lastIdx then lastIdx else aa_LeaderCommit req\<rparr>)
       else nd);
     Some (resp\<lparr>ar_Success := True\<rparr>, nd) }"

definition nd_HandleAppendEntries :: "('c log_entry list \<Rightarrow> bool) \<Rightarrow> ('c, 'b, 's, 'e) raft_storage \<Rightarrow>
    int \<Rightarrow> int \<Rightarrow> 'c append_entries_request \<Rightarrow> ('c, 'b, 's) node \<Rightarrow>
    (append_entries_response \<times> ('c, 'b, 's) node) option" where
  "nd_HandleAppendEntries enc S now rnd req nd =
     (let resp = \<lparr>ar_Term = nd_currentTerm nd, ar_Success = False, ar_ConfilictIndex = 0, ar_ConfilictTerm = 0\<rparr>
      in if aa_Term req < nd_currentTerm nd then Some (resp, nd)
         else do {
           let nd = nd_becomeFollowerLocked enc S (aa_Term req) nd;
           let rl = nd_log nd;
           (resp, nd) \<leftarrow>
             (if aa_PrevLogIndex req \<ge> log_size rl
              then Some (resp\<lparr>ar_ConfilictIndex := log_size rl, ar_ConfilictTerm := InvalidTerm\<rparr>, nd)
              else if aa_PrevLogIndex req < snapLastIdx rl
              then Some (resp\<lparr>ar_ConfilictIndex := snapLastIdx rl, ar_ConfilictTerm := snapLastTerm rl\<rparr>, nd)
              else do {
                e \<leftarrow> log_at rl (aa_PrevLogIndex req);
                if le_Term e \<noteq> aa_PrevLogTerm req
                then Some (resp\<lparr>ar_ConfilictTerm := le_Term e, ar_ConfilictIndex := log_firstFor rl (le_Term e)\<rparr>, nd)
                else nd_acceptEntries enc S req resp nd });
           nd \<leftarrow> nd_resetElectionTimerLocked now rnd nd;
           Some (resp, nd) })"

definition nd_HandleInstallSnapshot :: "('c log_entry list \<Rightarrow> bool) \<Rightarrow> ('c, 'b, 's, 'e) raft_storage \<Rightarrow>
    int \<Rightarrow> int \<Rightarrow> 'b install_snapshot_request \<Rightarrow> ('c, 'b, 's) node \<Rightarrow> (int \<times> ('c, 'b, 's) node) option" where
  "nd_HandleInstallSnapshot enc S now rnd req nd =
     (if sa_Term req < nd_currentTerm nd then Some (nd_currentTerm nd, nd)
      else do {
        let nd = nd_becomeFollowerLocked enc S (sa_Term req) nd;
        nd \<leftarrow> (if snapLastIdx (nd_log nd) \<ge> sa_LastIncludedIndex req then Some nd
               else do {
                 rl \<leftarrow> log_installSnapshot (nd_log nd) (sa_LastIncludedIndex req) (sa_LastIncludedTerm req)
                   (sa_Snapshot req);
                 let nd = (nd_persistLocked enc S (nd\<lparr>nd_log := rl\<rparr>))\<lparr>nd_snapPending := True\<rparr>;
                 let nd = (if sa_LastIncludedIndex req > nd_commitIndex nd
                           then nd\<lparr>nd_commitIndex := sa_LastIncludedIndex req\<rparr> else nd);
                 Some (nd_signal nd) });
        let term = nd_currentTerm nd;
        nd \<leftarrow> nd_resetElectionTimerLocked now rnd nd;
        Some (term, nd) })"

section \<open>Elections\<close>

text \<open>One round of \<open>electionTicker\<close>: the term of the election it starts, if any.\<close>

definition nd_electionTicker_round :: "('c log_entry list \<Rightarrow> bool) \<Rightarrow> ('c, 'b, 's, 'e) raft_storage \<Rightarrow>
    int \<Rightarrow> int \<Rightarrow> ('c, 'b, 's) node \<Rightarrow> (int option \<times> ('c, 'b, 's) node) option" where
  "nd_electionTicker_round enc S now rnd nd =
     (if nd_killed nd then Some (None, nd)
      else if nd_role nd \<noteq> Leader \<and> nd_isElectionTimeoutLocked now nd
      then do {
        nd \<leftarrow> nd_becomeCandidateLocked enc S now rnd nd;
        Some (Some (nd_currentTerm nd), nd) }
      else Some (None, nd))"

text \<open>
  \<open>startElection\<close>: the own vote and the calls it makes, one per peer other than itself.
\<close>

definition nd_startElection :: "int \<Rightarrow> int \<Rightarrow> int \<Rightarrow> ('c, 'b, 's) node \<Rightarrow>
    ((int \<times> (int \<times> request_vote_request) list) \<times> ('c, 'b, 's) node) option" where
  "nd_startElection now rnd term nd =
     (if nd_contextLostLocked Candidate term nd then Some ((1, []), nd)
      else do {
        let (lastIdx, lastTerm) = log_last (nd_log nd);
        nd \<leftarrow> nd_resetElectionTimerLocked now rnd nd;
        Some ((1, map (\<lambda>peer. (peer, \<lparr>va_Term = term, va_CandidateId = nd_me nd, va_LastLogIndex = lastIdx,
            va_LastLogTerm = lastTerm\<rparr>)) (filter (\<lambda>peer. peer \<noteq> nd_me nd) [0..int (nd_n nd) - 1])), nd) })"

text \<open>
  A reply to a vote request. The goroutine looks at the node under its lock, counts the vote
  under the lock of the counter, and if that wins takes the lock of the node again: the first
  two are one step here, since counting neither reads nor changes the node; the flag says
  that the election is won, and \<open>nd_claim\<close> is the last part.
\<close>

definition nd_handleVoteReply :: "('c log_entry list \<Rightarrow> bool) \<Rightarrow> ('c, 'b, 's, 'e) raft_storage \<Rightarrow> int \<Rightarrow>
    request_vote_response \<Rightarrow> int \<Rightarrow> ('c, 'b, 's) node \<Rightarrow> bool \<times> int \<times> ('c, 'b, 's) node" where
  "nd_handleVoteReply enc S term resp votes nd =
     (if vr_Term resp > nd_currentTerm nd then (False, votes, nd_becomeFollowerLocked enc S (vr_Term resp) nd)
      else if nd_contextLostLocked Candidate term nd then (False, votes, nd)
      else if vr_VoteGranted resp
      then let votes = votes + 1 in (votes > int (nd_n nd) div 2, votes, nd)
      else (False, votes, nd))"

definition nd_claim :: "int \<Rightarrow> ('c, 'b, 's) node \<Rightarrow> ('c, 'b, 's) node option" where
  "nd_claim term nd =
     (if nd_role nd = Candidate \<and> nd_currentTerm nd = term then nd_becomeLeaderLocked nd else Some nd)"

section \<open>Replication\<close>

text \<open>The body of the loop of \<open>startReplication\<close>, and the loop over the peers \<open>0 .. k - 1\<close>.\<close>

definition nd_replicate_peer :: "int \<Rightarrow> int \<Rightarrow> ('c, 'b, 's) node \<Rightarrow>
    (('c, 'b) send list \<times> ('c, 'b, 's) node) option" where
  "nd_replicate_peer term peer nd =
     (if peer = nd_me nd then do {
        match \<leftarrow> slice_set (nd_matchIndex nd) peer (log_size (nd_log nd) - 1);
        next \<leftarrow> slice_set (nd_nextIndex nd) peer (log_size (nd_log nd));
        Some ([], nd\<lparr>nd_matchIndex := match, nd_nextIndex := next\<rparr>) }
      else do {
        next \<leftarrow> slice_get (nd_nextIndex nd) peer;
        let prevIdx = next - 1;
        if prevIdx < snapLastIdx (nd_log nd)
        then Some ([SendSnap peer
          \<lparr>sa_Term = term, sa_LeaderId = nd_me nd, sa_LastIncludedIndex = snapLastIdx (nd_log nd),
           sa_LastIncludedTerm = snapLastTerm (nd_log nd), sa_Snapshot = snapshot (nd_log nd)\<rparr>], nd)
        else do {
          e \<leftarrow> log_at (nd_log nd) prevIdx;
          entries \<leftarrow> log_tail (nd_log nd) (prevIdx + 1);
          Some ([SendAppend peer
            \<lparr>aa_Term = term, aa_LeaderId = nd_me nd, aa_PrevLogIndex = prevIdx, aa_PrevLogTerm = le_Term e,
             aa_Entries = entries, aa_LeaderCommit = nd_commitIndex nd\<rparr>], nd) } })"

fun nd_replicate_loop :: "int \<Rightarrow> nat \<Rightarrow> ('c, 'b, 's) node \<Rightarrow>
    (('c, 'b) send list \<times> ('c, 'b, 's) node) option" where
  "nd_replicate_loop term 0 nd = Some ([], nd)"
| "nd_replicate_loop term (Suc k) nd = do {
     (sends, nd) \<leftarrow> nd_replicate_loop term k nd;
     (sends', nd) \<leftarrow> nd_replicate_peer term (int k) nd;
     Some (sends @ sends', nd) }"

definition nd_startReplication :: "int \<Rightarrow> ('c, 'b, 's) node \<Rightarrow>
    (('c, 'b) send list \<times> ('c, 'b, 's) node) option" where
  "nd_startReplication term nd =
     (if nd_contextLostLocked Leader term nd then Some ([], nd) else nd_replicate_loop term (nd_n nd) nd)"

text \<open>
  One round of \<open>replicationTicker\<close>; the flag says whether the loop goes on. Other steps may
  come between the check and \<open>startReplication\<close>, which checks again.
\<close>

definition nd_replicationTicker_round :: "int \<Rightarrow> ('c, 'b, 's) node \<Rightarrow>
    (bool \<times> ('c, 'b) send list \<times> ('c, 'b, 's) node) option" where
  "nd_replicationTicker_round term nd =
     (if nd_killed nd \<or> nd_contextLostLocked Leader term nd then Some (False, [], nd)
      else do {
        (sends, nd) \<leftarrow> nd_startReplication term nd;
        Some (True, sends, nd) })"

text \<open>
  \<open>updateCommitIndexLocked\<close>: the indexes are sorted by exchanging, in the loops over \<open>i\<close> and
  over \<open>j > i\<close>.
\<close>

definition exchange :: "int \<Rightarrow> int \<Rightarrow> int list \<Rightarrow> int list option" where
  "exchange i j xs = do {
     a \<leftarrow> slice_get xs i;
     b \<leftarrow> slice_get xs j;
     if a > b then do { xs \<leftarrow> slice_set xs i b; slice_set xs j a } else Some xs }"

fun exchange_inner :: "int \<Rightarrow> int list \<Rightarrow> int list \<Rightarrow> int list option" where
  "exchange_inner i [] xs = Some xs"
| "exchange_inner i (j # js) xs = do { xs \<leftarrow> exchange i j xs; exchange_inner i js xs }"

fun exchange_outer :: "int \<Rightarrow> int list \<Rightarrow> int list \<Rightarrow> int list option" where
  "exchange_outer n [] xs = Some xs"
| "exchange_outer n (i # is) xs = do {
     xs \<leftarrow> exchange_inner i [i + 1..n - 1] xs;
     exchange_outer n is xs }"

definition nd_updateCommitIndexLocked :: "('c, 'b, 's) node \<Rightarrow> ('c, 'b, 's) node option" where
  "nd_updateCommitIndexLocked nd = do {
     let peerCount = int (nd_n nd);
     let tmpIndexes = take (nd_n nd) (nd_matchIndex nd) @ replicate (nd_n nd - length (nd_matchIndex nd)) 0;
     tmpIndexes \<leftarrow> exchange_outer peerCount [0..peerCount - 2] tmpIndexes;
     majorityIdx \<leftarrow> slice_get tmpIndexes ((peerCount - 1) div 2);
     if majorityIdx > nd_commitIndex nd \<and> majorityIdx \<ge> snapLastIdx (nd_log nd) then do {
       e \<leftarrow> log_at (nd_log nd) majorityIdx;
       if le_Term e = nd_currentTerm nd
       then Some (nd_signal (nd\<lparr>nd_commitIndex := majorityIdx\<rparr>))
       else Some nd }
     else Some nd }"

text \<open>\<open>sendAppendEntries\<close> after the reply; a call that fails changes nothing.\<close>

definition nd_probeIndex :: "append_entries_response \<Rightarrow> int \<Rightarrow> ('c, 'b) raft_log \<Rightarrow> int" where
  "nd_probeIndex resp prevIdx rl =
     (let next = (if ar_ConfilictTerm resp = InvalidTerm then ar_ConfilictIndex resp
                  else let firstIdx = log_firstFor rl (ar_ConfilictTerm resp)
                       in if firstIdx \<noteq> InvalidIndex then firstIdx else ar_ConfilictIndex resp);
          next = (if next > prevIdx + 1 then prevIdx + 1 else next);
          minIdx = snapLastIdx rl + 1
      in if next < minIdx then minIdx else next)"

definition nd_handleAppendReply :: "('c log_entry list \<Rightarrow> bool) \<Rightarrow> ('c, 'b, 's, 'e) raft_storage \<Rightarrow>
    int \<Rightarrow> int \<Rightarrow> 'c append_entries_request \<Rightarrow> append_entries_response \<Rightarrow> ('c, 'b, 's) node \<Rightarrow>
    ('c, 'b, 's) node option" where
  "nd_handleAppendReply enc S term peer req resp nd =
     (if ar_Term resp > nd_currentTerm nd then Some (nd_becomeFollowerLocked enc S (ar_Term resp) nd)
      else if nd_contextLostLocked Leader term nd then Some nd
      else if \<not> ar_Success resp then do {
        next \<leftarrow> slice_set (nd_nextIndex nd) peer (nd_probeIndex resp (aa_PrevLogIndex req) (nd_log nd));
        Some (nd\<lparr>nd_nextIndex := next\<rparr>) }
      else do {
        let m = aa_PrevLogIndex req + int (length (aa_Entries req));
        match \<leftarrow> slice_set (nd_matchIndex nd) peer m;
        next \<leftarrow> slice_set (nd_nextIndex nd) peer (m + 1);
        nd_updateCommitIndexLocked (nd\<lparr>nd_matchIndex := match, nd_nextIndex := next\<rparr>) })"

definition nd_handleSnapReply :: "('c log_entry list \<Rightarrow> bool) \<Rightarrow> ('c, 'b, 's, 'e) raft_storage \<Rightarrow>
    int \<Rightarrow> int \<Rightarrow> int \<Rightarrow> ('c, 'b, 's) node \<Rightarrow> ('c, 'b, 's) node option" where
  "nd_handleSnapReply enc S term peer respTerm nd =
     (if respTerm > nd_currentTerm nd then Some (nd_becomeFollowerLocked enc S respTerm nd)
      else if nd_contextLostLocked Leader term nd then Some nd
      else do {
        match \<leftarrow> slice_set (nd_matchIndex nd) peer (snapLastIdx (nd_log nd));
        next \<leftarrow> slice_set (nd_nextIndex nd) peer (snapLastIdx (nd_log nd) + 1);
        Some (nd\<lparr>nd_matchIndex := match, nd_nextIndex := next\<rparr>) })"

section \<open>Application\<close>

text \<open>The loop that collects the entries \<open>i, \<dots>, i + k - 1\<close>.\<close>

fun nd_collect_loop :: "('c, 'b) raft_log \<Rightarrow> int \<Rightarrow> nat \<Rightarrow> ('c, 'b) apply_msg list option" where
  "nd_collect_loop rl i 0 = Some []"
| "nd_collect_loop rl i (Suc k) = do {
     e \<leftarrow> log_at rl i;
     msgs \<leftarrow> nd_collect_loop rl (i + 1) k;
     Some (\<lparr>am_CommandValid = True, am_Command = le_Command e, am_CommandIndex = i, am_SnapshotValid = False,
            am_Snapshot = [], am_SnapshotTerm = 0, am_SnapshotIndex = 0\<rparr> # msgs) }"

definition nd_collect :: "('c, 'b, 's) node \<Rightarrow> (('c, 'b) apply_msg list \<times> ('c, 'b, 's) node) option" where
  "nd_collect nd = do {
     let rl = nd_log nd;
     let (msgs, nd) = (if nd_snapPending nd
       then ([\<lparr>am_CommandValid = False, am_Command = None, am_CommandIndex = 0, am_SnapshotValid = True,
               am_Snapshot = snapshot rl, am_SnapshotTerm = snapLastTerm rl, am_SnapshotIndex = snapLastIdx rl\<rparr>],
             nd\<lparr>nd_snapPending := False, nd_lastApplied := snapLastIdx rl\<rparr>)
       else ([], nd));
     let k = nat (nd_commitIndex nd - nd_lastApplied nd);
     msgs' \<leftarrow> nd_collect_loop rl (nd_lastApplied nd + 1) k;
     Some (msgs @ msgs', nd\<lparr>nd_lastApplied := nd_lastApplied nd + int k\<rparr>) }"

text \<open>
  A step of \<open>applicationTicker\<close>. A message is sent only if the receiver is \<open>ready\<close>; otherwise
  the \<open>default\<close> branch of the \<open>select\<close> drops it. The first component is what was delivered.
\<close>

definition nd_applicationTicker_step :: "bool \<Rightarrow> ('c, 'b, 's) node \<Rightarrow>
    (('c, 'b) apply_msg option \<times> ('c, 'b, 's) node) option" where
  "nd_applicationTicker_step ready nd =
     (case nd_applier nd of
        NodeTop \<Rightarrow>
          if nd_killed nd then Some (None, nd\<lparr>nd_applier := NodeEnded\<rparr>)
          else if nd_commitIndex nd \<le> nd_lastApplied nd \<and> \<not> nd_snapPending nd
          then Some (None, nd\<lparr>nd_applier := NodeWaiting\<rparr>)
          else do {
            (msgs, nd) \<leftarrow> nd_collect nd;
            Some (None, nd\<lparr>nd_applier := NodeSending msgs\<rparr>) }
      | NodeWaiting \<Rightarrow> Some (None, nd)
      | NodeSending [] \<Rightarrow> Some (None, nd\<lparr>nd_applier := NodeTop\<rparr>)
      | NodeSending (msg # msgs) \<Rightarrow>
          Some (if ready then Some msg else None, nd\<lparr>nd_applier := NodeSending msgs\<rparr>)
      | NodeEnded \<Rightarrow> Some (None, nd))"

end
