(* ===== verification/Raft_Node_Safety.thy ===== *)
theory Raft_Node_Safety
  imports Raft_Node Election_Safety
begin

text \<open>
  Properties of the node of \<^verbatim>\<open>src/src/raft/node.go\<close>: its commit rule agrees with the
  one of \<^verbatim>\<open>raft.go\<close>, clusters of nodes elect at most one leader per term as long as
  their storage does not fail, and what a restart, a configuration, a slow receiver and a
  short log do to a node.
\<close>

section \<open>The commit rule\<close>

text \<open>The exchanges for one \<open>i\<close>, as a function on the rest of the list, and the whole sort.\<close>

fun pull_min :: "int \<Rightarrow> int list \<Rightarrow> int \<times> int list" where
  "pull_min x [] = (x, [])"
| "pull_min x (y # ys) =
     (if x > y then let (m, zs) = pull_min y ys in (m, x # zs)
      else let (m, zs) = pull_min x ys in (m, y # zs))"

lemma pull_min_mset: "pull_min x ys = (m, zs) \<Longrightarrow> add_mset m (mset zs) = add_mset x (mset ys)"
  by (induction x ys arbitrary: m zs rule: pull_min.induct)
    (auto split: if_splits prod.splits simp: add_mset_commute)

lemma pull_min_least: "pull_min x ys = (m, zs) \<Longrightarrow> m \<le> x \<and> (\<forall>z \<in> set zs. m \<le> z)"
  by (induction x ys arbitrary: m zs rule: pull_min.induct) (fastforce split: if_splits prod.splits)+

lemma pull_min_length: "pull_min x ys = (m, zs) \<Longrightarrow> length zs = length ys"
  using arg_cong[OF pull_min_mset, of x ys m zs size] by simp

lemma slice_middle:
  "slice_get (as @ y # bs) (int (length as)) = Some y"
  "slice_set (as @ y # bs) (int (length as)) z = Some (as @ z # bs)"
  by (simp_all add: slice_get_def slice_set_def nth_append)

lemma exchange_inner_pull:
  assumes "pull_min x ys = (m, zs)"
  shows "exchange_inner (int (length pre)) [int (length pre + length us) + 1..int (length pre + length us + length ys)]
    (pre @ x # us @ ys) = Some (pre @ m # us @ zs)"
  using assms
proof (induction x ys arbitrary: us m zs rule: pull_min.induct)
  case (2 x y ys)
  let ?i = "int (length pre)" and ?j = "int (length pre + length us) + 1"
  have range: "[?j..int (length pre + length us + length (y # ys))] =
      ?j # [?j + 1..int (length pre + length us + length (y # ys))]"
    by (rule upto_rec1) simp
  have j: "?j = int (length (pre @ x # us))"
    by simp
  have get: "slice_get (pre @ x # us @ y # ys) ?i = Some x" "slice_get (pre @ x # us @ y # ys) ?j = Some y"
    unfolding j using slice_middle(1)[of pre x] slice_middle(1)[of "pre @ x # us" y ys] by simp_all
  show ?case
  proof (cases "x > y")
    case True
    then obtain zs' where p: "pull_min y ys = (m, zs')" "zs = x # zs'"
      using "2.prems" by (auto split: prod.splits)
    have "exchange ?i ?j (pre @ x # us @ y # ys) = Some (pre @ y # (us @ [x]) @ ys)"
      using True get slice_middle(2)[of pre x "us @ y # ys" y] slice_middle(2)[of "pre @ y # us" y ys x]
      by (simp add: exchange_def algebra_simps)
    moreover have "exchange_inner ?i [?j + 1..int (length pre + length us + length (y # ys))]
        (pre @ y # (us @ [x]) @ ys) = Some (pre @ m # (us @ [x]) @ zs')"
      using "2.IH"(1)[OF True p(1), of "us @ [x]"] by (simp add: algebra_simps)
    ultimately show ?thesis
      unfolding range using p(2) by simp
  next
    case False
    then obtain zs' where p: "pull_min x ys = (m, zs')" "zs = y # zs'"
      using "2.prems" by (auto split: prod.splits)
    have "exchange ?i ?j (pre @ x # us @ y # ys) = Some (pre @ x # (us @ [y]) @ ys)"
      using False get by (simp add: exchange_def)
    moreover have "exchange_inner ?i [?j + 1..int (length pre + length us + length (y # ys))]
        (pre @ x # (us @ [y]) @ ys) = Some (pre @ m # (us @ [y]) @ zs')"
      using "2.IH"(2)[OF False p(1), of "us @ [y]"] by (simp add: algebra_simps)
    ultimately show ?thesis
      unfolding range using p(2) by simp
  qed
qed simp

lemma exchange_outer_sorts:
  assumes "n = length pre + length xs" "sorted pre" "\<forall>a \<in> set pre. \<forall>b \<in> set xs. a \<le> b"
  shows "\<exists>ys. exchange_outer (int n) [int (length pre)..int n - 2] (pre @ xs) = Some (pre @ ys) \<and>
    sorted (pre @ ys) \<and> mset ys = mset xs"
  using assms
proof (induction "length xs" arbitrary: pre xs)
  case 0
  then show ?case
    by simp
next
  case (Suc k)
  then obtain x rest where xs: "xs = x # rest" "length rest = k"
    by (cases xs) auto
  obtain m zs where p: "pull_min x rest = (m, zs)"
    by fastforce
  show ?case
  proof (cases rest)
    case Nil
    then show ?thesis
      using Suc.prems xs by (simp add: sorted_append)
  next
    case (Cons y ys)
    then have range: "[int (length pre)..int n - 2] = int (length pre) # [int (length (pre @ [m]))..int n - 2]"
      using Suc.prems(1) xs by (subst upto_rec1) (auto simp: add.commute)
    have inner: "exchange_inner (int (length pre)) [int (length pre) + 1..int n - 1] (pre @ x # rest) =
        Some ((pre @ [m]) @ zs)"
      using exchange_inner_pull[OF p, of pre "[]"] Suc.prems(1) xs by simp
    have ms: "add_mset m (mset zs) = mset xs"
      using pull_min_mset[OF p] xs by simp
    then have in_xs: "set zs \<subseteq> set xs" "m \<in> set xs"
      by (metis insert_subset set_mset_add_mset_insert set_mset_mset subset_insertI subset_refl)+
    have least: "\<forall>z \<in> set zs. m \<le> z"
      using pull_min_least[OF p] by simp
    have "\<exists>ys. exchange_outer (int n) [int (length (pre @ [m]))..int n - 2] ((pre @ [m]) @ zs) =
        Some ((pre @ [m]) @ ys) \<and> sorted ((pre @ [m]) @ ys) \<and> mset ys = mset zs"
    proof (rule Suc.hyps(1))
      show "k = length zs"
        using pull_min_length[OF p] xs by simp
      show "n = length (pre @ [m]) + length zs"
        using pull_min_length[OF p] xs Suc.prems(1) by simp
      show "sorted (pre @ [m])" "\<forall>a \<in> set (pre @ [m]). \<forall>b \<in> set zs. a \<le> b"
        using Suc.prems(2,3) in_xs least by (auto simp: sorted_append)
    qed
    then obtain ys where ys: "exchange_outer (int n) [int (length (pre @ [m]))..int n - 2] ((pre @ [m]) @ zs) =
        Some ((pre @ [m]) @ ys)" "sorted ((pre @ [m]) @ ys)" "mset ys = mset zs"
      by blast
    then show ?thesis
      unfolding range using inner xs ms by (intro exI[of _ "m # ys"]) simp
  qed
qed

lemma exchange_sort: "exchange_outer (int (length xs)) [0..int (length xs) - 2] xs = Some (sort xs)"
proof -
  obtain ys where ys: "exchange_outer (int (length xs)) [0..int (length xs) - 2] xs = Some ys" "sorted ys"
      "mset ys = mset xs"
    using exchange_outer_sorts[of "length xs" "[]" xs] by auto
  then show ?thesis
    using properties_for_sort by metis
qed

text \<open>
  (C20) The commit rule of a node, which sorts the match indexes by exchanging elements, is the
  one of a peer of \<^verbatim>\<open>raft.go\<close>, which uses the library's sort: on equal term, log,
  commit index and match indexes both set the same commit index, or both panic.
\<close>

theorem node_commit_equivalent:
  assumes "npeers rf = nd_n nd" "matchIndex rf = nd_matchIndex nd" "commitIndex rf = nd_commitIndex nd"
    and "rlog rf = nd_log nd" "currentTerm rf = nd_currentTerm nd"
    and "snapLastIdx (nd_log nd) \<le> nd_commitIndex nd"
  shows "map_option nd_commitIndex (nd_updateCommitIndexLocked nd) = map_option commitIndex (advanceCommit rf)"
proof -
  let ?tmp = "take (nd_n nd) (nd_matchIndex nd) @ replicate (nd_n nd - length (nd_matchIndex nd)) 0"
  have "exchange_outer (int (nd_n nd)) [0..int (nd_n nd) - 2] ?tmp = Some (sort ?tmp)"
    using exchange_sort[of ?tmp] by (simp add: min_def split: if_splits)
  then show ?thesis
    using assms unfolding nd_updateCommitIndexLocked_def advanceCommit_def getMajorityIndexLocked_def Let_def
    by (auto simp: nd_signal_def signalApply_def split: option.splits bind_splits)
qed

text \<open>A node that starts on an empty storage in memory, with the default configuration.\<close>

definition fresh_node :: "nat \<Rightarrow> int \<Rightarrow> ('c, 'b, ('c, 'b) mem_raft_storage) node" where
  "fresh_node n i = the (NewNode (mem_store :: (_, _, _, unit storage_error) raft_storage) None n i NewMemoryRaftStorage 0 0)"

lemma fresh_node_eq:
  "fresh_node n i =
     \<lparr>nd_n = n, nd_me = i, nd_storage = NewMemoryRaftStorage, nd_config = DefaultNodeConfig, nd_dead = False,
      nd_role = Follower, nd_currentTerm = 1, nd_votedFor = -1, nd_log = NewLog 0 0 [] [],
      nd_nextIndex = replicate n 0, nd_matchIndex = replicate n 0, nd_commitIndex = 0, nd_lastApplied = 0,
      nd_snapPending = False, nd_applier = NodeTop, nd_electionStart = 0, nd_electionTimeout = 250000000\<rparr>"
  by (simp add: fresh_node_def NewNode_def nc_Validate_def DefaultNodeConfig_def nd_loadFromStorage_def mem_store_def
      mrs_LoadRaftState_def mrs_LoadSnapshot_def NewMemoryRaftStorage_def nd_resetElectionTimerLocked_def Let_def)

theorem node_commit_equivalent_witness:
  "map_option nd_commitIndex (nd_updateCommitIndexLocked ((fresh_node 3 0 :: (nat, nat, _) node)
     \<lparr>nd_log := NewLog 0 0 [] [mock_entry 1], nd_matchIndex := [1, 0, 1]\<rparr>)) = Some 1"
proof -
  let ?nd = "(fresh_node 3 0 :: (nat, nat, _) node)\<lparr>nd_log := NewLog 0 0 [] [mock_entry 1], nd_matchIndex := [1, 0, 1]\<rparr>"
  let ?rf = "(Make 3 0 MakePersister :: (nat, nat) raft)
    \<lparr>rlog := NewLog 0 0 [] [mock_entry 1], matchIndex := [1, 0, 1]\<rparr>"
  have "map_option nd_commitIndex (nd_updateCommitIndexLocked ?nd) = map_option commitIndex (advanceCommit ?rf)"
    by (rule node_commit_equivalent) (simp_all add: fresh_node_eq Make_fresh NewLog_def)
  also have "\<dots> = Some 1"
    by (simp add: advanceCommit_def getMajorityIndexLocked_def Make_fresh slice_get_def log_at_eq log_size_def
        NewLog_def signalApply_def mock_entry_def)
  finally show ?thesis .
qed

section \<open>Elections\<close>

text \<open>
  A node's term and vote are in its storage, or nothing was ever saved and they are the
  initial ones.
\<close>

definition vote_stored :: "('c, 'b, 's, 'e) raft_storage \<Rightarrow> ('c, 'b, 's) node \<Rightarrow> bool" where
  "vote_stored S nd =
     (case so_LoadRaftState S (nd_storage nd) of
        Inl _ \<Rightarrow> nd_currentTerm nd = 1 \<and> nd_votedFor nd = -1
      | Inr st \<Rightarrow> rs_CurrentTerm st = nd_currentTerm nd \<and> rs_VotedFor st = nd_votedFor nd)"

definition node_inv :: "('c, 'b, 's, 'e) raft_storage \<Rightarrow> nat \<Rightarrow> ('c, 'b, 's) node \<Rightarrow> bool" where
  "node_inv S n nd \<longleftrightarrow> nd_n nd = n \<and> length (nd_nextIndex nd) = n \<and> length (nd_matchIndex nd) = n \<and>
     0 < nc_ElectionTimeoutMin (nd_config nd) \<and>
     nc_ElectionTimeoutMin (nd_config nd) < nc_ElectionTimeoutMax (nd_config nd) \<and>
     0 < nc_ReplicateInterval (nd_config nd) \<and> vote_stored S nd"

text \<open>A step that has no part in winning an election.\<close>

definition node_benign :: "('c, 'b, 's, 'e) raft_storage \<Rightarrow> ('c, 'b, 's) node \<Rightarrow> ('c, 'b, 's) node \<Rightarrow> bool" where
  "node_benign S nd nd' \<longleftrightarrow> nd_me nd' = nd_me nd \<and> nd_n nd' = nd_n nd \<and> nd_config nd' = nd_config nd \<and>
     length (nd_nextIndex nd') = length (nd_nextIndex nd) \<and> length (nd_matchIndex nd') = length (nd_matchIndex nd) \<and>
     (vote_stored S nd \<longrightarrow> vote_stored S nd') \<and> nd_currentTerm nd \<le> nd_currentTerm nd' \<and>
     (nd_currentTerm nd' = nd_currentTerm nd \<longrightarrow> nd_votedFor nd \<noteq> -1 \<longrightarrow> nd_votedFor nd' = nd_votedFor nd) \<and>
     (nd_role nd' \<noteq> Follower \<longrightarrow> nd_currentTerm nd' = nd_currentTerm nd \<and> nd_role nd' = nd_role nd)"

lemma node_benign_refl: "node_benign S nd nd"
  by (simp add: node_benign_def)

lemma node_benign_trans: "node_benign S x y \<Longrightarrow> node_benign S y z \<Longrightarrow> node_benign S x z"
  unfolding node_benign_def by (elim conjE) (intro conjI; (linarith | metis | force))

text \<open>Changing fields that are neither voted on nor saved.\<close>

lemma node_benign_volatile:
  assumes "nd_storage nd' = nd_storage nd" "nd_currentTerm nd' = nd_currentTerm nd" "nd_votedFor nd' = nd_votedFor nd"
    "nd_role nd' = nd_role nd" "nd_me nd' = nd_me nd" "nd_n nd' = nd_n nd" "nd_config nd' = nd_config nd"
    "length (nd_nextIndex nd') = length (nd_nextIndex nd)" "length (nd_matchIndex nd') = length (nd_matchIndex nd)"
  shows "node_benign S nd nd'"
  using assms by (simp add: node_benign_def vote_stored_def split: sum.splits)

lemma reset_benign:
  assumes "nd_resetElectionTimerLocked now rnd nd = Some nd'"
  shows "node_benign S nd nd'"
  using assms by (intro node_benign_volatile) (auto simp: nd_resetElectionTimerLocked_def Let_def split: if_splits)

lemma signal_benign: "node_benign S nd (nd_signal nd)"
  by (intro node_benign_volatile) (simp_all add: nd_signal_def)

lemma persist_frame [simp]:
  "nd_me (nd_persistLocked enc S nd) = nd_me nd" "nd_n (nd_persistLocked enc S nd) = nd_n nd"
  "nd_config (nd_persistLocked enc S nd) = nd_config nd" "nd_role (nd_persistLocked enc S nd) = nd_role nd"
  "nd_currentTerm (nd_persistLocked enc S nd) = nd_currentTerm nd"
  "nd_votedFor (nd_persistLocked enc S nd) = nd_votedFor nd" "nd_log (nd_persistLocked enc S nd) = nd_log nd"
  "nd_nextIndex (nd_persistLocked enc S nd) = nd_nextIndex nd"
  "nd_matchIndex (nd_persistLocked enc S nd) = nd_matchIndex nd"
  "nd_commitIndex (nd_persistLocked enc S nd) = nd_commitIndex nd"
  by (simp_all add: nd_persistLocked_def Let_def)

lemma load_frame [simp]:
  "nd_me (nd_loadFromStorage S nd) = nd_me nd" "nd_n (nd_loadFromStorage S nd) = nd_n nd"
  "nd_config (nd_loadFromStorage S nd) = nd_config nd" "nd_role (nd_loadFromStorage S nd) = nd_role nd"
  "nd_storage (nd_loadFromStorage S nd) = nd_storage nd"
  "nd_nextIndex (nd_loadFromStorage S nd) = nd_nextIndex nd" "nd_matchIndex (nd_loadFromStorage S nd) = nd_matchIndex nd"
  "nd_currentTerm (nd_loadFromStorage S nd) = (case so_LoadRaftState S (nd_storage nd) of
     Inl _ \<Rightarrow> nd_currentTerm nd | Inr st \<Rightarrow> rs_CurrentTerm st)"
  "nd_votedFor (nd_loadFromStorage S nd) = (case so_LoadRaftState S (nd_storage nd) of
     Inl _ \<Rightarrow> nd_votedFor nd | Inr st \<Rightarrow> rs_VotedFor st)"
  by (auto simp: nd_loadFromStorage_def nd_deserializeLog_def Let_def split: sum.splits option.splits)

context reliable_store
begin

lemma persist_stored: "vote_stored S (nd_persistLocked enc S nd)"
proof -
  let ?st = "\<lparr>rs_CurrentTerm = nd_currentTerm nd, rs_VotedFor = nd_votedFor nd, rs_Log = nd_serializeLog enc (nd_log nd)\<rparr>"
  have "so_LoadRaftState S (snd (so_SaveRaftState S ?st (nd_storage nd))) = Inr ?st"
    using state_saved[of ?st "nd_storage nd"] state_reliable[of ?st "nd_storage nd"] by (simp add: prod_eq_iff)
  then show ?thesis
    by (simp add: vote_stored_def nd_persistLocked_def Let_def snap_keeps)
qed

lemma persist_benign:
  assumes "nd_me nd' = nd_me nd" "nd_n nd' = nd_n nd" "nd_config nd' = nd_config nd"
    "length (nd_nextIndex nd') = length (nd_nextIndex nd)" "length (nd_matchIndex nd') = length (nd_matchIndex nd)"
    "nd_currentTerm nd \<le> nd_currentTerm nd'"
    "nd_currentTerm nd' = nd_currentTerm nd \<Longrightarrow> nd_votedFor nd \<noteq> -1 \<Longrightarrow> nd_votedFor nd' = nd_votedFor nd"
    "nd_role nd' \<noteq> Follower \<Longrightarrow> nd_currentTerm nd' = nd_currentTerm nd \<and> nd_role nd' = nd_role nd"
  shows "node_benign S nd (nd_persistLocked enc S nd')"
  using assms persist_stored by (simp add: node_benign_def)

lemma follower_benign: "node_benign S nd (nd_becomeFollowerLocked enc S t nd)"
proof (cases "t < nd_currentTerm nd \<or> nd_currentTerm nd = t")
  case True
  then show ?thesis
    by (auto simp: nd_becomeFollowerLocked_def Let_def node_benign_def vote_stored_def split: sum.splits)
next
  case False
  then show ?thesis
    unfolding nd_becomeFollowerLocked_def Let_def by (auto intro!: persist_benign)
qed

lemma persist_log_benign: "node_benign S nd (nd_persistLocked enc S (nd\<lparr>nd_log := rl\<rparr>))"
  by (rule persist_benign) simp_all

lemma accept_benign:
  assumes "nd_acceptEntries enc S req resp nd = Some (resp', nd')"
  shows "node_benign S nd nd'"
proof -
  obtain rl where "nd' = nd_persistLocked enc S (nd\<lparr>nd_log := rl\<rparr>) \<or>
      (\<exists>c. nd' = nd_signal ((nd_persistLocked enc S (nd\<lparr>nd_log := rl\<rparr>))\<lparr>nd_commitIndex := c\<rparr>))"
    using assms by (auto simp: nd_acceptEntries_def Let_def split: if_splits)
  moreover have "node_benign S nd1 (nd_signal (nd1\<lparr>nd_commitIndex := c\<rparr>))" for nd1 :: "('a, 'b, 'c) node" and c
    by (rule node_benign_trans[OF _ signal_benign]) (simp add: node_benign_volatile)
  ultimately show ?thesis
    using node_benign_trans[OF persist_log_benign] persist_log_benign by blast
qed

lemma append_benign:
  assumes "nd_HandleAppendEntries enc S now rnd req nd = Some (resp, nd')"
  shows "node_benign S nd nd'"
proof (cases "aa_Term req < nd_currentTerm nd")
  case True
  then show ?thesis
    using assms by (simp add: nd_HandleAppendEntries_def Let_def node_benign_refl)
next
  case False
  let ?nd = "nd_becomeFollowerLocked enc S (aa_Term req) nd"
  obtain nd1 r where "nd1 = ?nd \<or> nd_acceptEntries enc S req r ?nd = Some (resp, nd1)"
      "nd_resetElectionTimerLocked now rnd nd1 = Some nd'"
    using assms False unfolding nd_HandleAppendEntries_def Let_def by (auto split: if_splits)
  then show ?thesis
    using follower_benign[of nd enc "aa_Term req"] accept_benign reset_benign node_benign_trans by metis
qed

lemma install_benign:
  assumes "nd_HandleInstallSnapshot enc S now rnd req nd = Some (t, nd')"
  shows "node_benign S nd nd'"
proof (cases "sa_Term req < nd_currentTerm nd")
  case True
  then show ?thesis
    using assms by (simp add: nd_HandleInstallSnapshot_def node_benign_refl)
next
  case False
  let ?nd = "nd_becomeFollowerLocked enc S (sa_Term req) nd"
  have quiet: "node_benign S (nd_persistLocked enc S nd0)
      (nd_signal ((nd_persistLocked enc S nd0)\<lparr>nd_snapPending := True, nd_commitIndex := c\<rparr>))"
    "node_benign S (nd_persistLocked enc S nd0)
      (nd_signal ((nd_persistLocked enc S nd0)\<lparr>nd_snapPending := True\<rparr>))" for nd0 :: "('a, 'b, 'c) node" and c
    by (rule node_benign_trans[OF _ signal_benign], simp add: node_benign_volatile)+
  obtain nd1 where nd1: "nd1 = ?nd \<or> (\<exists>rl c. nd1 = nd_signal ((nd_persistLocked enc S (?nd\<lparr>nd_log := rl\<rparr>))
        \<lparr>nd_snapPending := True, nd_commitIndex := c\<rparr>) \<or>
      nd1 = nd_signal ((nd_persistLocked enc S (?nd\<lparr>nd_log := rl\<rparr>))\<lparr>nd_snapPending := True\<rparr>))"
      "nd_resetElectionTimerLocked now rnd nd1 = Some nd'"
    using assms False unfolding nd_HandleInstallSnapshot_def Let_def by (auto split: if_splits)
  then have "node_benign S ?nd nd1"
    using node_benign_refl node_benign_trans[OF persist_log_benign quiet(1)]
      node_benign_trans[OF persist_log_benign quiet(2)] by blast
  then show ?thesis
    using follower_benign[of nd enc "sa_Term req"] reset_benign[OF nd1(2)] node_benign_trans by blast
qed

lemma snapshot_benign:
  assumes "nd_Snapshot enc S i snap nd = Some nd'"
  shows "node_benign S nd nd'"
  using assms persist_log_benign node_benign_refl by (auto simp: nd_Snapshot_def split: if_splits)

lemma start_benign: "node_benign S nd (snd (nd_Start enc S cmd nd))"
  by (simp add: nd_Start_def Let_def persist_log_benign node_benign_refl)

lemma replicate_benign:
  assumes "nd_startReplication t nd = Some (sends, nd')"
  shows "node_benign S nd nd'"
proof -
  have peer: "node_benign S x y" if "nd_replicate_peer t p x = Some (ss, y)" for p ss and x y :: "('a, 'b, 'c) node"
    using that by (intro node_benign_volatile)
      (auto simp: nd_replicate_peer_def Let_def slice_set_eq_Some split: if_splits)
  have "node_benign S x y" if "nd_replicate_loop t k x = Some (ss, y)" for k ss and x y :: "('a, 'b, 'c) node"
    using that
  proof (induction k arbitrary: y ss)
    case (Suc k)
    then show ?case
      using peer node_benign_trans by fastforce
  qed (simp add: node_benign_refl)
  then show ?thesis
    using assms node_benign_refl by (auto simp: nd_startReplication_def split: if_splits)
qed

lemma commit_benign:
  assumes "nd_updateCommitIndexLocked nd = Some nd'"
  shows "node_benign S nd nd'"
proof -
  have "nd' = nd \<or> (\<exists>c. nd' = nd_signal (nd\<lparr>nd_commitIndex := c\<rparr>))"
    using assms unfolding nd_updateCommitIndexLocked_def Let_def by (auto split: if_splits)
  moreover have "node_benign S nd (nd_signal (nd\<lparr>nd_commitIndex := c\<rparr>))" for c
    by (rule node_benign_trans[OF _ signal_benign]) (simp add: node_benign_volatile)
  ultimately show ?thesis
    using node_benign_refl by auto
qed

lemma append_reply_benign:
  assumes "nd_handleAppendReply enc S t p req resp nd = Some nd'"
  shows "node_benign S nd nd'"
proof -
  show ?thesis
  proof (cases "ar_Term resp > nd_currentTerm nd \<or> nd_contextLostLocked Leader t nd")
    case True
    then show ?thesis
      using assms follower_benign node_benign_refl by (auto simp: nd_handleAppendReply_def split: if_splits)
  next
    case lead: False
    show ?thesis
    proof (cases "ar_Success resp")
      case True
      then obtain xs ys where u: "nd_updateCommitIndexLocked (nd\<lparr>nd_matchIndex := ys, nd_nextIndex := xs\<rparr>) = Some nd'"
        and "length xs = length (nd_nextIndex nd)" "length ys = length (nd_matchIndex nd)"
        using assms lead by (auto simp: nd_handleAppendReply_def Let_def dest!: slice_set_length)
      then show ?thesis
        by (intro node_benign_trans[OF node_benign_volatile commit_benign[OF u]]) simp_all
    next
      case False
      then show ?thesis
        using assms lead by (intro node_benign_volatile) (auto simp: nd_handleAppendReply_def dest!: slice_set_length)
    qed
  qed
qed

lemma snap_reply_benign:
  assumes "nd_handleSnapReply enc S t p rt nd = Some nd'"
  shows "node_benign S nd nd'"
proof (cases "rt > nd_currentTerm nd")
  case True
  then show ?thesis
    using assms follower_benign by (auto simp: nd_handleSnapReply_def)
next
  case False
  then show ?thesis
    using assms by (intro node_benign_volatile)
      (auto simp: nd_handleSnapReply_def slice_set_eq_Some split: if_splits)
qed

lemma application_benign:
  assumes "nd_applicationTicker_step ready nd = Some (m, nd')"
  shows "node_benign S nd nd'"
  using assms by (intro node_benign_volatile)
    (auto simp: nd_applicationTicker_step_def nd_collect_def Let_def split: node_applier.splits list.splits if_splits)

end

inductive node_other :: "('c log_entry list \<Rightarrow> bool) \<Rightarrow> ('c, 'b, 's, 'e) raft_storage \<Rightarrow>
    ('c, 'b, 's) node \<Rightarrow> ('c, 'b, 's) node \<Rightarrow> bool" for enc S where
  "nd_HandleAppendEntries enc S now rnd req nd = Some (resp, nd') \<Longrightarrow> node_other enc S nd nd'"
| "nd_handleAppendReply enc S t p req resp nd = Some nd' \<Longrightarrow> node_other enc S nd nd'"
| "nd_startReplication t nd = Some (sends, nd') \<Longrightarrow> node_other enc S nd nd'"
| "nd_HandleInstallSnapshot enc S now rnd sreq nd = Some (rt, nd') \<Longrightarrow> node_other enc S nd nd'"
| "nd_handleSnapReply enc S t p rt nd = Some nd' \<Longrightarrow> node_other enc S nd nd'"
| "nd_Snapshot enc S i snap nd = Some nd' \<Longrightarrow> node_other enc S nd nd'"
| "node_other enc S nd (snd (nd_Start enc S cmd nd))"
| "nd_applicationTicker_step ready nd = Some (m, nd') \<Longrightarrow> node_other enc S nd nd'"
| "node_other enc S nd (nd_Stop nd)"

text \<open>
  A crashed node starts again with \<open>NewNode\<close> on its storage. The clock and the random number
  are 0 there: when an election times out is arbitrary in any case, since the clock of every
  tick is.
\<close>

definition node_restart :: "('c, 'b, 's, 'e) raft_storage \<Rightarrow> ('c, 'b, 's) node \<Rightarrow> ('c, 'b, 's) node" where
  "node_restart S nd = the (NewNode S (Some (nd_config nd)) (nd_n nd) (nd_me nd) (nd_storage nd) 0 0)"

definition node_ops :: "('c log_entry list \<Rightarrow> bool) \<Rightarrow> ('c, 'b, 's, 'e) raft_storage \<Rightarrow> nat \<Rightarrow>
    ('c, 'b, 's) node peer_ops" where
  "node_ops enc S n =
     \<lparr>p_id = nd_me, p_term = nd_currentTerm, p_vote = nd_votedFor, p_role = nd_role, p_inv = node_inv S n,
      p_tick = (\<lambda>now rnd nd. the (nd_electionTicker_round enc S now rnd nd)),
      p_elect = (\<lambda>now rnd t nd. the (nd_startElection now rnd t nd)),
      p_request = (\<lambda>now rnd req nd. the (nd_HandleRequestVote enc S now rnd req nd)),
      p_reply = (\<lambda>t resp v nd. Some (nd_handleVoteReply enc S t resp v nd)),
      p_claim = nd_claim, p_quiet = node_other enc S, p_restart = node_restart S\<rparr>"

lemma node_ops_simps [simp]:
  "p_id (node_ops enc S n) = nd_me" "p_term (node_ops enc S n) = nd_currentTerm"
  "p_vote (node_ops enc S n) = nd_votedFor" "p_role (node_ops enc S n) = nd_role"
  "p_inv (node_ops enc S n) = node_inv S n"
  "p_tick (node_ops enc S n) now rnd nd = the (nd_electionTicker_round enc S now rnd nd)"
  "p_elect (node_ops enc S n) now rnd t nd = the (nd_startElection now rnd t nd)"
  "p_request (node_ops enc S n) now rnd req nd = the (nd_HandleRequestVote enc S now rnd req nd)"
  "p_reply (node_ops enc S n) t resp v nd = Some (nd_handleVoteReply enc S t resp v nd)"
  "p_claim (node_ops enc S n) = nd_claim" "p_quiet (node_ops enc S n) = node_other enc S"
  "p_restart (node_ops enc S n) = node_restart S"
  by (simp_all add: node_ops_def)

lemma node_benign_keeping: "node_benign S nd nd' \<Longrightarrow> vote_keeping (node_ops enc S n) nd nd'"
  by (auto simp: node_benign_def node_inv_def vote_keeping_def)

text \<open>With a valid configuration the election timer can be set.\<close>

lemma reset_defined:
  assumes "node_inv S n nd" "nd_config nd' = nd_config nd"
  shows "\<exists>nd''. nd_resetElectionTimerLocked now rnd nd' = Some nd''"
  using assms by (auto simp: node_inv_def nd_resetElectionTimerLocked_def Let_def)

lemma reset_frame:
  assumes "nd_resetElectionTimerLocked now rnd nd = Some nd'"
  shows "nd_currentTerm nd' = nd_currentTerm nd" "nd_votedFor nd' = nd_votedFor nd" "nd_role nd' = nd_role nd"
    "nd_storage nd' = nd_storage nd" "nd_me nd' = nd_me nd" "nd_n nd' = nd_n nd" "nd_config nd' = nd_config nd"
    "nd_nextIndex nd' = nd_nextIndex nd" "nd_matchIndex nd' = nd_matchIndex nd" "nd_log nd' = nd_log nd"
  using assms by (auto simp: nd_resetElectionTimerLocked_def Let_def split: if_splits)

context reliable_store
begin

lemma node_tick:
  assumes inv: "node_inv S n nd"
  shows "the (nd_electionTicker_round enc S now rnd nd) = (None, nd') \<Longrightarrow> nd' = nd"
    "the (nd_electionTicker_round enc S now rnd nd) = (Some t, nd') \<Longrightarrow>
      nd_me nd' = nd_me nd \<and> node_inv S n nd' \<and> nd_currentTerm nd < t \<and> nd_currentTerm nd' = t \<and>
      nd_votedFor nd' = nd_me nd \<and> nd_role nd' = Candidate"
proof -
  let ?nd = "nd\<lparr>nd_currentTerm := nd_currentTerm nd + 1, nd_role := Candidate, nd_votedFor := nd_me nd\<rparr>"
  obtain nd1 where nd1: "nd_resetElectionTimerLocked now rnd ?nd = Some nd1"
    using reset_defined[OF inv, of ?nd] by auto
  have round: "nd_electionTicker_round enc S now rnd nd =
      (if nd_dead nd \<or> nd_role nd = Leader \<or> \<not> nd_isElectionTimeoutLocked now nd then Some (None, nd)
       else Some (Some (nd_currentTerm nd + 1), nd_persistLocked enc S nd1))"
    using nd1 reset_frame[OF nd1]
    by (simp add: nd_electionTicker_round_def nd_killed_def nd_becomeCandidateLocked_def)
  then show "the (nd_electionTicker_round enc S now rnd nd) = (None, nd') \<Longrightarrow> nd' = nd"
    by (auto split: if_splits)
  have "node_inv S n (nd_persistLocked enc S nd1)"
    using inv persist_stored[of enc nd1] reset_frame[OF nd1] by (simp add: node_inv_def)
  then show "the (nd_electionTicker_round enc S now rnd nd) = (Some t, nd') \<Longrightarrow>
      nd_me nd' = nd_me nd \<and> node_inv S n nd' \<and> nd_currentTerm nd < t \<and> nd_currentTerm nd' = t \<and>
      nd_votedFor nd' = nd_me nd \<and> nd_role nd' = Candidate"
    using round reset_frame[OF nd1] by (auto split: if_splits)
qed

lemma node_elect:
  assumes inv: "node_inv S n nd" and e: "the (nd_startElection now rnd t nd) = ((v, cs), nd')"
  shows "node_benign S nd nd' \<and> v = 1 \<and>
    (\<forall>(q, a) \<in> set cs. q \<in> peer_ids n \<and> q \<noteq> nd_me nd \<and> va_Term a = t \<and> va_CandidateId a = nd_me nd)"
proof -
  obtain nd1 where nd1: "nd_resetElectionTimerLocked now rnd nd = Some nd1"
    using reset_defined[OF inv refl] by blast
  show ?thesis
    using e nd1 reset_frame[OF nd1] reset_benign[OF nd1, of S] node_benign_refl[of S nd] inv
    by (auto simp: nd_startElection_def node_inv_def case_prod_beta Let_def split: if_splits)
qed

lemma node_request:
  assumes inv: "node_inv S n nd" and r: "the (nd_HandleRequestVote enc S now rnd req nd) = (resp, nd')"
  shows "node_benign S nd nd' \<and>
    (vr_VoteGranted resp \<longrightarrow> nd_currentTerm nd' = va_Term req \<and> nd_votedFor nd' = va_CandidateId req)"
proof (cases "va_Term req < nd_currentTerm nd")
  case True
  then show ?thesis
    using r node_benign_refl by (auto simp: nd_HandleRequestVote_def Let_def)
next
  case False
  define nd1 where "nd1 = (if va_Term req > nd_currentTerm nd then nd_becomeFollowerLocked enc S (va_Term req) nd else nd)"
  define resp1 where "resp1 = \<lparr>vr_Term = nd_currentTerm nd1, vr_VoteGranted = False\<rparr>"
  let ?nd2 = "nd_persistLocked enc S (nd1\<lparr>nd_votedFor := va_CandidateId req\<rparr>)"
  have b1: "node_benign S nd nd1"
    by (simp add: nd1_def follower_benign node_benign_refl)
  have t1: "nd_currentTerm nd1 = va_Term req"
    using False by (simp add: nd1_def nd_becomeFollowerLocked_def Let_def)
  have "nd_config ?nd2 = nd_config nd"
    using b1 by (simp add: node_benign_def)
  then obtain nd3 where nd3: "nd_resetElectionTimerLocked now rnd ?nd2 = Some nd3"
    using reset_defined[OF inv] by blast
  have eq: "nd_HandleRequestVote enc S now rnd req nd =
      (if nd_votedFor nd1 \<noteq> -1 \<and> nd_votedFor nd1 \<noteq> va_CandidateId req \<or>
          nd_isMoreUpToDateLocked (va_LastLogIndex req) (va_LastLogTerm req) nd1 then Some (resp1, nd1)
       else Some (resp1\<lparr>vr_VoteGranted := True\<rparr>, nd3))"
    using False nd3 unfolding nd_HandleRequestVote_def Let_def nd1_def resp1_def
    by (auto split: if_splits)
  show ?thesis
  proof (cases "vr_VoteGranted resp")
    case True
    then have vote: "nd_votedFor nd1 = -1 \<or> nd_votedFor nd1 = va_CandidateId req" and nd': "nd' = nd3"
      using r eq by (auto simp: resp1_def split: if_splits)
    have "node_benign S nd1 ?nd2"
      using vote by (intro persist_benign) auto
    then show ?thesis
      using node_benign_trans[OF b1 node_benign_trans[OF _ reset_benign[OF nd3]]] nd' reset_frame[OF nd3] t1 by simp
  next
    case ng: False
    then have "nd' = nd1"
      using r eq by (auto split: if_splits)
    then show ?thesis
      using b1 ng by simp
  qed
qed

lemma node_reply:
  assumes "node_inv S n nd" "nd_handleVoteReply enc S t resp v nd = (b, v', nd')"
  shows "v' = v \<and> \<not> b \<and> node_benign S nd nd' \<or>
    v' = v + 1 \<and> vr_VoteGranted resp \<and> nd' = nd \<and> (b \<longrightarrow> int n < 2 * v')"
proof -
  have "int n div 2 < v + 1 \<Longrightarrow> int n < 2 * (v + 1)"
    by presburger
  then show ?thesis
    using assms follower_benign[of nd enc] node_benign_refl[of S nd]
    by (auto simp: nd_handleVoteReply_def node_inv_def Let_def split: if_splits)
qed

lemma node_claims:
  assumes inv: "node_inv S n nd" and c: "nd_claim t nd = Some nd'"
  shows "nd_me nd' = nd_me nd \<and> node_inv S n nd' \<and> nd_currentTerm nd' = nd_currentTerm nd \<and>
    nd_votedFor nd' = nd_votedFor nd \<and> (nd_role nd' = nd_role nd \<or> nd_role nd' = Leader \<and> nd_currentTerm nd = t)"
proof (cases "nd_role nd = Candidate \<and> nd_currentTerm nd = t")
  case True
  then obtain xs ys where l: "leaderView_loop (nd_n nd) (log_size (nd_log nd)) (nd_nextIndex nd) (nd_matchIndex nd) = Some (xs, ys)"
    and nd': "nd' = nd\<lparr>nd_role := Leader, nd_nextIndex := xs, nd_matchIndex := ys\<rparr>"
    using c by (auto simp: nd_claim_def nd_becomeLeaderLocked_def)
  have "length xs = length (nd_nextIndex nd) \<and> length ys = length (nd_matchIndex nd)"
    if "leaderView_loop k sz next match = Some (xs, ys)" "length next = length (nd_nextIndex nd)"
      "length match = length (nd_matchIndex nd)" for k sz "next" match xs ys
    using that by (induction k arbitrary: xs ys) (auto simp: slice_set_eq_Some)
  from this[OF l] show ?thesis
    using inv nd' True by (auto simp: node_inv_def vote_stored_def split: sum.splits)
next
  case False
  then show ?thesis
    using c inv by (auto simp: nd_claim_def)
qed

lemma node_quiet: "node_other enc S nd nd' \<Longrightarrow> node_benign S nd nd'"
proof (induction rule: node_other.induct)
  case (9 nd)
  show ?case
    by (rule node_benign_volatile) (simp_all add: nd_Stop_def nd_signal_def nd_Kill_def)
qed (fact append_benign append_reply_benign replicate_benign install_benign snap_reply_benign snapshot_benign
    start_benign application_benign)+

lemma node_restarts:
  assumes inv: "node_inv S n nd"
  shows "nd_me (node_restart S nd) = nd_me nd \<and> node_inv S n (node_restart S nd) \<and>
    nd_currentTerm (node_restart S nd) = nd_currentTerm nd \<and> nd_votedFor (node_restart S nd) = nd_votedFor nd \<and>
    nd_role (node_restart S nd) = Follower"
proof -
  have valid: "nc_Validate (nd_config nd) = nd_config nd"
    using inv by (simp add: node_inv_def nc_Validate_def Let_def)
  obtain nd1 where nd1: "NewNode S (Some (nd_config nd)) (nd_n nd) (nd_me nd) (nd_storage nd) 0 0 = Some nd1"
    using inv valid by (auto simp: NewNode_def Let_def nd_resetElectionTimerLocked_def node_inv_def)
  then show ?thesis
    using reset_frame[OF nd1[unfolded NewNode_def Let_def]] inv valid
    by (auto simp: node_restart_def node_inv_def vote_stored_def split: sum.splits)
qed

end

sublocale reliable_store \<subseteq> nodes: election_peer "node_ops enc S n" n for enc n
proof
  fix s s' now rnd
  assume "p_inv (node_ops enc S n) s" "p_tick (node_ops enc S n) now rnd s = (None, s')"
  then show "vote_keeping (node_ops enc S n) s s'"
    using node_tick(1)[of n s enc now rnd s'] node_benign_keeping[OF node_benign_refl, of enc S n s] by simp
next
  fix s s' now rnd t
  assume "p_inv (node_ops enc S n) s" "p_tick (node_ops enc S n) now rnd s = (Some t, s')"
  then show "p_id (node_ops enc S n) s' = p_id (node_ops enc S n) s \<and> p_inv (node_ops enc S n) s' \<and>
      p_term (node_ops enc S n) s < t \<and> p_term (node_ops enc S n) s' = t \<and>
      p_vote (node_ops enc S n) s' = p_id (node_ops enc S n) s \<and> p_role (node_ops enc S n) s' = Candidate"
    using node_tick(2)[of n s enc now rnd t s'] by simp
next
  fix s s' now rnd t v cs
  assume "p_inv (node_ops enc S n) s" "p_elect (node_ops enc S n) now rnd t s = ((v, cs), s')"
  then show "vote_keeping (node_ops enc S n) s s' \<and> (cs \<noteq> [] \<longrightarrow> v \<le> 1) \<and>
      (\<forall>(q, a) \<in> set cs. q \<in> peer_ids n \<and> q \<noteq> p_id (node_ops enc S n) s \<and>
         va_Term a = t \<and> va_CandidateId a = p_id (node_ops enc S n) s)"
    using node_elect[of n s now rnd t v cs s'] node_benign_keeping[of S s s'] by simp
next
  fix s s' now rnd a r
  assume "p_inv (node_ops enc S n) s" "p_request (node_ops enc S n) now rnd a s = (r, s')" "vr_VoteGranted r"
  then show "p_term (node_ops enc S n) s' = va_Term a \<and> p_vote (node_ops enc S n) s' = va_CandidateId a"
    using node_request[of n s enc now rnd a r s'] by simp
next
  fix s s' now rnd a r
  assume "p_inv (node_ops enc S n) s" "p_request (node_ops enc S n) now rnd a s = (r, s')"
  then show "vote_keeping (node_ops enc S n) s s'"
    using node_request[of n s enc now rnd a r s'] node_benign_keeping[of S s s'] by simp
next
  fix s s' t r v b v'
  assume s: "p_inv (node_ops enc S n) s" and r: "p_reply (node_ops enc S n) t r v s = Some (b, v', s')"
  then have "v' = v \<and> \<not> b \<and> node_benign S s s' \<or>
      v' = v + 1 \<and> vr_VoteGranted r \<and> s' = s \<and> (b \<longrightarrow> int n < 2 * v')"
    using node_reply[of n s enc t r v b v' s'] by simp
  then show "v' = v \<and> \<not> b \<and> vote_keeping (node_ops enc S n) s s' \<or>
      v' = v + 1 \<and> vr_VoteGranted r \<and> p_id (node_ops enc S n) s' = p_id (node_ops enc S n) s \<and>
        p_inv (node_ops enc S n) s' \<and> p_term (node_ops enc S n) s' = p_term (node_ops enc S n) s \<and>
        p_vote (node_ops enc S n) s' = p_vote (node_ops enc S n) s \<and>
        (p_role (node_ops enc S n) s' = p_role (node_ops enc S n) s \<or>
         p_role (node_ops enc S n) s' = Leader \<and> p_term (node_ops enc S n) s = t \<and> int n < 2 * v') \<and>
        (b \<longrightarrow> int n < 2 * v')"
    using s node_benign_keeping[of S s s'] by auto
next
  fix s s' t
  assume "p_inv (node_ops enc S n) s" "p_claim (node_ops enc S n) t s = Some s'"
  then show "p_id (node_ops enc S n) s' = p_id (node_ops enc S n) s \<and> p_inv (node_ops enc S n) s' \<and>
      p_term (node_ops enc S n) s' = p_term (node_ops enc S n) s \<and>
      p_vote (node_ops enc S n) s' = p_vote (node_ops enc S n) s \<and>
      (p_role (node_ops enc S n) s' = p_role (node_ops enc S n) s \<or>
       p_role (node_ops enc S n) s' = Leader \<and> p_term (node_ops enc S n) s = t)"
    using node_claims[of n s t s'] by simp
next
  fix s s'
  assume "p_quiet (node_ops enc S n) s s'"
  then show "vote_keeping (node_ops enc S n) s s'"
    using node_quiet[of enc s s'] node_benign_keeping[of S s s'] by simp
next
  fix s
  assume "p_inv (node_ops enc S n) s"
  then show "p_id (node_ops enc S n) (p_restart (node_ops enc S n) s) = p_id (node_ops enc S n) s \<and>
      p_inv (node_ops enc S n) (p_restart (node_ops enc S n) s) \<and>
      p_term (node_ops enc S n) (p_restart (node_ops enc S n) s) = p_term (node_ops enc S n) s \<and>
      p_vote (node_ops enc S n) (p_restart (node_ops enc S n) s) = p_vote (node_ops enc S n) s \<and>
      p_role (node_ops enc S n) (p_restart (node_ops enc S n) s) = Follower"
    using node_restarts[of n s] by simp
qed

lemma NewNode_inv:
  assumes "NewNode S cfg n i st now rnd = Some nd"
  shows "node_inv S n nd \<and> nd_me nd = i \<and> nd_role nd = Follower \<and> nd_storage nd = st"
proof -
  let ?c = "nc_Validate (case cfg of None \<Rightarrow> DefaultNodeConfig | Some c \<Rightarrow> c)"
  have "0 < nc_ElectionTimeoutMin ?c" "0 < nc_ReplicateInterval ?c"
    by (simp_all add: nc_Validate_def DefaultNodeConfig_def Let_def)
  moreover have "nc_ElectionTimeoutMin ?c < nc_ElectionTimeoutMax ?c"
    using assms by (simp add: NewNode_def nd_resetElectionTimerLocked_def Let_def split: if_splits)
  ultimately show ?thesis
    using reset_frame[OF assms[unfolded NewNode_def Let_def]]
    by (auto simp: node_inv_def vote_stored_def split: sum.splits)
qed

context reliable_store
begin

lemmas node_one_leader = nodes.one_leader_per_term

end

text \<open>
  (C11) Election safety of nodes. In every state that a cluster of nodes can reach, two nodes
  that both believe to be the leader of the same term are the same node, whatever their
  storages held when they were started, and although messages are lost, delayed and reordered,
  vote requests are executed repeatedly and nodes crash and restart. The goroutine that asks for
  a vote takes one reply. The saves of the storages must not fail, since a node does not notice
  that.
\<close>

theorem node_election_safety:
  assumes "reliable_store S" "\<forall>i \<in> {0..<int n}. \<exists>now rnd. NewNode S cfg n i (st i) now rnd = Some (s0 i)"
    and "cluster_reachable (node_ops enc S n) n s0 c"
    and "i \<in> {0..<int n}" "j \<in> {0..<int n}"
    and "nd_role (peers c i) = Leader" "nd_role (peers c j) = Leader"
    and "nd_currentTerm (peers c i) = nd_currentTerm (peers c j)"
  shows "i = j"
proof -
  have "p_inv (node_ops enc S n) (s0 i) \<and> p_id (node_ops enc S n) (s0 i) = i \<and> p_role (node_ops enc S n) (s0 i) = Follower"
    if i: "i \<in> {0..<int n}" for i
  proof -
    obtain now rnd where "NewNode S cfg n i (st i) now rnd = Some (s0 i)"
      using bspec[OF assms(2) i] by blast
    from NewNode_inv[OF this] show ?thesis
      by simp
  qed
  from reliable_store.node_one_leader[OF assms(1,3) this] show ?thesis
    using assms(4-8) by simp
qed

text \<open>A run of three nodes in which node 0 wins term 2 with the vote of node 1.\<close>

lemma node_run_leader:
  "\<exists>c :: (nat, nat, _) node cluster.
     cluster_reachable (node_ops (\<lambda>_. True) (mem_store :: (_, _, _, unit storage_error) raft_storage) 3) 3 (fresh_node 3) c \<and>
     nd_role (peers c 0) = Leader \<and> nd_currentTerm (peers c 0) = 2"
proof -
  let ?P = "node_ops (\<lambda>_. True) (mem_store :: (nat, nat, _, unit storage_error) raft_storage) 3"
  let ?init = "fresh_node 3 :: int \<Rightarrow> (nat, nat, _) node"
  let ?a = "\<lparr>va_Term = 2, va_CandidateId = 0, va_LastLogIndex = 0, va_LastLogTerm = 0\<rparr>"
  let ?now = "300000000 :: int"
  define cand where "cand = snd (p_tick ?P ?now 0 (?init 0))"
  have last: "log_last (NewLog 0 0 [] [] :: (nat, nat) raft_log) = (0, 0)"
    by (simp add: log_last_def NewLog_def mock_entry_def)
  have tick: "p_tick ?P ?now 0 (?init 0) = (Some 2, cand)"
    and cand: "nd_role cand = Candidate" "nd_currentTerm cand = 2" "nd_me cand = 0" "nd_n cand = 3"
      "nd_log cand = NewLog 0 0 [] []" "nd_config cand = DefaultNodeConfig"
      "nd_nextIndex cand = [0, 0, 0]" "nd_matchIndex cand = [0, 0, 0]"
    by (simp_all add: cand_def fresh_node_eq nd_electionTicker_round_def nd_killed_def nd_isElectionTimeoutLocked_def
        nd_becomeCandidateLocked_def nd_resetElectionTimerLocked_def DefaultNodeConfig_def numeral_3_eq_3)
  have "cluster_step ?P 3 (start_cluster ?init) ((set_peer 0 cand (start_cluster ?init))
      \<lparr>spawned := insert (0, 2) (spawned (start_cluster ?init))\<rparr>)"
    by (rule cluster_step.timeout[of _ _ _ ?now 0]) (use tick in \<open>simp_all add: start_cluster_def del: node_ops_simps\<close>)
  from cluster_reachable.step[OF cluster_reachable.start this]
  obtain c1 where 1: "cluster_reachable ?P 3 ?init c1" "(0, 2) \<in> spawned c1" "peers c1 0 = cand"
      "peers c1 1 = ?init 1"
    by (rule that) (simp_all add: start_cluster_def)
  have upto: "[0..2] = [0, 1, 2 :: int]"
    by (simp add: upto_rec1)
  define cand' where "cand' = snd (p_elect ?P ?now 0 2 cand)"
  have elect: "p_elect ?P ?now 0 2 (peers c1 0) = ((1, [(1, ?a), (2, ?a)]), cand')"
    and cand': "nd_role cand' = Candidate" "nd_currentTerm cand' = 2" "nd_me cand' = 0" "nd_n cand' = 3"
      "nd_log cand' = NewLog 0 0 [] []" "nd_nextIndex cand' = [0, 0, 0]" "nd_matchIndex cand' = [0, 0, 0]"
    by (simp_all add: cand'_def 1(3) cand nd_startElection_def nd_contextLostLocked_def last nd_resetElectionTimerLocked_def
        DefaultNodeConfig_def upto)
  from cluster_reachable.step[OF 1(1) cluster_step.elect[OF 1(2) elect]]
  obtain c2 where 2: "cluster_reachable ?P 3 ?init c2" "calls c2 (0, 2, 1) = Some (Asked ?a)"
      "peers c2 0 = cand'" "peers c2 1 = ?init 1" "tally c2 (0, 2) = 1"
    by (rule that) (simp_all add: place_calls_def 1)
  define r where "r = \<lparr>vr_Term = 2, vr_VoteGranted = True\<rparr>"
  have "fst (p_request ?P 0 0 ?a (peers c2 1)) = r"
    by (simp add: 2 fresh_node_eq nd_HandleRequestVote_def nd_becomeFollowerLocked_def nd_isMoreUpToDateLocked_def
        nd_resetElectionTimerLocked_def DefaultNodeConfig_def last r_def)
  then obtain s1 where r: "p_request ?P 0 0 ?a (peers c2 1) = (r, s1)"
    by (metis prod.collapse)
  from cluster_reachable.step[OF 2(1) cluster_step.request[OF 2(2) r]]
  obtain c3 where 3: "cluster_reachable ?P 3 ?init c3" "calls c3 (0, 2, 1) = Some (Answered r)"
      "peers c3 0 = cand'" "tally c3 (0, 2) = 1"
    by (rule that) (simp_all add: 2)
  have "p_reply ?P 2 r (tally c3 (0, 2)) (peers c3 0) = Some (True, 2, cand')"
    by (simp add: 3 r_def cand' nd_handleVoteReply_def nd_contextLostLocked_def)
  from cluster_reachable.step[OF 3(1) cluster_step.reply[OF 3(2) this]]
  obtain c4 where 4: "cluster_reachable ?P 3 ?init c4" "(0, 2) \<in> claims c4" "peers c4 0 = cand'"
    by (rule that) simp_all
  have "\<exists>s2. p_claim ?P 2 (peers c4 0) = Some s2 \<and> nd_role s2 = Leader \<and> nd_currentTerm s2 = 2"
    by (simp add: 4 cand' nd_claim_def nd_becomeLeaderLocked_def leaderView_loop_eq)
  then obtain s2 where s2: "p_claim ?P 2 (peers c4 0) = Some s2" "nd_role s2 = Leader" "nd_currentTerm s2 = 2"
    by blast
  from cluster_reachable.step[OF 4(1) cluster_step.claim[OF 4(2) s2(1)]]
  show ?thesis
    by (intro exI conjI) (assumption, simp_all add: s2(2,3))
qed

theorem node_election_safety_witness:
  "\<exists>(c :: (nat, nat, _) node cluster) i.
     reliable_store (mem_store :: (nat, nat, _, unit storage_error) raft_storage) \<and>
     cluster_reachable (node_ops (\<lambda>_. True) (mem_store :: (_, _, _, unit storage_error) raft_storage) 3) 3 (fresh_node 3) c \<and>
     nd_role (peers c i) = Leader \<and> nd_currentTerm (peers c i) = 2 \<and> i = 0"
proof -
  let ?S = "mem_store :: (nat, nat, _, unit storage_error) raft_storage"
  obtain c :: "(nat, nat, _) node cluster" where
    c: "cluster_reachable (node_ops (\<lambda>_. True) ?S 3) 3 (fresh_node 3) c"
      "nd_role (peers c 0) = Leader" "nd_currentTerm (peers c 0) = 2"
    using node_run_leader by blast
  have new: "\<forall>i \<in> {0..<int 3}. \<exists>now rnd. NewNode ?S None 3 i NewMemoryRaftStorage now rnd = Some (fresh_node 3 i)"
  proof
    fix i :: int
    have "NewNode ?S None 3 i NewMemoryRaftStorage 0 0 \<noteq> None"
      by (simp add: NewNode_def nc_Validate_def DefaultNodeConfig_def nd_resetElectionTimerLocked_def Let_def)
    then show "\<exists>now rnd. NewNode ?S None 3 i NewMemoryRaftStorage now rnd = Some (fresh_node 3 i)"
      by (auto simp: fresh_node_def)
  qed
  have rel: "reliable_store ?S"
    by (rule mem_store.reliable_store_axioms)
  show ?thesis
    using node_election_safety[OF rel new c(1), of 0 0] c rel by fastforce
qed

end
