(* ===== verification/Raft_Node_Faults.thy ===== *)
theory Raft_Node_Faults
  imports Raft_Node_Safety
begin

text \<open>
  How the node of \<^verbatim>\<open>src/src/raft/node.go\<close> behaves where it departs from the Raft
  protocol or from the peer of \<^verbatim>\<open>raft.go\<close>: what it remembers over a restart, which
  configurations it accepts, what it delivers to a receiver that is not always ready, and
  when it brings a lagging follower up to date.
\<close>

section \<open>Restarting\<close>

context reliable_store
begin

lemma persist_loads:
  "so_LoadRaftState S (nd_storage (nd_persistLocked enc S nd)) =
     Inr \<lparr>rs_CurrentTerm = nd_currentTerm nd, rs_VotedFor = nd_votedFor nd, rs_Log = nd_serializeLog enc (nd_log nd)\<rparr>"
  "so_LoadSnapshot S (nd_storage (nd_persistLocked enc S nd)) =
     Inr \<lparr>sn_Index = snapLastIdx (nd_log nd), sn_Term = snapLastTerm (nd_log nd), sn_Data = snapshot (nd_log nd)\<rparr>"
proof -
  let ?st = "\<lparr>rs_CurrentTerm = nd_currentTerm nd, rs_VotedFor = nd_votedFor nd, rs_Log = nd_serializeLog enc (nd_log nd)\<rparr>"
  let ?sn = "\<lparr>sn_Index = snapLastIdx (nd_log nd), sn_Term = snapLastTerm (nd_log nd), sn_Data = snapshot (nd_log nd)\<rparr>"
  let ?s = "snd (so_SaveRaftState S ?st (nd_storage nd))"
  show "so_LoadRaftState S (nd_storage (nd_persistLocked enc S nd)) = Inr ?st"
    using state_saved[of ?st "nd_storage nd" ?s] state_reliable[of ?st "nd_storage nd"]
    by (simp add: nd_persistLocked_def Let_def snap_keeps prod_eq_iff)
  show "so_LoadSnapshot S (nd_storage (nd_persistLocked enc S nd)) = Inr ?sn"
    using snap_saved[of ?sn ?s "snd (so_SaveSnapshot S ?sn ?s)"] snap_reliable[of ?sn ?s]
    by (simp add: nd_persistLocked_def Let_def prod_eq_iff)
qed

lemma restart_log:
  assumes "node_inv S n nd"
  shows "nd_log (node_restart S (nd_persistLocked enc S nd)) =
    NewLog (snapLastIdx (nd_log nd)) (snapLastTerm (nd_log nd)) (snapshot (nd_log nd)) []"
proof -
  have "nc_Validate (nd_config nd) = nd_config nd"
    "\<not> nc_ElectionTimeoutMax (nd_config nd) \<le> nc_ElectionTimeoutMin (nd_config nd)"
    using assms by (simp_all add: node_inv_def nc_Validate_def Let_def)
  then show ?thesis
    by (simp add: node_restart_def NewNode_def Let_def nd_resetElectionTimerLocked_def nd_loadFromStorage_def
        persist_loads nd_deserializeLog_def split: option.splits)
qed

end

text \<open>
  (C34) A restarted node has forgotten its log: \<open>loadFromStorage\<close> replaces the log it has just
  decoded by an empty one behind the snapshot, and \<open>persistLocked\<close> always saves a snapshot. So
  the entry that \<open>Start\<close> has just appended and saved, whatever the storage, is not in the log
  of the node after a crash; only term, vote and snapshot are.
\<close>

theorem node_restart_forgets:
  assumes "reliable_store S" "node_inv S n nd" "log_inv (nd_log nd)"
    and "nd_Start enc S cmd nd = ((index, t, True), nd')"
  shows "(\<exists>e. log_at (nd_log nd') index = Some e \<and> le_Command e = cmd) \<and>
    log_at (nd_log (node_restart S nd')) index = None \<and>
    nd_log (node_restart S nd') = NewLog (snapLastIdx (nd_log nd)) (snapLastTerm (nd_log nd)) (snapshot (nd_log nd)) []"
proof -
  let ?e = "\<lparr>le_Term = nd_currentTerm nd, le_CommandValid = True, le_Command = cmd\<rparr>"
  let ?nd = "nd\<lparr>nd_log := log_append (nd_log nd) ?e\<rparr>"
  have nd': "nd' = nd_persistLocked enc S ?nd" "index = log_size (nd_log nd') - 1"
    using assms(4) by (auto simp: nd_Start_def Let_def split: if_splits)
  have "node_inv S n ?nd"
    using assms(2) by (simp add: node_inv_def vote_stored_def split: sum.splits)
  from reliable_store.restart_log[OF assms(1) this] have log: "nd_log (node_restart S nd') =
      NewLog (snapLastIdx (nd_log nd)) (snapLastTerm (nd_log nd)) (snapshot (nd_log nd)) []"
    by (simp add: nd'(1) log_append_def)
  have tail: "tailLog (nd_log nd) \<noteq> []"
    using log_invD(3)[OF assms(3)] .
  have "log_at (nd_log nd') index = Some ?e"
    by (simp add: nd' log_at_eq log_append_def log_size_def nth_append)
  moreover have "index = snapLastIdx (nd_log nd) + int (length (tailLog (nd_log nd)))"
    by (simp add: nd' log_size_def log_append_def)
  then have "log_at (nd_log (node_restart S nd')) index = None"
    unfolding log using tail by (cases "tailLog (nd_log nd)") (auto simp: log_at_eq log_size_def NewLog_def)
  ultimately show ?thesis
    using log by simp
qed

theorem node_restart_forgets_witness:
  "\<exists>nd' :: (nat, nat, (nat, nat) mem_raft_storage) node.
     nd_Start (\<lambda>_. True) (mem_store :: (_, _, _, unit storage_error) raft_storage) (Some 7)
       ((fresh_node 1 0)\<lparr>nd_role := Leader\<rparr>) = ((1, 1, True), nd') \<and>
     log_at (nd_log (node_restart (mem_store :: (_, _, _, unit storage_error) raft_storage) nd')) 1 = None"
proof -
  let ?S = "mem_store :: (nat, nat, _, unit storage_error) raft_storage"
  let ?nd = "(fresh_node 1 0 :: (nat, nat, _) node)\<lparr>nd_role := Leader\<rparr>"
  have "node_inv ?S 1 ?nd"
    by (simp add: node_inv_def vote_stored_def fresh_node_eq DefaultNodeConfig_def mem_store_def mrs_LoadRaftState_def
        NewMemoryRaftStorage_def)
  moreover have "log_inv (nd_log ?nd)"
    by (simp add: fresh_node_eq log_inv_def NewLog_def)
  moreover obtain nd' where s: "nd_Start (\<lambda>_. True) ?S (Some 7) ?nd = ((1, 1, True), nd')"
    by (simp add: nd_Start_def fresh_node_eq log_append_def log_size_def NewLog_def)
  ultimately show ?thesis
    using node_restart_forgets[OF mem_store.reliable_store_axioms, of 1 ?nd "\<lambda>_. True" "Some 7" 1 1 nd'] by blast
qed

section \<open>Configurations\<close>

text \<open>
  \<open>Validate\<close> does not make every configuration usable: a node cannot be created, since
  \<open>rand.Int63n\<close> panics, exactly when the minimal election timeout is at least the default
  maximum of 400 milliseconds and the maximal one does not exceed it.
\<close>

lemma NewNode_panics_iff:
  "NewNode S (Some c) n i st now rnd = None \<longleftrightarrow>
     400000000 \<le> nc_ElectionTimeoutMin c \<and> nc_ElectionTimeoutMax c \<le> nc_ElectionTimeoutMin c"
  by (simp add: NewNode_def nd_resetElectionTimerLocked_def nc_Validate_def DefaultNodeConfig_def Let_def)

section \<open>Delivery\<close>

text \<open>The steps of the application goroutine, with the readiness of the receiver at each.\<close>

fun nd_apply_steps :: "bool list \<Rightarrow> ('c, 'b, 's) node \<Rightarrow> (('c, 'b) apply_msg list \<times> ('c, 'b, 's) node) option" where
  "nd_apply_steps [] nd = Some ([], nd)"
| "nd_apply_steps (r # rs) nd = do {
     (m, nd) \<leftarrow> nd_applicationTicker_step r nd;
     (ms, nd) \<leftarrow> nd_apply_steps rs nd;
     Some ((case m of None \<Rightarrow> [] | Some m \<Rightarrow> [m]) @ ms, nd) }"

definition command_msg :: "('c, 'b) raft_log \<Rightarrow> int \<Rightarrow> ('c, 'b) apply_msg" where
  "command_msg rl i = \<lparr>am_CommandValid = True, am_Command = le_Command (the (log_at rl i)), am_CommandIndex = i,
     am_SnapshotValid = False, am_Snapshot = [], am_SnapshotTerm = 0, am_SnapshotIndex = 0\<rparr>"

lemma nd_collect_loop_eq:
  assumes "snapLastIdx rl \<le> i" "i + int k \<le> log_size rl"
  shows "nd_collect_loop rl i k = Some (map (command_msg rl) [i..i + int k - 1])"
  using assms
proof (induction k arbitrary: i)
  case (Suc k)
  obtain e where e: "log_at rl i = Some e"
    using Suc.prems log_at_defined[of rl i] by auto
  have "[i..i + int (Suc k) - 1] = i # [i + 1..i + 1 + int k - 1]"
    by (subst upto_rec1) auto
  then show ?case
    using Suc.IH[of "i + 1"] Suc.prems e by (simp add: command_msg_def)
qed simp

lemma nd_send_steps:
  assumes "nd_applier nd = NodeSending msgs" "length rs = length msgs"
  shows "nd_apply_steps rs nd =
    Some (map snd (filter fst (zip rs msgs)), nd\<lparr>nd_applier := NodeSending []\<rparr>)"
  using assms
  by (induction rs msgs arbitrary: nd rule: list_induct2') (auto simp: nd_applicationTicker_step_def)

text \<open>
  (C33) What a node delivers. When entries are committed beyond \<open>lastApplied\<close>, the application
  goroutine takes all of them in order and counts them as applied at once; then it offers each
  to the channel a single time, so that exactly those arrive for which the receiver is ready
  at that moment. The others are lost: they are below \<open>lastApplied\<close> and never offered again.
\<close>

theorem node_delivers_when_ready:
  assumes "nd_applier nd = NodeTop" "\<not> nd_dead nd" "\<not> nd_snapPending nd"
    and "snapLastIdx (nd_log nd) \<le> nd_lastApplied nd" "nd_lastApplied nd < nd_commitIndex nd"
    and "nd_commitIndex nd < log_size (nd_log nd)"
    and "int (length rs) = nd_commitIndex nd - nd_lastApplied nd"
  shows "nd_apply_steps (r # rs) nd =
    Some (map snd (filter fst (zip rs (map (command_msg (nd_log nd)) [nd_lastApplied nd + 1..nd_commitIndex nd]))),
      nd\<lparr>nd_lastApplied := nd_commitIndex nd, nd_applier := NodeSending []\<rparr>)"
proof -
  let ?msgs = "map (command_msg (nd_log nd)) [nd_lastApplied nd + 1..nd_commitIndex nd]"
  let ?nd = "nd\<lparr>nd_lastApplied := nd_commitIndex nd, nd_applier := NodeSending ?msgs\<rparr>"
  have "nd_collect nd = Some (?msgs, nd\<lparr>nd_lastApplied := nd_commitIndex nd\<rparr>)"
    using assms(3-6) nd_collect_loop_eq[of "nd_log nd" "nd_lastApplied nd + 1" "nat (nd_commitIndex nd - nd_lastApplied nd)"]
    by (simp add: nd_collect_def)
  then have "nd_applicationTicker_step r nd = Some (None, ?nd)"
    using assms(1-5) by (simp add: nd_applicationTicker_step_def nd_killed_def)
  moreover have "length rs = length ?msgs"
    using assms(5,7) by simp
  ultimately show ?thesis
    using nd_send_steps[of ?nd ?msgs rs] by simp
qed

theorem node_delivers_when_ready_witness:
  "\<exists>nd' :: (nat, nat, (nat, nat) mem_raft_storage) node.
     nd_apply_steps [True, False, True] ((fresh_node 1 0)\<lparr>nd_commitIndex := 2,
       nd_log := NewLog 0 0 [] [mock_entry 1, mock_entry 1]\<rparr>) =
       Some ([command_msg (NewLog 0 0 [] [mock_entry 1, mock_entry 1]) 2], nd') \<and> nd_lastApplied nd' = 2"
proof -
  let ?nd = "(fresh_node 1 0 :: (nat, nat, (nat, nat) mem_raft_storage) node)
    \<lparr>nd_commitIndex := 2, nd_log := NewLog 0 0 [] [mock_entry 1, mock_entry 1]\<rparr>"
  have "[1..2] = [1, 2 :: int]"
    by (simp add: upto_rec1)
  then show ?thesis
    using node_delivers_when_ready[of ?nd "[False, True]" True]
    by (simp add: fresh_node_eq log_size_def NewLog_def del: nd_apply_steps.simps)
qed

section \<open>Lagging followers\<close>

text \<open>
  (C38) A follower whose log ends before the leader's snapshot is never brought up to date by
  probing. The leader probes it at the snapshot index, the follower refuses, and the clamp of
  the leader's next index to the first index after the snapshot makes it repeat the same
  request, not sending the snapshot: the round changes neither the leader nor the
  follower's log, so nothing changes until the leader compacts again.
\<close>

theorem lagging_follower_stuck:
  assumes "log_inv (nd_log ld)" "nd_role ld = Leader" "p \<noteq> nd_me ld"
    and "0 \<le> p" "p < int (length (nd_nextIndex ld))" "nd_nextIndex ld ! nat p = snapLastIdx (nd_log ld) + 1"
    and "log_size (nd_log fo) \<le> snapLastIdx (nd_log ld)" "nd_currentTerm fo \<le> nd_currentTerm ld"
    and "nd_replicate_peer (nd_currentTerm ld) p ld = Some (sends, ld')" "SendAppend p req \<in> set sends"
    and "nd_HandleAppendEntries enc S now rnd req fo = Some (resp, fo')"
  shows "ld' = ld \<and> sends = [SendAppend p req] \<and> \<not> ar_Success resp \<and> nd_log fo' = nd_log fo \<and>
    nd_handleAppendReply enc' S' (nd_currentTerm ld) p req resp ld' = Some ld"
proof -
  let ?i = "snapLastIdx (nd_log ld)"
  have ld': "ld' = ld" "sends = [SendAppend p req]" "aa_PrevLogIndex req = ?i" "aa_Term req = nd_currentTerm ld"
    using assms(3-6,9,10) by (auto simp: nd_replicate_peer_def Let_def split: if_splits)
  have log: "nd_log (nd_becomeFollowerLocked enc S t fo) = nd_log fo" for t
    by (simp add: nd_becomeFollowerLocked_def Let_def)
  have resp: "resp = \<lparr>ar_Term = nd_currentTerm fo, ar_Success = False, ar_ConfilictIndex = log_size (nd_log fo),
      ar_ConfilictTerm = 0\<rparr>" "nd_log fo' = nd_log fo"
    using assms(7,8,11) ld'(3,4) log
    by (auto simp: nd_HandleAppendEntries_def Let_def dest!: reset_frame(10))
  have "nd_probeIndex resp ?i (nd_log ld) = ?i + 1"
    using assms(7) resp(1) by (simp add: nd_probeIndex_def Let_def)
  then have "nd_handleAppendReply enc' S' (nd_currentTerm ld) p req resp ld = Some ld"
    using assms(2,4-6,8) resp(1) ld'(3)
    by (simp add: nd_handleAppendReply_def nd_contextLostLocked_def list_update_same_conv)
  then show ?thesis
    using ld' resp by simp
qed

theorem lagging_follower_stuck_witness:
  "\<exists>req resp fo'. let
     ld = (fresh_node 2 0 :: (nat, nat, (nat, nat) mem_raft_storage) node)
       \<lparr>nd_role := Leader, nd_log := NewLog 5 1 [] [], nd_nextIndex := [6, 6]\<rparr>;
     S = (mem_store :: (nat, nat, _, unit storage_error) raft_storage) in
     nd_replicate_peer 1 1 ld = Some ([SendAppend 1 req], ld) \<and>
     nd_HandleAppendEntries (\<lambda>_. True) S 0 0 req (fresh_node 2 1) = Some (resp, fo') \<and>
     nd_handleAppendReply (\<lambda>_. True) S 1 1 req resp ld = Some ld"
proof -
  let ?ld = "(fresh_node 2 0 :: (nat, nat, (nat, nat) mem_raft_storage) node)
    \<lparr>nd_role := Leader, nd_log := NewLog 5 1 [] [], nd_nextIndex := [6, 6]\<rparr>"
  let ?S = "mem_store :: (nat, nat, _, unit storage_error) raft_storage"
  let ?fo = "fresh_node 2 1 :: (nat, nat, (nat, nat) mem_raft_storage) node"
  have inv: "log_inv (nd_log ?ld)"
    by (simp add: log_inv_def NewLog_def)
  obtain req where r: "nd_replicate_peer 1 1 ?ld = Some ([SendAppend 1 req], ?ld)"
    and q: "aa_Term req = 1" "aa_PrevLogIndex req = 5"
    by (simp add: nd_replicate_peer_def fresh_node_eq log_at_eq log_tail_def log_size_def NewLog_def Let_def)
  obtain resp fo' where h: "nd_HandleAppendEntries (\<lambda>_. True) ?S 0 0 req ?fo = Some (resp, fo')"
    using q by (simp add: nd_HandleAppendEntries_def nd_becomeFollowerLocked_def nd_resetElectionTimerLocked_def
        fresh_node_eq DefaultNodeConfig_def log_size_def NewLog_def Let_def)
  have "nd_handleAppendReply (\<lambda>_. True) ?S 1 1 req resp ?ld = Some ?ld"
    using lagging_follower_stuck[OF inv, of 1 ?fo "[SendAppend 1 req]" ?ld req "\<lambda>_. True" ?S 0 0 resp fo' "\<lambda>_. True" ?S] r h
    by (simp add: fresh_node_eq log_size_def NewLog_def)
  then show ?thesis
    using r h by (auto simp: Let_def)
qed

end
