(* ===== verification/Dedup.thy ===== *)
theory Dedup
  imports Go_Base
begin

text \<open>
  The duplicate table that the three replicated services share. A service executes each
  logged request through a table from client to the last sequence number executed for it and
  the reply that was given: a request that is not newer is answered from the table. The
  locale \<open>dedup_service\<close> states what that makes of a log of requests; it is interpreted by
  \<^verbatim>\<open>kvraft/server.go\<close>, \<^verbatim>\<open>shardctrler/server.go\<close> and
  \<^verbatim>\<open>shardkv/task.go\<close>.
\<close>

section \<open>Running a log\<close>

fun run_log :: "('op \<Rightarrow> 'x \<Rightarrow> ('r \<times> 'x) option) \<Rightarrow> 'op list \<Rightarrow> 'x \<Rightarrow> ('r list \<times> 'x) option" where
  "run_log f [] x = Some ([], x)"
| "run_log f (op # ops) x = do {
     (r, x) \<leftarrow> f op x;
     (rs, x) \<leftarrow> run_log f ops x;
     Some (r # rs, x) }"

lemma run_log_append:
  "run_log f (ops @ ops') x = do {
     (rs, x) \<leftarrow> run_log f ops x;
     (rs', x) \<leftarrow> run_log f ops' x;
     Some (rs @ rs', x) }"
proof (induction ops arbitrary: x)
  case Nil
  then show ?case
    by (cases "run_log f ops' x") auto
next
  case (Cons op ops)
  then show ?case
    by (cases "f op x") (auto simp: split: prod.splits Option.bind_splits)
qed

lemma run_log_snoc:
  "run_log f (ops @ [op]) x = Some (rs, y) \<longleftrightarrow>
     (\<exists>rs' r z. run_log f ops x = Some (rs', z) \<and> f op z = Some (r, y) \<and> rs = rs' @ [r])"
  by (auto simp: run_log_append)

section \<open>The requests that count\<close>

text \<open>
  Request \<open>i\<close> of a log counts when it goes through the table and no earlier such request of
  the same client has the same or a higher sequence number. Executing these requests alone
  is the reference that the services are compared with.
\<close>

definition counts :: "('op \<Rightarrow> bool) \<Rightarrow> ('op \<Rightarrow> int) \<Rightarrow> ('op \<Rightarrow> int) \<Rightarrow> 'op list \<Rightarrow> nat \<Rightarrow> bool" where
  "counts plain cid seq ops i \<longleftrightarrow> \<not> plain (ops ! i) \<and>
     (\<forall>j < i. \<not> plain (ops ! j) \<longrightarrow> cid (ops ! j) = cid (ops ! i) \<longrightarrow> seq (ops ! j) < seq (ops ! i))"

definition counted :: "('op \<Rightarrow> bool) \<Rightarrow> ('op \<Rightarrow> int) \<Rightarrow> ('op \<Rightarrow> int) \<Rightarrow> 'op list \<Rightarrow> 'op list" where
  "counted plain cid seq ops = map (\<lambda>i. ops ! i) (filter (counts plain cid seq ops) [0..<length ops])"

lemma counts_append:
  "i < length ops \<Longrightarrow> counts plain cid seq (ops @ ops') i = counts plain cid seq ops i"
  by (auto simp: counts_def nth_append)

lemma counted_snoc:
  "counted plain cid seq (ops @ [op]) =
     counted plain cid seq ops @ (if counts plain cid seq (ops @ [op]) (length ops) then [op] else [])"
proof -
  have "filter (counts plain cid seq (ops @ [op])) [0..<length ops] =
      filter (counts plain cid seq ops) [0..<length ops]"
    by (rule filter_cong) (auto simp: counts_append)
  moreover have "map (\<lambda>i. (ops @ [op]) ! i) (filter P [0..<length ops]) =
      map (\<lambda>i. ops ! i) (filter P [0..<length ops])" for P
    by (auto simp: nth_append)
  ultimately show ?thesis
    by (simp add: counted_def nth_append)
qed

lemma counts_last:
  "counts plain cid seq (ops @ [op]) (length ops) \<longleftrightarrow> \<not> plain op \<and>
     (\<forall>op' \<in> set ops. \<not> plain op' \<longrightarrow> cid op' = cid op \<longrightarrow> seq op' < seq op)"
  by (auto simp: counts_def nth_append all_set_conv_all_nth)

section \<open>Services with a duplicate table\<close>

type_synonym 'r dup_table = "int \<rightharpoonup> int \<times> 'r"

locale dedup_service =
  fixes plain :: "'op \<Rightarrow> 's \<Rightarrow> bool"
    and cid :: "'op \<Rightarrow> int"
    and seq :: "'op \<Rightarrow> int"
    and exec :: "'op \<Rightarrow> 's \<Rightarrow> ('r \<times> 's) option"
    and handle :: "'op \<Rightarrow> 's \<times> 'r dup_table \<Rightarrow> ('r \<times> 's \<times> 'r dup_table) option"
  assumes handle_plain: "plain op s \<Longrightarrow>
      handle op (s, t) = map_option (\<lambda>(r, s'). (r, s', t)) (exec op s)"
    and handle_old: "\<not> plain op s \<Longrightarrow> t (cid op) = Some (n, r) \<Longrightarrow> seq op \<le> n \<Longrightarrow>
      handle op (s, t) = Some (r, s, t)"
    and handle_new: "\<not> plain op s \<Longrightarrow> t (cid op) = None \<or> fst (the (t (cid op))) < seq op \<Longrightarrow>
      handle op (s, t) = map_option (\<lambda>(r, s'). (r, s', t(cid op \<mapsto> (seq op, r)))) (exec op s)"
    and plain_keeps: "plain op s \<Longrightarrow> exec op s = Some (r, s') \<Longrightarrow> s' = s"
    and plain_stable: "exec op s = Some (r, s') \<Longrightarrow> plain op' s' = plain op' s"
begin

text \<open>The table holds, for each client, the highest sequence number of its requests so far.\<close>

definition table_ok :: "'op list \<Rightarrow> 's \<Rightarrow> 'r dup_table \<Rightarrow> bool" where
  "table_ok ops s t \<longleftrightarrow>
     (\<forall>op \<in> set ops. \<not> plain op s \<longrightarrow> (\<exists>n r. t (cid op) = Some (n, r) \<and> seq op \<le> n)) \<and>
     (\<forall>c n r. t c = Some (n, r) \<longrightarrow> (\<exists>op \<in> set ops. cid op = c \<and> seq op = n \<and> \<not> plain op s))"

lemma table_ok_new:
  assumes "table_ok ops s t"
  shows "t (cid op) = None \<or> fst (the (t (cid op))) < seq op \<longleftrightarrow>
    (\<forall>op' \<in> set ops. \<not> plain op' s \<longrightarrow> cid op' = cid op \<longrightarrow> seq op' < seq op)"
proof (cases "t (cid op)")
  case None
  then show ?thesis
    using assms unfolding table_ok_def by fastforce
next
  case (Some nr)
  obtain n r where nr: "nr = (n, r)"
    by fastforce
  have "\<exists>op' \<in> set ops. cid op' = cid op \<and> seq op' = n \<and> \<not> plain op' s"
    using assms Some nr unfolding table_ok_def by blast
  moreover have "seq op' \<le> n" if "op' \<in> set ops" "cid op' = cid op" "\<not> plain op' s" for op'
    using assms Some nr that unfolding table_ok_def by fastforce
  ultimately show ?thesis
    using Some nr by fastforce
qed

lemma table_ok_snoc_plain:
  "table_ok ops s t \<Longrightarrow> plain op s \<Longrightarrow> table_ok (ops @ [op]) s t"
  unfolding table_ok_def by fastforce

lemma table_ok_snoc_old:
  "table_ok ops s t \<Longrightarrow> t (cid op) = Some (n, r) \<Longrightarrow> seq op \<le> n \<Longrightarrow> table_ok (ops @ [op]) s t"
  unfolding table_ok_def by fastforce

lemma table_ok_snoc_new:
  assumes "table_ok ops s t" "\<not> plain op s"
    and "t (cid op) = None \<or> fst (the (t (cid op))) < seq op"
  shows "table_ok (ops @ [op]) s (t(cid op \<mapsto> (seq op, r)))"
proof -
  have "\<forall>op' \<in> set ops. \<not> plain op' s \<longrightarrow> cid op' = cid op \<longrightarrow> seq op' < seq op"
    using table_ok_new[OF assms(1)] assms(3) by blast
  then show ?thesis
    using assms(1,2) unfolding table_ok_def by (auto simp: less_imp_le)
qed

text \<open>
  Running a log through the table ends in the state that executing the requests that count,
  each once and in order, gives.
\<close>

lemma run_table:
  assumes "run_log handle ops (s, Map.empty) = Some (rs, s', t)"
  shows "(\<exists>rs'. run_log exec (counted (\<lambda>op. plain op s) cid seq ops) s = Some (rs', s')) \<and>
    table_ok ops s t \<and> (\<forall>op. plain op s' = plain op s)"
  using assms
proof (induction ops arbitrary: rs s' t rule: rev_induct)
  case Nil
  then show ?case
    by (auto simp: counted_def table_ok_def)
next
  case (snoc op ops)
  obtain rs1 r s1 t1 where 1: "run_log handle ops (s, Map.empty) = Some (rs1, s1, t1)"
    and 2: "handle op (s1, t1) = Some (r, s', t)"
    using snoc.prems unfolding run_log_snoc by (metis surj_pair)
  obtain rs' where IH: "run_log exec (counted (\<lambda>op. plain op s) cid seq ops) s = Some (rs', s1)"
      "table_ok ops s t1" "\<forall>op. plain op s1 = plain op s"
    using snoc.IH[OF 1] by blast
  note last = counts_last[of "\<lambda>op. plain op s" cid seq ops op]
  consider (plain) "plain op s"
    | (old) n q where "\<not> plain op s" "t1 (cid op) = Some (n, q)" "seq op \<le> n"
    | (new) "\<not> plain op s" "t1 (cid op) = None \<or> fst (the (t1 (cid op))) < seq op"
    by (cases "t1 (cid op)") fastforce+
  then show ?case
  proof cases
    case plain
    then have "exec op s1 = Some (r, s')" "t = t1"
      using 2 handle_plain[of op s1 t1] IH(3) by auto
    then have "s' = s1"
      using plain plain_keeps IH(3) by blast
    then show ?thesis
      using plain IH \<open>t = t1\<close> last by (auto simp: counted_snoc intro: table_ok_snoc_plain)
  next
    case old
    then have "s' = s1" "t = t1"
      using 2 handle_old[of op s1 t1 n q] IH(3) by auto
    moreover have "\<not> counts (\<lambda>op. plain op s) cid seq (ops @ [op]) (length ops)"
      using old table_ok_new[OF IH(2), of op] last by auto
    ultimately show ?thesis
      using old IH by (auto simp: counted_snoc intro: table_ok_snoc_old)
  next
    case new
    then obtain ex: "exec op s1 = Some (r, s')" and t: "t = t1(cid op \<mapsto> (seq op, r))"
      using 2 handle_new[of op s1 t1] IH(3) by auto
    have "counts (\<lambda>op. plain op s) cid seq (ops @ [op]) (length ops)"
      using new table_ok_new[OF IH(2), of op] last by auto
    then have "run_log exec (counted (\<lambda>op. plain op s) cid seq (ops @ [op])) s = Some (rs' @ [r], s')"
      using IH(1) ex by (simp add: counted_snoc run_log_append)
    then show ?thesis
      using IH(3) plain_stable[OF ex] table_ok_snoc_new[OF IH(2) new, of r] unfolding t by blast
  qed
qed

text \<open>A repeated request changes nothing and is answered with the reply of the first time.\<close>

lemma retry_answered:
  assumes "\<not> plain op s" "t (cid op) = None \<or> fst (the (t (cid op))) < seq op"
    and "handle op (s, t) = Some (r, s', t')"
  shows "handle op (s', t') = Some (r, s', t')"
proof -
  have "map_option (\<lambda>(r, s'). (r, s', t(cid op \<mapsto> (seq op, r)))) (exec op s) = Some (r, s', t')"
    using handle_new[of op s t] assms by simp
  then have "exec op s = Some (r, s')" "t' = t(cid op \<mapsto> (seq op, r))"
    by auto
  then show ?thesis
    using handle_old[of op s' t' "seq op" r] plain_stable assms(1) by auto
qed

end

end
