(* ===== verification/Service_Base.thy ===== *)
theory Service_Base
  imports Dedup
begin

text \<open>
  What the servers and clerks of \<^verbatim>\<open>kvraft\<close>, \<^verbatim>\<open>shardctrler\<close> and
  \<^verbatim>\<open>shardkv\<close> have in common: the error strings, the channels on which a server hands
  the result of an applied command to the handler that waits for it, and the loop in which a
  clerk tries one server after the other.
\<close>

section \<open>Errors\<close>

text \<open>The values of type \<open>Err\<close>; \<open>NoErr\<close> is the empty string of a reply nothing was written to.\<close>

datatype err =
  NoErr | OK | ErrNoKey | ErrWrongLeader | ErrTimeout | ErrWrongGroup | ErrWrongConfig | ErrNotReady

text \<open>How a goroutine that holds the server's lock fails to give it back.\<close>

datatype stop = Panic | Blocked

section \<open>Notification channels\<close>

text \<open>
  Channels are numbered in the order of their creation. \<open>nc_chans\<close> is the map from log index
  to channel, \<open>nc_buf\<close> the content of each channel, which has room for one value. A handler
  keeps the number of its channel, also when the entry of the map is deleted.
\<close>

record 'r notify =
  nc_chans :: "int \<rightharpoonup> nat"
  nc_buf :: "nat \<rightharpoonup> 'r"
  nc_fresh :: nat

definition no_chans :: "'r notify" where
  "no_chans = \<lparr>nc_chans = Map.empty, nc_buf = Map.empty, nc_fresh = 0\<rparr>"

definition get_chan :: "int \<Rightarrow> 'r notify \<Rightarrow> nat \<times> 'r notify" where
  "get_chan index nc =
     (case nc_chans nc index of
        Some ch \<Rightarrow> (ch, nc)
      | None \<Rightarrow> (nc_fresh nc, nc\<lparr>nc_chans := (nc_chans nc)(index \<mapsto> nc_fresh nc),
                  nc_fresh := Suc (nc_fresh nc)\<rparr>))"

definition remove_chan :: "int \<Rightarrow> 'r notify \<Rightarrow> 'r notify" where
  "remove_chan index nc = nc\<lparr>nc_chans := (nc_chans nc)(index := None)\<rparr>"

text \<open>A send on a full channel does not return, a receive from an empty one waits.\<close>

definition chan_send :: "nat \<Rightarrow> 'r \<Rightarrow> 'r notify \<Rightarrow> 'r notify option" where
  "chan_send ch r nc =
     (case nc_buf nc ch of
        None \<Rightarrow> Some (nc\<lparr>nc_buf := (nc_buf nc)(ch \<mapsto> r)\<rparr>)
      | Some _ \<Rightarrow> None)"

definition chan_recv :: "nat \<Rightarrow> 'r notify \<Rightarrow> ('r \<times> 'r notify) option" where
  "chan_recv ch nc =
     (case nc_buf nc ch of
        None \<Rightarrow> None
      | Some r \<Rightarrow> Some (r, nc\<lparr>nc_buf := (nc_buf nc)(ch := None)\<rparr>))"

text \<open>Channels not yet created are empty and no two indexes share a channel.\<close>

definition notify_ok :: "'r notify \<Rightarrow> bool" where
  "notify_ok nc \<longleftrightarrow>
     (\<forall>i ch. nc_chans nc i = Some ch \<longrightarrow> ch < nc_fresh nc) \<and>
     (\<forall>i j ch. nc_chans nc i = Some ch \<longrightarrow> nc_chans nc j = Some ch \<longrightarrow> i = j) \<and>
     (\<forall>ch \<ge> nc_fresh nc. nc_buf nc ch = None)"

lemma notify_ok_no_chans [simp]: "notify_ok no_chans"
  by (simp add: notify_ok_def no_chans_def)

lemma notify_ok_get:
  assumes "notify_ok nc" "get_chan i nc = (ch, nc')"
  shows "notify_ok nc' \<and> nc_chans nc' i = Some ch \<and> nc_buf nc' = nc_buf nc \<and>
    (nc_chans nc i = None \<longrightarrow> nc_buf nc' ch = None)"
proof (cases "nc_chans nc i")
  case None
  have "nc_chans nc j \<noteq> Some (nc_fresh nc)" for j
    using assms(1) by (auto simp: notify_ok_def)
  then show ?thesis
    using assms None
    by (auto simp: get_chan_def notify_ok_def less_Suc_eq split: if_splits)
qed (use assms in \<open>auto simp: get_chan_def\<close>)

lemma notify_ok_remove [simp]: "notify_ok nc \<Longrightarrow> notify_ok (remove_chan i nc)"
  by (auto simp: remove_chan_def notify_ok_def)

lemma notify_ok_send:
  "notify_ok nc \<Longrightarrow> nc_chans nc i = Some ch \<Longrightarrow> chan_send ch r nc = Some nc' \<Longrightarrow> notify_ok nc'"
  by (force simp: chan_send_def notify_ok_def split: option.splits)

lemma notify_ok_recv:
  "notify_ok nc \<Longrightarrow> chan_recv ch nc = Some (r, nc') \<Longrightarrow> notify_ok nc'"
  by (auto simp: chan_recv_def notify_ok_def split: option.splits)

section \<open>Waiting for an answer\<close>

text \<open>
  The stages of a handler that passes its command through the log: it looks up the duplicate
  table, starts the command, and, with the index the command got, asks for the channel of that
  index, waits for the answer or the end of \<open>ClientRequestTimeout\<close>, and removes the channel.
\<close>

datatype 'a handler_pc = HCheck | HStart | HRegister int | HWait int nat | HCleanup int 'a | HDone 'a

text \<open>
  The stages after the start are the same in all handlers. \<open>timer\<close> says that the case of
  the timer is taken, \<open>f\<close> makes the reply from the value received, \<open>late\<close> is the reply after
  the timeout.
\<close>

fun await :: "bool \<Rightarrow> ('r \<Rightarrow> 'a) \<Rightarrow> 'a \<Rightarrow> 'a handler_pc \<Rightarrow> 'r notify \<Rightarrow> 'a handler_pc \<times> 'r notify" where
  "await timer f late (HRegister index) nc = (let (ch, nc) = get_chan index nc in (HWait index ch, nc))"
| "await timer f late (HWait index ch) nc =
     (if timer then (HCleanup index late, nc)
      else case chan_recv ch nc of
             None \<Rightarrow> (HWait index ch, nc)
           | Some (r, nc) \<Rightarrow> (HCleanup index (f r), nc))"
| "await timer f late (HCleanup index a) nc = (HDone a, remove_chan index nc)"
| "await timer f late pc nc = (pc, nc)"

text \<open>
  \<open>P i r\<close> says that \<open>r\<close> is an answer for index \<open>i\<close>. What lies in the channel of an index,
  and what a handler waiting at an index finds in its channel or has received, is an answer
  for that index; \<open>ans r a\<close> relates an answer to the replies made from it.
\<close>

definition pc_ok :: "(int \<Rightarrow> 'r \<Rightarrow> bool) \<Rightarrow> ('r \<Rightarrow> 'a \<Rightarrow> bool) \<Rightarrow> ('a \<Rightarrow> bool) \<Rightarrow> 'r notify \<Rightarrow> 'a handler_pc \<Rightarrow> bool" where
  "pc_ok P ans late nc pc \<longleftrightarrow>
     (case pc of
        HWait i ch \<Rightarrow> ch < nc_fresh nc \<and> (\<forall>j. nc_chans nc j = Some ch \<longrightarrow> j = i) \<and>
          (\<forall>r. nc_buf nc ch = Some r \<longrightarrow> P i r)
      | HCleanup i a \<Rightarrow> late a \<or> (\<exists>r. P i r \<and> ans r a)
      | _ \<Rightarrow> True)"

definition answers_ok :: "(int \<Rightarrow> 'r \<Rightarrow> bool) \<Rightarrow> ('r \<Rightarrow> 'a \<Rightarrow> bool) \<Rightarrow> ('a \<Rightarrow> bool) \<Rightarrow>
    'r notify \<Rightarrow> (nat \<Rightarrow> 'a handler_pc) \<Rightarrow> bool" where
  "answers_ok P ans late nc hs \<longleftrightarrow> notify_ok nc \<and>
     (\<forall>i ch r. nc_chans nc i = Some ch \<longrightarrow> nc_buf nc ch = Some r \<longrightarrow> P i r) \<and>
     (\<forall>h. pc_ok P ans late nc (hs h))"

lemma answers_ok_start [simp]: "answers_ok P ans late no_chans (\<lambda>_. HCheck)"
  by (simp add: answers_ok_def pc_ok_def) (simp add: no_chans_def)

lemma answers_ok_pc:
  "answers_ok P ans late nc hs \<Longrightarrow> pc_ok P ans late nc pc \<Longrightarrow> answers_ok P ans late nc (hs(h := pc))"
  by (simp add: answers_ok_def)

lemma answers_ok_get:
  assumes ok: "answers_ok P ans late nc hs" and get: "get_chan i nc = (ch, nc')"
  shows "answers_ok P ans late nc' hs \<and> pc_ok P ans late nc' (HWait i ch)"
proof -
  have "notify_ok nc"
    using ok by (simp add: answers_ok_def)
  note n = notify_ok_get[OF this get]
  have chans: "nc_chans nc' j = Some c \<longleftrightarrow> nc_chans nc j = Some c \<or> j = i \<and> c = ch \<and> nc_chans nc i = None" for j c
    using get by (auto simp: get_chan_def split: option.splits if_splits)
  have fresh: "nc_fresh nc \<le> nc_fresh nc'" "nc_chans nc i = None \<longrightarrow> ch = nc_fresh nc"
    using get by (auto simp: get_chan_def split: option.splits)
  have bufs: "P j r" if "nc_chans nc' j = Some c" "nc_buf nc' c = Some r" for j c r
    using that ok n chans[of j c] by (auto simp: answers_ok_def)
  moreover have "pc_ok P ans late nc' (hs h)" for h
  proof -
    have "pc_ok P ans late nc (hs h)"
      using ok by (simp add: answers_ok_def)
    then show ?thesis
      using n fresh by (auto simp: pc_ok_def chans split: handler_pc.splits)
  qed
  moreover have "pc_ok P ans late nc' (HWait i ch)"
    using n bufs by (auto simp: pc_ok_def notify_ok_def)
  ultimately show ?thesis
    using n by (auto simp: answers_ok_def)
qed

lemma answers_ok_send:
  assumes ok: "answers_ok P ans late nc hs" and send: "chan_send ch r nc = Some nc'"
    and "nc_chans nc i = Some ch" "P i r"
  shows "answers_ok P ans late nc' hs"
proof -
  have "pc_ok P ans late nc' (hs h)" for h
  proof -
    have "pc_ok P ans late nc (hs h)"
      using ok by (simp add: answers_ok_def)
    then show ?thesis
      using send assms(3,4)
      by (auto simp: pc_ok_def chan_send_def split: handler_pc.splits option.splits if_splits)
  qed
  moreover have "notify_ok nc'"
    using ok send assms(3) notify_ok_send by (auto simp: answers_ok_def)
  moreover have "P j q" if "nc_chans nc' j = Some c" "nc_buf nc' c = Some q" for j c q
  proof (cases "c = ch")
    case True
    then have "j = i" "q = r"
      using that ok send assms(3) unfolding answers_ok_def notify_ok_def chan_send_def
      by (auto split: option.splits)
    then show ?thesis
      using assms(4) by simp
  next
    case False
    then show ?thesis
      using that ok send by (auto simp: answers_ok_def chan_send_def split: option.splits)
  qed
  ultimately show ?thesis
    by (auto simp: answers_ok_def)
qed

lemma answers_ok_recv:
  assumes ok: "answers_ok P ans late nc hs" and recv: "chan_recv ch nc = Some (r, nc')"
  shows "answers_ok P ans late nc' hs"
proof -
  have "pc_ok P ans late nc' (hs h)" for h
  proof -
    have "pc_ok P ans late nc (hs h)"
      using ok by (simp add: answers_ok_def)
    then show ?thesis
      using recv
      by (auto simp: pc_ok_def chan_recv_def split: handler_pc.splits option.splits if_splits)
  qed
  moreover have "notify_ok nc'"
    using ok recv notify_ok_recv by (auto simp: answers_ok_def)
  ultimately show ?thesis
    using ok recv by (auto simp: answers_ok_def chan_recv_def split: option.splits if_splits)
qed

lemma answers_ok_remove:
  "answers_ok P ans late nc hs \<Longrightarrow> answers_ok P ans late (remove_chan i nc) hs"
  by (auto simp: answers_ok_def pc_ok_def remove_chan_def notify_ok_def split: handler_pc.splits if_splits)

lemma answers_ok_await:
  assumes ok: "answers_ok P ans late nc hs" and step: "await timer f l (hs h) nc = (pc, nc')"
    and "late l" "\<forall>r. ans r (f r)"
  shows "answers_ok P ans late nc' (hs(h := pc))"
proof (cases "hs h")
  case (HRegister i)
  then show ?thesis
    using step answers_ok_get[OF ok, of i] by (auto intro: answers_ok_pc split: prod.splits)
next
  case (HWait i ch)
  have pc: "pc_ok P ans late nc (hs h)"
    using ok by (simp add: answers_ok_def)
  show ?thesis
  proof (cases "timer \<or> chan_recv ch nc = None")
    case True
    then show ?thesis
      using step HWait ok pc assms(3) by (auto simp: pc_ok_def intro!: answers_ok_pc split: if_splits handler_pc.splits)
  next
    case False
    then obtain r where "chan_recv ch nc = Some (r, nc')" "pc = HCleanup i (f r)"
      using step HWait by auto
    moreover have "P i r"
      using calculation(1) pc HWait by (auto simp: pc_ok_def chan_recv_def split: option.splits)
    ultimately show ?thesis
      using answers_ok_recv[OF ok] assms(4) unfolding pc_ok_def
      by (intro answers_ok_pc) (auto simp: pc_ok_def)
  qed
next
  case (HCleanup i a)
  then show ?thesis
    using step answers_ok_remove[OF ok] by (auto simp: pc_ok_def intro: answers_ok_pc)
qed (use step ok in \<open>auto simp: fun_upd_idem\<close>)

text \<open>A step of a handler leaves the handlers of another kind alone.\<close>

lemma answers_ok_await_other:
  assumes ok: "answers_ok P ans late nc hs" and step: "await timer f l pc nc = (pc', nc')"
  shows "answers_ok P ans late nc' hs"
proof (cases pc)
  case (HRegister i)
  then show ?thesis
    using step answers_ok_get[OF ok, of i] by (auto split: prod.splits)
next
  case (HWait i ch)
  then show ?thesis
    using step ok answers_ok_recv[OF ok, of ch]
    by (cases "chan_recv ch nc") (auto split: if_splits)
qed (use step ok answers_ok_remove[OF ok] in auto)

section \<open>The loop of a clerk\<close>

text \<open>
  A clerk calls the server it takes for the leader and goes on to the next server when the
  call is lost or the answer says that it went to the wrong place. \<open>call n s\<close> is the
  answer that attempt number \<open>n\<close> gets from server \<open>s\<close>, \<open>None\<close> when the call
  fails; which server answers what is up to the network and the servers.
\<close>

partial_function (option) clerk_loop ::
    "(nat \<Rightarrow> int \<Rightarrow> 'r option) \<Rightarrow> ('r \<Rightarrow> bool) \<Rightarrow> int \<Rightarrow> nat \<Rightarrow> int \<Rightarrow> (int \<times> 'r) option" where
  "clerk_loop call again nservers n leaderId =
     (case call n leaderId of
        None \<Rightarrow> clerk_loop call again nservers (Suc n) ((leaderId + 1) mod nservers)
      | Some reply \<Rightarrow>
          if again reply then clerk_loop call again nservers (Suc n) ((leaderId + 1) mod nservers)
          else Some (leaderId, reply))"

definition try_again :: "err \<Rightarrow> bool" where
  "try_again e \<longleftrightarrow> e = ErrWrongLeader \<or> e = ErrTimeout"

text \<open>
  Attempt number \<open>n + k\<close> of a loop goes to the \<open>k\<close>-th next server, cyclically; it is
  conclusive when an answer comes that does not ask for another server.
\<close>

definition attempt :: "(nat \<Rightarrow> int \<Rightarrow> 'r option) \<Rightarrow> int \<Rightarrow> nat \<Rightarrow> int \<Rightarrow> nat \<Rightarrow> 'r option" where
  "attempt call nservers n l k = call (n + k) ((l + int k) mod nservers)"

definition conclusive :: "('r \<Rightarrow> bool) \<Rightarrow> 'r option \<Rightarrow> bool" where
  "conclusive again x \<longleftrightarrow> (\<exists>r. x = Some r \<and> \<not> again r)"

lemma clerk_loop_unfold:
  "clerk_loop call again m n l =
     (if conclusive again (call n l) then Some (l, the (call n l))
      else clerk_loop call again m (Suc n) ((l + 1) mod m))"
  by (subst clerk_loop.simps) (auto simp: conclusive_def split: option.splits)

lemma attempt_0: "0 \<le> l \<Longrightarrow> l < m \<Longrightarrow> attempt call m n l 0 = call n l"
  by (simp add: attempt_def)

lemma attempt_Suc:
  "attempt call m n l (Suc k) = attempt call m (Suc n) ((l + 1) mod m) k"
  by (simp add: attempt_def mod_add_left_eq add.assoc)

lemma clerk_loop_returns:
  assumes "0 \<le> l" "l < m" "conclusive again (attempt call m n l k)"
    and "\<forall>j < k. \<not> conclusive again (attempt call m n l j)"
  shows "clerk_loop call again m n l = Some ((l + int k) mod m, the (attempt call m n l k))"
  using assms
proof (induction k arbitrary: n l)
  case 0
  then show ?case
    by (subst clerk_loop_unfold) (simp add: attempt_0)
next
  case (Suc k)
  have "\<not> conclusive again (call n l)"
    using Suc.prems by (metis attempt_0 zero_less_Suc)
  moreover have "\<forall>j < k. \<not> conclusive again (attempt call m (Suc n) ((l + 1) mod m) j)"
    using Suc.prems(4) attempt_Suc[of call m n l] by (metis Suc_less_eq)
  moreover have "((l + 1) mod m + int k) mod m = (l + int (Suc k)) mod m"
    by (simp add: mod_add_left_eq add.assoc)
  ultimately show ?case
    using Suc.IH[of "(l + 1) mod m" "Suc n"] Suc.prems
    by (subst clerk_loop_unfold) (simp add: attempt_Suc)
qed

lemma clerk_loop_result:
  assumes "clerk_loop call again m n l = Some (l', r)" "0 \<le> l" "l < m"
  shows "\<exists>k. l' = (l + int k) mod m \<and> attempt call m n l k = Some r \<and> \<not> again r \<and>
    (\<forall>j < k. \<not> conclusive again (attempt call m n l j))"
proof -
  have "\<exists>k. conclusive again (attempt call m n l k)"
  proof (rule clerk_loop.raw_induct[of
        "\<lambda>call again m n l _. 0 \<le> l \<longrightarrow> l < m \<longrightarrow> (\<exists>k. conclusive again (attempt call m n l k))"
        call again m n l "(l', r)", rule_format])
    fix loop call again m n l y
    assume IH: "\<And>call again m n l y. loop call again m n l = Some y \<Longrightarrow> 0 \<le> l \<Longrightarrow> l < m \<Longrightarrow>
        \<exists>k. conclusive again (attempt call m n l k)"
      and body: "(case call n l of None \<Rightarrow> loop call again m (Suc n) ((l + 1) mod m)
        | Some reply \<Rightarrow> if again reply then loop call again m (Suc n) ((l + 1) mod m)
            else Some (l, reply)) = Some y"
      and l: "0 \<le> l" "l < m"
    show "\<exists>k. conclusive again (attempt call m n l k)"
    proof (cases "conclusive again (call n l)")
      case True
      then show ?thesis
        using attempt_0[OF l] by metis
    next
      case False
      then have "loop call again m (Suc n) ((l + 1) mod m) = Some y"
        using body by (auto simp: conclusive_def split: option.splits if_splits)
      then have "\<exists>k. conclusive again (attempt call m (Suc n) ((l + 1) mod m) k)"
        using l by (intro IH) auto
      then show ?thesis
        using attempt_Suc by metis
    qed
  qed (use assms in auto)
  then obtain k where k: "conclusive again (attempt call m n l k)"
      "\<forall>j < k. \<not> conclusive again (attempt call m n l j)"
    using exists_least_iff[of "\<lambda>k. conclusive again (attempt call m n l k)"] by blast
  then have "l' = (l + int k) mod m" "r = the (attempt call m n l k)"
    using clerk_loop_returns[OF assms(2,3) k] assms(1) by auto
  then show ?thesis
    using k by (auto simp: conclusive_def)
qed

lemma clerk_loop_iff:
  assumes "0 \<le> l" "l < m"
  shows "clerk_loop call again m n l = Some (l', r) \<longleftrightarrow>
    (\<exists>k. l' = (l + int k) mod m \<and> attempt call m n l k = Some r \<and> \<not> again r \<and>
      (\<forall>j < k. \<not> conclusive again (attempt call m n l j)))" (is "?L \<longleftrightarrow> ?R")
proof
  assume ?R
  then obtain k where "l' = (l + int k) mod m" "attempt call m n l k = Some r" "\<not> again r"
      "\<forall>j < k. \<not> conclusive again (attempt call m n l j)"
    by blast
  then show ?L
    using clerk_loop_returns[OF assms, of again call n k] by (simp add: conclusive_def)
qed (rule clerk_loop_result[OF _ assms])

end
