(* ===== verification/Log_Client.thy ===== *)
theory Log_Client
  imports Service_Base Raft_Application
begin

text \<open>
  The contract between the log layer and a service that applies its messages. The locale
  \<open>log_client\<close> says what one round of a service's \<open>applyTask\<close> makes of a message; its lemma
  is that a service which receives the messages of a peer holds the state that the commands
  of a prefix of the log give, however often it is rolled back to a snapshot. It is
  interpreted by the servers of \<^verbatim>\<open>kvraft\<close>, \<^verbatim>\<open>shardctrler\<close> and
  \<^verbatim>\<open>shardkv\<close>.
\<close>

text \<open>The state after the first \<open>n\<close> commands of a log.\<close>

definition after :: "('c \<Rightarrow> 'x \<Rightarrow> ('r \<times> 'x) option) \<Rightarrow> 'x \<Rightarrow> 'c list \<Rightarrow> int \<Rightarrow> 'x \<Rightarrow> bool" where
  "after handle x0 ops n x \<longleftrightarrow> 0 \<le> n \<and> n \<le> int (length ops) \<and>
     (\<exists>rs. run_log handle (take (nat n) ops) x0 = Some (rs, x))"

lemma after_0: "after handle x0 ops 0 x0"
  by (simp add: after_def)

lemma after_Suc:
  assumes "after handle x0 ops n x" "n < int (length ops)" "handle (ops ! nat n) x = Some (r, x')"
  shows "after handle x0 ops (n + 1) x'"
proof -
  obtain rs where "run_log handle (take (nat n) ops) x0 = Some (rs, x)"
    using assms(1) by (auto simp: after_def)
  then have "run_log handle (take (nat n) ops @ [ops ! nat n]) x0 = Some (rs @ [r], x')"
    using assms(3) unfolding run_log_snoc by blast
  moreover have "nat n < length ops" "nat (n + 1) = Suc (nat n)"
    using assms(1,2) by (auto simp: after_def)
  then have "take (nat (n + 1)) ops = take (nat n) ops @ [ops ! nat n]"
    by (simp add: take_Suc_conv_app_nth)
  ultimately show ?thesis
    using assms(1,2) unfolding after_def by auto
qed

lemma after_unique: "after handle x0 ops n x \<Longrightarrow> after handle x0 ops n y \<Longrightarrow> x = y"
  by (auto simp: after_def)

text \<open>
  A message agrees with a log when a command is the one at its index, index 1 being the
  first, and a snapshot is one of the state after its index.
\<close>

definition agrees ::
    "'c list \<Rightarrow> ('c \<Rightarrow> 'x \<Rightarrow> ('r \<times> 'x) option) \<Rightarrow> 'x \<Rightarrow> ('x \<Rightarrow> 'b list \<Rightarrow> bool) \<Rightarrow>
     ('c, 'b) apply_msg \<Rightarrow> bool" where
  "agrees ops handle x0 snap m \<longleftrightarrow>
     (if am_CommandValid m
      then 1 \<le> am_CommandIndex m \<and> am_CommandIndex m \<le> int (length ops) \<and> \<not> am_SnapshotValid m \<and>
           am_Command m = Some (ops ! nat (am_CommandIndex m - 1))
      else am_SnapshotValid m \<and>
           (\<exists>x. after handle x0 ops (am_SnapshotIndex m) x \<and> snap x (am_Snapshot m)))"

fun deliver :: "('e \<Rightarrow> 'm \<Rightarrow> 's \<Rightarrow> 's option) \<Rightarrow> ('e \<times> 'm) list \<Rightarrow> 's \<Rightarrow> 's option" where
  "deliver step [] s = Some s"
| "deliver step ((e, m) # ems) s = do { s \<leftarrow> step e m s; deliver step ems s }"

locale log_client =
  fixes step :: "'e \<Rightarrow> ('c, 'b) apply_msg \<Rightarrow> 's \<Rightarrow> 's option"
    and last :: "'s \<Rightarrow> int"
    and content :: "'s \<Rightarrow> 'x"
    and handle :: "'c \<Rightarrow> 'x \<Rightarrow> ('r \<times> 'x) option"
    and snap :: "'x \<Rightarrow> 'b list \<Rightarrow> bool"
  assumes step_old: "am_CommandValid m \<Longrightarrow> am_CommandIndex m \<le> last s \<Longrightarrow> step e m s = Some s' \<Longrightarrow>
      last s' = last s \<and> content s' = content s"
    and step_new: "am_CommandValid m \<Longrightarrow> last s < am_CommandIndex m \<Longrightarrow> am_Command m = Some c \<Longrightarrow>
      step e m s = Some s' \<Longrightarrow>
      last s' = am_CommandIndex m \<and> (\<exists>r. handle c (content s) = Some (r, content s'))"
    and step_snapshot: "\<not> am_CommandValid m \<Longrightarrow> am_SnapshotValid m \<Longrightarrow> snap x (am_Snapshot m) \<Longrightarrow>
      step e m s = Some s' \<Longrightarrow> last s' = am_SnapshotIndex m \<and> content s' = x"
begin

text \<open>
  \<open>d\<close> is the index that the log layer has reached. A service that was just restarted from
  a snapshot has a smaller \<open>last\<close>, one that skips commands after a rollback of the log layer
  a greater one; its content is the one of the greater index.
\<close>

definition follows :: "'c list \<Rightarrow> 'x \<Rightarrow> int \<Rightarrow> 's \<Rightarrow> bool" where
  "follows ops x0 d s \<longleftrightarrow> after handle x0 ops (max d (last s)) (content s)"

lemma step_follows:
  assumes "follows ops x0 d s" "agrees ops handle x0 snap m" "step e m s = Some s'"
    and "am_SnapshotValid m \<or> am_CommandIndex m = d + 1"
  shows "follows ops x0 (reached d m) s'"
proof (cases "am_CommandValid m")
  case cmd: True
  then have m: "\<not> am_SnapshotValid m" "am_CommandIndex m = d + 1"
      "am_Command m = Some (ops ! nat d)" "d < int (length ops)"
    using assms(2,4) by (auto simp: agrees_def)
  show ?thesis
  proof (cases "am_CommandIndex m \<le> last s")
    case True
    then show ?thesis
      using step_old[OF cmd True assms(3)] assms(1) m by (simp add: follows_def reached_def)
  next
    case False
    then have new: "last s < am_CommandIndex m" and d: "max d (last s) = d"
      using m by auto
    obtain r where "last s' = d + 1" "handle (ops ! nat d) (content s) = Some (r, content s')"
      using step_new[OF cmd new m(3) assms(3)] m by auto
    then show ?thesis
      using assms(1) m d after_Suc unfolding follows_def reached_def by fastforce
  qed
next
  case False
  then obtain x where x: "am_SnapshotValid m" "after handle x0 ops (am_SnapshotIndex m) x"
      "snap x (am_Snapshot m)"
    using assms(2) by (auto simp: agrees_def)
  then show ?thesis
    using step_snapshot[OF False x(1,3) assms(3)] by (simp add: follows_def reached_def)
qed

lemma deliver_follows:
  assumes "deliver step ems s = Some s'" "gap_free d (map snd ems)"
    and "\<forall>m \<in> set (map snd ems). agrees ops handle x0 snap m"
    and "follows ops x0 d s"
  shows "follows ops x0 (foldl reached d (map snd ems)) s'"
  using assms
proof (induction ems arbitrary: s d)
  case (Cons em ems)
  obtain e m where em: "em = (e, m)"
    by fastforce
  obtain s1 where s1: "step e m s = Some s1" "deliver step ems s1 = Some s'"
    using Cons.prems(1) em by auto
  have "follows ops x0 (reached d m) s1"
    using Cons.prems em s1(1) by (intro step_follows) auto
  then show ?case
    using Cons.IH[OF s1(2), of "reached d m"] Cons.prems em by auto
qed simp

end

end
