(* ===== verification/Kv_Server.thy ===== *)
theory Kv_Server
  imports Log_Client
begin

text \<open>
  The replicated key/value service of \<^verbatim>\<open>src/src/kvraft\<close>: the state machine, the
  handlers \<open>Get\<close> and \<open>PutAppend\<close>, the loop \<open>applyTask\<close> with its duplicate table and
  snapshots, and the clerk. The messages of the log layer come from the model of
  \<^verbatim>\<open>src/src/raft\<close>.
\<close>

section \<open>Requests and the state machine\<close>

datatype op_type = OpGet | OpPut | OpAppend

record kv_op =
  op_Key :: string
  op_Value :: string
  op_OpType :: op_type
  op_ClientId :: int
  op_SeqId :: int

record op_reply =
  or_Value :: string
  or_Err :: err

record put_append_args =
  pa_Key :: string
  pa_Value :: string
  pa_Op :: string
  pa_ClientId :: int
  pa_SeqId :: int

definition getOperationType :: "string \<Rightarrow> op_type option" where
  "getOperationType v =
     (if v = ''Put'' then Some OpPut else if v = ''Append'' then Some OpAppend else None)"

record memory_kv =
  mkv_KV :: "string \<rightharpoonup> string"

definition NewMemoryKVStateMachine :: memory_kv where
  "NewMemoryKVStateMachine = \<lparr>mkv_KV = Map.empty\<rparr>"

definition mkv_Get :: "string \<Rightarrow> memory_kv \<Rightarrow> string \<times> err" where
  "mkv_Get key mkv =
     (case mkv_KV mkv key of Some value \<Rightarrow> (value, OK) | None \<Rightarrow> ('''', ErrNoKey))"

definition mkv_Put :: "string \<Rightarrow> string \<Rightarrow> memory_kv \<Rightarrow> err \<times> memory_kv" where
  "mkv_Put key value mkv = (OK, mkv\<lparr>mkv_KV := (mkv_KV mkv)(key \<mapsto> value)\<rparr>)"

text \<open>\<open>mkv.KV[key] += value\<close> reads the empty string for a key that is not there.\<close>

definition mkv_Append :: "string \<Rightarrow> string \<Rightarrow> memory_kv \<Rightarrow> err \<times> memory_kv" where
  "mkv_Append key value mkv =
     (OK, mkv\<lparr>mkv_KV := (mkv_KV mkv)(key \<mapsto>
        (case mkv_KV mkv key of Some old \<Rightarrow> old | None \<Rightarrow> '''') @ value)\<rparr>)"

definition kv_applyToStateMachine :: "kv_op \<Rightarrow> memory_kv \<Rightarrow> op_reply \<times> memory_kv" where
  "kv_applyToStateMachine op mkv =
     (case op_OpType op of
        OpGet \<Rightarrow> (let (value, err) = mkv_Get (op_Key op) mkv in (\<lparr>or_Value = value, or_Err = err\<rparr>, mkv))
      | OpPut \<Rightarrow> (let (err, mkv) = mkv_Put (op_Key op) (op_Value op) mkv in (\<lparr>or_Value = '''', or_Err = err\<rparr>, mkv))
      | OpAppend \<Rightarrow> (let (err, mkv) = mkv_Append (op_Key op) (op_Value op) mkv in (\<lparr>or_Value = '''', or_Err = err\<rparr>, mkv)))"

section \<open>The server\<close>

text \<open>A snapshot is a gob stream of two values, the state machine and the duplicate table.\<close>

datatype kv_gob = GobMachine memory_kv | GobTable "op_reply dup_table"

record kv_server =
  kv_me :: int
  kv_rf :: "(kv_op, kv_gob) raft"
  kv_dead :: bool
  kv_maxraftstate :: int
  kv_lastApplied :: int
  kv_stateMachine :: memory_kv
  kv_notifyChans :: "op_reply notify"
  kv_duplicateTable :: "op_reply dup_table"

definition kv_requestDuplicated :: "int \<Rightarrow> int \<Rightarrow> op_reply dup_table \<Rightarrow> bool" where
  "kv_requestDuplicated clientId seqId table =
     (case table clientId of Some (n, _) \<Rightarrow> seqId \<le> n | None \<Rightarrow> False)"

definition kv_getNotifyChannel :: "int \<Rightarrow> kv_server \<Rightarrow> nat \<times> kv_server" where
  "kv_getNotifyChannel index kv =
     (let (ch, nc) = get_chan index (kv_notifyChans kv) in (ch, kv\<lparr>kv_notifyChans := nc\<rparr>))"

text \<open>The body of \<open>applyTask\<close> that executes a command, through the duplicate table.\<close>

definition kv_execute ::
    "kv_op \<Rightarrow> memory_kv \<times> op_reply dup_table \<Rightarrow> (op_reply \<times> memory_kv \<times> op_reply dup_table) option" where
  "kv_execute op = (\<lambda>(mkv, table).
     if op_OpType op \<noteq> OpGet \<and> kv_requestDuplicated (op_ClientId op) (op_SeqId op) table
     then do { (_, reply) \<leftarrow> table (op_ClientId op); Some (reply, mkv, table) }
     else let (reply, mkv) = kv_applyToStateMachine op mkv;
              table = (if op_OpType op \<noteq> OpGet
                       then table(op_ClientId op \<mapsto> (op_SeqId op, reply)) else table)
          in Some (reply, mkv, table))"

definition kv_makeSnapshot :: "memory_kv \<times> op_reply dup_table \<Rightarrow> kv_gob list" where
  "kv_makeSnapshot = (\<lambda>(mkv, table). [GobMachine mkv, GobTable table])"

fun kv_decode :: "kv_gob list \<Rightarrow> (memory_kv \<times> op_reply dup_table) option" where
  "kv_decode (GobMachine mkv # GobTable table # _) = Some (mkv, table)"
| "kv_decode _ = None"

definition kv_restoreFromSnapshot :: "kv_gob list \<Rightarrow> kv_server \<Rightarrow> kv_server option" where
  "kv_restoreFromSnapshot data kv =
     (if data = [] then Some kv
      else do {
        (mkv, table) \<leftarrow> kv_decode data;
        Some (kv\<lparr>kv_stateMachine := mkv, kv_duplicateTable := table\<rparr>) })"

abbreviation kv_content :: "kv_server \<Rightarrow> memory_kv \<times> op_reply dup_table" where
  "kv_content kv \<equiv> (kv_stateMachine kv, kv_duplicateTable kv)"

text \<open>
  One round of \<open>applyTask\<close>. \<open>isLeader\<close> is the answer of \<open>GetState\<close> and \<open>bytes\<close> the one
  of \<open>GetRaftStateSize\<close>; the log layer runs concurrently and may answer differently from
  round to round. Besides the new state the result has the arguments of the call of
  \<open>rf.Snapshot\<close>, if there is one. A send on a full channel never returns and keeps the lock.
\<close>

definition kv_applyTask :: "bool \<times> int \<Rightarrow> (kv_op, kv_gob) apply_msg \<Rightarrow> kv_server \<Rightarrow>
    stop + kv_server \<times> (int \<times> kv_gob list) option" where
  "kv_applyTask = (\<lambda>(isLeader, bytes) message kv.
     if am_CommandValid message then
       if am_CommandIndex message \<le> kv_lastApplied kv then Inr (kv, None)
       else let index = am_CommandIndex message; kv = kv\<lparr>kv_lastApplied := index\<rparr> in
         (case am_Command message of
            None \<Rightarrow> Inl Panic
          | Some op \<Rightarrow>
             (case kv_execute op (kv_content kv) of
                None \<Rightarrow> Inl Panic
              | Some (opReply, mkv, table) \<Rightarrow>
                  let kv = kv\<lparr>kv_stateMachine := mkv, kv_duplicateTable := table\<rparr>;
                      sent = (if isLeader
                              then let (ch, kv) = kv_getNotifyChannel index kv in
                                map_option (\<lambda>nc. kv\<lparr>kv_notifyChans := nc\<rparr>)
                                  (chan_send ch opReply (kv_notifyChans kv))
                              else Some kv)
                  in (case sent of
                        None \<Rightarrow> Inl Blocked
                      | Some kv \<Rightarrow>
                          Inr (kv, if kv_maxraftstate kv \<noteq> -1 \<and> bytes \<ge> kv_maxraftstate kv
                                   then Some (index, kv_makeSnapshot (kv_content kv)) else None))))
     else if am_SnapshotValid message then
       (case kv_restoreFromSnapshot (am_Snapshot message) kv of
          None \<Rightarrow> Inl Panic
        | Some kv \<Rightarrow> Inr (kv\<lparr>kv_lastApplied := am_SnapshotIndex message\<rparr>, None))
     else Inr (kv, None))"

definition StartKVServer :: "nat \<Rightarrow> int \<Rightarrow> (kv_op, kv_gob) persister \<Rightarrow> int \<Rightarrow> kv_server option" where
  "StartKVServer nservers self ps maxraftstate =
     kv_restoreFromSnapshot (ps_ReadSnapshot ps)
       \<lparr>kv_me = self, kv_rf = Make nservers self ps, kv_dead = False, kv_maxraftstate = maxraftstate,
        kv_lastApplied = 0, kv_stateMachine = NewMemoryKVStateMachine, kv_notifyChans = no_chans,
        kv_duplicateTable = Map.empty\<rparr>"

definition kv_Kill :: "kv_server \<Rightarrow> kv_server" where
  "kv_Kill kv = kv\<lparr>kv_dead := True, kv_rf := Kill (kv_rf kv)\<rparr>"

definition kv_killed :: "kv_server \<Rightarrow> bool" where
  "kv_killed kv = kv_dead kv"

section \<open>The handlers\<close>

text \<open>
  A handler takes the server's lock several times; each function below is one step of it,
  \<open>timer\<close> selects the case of the timer in the \<open>select\<close>. \<open>Get\<close> has no lookup in the
  duplicate table; \<open>PutAppend\<close> panics on an operation that is neither \<open>Put\<close> nor
  \<open>Append\<close>.
\<close>

definition kv_start :: "kv_op \<Rightarrow> kv_server \<Rightarrow> int option \<times> kv_server" where
  "kv_start op kv =
     (let ((index, _, isLeader), rf) = Start (Some op) (kv_rf kv)
      in (if isLeader then Some index else None, kv\<lparr>kv_rf := rf\<rparr>))"

definition kv_Get_step ::
    "bool \<Rightarrow> string \<Rightarrow> op_reply handler_pc \<Rightarrow> kv_server \<Rightarrow> op_reply handler_pc \<times> kv_server" where
  "kv_Get_step timer key pc kv =
     (if pc = HCheck then (HStart, kv)
      else if pc = HStart then
        (case kv_start \<lparr>op_Key = key, op_Value = '''', op_OpType = OpGet, op_ClientId = 0, op_SeqId = 0\<rparr> kv of
           (None, kv) \<Rightarrow> (HDone \<lparr>or_Value = '''', or_Err = ErrWrongLeader\<rparr>, kv)
         | (Some index, kv) \<Rightarrow> (HRegister index, kv))
      else let (pc, nc) = await timer (\<lambda>r. \<lparr>or_Value = or_Value r, or_Err = or_Err r\<rparr>)
                 \<lparr>or_Value = '''', or_Err = ErrTimeout\<rparr> pc (kv_notifyChans kv)
           in (pc, kv\<lparr>kv_notifyChans := nc\<rparr>))"

definition kv_PutAppend_step ::
    "bool \<Rightarrow> put_append_args \<Rightarrow> err handler_pc \<Rightarrow> kv_server \<Rightarrow> (err handler_pc \<times> kv_server) option" where
  "kv_PutAppend_step timer args pc kv =
     (if pc = HCheck then
        if kv_requestDuplicated (pa_ClientId args) (pa_SeqId args) (kv_duplicateTable kv)
        then do {
          (_, opReply) \<leftarrow> kv_duplicateTable kv (pa_ClientId args);
          Some (HDone (or_Err opReply), kv) }
        else Some (HStart, kv)
      else if pc = HStart then do {
        opType \<leftarrow> getOperationType (pa_Op args);
        Some (case kv_start \<lparr>op_Key = pa_Key args, op_Value = pa_Value args, op_OpType = opType,
                 op_ClientId = pa_ClientId args, op_SeqId = pa_SeqId args\<rparr> kv of
            (None, kv) \<Rightarrow> (HDone ErrWrongLeader, kv)
          | (Some index, kv) \<Rightarrow> (HRegister index, kv)) }
      else let (pc, nc) = await timer or_Err ErrTimeout pc (kv_notifyChans kv)
           in Some (pc, kv\<lparr>kv_notifyChans := nc\<rparr>))"

section \<open>The clerk\<close>

record clerk =
  ck_servers :: int
  ck_leaderId :: int
  ck_clientId :: int
  ck_seqId :: int

definition MakeClerk :: "int \<Rightarrow> int \<Rightarrow> clerk" where
  "MakeClerk servers nrand = \<lparr>ck_servers = servers, ck_leaderId = 0, ck_clientId = nrand, ck_seqId = 0\<rparr>"

text \<open>
  The methods of the clerk. \<open>call args n s\<close> is what attempt \<open>n\<close> of an RPC with arguments
  \<open>args\<close> gets from server \<open>s\<close>.
\<close>

definition ck_Get :: "(string \<Rightarrow> nat \<Rightarrow> int \<Rightarrow> op_reply option) \<Rightarrow> string \<Rightarrow> clerk \<Rightarrow> (string \<times> clerk) option" where
  "ck_Get call key ck = do {
     (leader, reply) \<leftarrow> clerk_loop (call key) (\<lambda>r. try_again (or_Err r)) (ck_servers ck) 0 (ck_leaderId ck);
     Some (or_Value reply, ck\<lparr>ck_leaderId := leader\<rparr>) }"

definition ck_PutAppend :: "(put_append_args \<Rightarrow> nat \<Rightarrow> int \<Rightarrow> err option) \<Rightarrow> string \<Rightarrow> string \<Rightarrow> string \<Rightarrow>
    clerk \<Rightarrow> clerk option" where
  "ck_PutAppend call key value op ck = do {
     let args = \<lparr>pa_Key = key, pa_Value = value, pa_Op = op, pa_ClientId = ck_clientId ck,
                 pa_SeqId = ck_seqId ck\<rparr>;
     (leader, reply) \<leftarrow> clerk_loop (call args) try_again (ck_servers ck) 0 (ck_leaderId ck);
     Some (ck\<lparr>ck_leaderId := leader, ck_seqId := ck_seqId ck + 1\<rparr>) }"

definition ck_Put :: "(put_append_args \<Rightarrow> nat \<Rightarrow> int \<Rightarrow> err option) \<Rightarrow> string \<Rightarrow> string \<Rightarrow> clerk \<Rightarrow> clerk option" where
  "ck_Put call key value ck = ck_PutAppend call key value ''Put'' ck"

definition ck_Append :: "(put_append_args \<Rightarrow> nat \<Rightarrow> int \<Rightarrow> err option) \<Rightarrow> string \<Rightarrow> string \<Rightarrow> clerk \<Rightarrow> clerk option" where
  "ck_Append call key value ck = ck_PutAppend call key value ''Append'' ck"

section \<open>The duplicate table\<close>

interpretation kv_table: dedup_service
  "\<lambda>op _. op_OpType op = OpGet" op_ClientId op_SeqId
  "\<lambda>op mkv. Some (kv_applyToStateMachine op mkv)" kv_execute
proof unfold_locales
  fix op :: kv_op and s :: memory_kv and r s'
  assume "op_OpType op = OpGet" "Some (kv_applyToStateMachine op s) = Some (r, s')"
  then show "s' = s"
    by (simp add: kv_applyToStateMachine_def split: prod.splits)
qed (auto simp: kv_execute_def kv_requestDuplicated_def split: prod.splits option.splits)

lemma kv_execute_total: "\<exists>r y. kv_execute op x = Some (r, y)"
  by (auto simp: kv_execute_def kv_requestDuplicated_def split: prod.splits option.splits)

lemma run_kv_execute_total: "\<exists>rs y. run_log kv_execute ops x = Some (rs, y)"
proof (induction ops arbitrary: x)
  case (Cons op ops)
  obtain r y where "kv_execute op x = Some (r, y)"
    using kv_execute_total by blast
  then show ?case
    using Cons[of y] by auto
qed simp

text \<open>
  (C5) The duplicate table makes requests execute once: whatever log of requests the server
  applies, with retries and out-of-date copies in it, the state machine ends as if exactly
  the first copy of each client's newest request so far had been executed, in log order.
\<close>

theorem kv_exactly_once:
  "\<exists>rs table. run_log kv_execute ops (NewMemoryKVStateMachine, Map.empty) =
     Some (rs, foldl (\<lambda>mkv op. snd (kv_applyToStateMachine op mkv)) NewMemoryKVStateMachine
       (counted (\<lambda>op. op_OpType op = OpGet) op_ClientId op_SeqId ops), table)"
proof -
  have fold: "run_log (\<lambda>op mkv. Some (kv_applyToStateMachine op mkv)) ops mkv = Some (rs, mkv') \<Longrightarrow>
      mkv' = foldl (\<lambda>mkv op. snd (kv_applyToStateMachine op mkv)) mkv ops" for ops mkv rs mkv'
    by (induction ops arbitrary: mkv rs) (auto split: prod.splits)
  obtain rs mkv table where
    run: "run_log kv_execute ops (NewMemoryKVStateMachine, Map.empty) = Some (rs, mkv, table)"
    using run_kv_execute_total by (metis surj_pair)
  then show ?thesis
    using kv_table.run_table[OF run] fold by blast
qed

section \<open>Snapshots\<close>

lemma kv_restore_make [simp]:
  "kv_restoreFromSnapshot (kv_makeSnapshot x) kv =
     Some (kv\<lparr>kv_stateMachine := fst x, kv_duplicateTable := snd x\<rparr>)"
  by (simp add: kv_restoreFromSnapshot_def kv_makeSnapshot_def split: prod.splits)

lemma StartKVServer_content:
  assumes "ps_ReadSnapshot ps = kv_makeSnapshot x \<or>
      ps_ReadSnapshot ps = [] \<and> x = (NewMemoryKVStateMachine, Map.empty)"
  shows "\<exists>kv. StartKVServer n i ps mrs = Some kv \<and> kv_content kv = x \<and> kv_lastApplied kv = 0 \<and>
    kv_rf kv = Make n i ps \<and> kv_notifyChans kv = no_chans"
  using assms by (auto simp: StartKVServer_def kv_restoreFromSnapshot_def[of "[]"])

text \<open>
  A snapshot that the server makes and the peer stores survives a crash: the server
  started from the persister has the state machine and the duplicate table of the snapshot,
  and its peer goes on applying with the entry behind the snapshot.
\<close>

lemma kv_snapshot_roundtrip:
  assumes "Snapshot index (kv_makeSnapshot (kv_content kv)) rf = Some rf'"
    and "snapLastIdx (rlog rf) < index" "index \<le> commitIndex rf" "index < log_size (rlog rf)" "0 \<le> index"
  shows "\<exists>kv'. StartKVServer n i (persister rf') mrs = Some kv' \<and> kv_content kv' = kv_content kv \<and>
    lastApplied (kv_rf kv') = index \<and> snapLastIdx (rlog (kv_rf kv')) = index"
proof -
  let ?s = "kv_makeSnapshot (kv_content kv)"
  obtain rl where rl: "log_doSnapshot (rlog rf) index ?s = Some rl"
    and rf': "rf' = persistLocked (rf\<lparr>rlog := rl\<rparr>)"
    using assms by (auto simp: Snapshot_def)
  have idx: "snapLastIdx rl = index" "snapshot rl = ?s"
    using rl assms(2,4) by (auto simp: log_doSnapshot_def Let_def split: if_splits)
  have "ps_ReadSnapshot (persister rf') = ?s"
    using idx by (simp add: rf' persistLocked_def ps_Save_def ps_ReadSnapshot_def)
  moreover have "lastApplied (Make n i (persister rf')) = index"
      "rlog (Make n i (persister rf')) = rl"
    using assms(5) by (simp_all add: rf' persistLocked_def Make_saved idx(1))
  ultimately show ?thesis
    using StartKVServer_content[of "persister rf'" "kv_content kv" n i mrs] idx by auto
qed

section \<open>Replicas\<close>

definition kv_round :: "bool \<times> int \<Rightarrow> (kv_op, kv_gob) apply_msg \<Rightarrow> kv_server \<Rightarrow> kv_server option" where
  "kv_round e m kv = (case kv_applyTask e m kv of Inr (kv, _) \<Rightarrow> Some kv | Inl _ \<Rightarrow> None)"

abbreviation kv_snap :: "memory_kv \<times> op_reply dup_table \<Rightarrow> kv_gob list \<Rightarrow> bool" where
  "kv_snap x b \<equiv> b = kv_makeSnapshot x"

abbreviation kv_init :: "memory_kv \<times> op_reply dup_table" where
  "kv_init \<equiv> (NewMemoryKVStateMachine, Map.empty)"

lemma kv_applyTask_old:
  "am_CommandValid m \<Longrightarrow> am_CommandIndex m \<le> kv_lastApplied kv \<Longrightarrow> kv_applyTask e m kv = Inr (kv, None)"
  by (cases e) (simp add: kv_applyTask_def)

lemma kv_applyTask_new:
  assumes "am_CommandValid m" "kv_lastApplied kv < am_CommandIndex m" "am_Command m = Some op"
    and "kv_applyTask (isLeader, bytes) m kv = Inr (kv', sn)"
  shows "\<exists>r mkv table nc. kv_execute op (kv_content kv) = Some (r, mkv, table) \<and>
    kv' = kv\<lparr>kv_lastApplied := am_CommandIndex m, kv_stateMachine := mkv, kv_duplicateTable := table,
             kv_notifyChans := nc\<rparr> \<and>
    (if isLeader then \<exists>ch nc0. get_chan (am_CommandIndex m) (kv_notifyChans kv) = (ch, nc0) \<and>
         chan_send ch r nc0 = Some nc
     else nc = kv_notifyChans kv)"
proof -
  obtain r mkv table where ex: "kv_execute op (kv_content kv) = Some (r, mkv, table)"
    using kv_execute_total by (metis surj_pair)
  then show ?thesis
    using assms
    by (auto simp: kv_applyTask_def Let_def kv_getNotifyChannel_def split: prod.splits option.splits if_splits)
qed

lemma kv_applyTask_snapshot:
  "\<not> am_CommandValid m \<Longrightarrow> am_SnapshotValid m \<Longrightarrow> am_Snapshot m = kv_makeSnapshot x \<Longrightarrow>
   kv_applyTask e m kv = Inr (kv\<lparr>kv_stateMachine := fst x, kv_duplicateTable := snd x,
     kv_lastApplied := am_SnapshotIndex m\<rparr>, None)"
  by (cases e) (simp add: kv_applyTask_def)

interpretation kv_client: log_client kv_round kv_lastApplied kv_content kv_execute kv_snap
proof unfold_locales
  fix m c e kv kv'
  assume "am_CommandValid m" "kv_lastApplied kv < am_CommandIndex m" "am_Command m = Some c"
    and "kv_round e m kv = Some kv'"
  then show "kv_lastApplied kv' = am_CommandIndex m \<and>
      (\<exists>r. kv_execute c (kv_content kv) = Some (r, kv_content kv'))"
    using kv_applyTask_new[of m kv c "fst e" "snd e"]
    by (fastforce simp: kv_round_def split: sum.splits prod.splits)
qed (auto simp: kv_round_def kv_applyTask_old kv_applyTask_snapshot)

text \<open>
  (C8) Every replica holds the state of a prefix of the common log: a server started, or
  restarted from its snapshot, that processes the messages its peer sends, has the state
  machine and the duplicate table which executing the first \<open>k\<close> commands of the log gives, and
  \<open>k\<close> is at least the index its peer has delivered, whatever role the peer has meanwhile and
  however often it is taken back to a snapshot. The messages are those of a peer's
  applier in a run in which no snapshot is overtaken by a newer one while it is sent; they are
  assumed to agree with the log \<open>ops\<close> that the peers have committed.
\<close>

theorem kv_replica_state:
  assumes "ps = MakePersister \<or> ps = persister (persistLocked rf0)"
    and "after kv_execute kv_init ops (lastApplied (Make n i ps)) x"
    and "ps_ReadSnapshot ps = kv_makeSnapshot x \<or> ps_ReadSnapshot ps = [] \<and> x = kv_init"
    and "StartKVServer n i ps mrs = Some kv"
    and "app_run (Make n i ps) ms rf d"
    and "\<forall>m \<in> set ms. agrees ops kv_execute kv_init kv_snap m"
    and "length es = length ms" "deliver kv_round (zip es ms) kv = Some kv'"
  shows "\<exists>k \<ge> d. after kv_execute kv_init ops k (kv_content kv')"
proof -
  have gap: "gap_free (lastApplied (Make n i ps)) ms" "d = foldl reached (lastApplied (Make n i ps)) ms"
    using app_run_inv[OF assms(5) app_inv_Make[OF assms(1)]] by auto
  have "kv_content kv = x" "kv_lastApplied kv = 0"
    using StartKVServer_content[OF assms(3), of n i mrs] assms(4) by auto
  then have "kv_client.follows ops kv_init (lastApplied (Make n i ps)) kv"
    using assms(2) unfolding kv_client.follows_def by (simp add: after_def max_absorb1)
  then have "kv_client.follows ops kv_init d kv'"
    using kv_client.deliver_follows[OF assms(8), of "lastApplied (Make n i ps)" ops kv_init]
      gap assms(6,7) by simp
  then show ?thesis
    unfolding kv_client.follows_def by (intro exI[of _ "max d (kv_lastApplied kv')"]) simp
qed

theorem kv_replica_state_witness:
  "\<exists>ms (rf :: (kv_op, kv_gob) raft) kv kv' k.
     app_run (Make 3 0 MakePersister) ms rf 1 \<and> StartKVServer 3 0 MakePersister 100 = Some kv \<and>
     deliver kv_round (zip [(False, 0)] ms) kv = Some kv' \<and> 1 \<le> k \<and>
     after kv_execute kv_init [\<lparr>op_Key = ''k'', op_Value = ''v'', op_OpType = OpPut, op_ClientId = 1, op_SeqId = 0\<rparr>]
       k (kv_content kv')"
proof -
  let ?op = "\<lparr>op_Key = ''k'', op_Value = ''v'', op_OpType = OpPut, op_ClientId = 1, op_SeqId = 0\<rparr>"
  obtain m :: "(kv_op, kv_gob) apply_msg" and rf where m: "app_run (Make 3 0 MakePersister) [m] rf 1"
      "am_CommandValid m" "\<not> am_SnapshotValid m" "am_CommandIndex m = 1" "am_Command m = Some ?op"
    using app_run_one_command[of ?op] by blast
  have ps: "ps_ReadSnapshot (MakePersister :: (kv_op, kv_gob) persister) = []"
    by (simp add: MakePersister_def ps_ReadSnapshot_def)
  obtain kv where kv: "StartKVServer 3 0 MakePersister 100 = Some kv" "kv_lastApplied kv = 0"
    using StartKVServer_content[of MakePersister kv_init 3 0 100] ps by auto
  obtain kv' where kv': "deliver kv_round (zip [(False, 0)] [m]) kv = Some kv'"
    using m kv(2) kv_execute_total[of ?op "kv_content kv"]
    by (auto simp: kv_round_def kv_applyTask_def Let_def)
  have "\<exists>k \<ge> 1. after kv_execute kv_init [?op] k (kv_content kv')"
    using ps m kv
    by (intro kv_replica_state[OF _ _ _ kv(1) m(1) _ _ kv', of rf "[?op]" kv_init])
      (auto simp: Make_fresh after_0 agrees_def)
  then show ?thesis
    using m(1) kv(1) kv' by blast
qed

section \<open>What a handler answers\<close>

text \<open>
  A server at work: its handlers, any number of each kind, its \<open>applyTask\<close> and its peer take
  steps in any order. \<open>d\<close> is the index its peer has delivered; the peer may change in any
  way between the steps of the server.
\<close>

inductive kv_run :: "kv_op list \<Rightarrow> (nat \<Rightarrow> string) \<Rightarrow> (nat \<Rightarrow> put_append_args) \<Rightarrow> kv_server \<Rightarrow> int \<Rightarrow>
    (nat \<Rightarrow> op_reply handler_pc) \<Rightarrow> (nat \<Rightarrow> err handler_pc) \<Rightarrow> kv_server \<Rightarrow> int \<Rightarrow> bool"
  for ops keys args kv0 d0 where
  kr_start: "kv_run ops keys args kv0 d0 (\<lambda>_. HCheck) (\<lambda>_. HCheck) kv0 d0"
| kr_get: "kv_run ops keys args kv0 d0 gs ps kv d \<Longrightarrow>
    kv_Get_step timer (keys h) (gs h) kv = (pc, kv') \<Longrightarrow> kv_run ops keys args kv0 d0 (gs(h := pc)) ps kv' d"
| kr_put: "kv_run ops keys args kv0 d0 gs ps kv d \<Longrightarrow>
    kv_PutAppend_step timer (args h) (ps h) kv = Some (pc, kv') \<Longrightarrow>
    kv_run ops keys args kv0 d0 gs (ps(h := pc)) kv' d"
| kr_apply: "kv_run ops keys args kv0 d0 gs ps kv d \<Longrightarrow> agrees ops kv_execute kv_init kv_snap m \<Longrightarrow>
    am_SnapshotValid m \<or> am_CommandIndex m = d + 1 \<Longrightarrow> kv_applyTask e m kv = Inr (kv', sn) \<Longrightarrow>
    kv_run ops keys args kv0 d0 gs ps kv' (reached d m)"
| kr_raft: "kv_run ops keys args kv0 d0 gs ps kv d \<Longrightarrow>
    kv_run ops keys args kv0 d0 gs ps (kv\<lparr>kv_rf := rf\<rparr>) d"

text \<open>The reply that executing the log up to index \<open>i\<close> gives for the command at \<open>i\<close>.\<close>

definition kv_reply_at :: "kv_op list \<Rightarrow> int \<Rightarrow> op_reply \<Rightarrow> bool" where
  "kv_reply_at ops i r \<longleftrightarrow> 1 \<le> i \<and> i \<le> int (length ops) \<and>
     (\<exists>x y. after kv_execute kv_init ops (i - 1) x \<and> kv_execute (ops ! nat (i - 1)) x = Some (r, y))"

abbreviation kv_gets_ok :: "kv_op list \<Rightarrow> kv_server \<Rightarrow> (nat \<Rightarrow> op_reply handler_pc) \<Rightarrow> bool" where
  "kv_gets_ok ops kv gs \<equiv>
     answers_ok (kv_reply_at ops) (\<lambda>r a. a = r) (\<lambda>a. or_Err a = ErrTimeout) (kv_notifyChans kv) gs"

abbreviation kv_puts_ok :: "kv_op list \<Rightarrow> kv_server \<Rightarrow> (nat \<Rightarrow> err handler_pc) \<Rightarrow> bool" where
  "kv_puts_ok ops kv ps \<equiv>
     answers_ok (kv_reply_at ops) (\<lambda>r e. e = or_Err r) (\<lambda>e. e = ErrTimeout) (kv_notifyChans kv) ps"

lemma kv_applyTask_answers:
  assumes "kv_client.follows ops kv_init d kv" "agrees ops kv_execute kv_init kv_snap m"
    and "am_SnapshotValid m \<or> am_CommandIndex m = d + 1" "kv_applyTask e m kv = Inr (kv', sn)"
    and ok: "answers_ok (kv_reply_at ops) ans late (kv_notifyChans kv) hs"
  shows "answers_ok (kv_reply_at ops) ans late (kv_notifyChans kv') hs"
proof (cases "am_CommandValid m \<and> kv_lastApplied kv < am_CommandIndex m")
  case True
  then have m: "am_CommandIndex m = d + 1" "am_Command m = Some (ops ! nat d)"
      "0 \<le> d" "d < int (length ops)"
    using assms(2,3) by (auto simp: agrees_def)
  obtain isLeader bytes where e: "e = (isLeader, bytes)"
    by fastforce
  obtain r mkv table nc where ex: "kv_execute (ops ! nat d) (kv_content kv) = Some (r, mkv, table)"
    and kv': "kv' = kv\<lparr>kv_lastApplied := am_CommandIndex m, kv_stateMachine := mkv,
        kv_duplicateTable := table, kv_notifyChans := nc\<rparr>"
    and sent: "if isLeader then \<exists>ch nc0. get_chan (am_CommandIndex m) (kv_notifyChans kv) = (ch, nc0) \<and>
        chan_send ch r nc0 = Some nc else nc = kv_notifyChans kv"
    using kv_applyTask_new[of m kv "ops ! nat d" isLeader bytes kv' sn] True m(2) assms(4) e by auto
  have "after kv_execute kv_init ops d (kv_content kv)"
    using assms(1) True m(1) by (simp add: kv_client.follows_def max_absorb1)
  then have "kv_reply_at ops (d + 1) r"
    using ex m by (auto simp: kv_reply_at_def)
  then show ?thesis
    using sent ok answers_ok_get[OF ok, of "d + 1"] notify_ok_get[of "kv_notifyChans kv" "d + 1"]
    by (auto simp: kv' m(1) answers_ok_def[of _ _ _ "kv_notifyChans kv"] split: if_splits
        intro: answers_ok_send)
next
  case False
  have "kv_notifyChans kv' = kv_notifyChans kv"
  proof (cases "am_CommandValid m")
    case True
    then show ?thesis
      using False assms(4) kv_applyTask_old[of m kv e] by simp
  next
    case snap: False
    then show ?thesis
      using assms(2,4) by (auto simp: agrees_def kv_applyTask_snapshot)
  qed
  then show ?thesis
    using ok by simp
qed

lemma kv_start_frame [simp]:
  "kv_start op kv = (x, kv') \<Longrightarrow> kv_notifyChans kv' = kv_notifyChans kv \<and>
     kv_content kv' = kv_content kv \<and> kv_lastApplied kv' = kv_lastApplied kv"
  by (auto simp: kv_start_def split: prod.splits)

lemma kv_follows_cong:
  "kv_content kv' = kv_content kv \<Longrightarrow> kv_lastApplied kv' = kv_lastApplied kv \<Longrightarrow>
   kv_client.follows ops x d kv' = kv_client.follows ops x d kv"
  by (simp add: kv_client.follows_def)

lemma pc_ok_simps [simp]:
  "pc_ok P ans late nc HStart" "pc_ok P ans late nc (HRegister i)" "pc_ok P ans late nc (HDone a)"
  by (simp_all add: pc_ok_def)

text \<open>
  A step of a handler either waits for its answer as the stages that all handlers share
  do, or leaves the channels and the content of the server alone.
\<close>

lemma kv_Get_step_cases:
  assumes "kv_Get_step timer key pc kv = (pc', kv')"
  shows "(\<exists>f late nc. await timer f late pc (kv_notifyChans kv) = (pc', nc) \<and>
      kv' = kv\<lparr>kv_notifyChans := nc\<rparr> \<and> or_Err late = ErrTimeout \<and> (\<forall>r :: op_reply. f r = r)) \<or>
    (\<exists>i a. pc' \<in> {HStart, HRegister i, HDone a}) \<and> kv_notifyChans kv' = kv_notifyChans kv \<and>
    kv_content kv' = kv_content kv \<and> kv_lastApplied kv' = kv_lastApplied kv"
proof (cases "pc = HCheck \<or> pc = HStart")
  case True
  then show ?thesis
    using assms by (auto simp: kv_Get_step_def split: prod.splits option.splits dest!: kv_start_frame)
next
  case False
  then show ?thesis
    using assms unfolding kv_Get_step_def
    by (intro disjI1 exI[of _ "\<lambda>r. \<lparr>or_Value = or_Value r, or_Err = or_Err r\<rparr>"]
        exI[of _ "\<lparr>or_Value = [], or_Err = ErrTimeout\<rparr>"]) (auto split: prod.splits)
qed

lemma kv_PutAppend_step_cases:
  assumes "kv_PutAppend_step timer args pc kv = Some (pc', kv')"
  shows "(\<exists>nc. await timer or_Err ErrTimeout pc (kv_notifyChans kv) = (pc', nc) \<and>
      kv' = kv\<lparr>kv_notifyChans := nc\<rparr>) \<or>
    (\<exists>i a. pc' \<in> {HStart, HRegister i, HDone a}) \<and> kv_notifyChans kv' = kv_notifyChans kv \<and>
    kv_content kv' = kv_content kv \<and> kv_lastApplied kv' = kv_lastApplied kv"
proof (cases "pc = HStart")
  case True
  then obtain t where "(case kv_start \<lparr>op_Key = pa_Key args, op_Value = pa_Value args, op_OpType = t,
      op_ClientId = pa_ClientId args, op_SeqId = pa_SeqId args\<rparr> kv of
      (None, kv) \<Rightarrow> (HDone ErrWrongLeader, kv) | (Some index, kv) \<Rightarrow> (HRegister index, kv)) = (pc', kv')"
    using assms unfolding kv_PutAppend_step_def by auto
  then show ?thesis
    by (auto split: prod.splits option.splits dest!: kv_start_frame)
next
  case False
  then show ?thesis
    using assms by (auto simp: kv_PutAppend_step_def split: prod.splits if_splits)
qed

lemma kv_Get_step_answers:
  assumes step: "kv_Get_step timer key (gs h) kv = (pc, kv')"
    and ok: "kv_gets_ok ops kv gs" "kv_puts_ok ops kv ps"
  shows "kv_gets_ok ops kv' (gs(h := pc)) \<and> kv_puts_ok ops kv' ps \<and>
    kv_content kv' = kv_content kv \<and> kv_lastApplied kv' = kv_lastApplied kv"
  using kv_Get_step_cases[OF step]
proof (elim disjE exE conjE)
  fix f late nc
  assume w: "await timer f late (gs h) (kv_notifyChans kv) = (pc, nc)"
    and kv': "kv' = kv\<lparr>kv_notifyChans := nc\<rparr>" and f: "or_Err late = ErrTimeout" "\<forall>r. f r = r"
  show ?thesis
    using answers_ok_await[OF ok(1) w f(1)] answers_ok_await_other[OF ok(2) w] f(2) kv' by simp
next
  fix i a
  assume "pc \<in> {HStart, HRegister i, HDone a}" "kv_notifyChans kv' = kv_notifyChans kv"
    "kv_content kv' = kv_content kv" "kv_lastApplied kv' = kv_lastApplied kv"
  then show ?thesis
    using ok answers_ok_pc[OF ok(1), of pc h] by auto
qed

lemma kv_PutAppend_step_answers:
  assumes step: "kv_PutAppend_step timer args (ps h) kv = Some (pc, kv')"
    and ok: "kv_gets_ok ops kv gs" "kv_puts_ok ops kv ps"
  shows "kv_gets_ok ops kv' gs \<and> kv_puts_ok ops kv' (ps(h := pc)) \<and>
    kv_content kv' = kv_content kv \<and> kv_lastApplied kv' = kv_lastApplied kv"
  using kv_PutAppend_step_cases[OF step]
proof (elim disjE exE conjE)
  fix nc
  assume w: "await timer or_Err ErrTimeout (ps h) (kv_notifyChans kv) = (pc, nc)"
    and kv': "kv' = kv\<lparr>kv_notifyChans := nc\<rparr>"
  show ?thesis
    using answers_ok_await[OF ok(2) w] answers_ok_await_other[OF ok(1) w] kv' by simp
next
  fix i a
  assume "pc \<in> {HStart, HRegister i, HDone a}" "kv_notifyChans kv' = kv_notifyChans kv"
    "kv_content kv' = kv_content kv" "kv_lastApplied kv' = kv_lastApplied kv"
  then show ?thesis
    using ok answers_ok_pc[OF ok(2), of pc h] by auto
qed

lemma kv_run_inv:
  assumes "kv_run ops keys args kv0 d0 gs ps kv d"
    and "kv_client.follows ops kv_init d0 kv0" "kv_notifyChans kv0 = no_chans"
  shows "kv_client.follows ops kv_init d kv \<and> kv_gets_ok ops kv gs \<and> kv_puts_ok ops kv ps"
  using assms(1)
proof (induction rule: kv_run.induct)
  case kr_start
  then show ?case
    using assms(2,3) by simp
next
  case (kr_get gs ps kv d timer h pc kv')
  then show ?case
    using kv_Get_step_answers[of timer "keys h" gs h kv pc kv' ops ps]
      kv_follows_cong[of kv' kv ops kv_init d] by (simp del: fun_upd_apply)
next
  case (kr_put gs ps kv d timer h pc kv')
  then show ?case
    using kv_PutAppend_step_answers[of timer "args h" ps h kv pc kv' ops gs]
      kv_follows_cong[of kv' kv ops kv_init d] by (simp del: fun_upd_apply)
next
  case (kr_apply gs ps kv d m e kv' sn)
  then have "kv_client.follows ops kv_init (reached d m) kv'"
    by (intro kv_client.step_follows[of ops kv_init d kv m e]) (auto simp: kv_round_def)
  then show ?case
    using kr_apply.IH by (auto intro: kv_applyTask_answers[OF _ kr_apply(2-4)])
next
  case (kr_raft gs ps kv d rf)
  then show ?case
    using kv_follows_cong[of "kv\<lparr>kv_rf := rf\<rparr>" kv ops kv_init d] by simp
qed



text \<open>
  (C35) The index alone ties an answer to a handler: when the peer lost its leadership and
  another leader's command took the place of the handler's own one, the handler answers with
  the reply of that other command, whatever the request it was called with.
\<close>

theorem kv_answers_for_other_command:
  assumes "nc_chans (kv_notifyChans kv) index = Some ch" "nc_buf (kv_notifyChans kv) ch = None"
    and "kv_lastApplied kv < index" "kv_execute other (kv_content kv) = Some (r, y)"
  shows "\<exists>kv1 sn kv2. kv_applyTask (True, bytes)
      \<lparr>am_CommandValid = True, am_Command = Some other, am_CommandIndex = index,
       am_SnapshotValid = False, am_Snapshot = [], am_SnapshotTerm = 0, am_SnapshotIndex = 0\<rparr> kv =
        Inr (kv1, sn) \<and>
    kv_PutAppend_step False args (HWait index ch) kv1 = Some (HCleanup index (or_Err r), kv2)"
  using assms
  by (cases y) (simp add: kv_applyTask_def Let_def kv_getNotifyChannel_def get_chan_def chan_send_def
      kv_PutAppend_step_def chan_recv_def)

theorem kv_answers_for_other_command_witness:
  "\<exists>kv kv1 sn kv2. kv_applyTask (True, 0)
      \<lparr>am_CommandValid = True, am_Command = Some \<lparr>op_Key = ''a'', op_Value = ''1'', op_OpType = OpPut,
         op_ClientId = 1, op_SeqId = 0\<rparr>, am_CommandIndex = 1,
       am_SnapshotValid = False, am_Snapshot = [], am_SnapshotTerm = 0, am_SnapshotIndex = 0\<rparr> kv =
        Inr (kv1, sn) \<and>
    kv_PutAppend_step False \<lparr>pa_Key = ''b'', pa_Value = ''2'', pa_Op = ''Put'', pa_ClientId = 2,
      pa_SeqId = 0\<rparr> (HWait 1 0) kv1 = Some (HCleanup 1 OK, kv2) \<and>
    mkv_KV (kv_stateMachine kv2) ''b'' = None"
proof -
  let ?op = "\<lparr>op_Key = ''a'', op_Value = ''1'', op_OpType = OpPut, op_ClientId = 1, op_SeqId = 0\<rparr>"
  let ?nc = "\<lparr>nc_chans = [1 \<mapsto> 0], nc_buf = Map.empty, nc_fresh = 1\<rparr> :: op_reply notify"
  obtain kv0 where kv0: "StartKVServer 3 0 MakePersister (-1) = Some kv0" "kv_content kv0 = kv_init"
      "kv_lastApplied kv0 = 0"
    using StartKVServer_content[of MakePersister kv_init 3 0 "-1"]
    by (auto simp: MakePersister_def ps_ReadSnapshot_def)
  let ?kv = "kv0\<lparr>kv_notifyChans := ?nc\<rparr>"
  have ex: "kv_execute ?op (kv_content ?kv) = Some (\<lparr>or_Value = '''', or_Err = OK\<rparr>,
      \<lparr>mkv_KV = [''a'' \<mapsto> ''1'']\<rparr>, [1 \<mapsto> (0, \<lparr>or_Value = '''', or_Err = OK\<rparr>)])"
    using kv0 by (simp add: kv_execute_def kv_requestDuplicated_def kv_applyToStateMachine_def mkv_Put_def
        NewMemoryKVStateMachine_def)
  obtain kv1 sn kv2 where s: "kv_applyTask (True, 0) \<lparr>am_CommandValid = True, am_Command = Some ?op,
      am_CommandIndex = 1, am_SnapshotValid = False, am_Snapshot = [], am_SnapshotTerm = 0,
      am_SnapshotIndex = 0\<rparr> ?kv = Inr (kv1, sn)"
    "kv_PutAppend_step False \<lparr>pa_Key = ''b'', pa_Value = ''2'', pa_Op = ''Put'', pa_ClientId = 2,
      pa_SeqId = 0\<rparr> (HWait 1 0) kv1 = Some (HCleanup 1 OK, kv2)"
    using kv_answers_for_other_command[OF _ _ _ ex, of 1 0 0 "\<lparr>pa_Key = ''b'', pa_Value = ''2'',
      pa_Op = ''Put'', pa_ClientId = 2, pa_SeqId = 0\<rparr>"] kv0(3) by auto
  have "kv_stateMachine kv1 = \<lparr>mkv_KV = [''a'' \<mapsto> ''1'']\<rparr>"
    using kv_applyTask_new[OF _ _ _ s(1), of ?op] ex kv0(3) by auto
  then have "mkv_KV (kv_stateMachine kv2) ''b'' = None"
    using s(2) by (auto simp: kv_PutAppend_step_def split: prod.splits)
  then show ?thesis
    using s by blast
qed

section \<open>Clerks\<close>

text \<open>
  (C31) A clerk's write returns exactly when some attempt, the servers being tried in turn,
  gets a conclusive answer. It has then passed over only attempts that were lost or
  answered with a wrong leader or a timeout, all attempts carried the same client and sequence
  number, and the next write has the next sequence number.
\<close>

theorem ck_PutAppend_returns:
  assumes "0 \<le> ck_leaderId ck" "ck_leaderId ck < ck_servers ck"
  shows "let att = attempt (call \<lparr>pa_Key = key, pa_Value = value, pa_Op = op,
        pa_ClientId = ck_clientId ck, pa_SeqId = ck_seqId ck\<rparr>) (ck_servers ck) 0 (ck_leaderId ck)
    in ck_PutAppend call key value op ck = Some ck' \<longleftrightarrow>
      (\<exists>k. conclusive try_again (att k) \<and> (\<forall>j < k. \<not> conclusive try_again (att j)) \<and>
        ck' = ck\<lparr>ck_leaderId := (ck_leaderId ck + int k) mod ck_servers ck,
                 ck_seqId := ck_seqId ck + 1\<rparr>)"
  using clerk_loop_iff[OF assms, of "call \<lparr>pa_Key = key, pa_Value = value, pa_Op = op,
      pa_ClientId = ck_clientId ck, pa_SeqId = ck_seqId ck\<rparr>" try_again 0]
  unfolding Let_def ck_PutAppend_def by (auto simp: conclusive_def)

theorem ck_PutAppend_returns_witness:
  "\<exists>ck'. ck_PutAppend (\<lambda>args n s. if s = 1 then Some OK else Some ErrWrongLeader) ''k'' ''v'' ''Put''
      (MakeClerk 3 42) = Some ck' \<and> ck_leaderId ck' = 1 \<and> ck_seqId ck' = 1"
  by (intro exI[of _ "(MakeClerk 3 42)\<lparr>ck_leaderId := 1, ck_seqId := 1\<rparr>"] conjI
      iffD2[OF ck_PutAppend_returns[unfolded Let_def]] exI[of _ 1])
    (simp_all add: MakeClerk_def attempt_def conclusive_def try_again_def)

end
