(* ===== verification/Ctrler_State_Machine.thy ===== *)
theory Ctrler_State_Machine
  imports Service_Base
begin

text \<open>
  The state machine of the shard controller, \<^verbatim>\<open>src/src/shardctrler/state_machine.go\<close>
  and the data types of \<^verbatim>\<open>src/src/shardctrler/common.go\<close> it works on: the sequence of
  configurations, each an assignment of shards to replica groups, and the operations
  \<open>Join\<close>, \<open>Leave\<close>, \<open>Move\<close> and \<open>Query\<close>.
\<close>

section \<open>Configurations\<close>

definition NShards :: nat where "NShards = 10"

record config =
  cf_Num :: int
  cf_Shards :: "int list"
  cf_Groups :: "(int, string list) go_map"

definition DefaultConfig :: config where
  "DefaultConfig = \<lparr>cf_Num = 0, cf_Shards = replicate NShards 0, cf_Groups = []\<rparr>"

record ctrler_sm =
  csm_Configs :: "config list"

definition NewCtrlerStateMachine :: ctrler_sm where
  "NewCtrlerStateMachine = \<lparr>csm_Configs = [DefaultConfig]\<rparr>"

definition csm_Query :: "int \<Rightarrow> ctrler_sm \<Rightarrow> (config \<times> err) option" where
  "csm_Query num csm =
     (if num < 0 \<or> num \<ge> int (length (csm_Configs csm)) then do {
        c \<leftarrow> slice_get (csm_Configs csm) (int (length (csm_Configs csm)) - 1);
        Some (c, OK) }
      else do {
        c \<leftarrow> slice_get (csm_Configs csm) num;
        Some (c, OK) })"

definition copyGroups :: "(int, string list) go_map \<Rightarrow> (int, string list) go_map" where
  "copyGroups groups = fold (\<lambda>(gid, servers). AList.update gid servers) groups []"

section \<open>Shards by group\<close>

text \<open>
  The map from gid to its shards that \<open>Join\<close> and \<open>Leave\<close> build: first an empty slice for
  every group, then every shard appended to the slice of its owner.
\<close>

definition shardsByGid :: "(int, string list) go_map \<Rightarrow> int list \<Rightarrow> (int, int list) go_map" where
  "shardsByGid groups shards =
     fold (\<lambda>(shard, gid) m. AList.update gid (gm_get [] m gid @ [int shard]) m)
       (enumerate 0 shards)
       (fold (\<lambda>(gid, _). AList.update gid []) groups [])"

definition gidWithMaxShards :: "(int, int list) go_map \<Rightarrow> int" where
  "gidWithMaxShards m =
     (if map_of m 0 \<noteq> None \<and> length (gm_get [] m 0) > 0 then 0
      else let gids = sort (map fst m)
           in fst (fold (\<lambda>gid (maxGid, maxShards).
                      if int (length (gm_get [] m gid)) > maxShards
                      then (gid, int (length (gm_get [] m gid))) else (maxGid, maxShards))
                    gids (-1, -1)))"

definition gidWithMinShards :: "(int, int list) go_map \<Rightarrow> int" where
  "gidWithMinShards m =
     (let gids = sort (map fst m)
      in fst (fold (\<lambda>gid (minGid, minShards).
                 if gid \<noteq> 0 \<and> int (length (gm_get [] m gid)) < minShards
                 then (gid, int (length (gm_get [] m gid))) else (minGid, minShards))
               gids (-1, int NShards + 1)))"

text \<open>The final loop that writes the owners back into a shard array.\<close>

fun storeShards :: "int \<Rightarrow> int list \<Rightarrow> int list \<Rightarrow> int list option" where
  "storeShards gid [] newShards = Some newShards"
| "storeShards gid (shard # shards) newShards = do {
     newShards \<leftarrow> slice_set newShards shard gid;
     storeShards gid shards newShards }"

fun storeAllShards :: "(int, int list) go_map \<Rightarrow> int list \<Rightarrow> int list option" where
  "storeAllShards [] newShards = Some newShards"
| "storeAllShards ((gid, shards) # m) newShards = do {
     newShards \<leftarrow> storeShards gid shards newShards;
     storeAllShards m newShards }"

section \<open>The balancing loop\<close>

lemma fold_min_nonzero:
  "fst acc \<noteq> 0 \<Longrightarrow>
   fst (fold (\<lambda>gid (minGid, minShards).
      if gid \<noteq> 0 \<and> int (length (gm_get [] m gid)) < minShards
      then (gid, int (length (gm_get [] m gid))) else (minGid, minShards)) gids acc) \<noteq> (0 :: int)"
  by (induction gids arbitrary: acc) (auto split: prod.splits)

lemma gidWithMinShards_nonzero: "gidWithMinShards m \<noteq> 0"
  unfolding gidWithMinShards_def Let_def by (rule fold_min_nonzero) simp

text \<open>
  The loop of \<open>Join\<close>. It ends for every map: while group 0 has shards it loses one in each
  turn, and after that each turn lowers the sum of the squared loads.
\<close>

definition sum_squares :: "(int, int list) go_map \<Rightarrow> nat" where
  "sum_squares m = (\<Sum>(k, v) \<leftarrow> m. length v * length v)"

lemma sum_squares_update:
  "sum_squares (AList.update k v m) + length (gm_get [] m k) * length (gm_get [] m k) =
     sum_squares m + length v * length v"
  unfolding sum_squares_def by (rule sum_values_update) simp

lemma sum_squares_move:
  assumes "length (gm_get [] m b) + 1 < length (gm_get [] m a)"
  shows "sum_squares (AList.update a (drop 1 (gm_get [] m a))
     (AList.update b (gm_get [] m b @ [s]) m)) < sum_squares m"
proof -
  let ?a = "length (gm_get [] m a)" and ?b = "length (gm_get [] m b)"
  let ?m1 = "AList.update b (gm_get [] m b @ [s]) m"
  have ne: "a \<noteq> b"
    using assms by auto
  obtain d where d: "?a = ?b + 2 + d"
    using assms less_iff_Suc_add[of "?b + 1" ?a] by auto
  have "sum_squares ?m1 + ?b * ?b = sum_squares m + (?b + 1) * (?b + 1)"
    using sum_squares_update[of b "gm_get [] m b @ [s]" m] by simp
  moreover have "sum_squares (AList.update a (drop 1 (gm_get [] m a)) ?m1) + ?a * ?a =
      sum_squares ?m1 + (?a - 1) * (?a - 1)"
    using sum_squares_update[of a "drop 1 (gm_get [] m a)" ?m1] ne by simp
  ultimately show ?thesis
    unfolding d by (simp add: algebra_simps)
qed

function rebalance :: "(int, int list) go_map \<Rightarrow> (int, int list) go_map option" where
  "rebalance m =
     (let maxGid = gidWithMaxShards m; minGid = gidWithMinShards m
      in if maxGid \<noteq> 0 \<and>
            int (length (gm_get [] m maxGid)) - int (length (gm_get [] m minGid)) \<le> 1
         then Some m
         else if gm_get [] m maxGid = [] then None
         else let m1 = AList.update minGid (gm_get [] m minGid @ [hd (gm_get [] m maxGid)]) m
              in rebalance (AList.update maxGid (drop 1 (gm_get [] m1 maxGid)) m1))"
  by auto
termination
proof (relation "measures [\<lambda>m. length (gm_get [] m 0), sum_squares]", simp, goal_cases)
  case (1 m x y z)
  show ?case
  proof (cases "x = 0")
    case True
    then show ?thesis
      using 1 gidWithMinShards_nonzero[of m] by auto
  next
    case False
    then have "length (gm_get [] m y) + 1 < length (gm_get [] m x)"
      using 1 by linarith
    then show ?thesis
      using 1 False gidWithMinShards_nonzero[of m] sum_squares_move[of m y x]
      by auto
  qed
qed

declare rebalance.simps [simp del]

section \<open>The operations\<close>

definition csm_Join ::
    "(int, string list) go_map \<Rightarrow> ctrler_sm \<Rightarrow> (err \<times> ctrler_sm) option" where
  "csm_Join groups csm = do {
     let num = int (length (csm_Configs csm));
     lastConfig \<leftarrow> slice_get (csm_Configs csm) (num - 1);
     let newGroups = fold (\<lambda>(gid, servers) m.
           if map_of m gid = None then AList.update gid servers m else m)
         groups (copyGroups (cf_Groups lastConfig));
     gidToShards \<leftarrow> rebalance (shardsByGid newGroups (cf_Shards lastConfig));
     newShards \<leftarrow> storeAllShards gidToShards (replicate NShards 0);
     Some (OK, csm\<lparr>csm_Configs := csm_Configs csm @
       [\<lparr>cf_Num = num, cf_Shards = newShards, cf_Groups = newGroups\<rparr>]\<rparr>) }"

text \<open>The loop of \<open>Leave\<close> over the departing gids, and the one over the shards left over.\<close>

fun removeGids ::
    "int list \<Rightarrow> (int, string list) go_map \<times> (int, int list) go_map \<times> int list \<Rightarrow>
     (int, string list) go_map \<times> (int, int list) go_map \<times> int list" where
  "removeGids [] st = st"
| "removeGids (gid # gids) (groups, gidToShards, unassigned) =
     (let groups = (if map_of groups gid \<noteq> None then AList.delete gid groups else groups)
      in case map_of gidToShards gid of
           None \<Rightarrow> removeGids gids (groups, gidToShards, unassigned)
         | Some shards \<Rightarrow> removeGids gids (groups, AList.delete gid gidToShards, unassigned @ shards))"

fun assignShards :: "int list \<Rightarrow> (int, int list) go_map \<Rightarrow> (int, int list) go_map" where
  "assignShards [] m = m"
| "assignShards (shard # shards) m =
     (let minGid = gidWithMinShards m
      in assignShards shards (AList.update minGid (gm_get [] m minGid @ [shard]) m))"

definition csm_Leave :: "int list \<Rightarrow> ctrler_sm \<Rightarrow> (err \<times> ctrler_sm) option" where
  "csm_Leave gids csm = do {
     let num = int (length (csm_Configs csm));
     lastConfig \<leftarrow> slice_get (csm_Configs csm) (num - 1);
     let groups = copyGroups (cf_Groups lastConfig);
     let (newGroups, gidToShards, unassignedShards) =
       removeGids gids (groups, shardsByGid groups (cf_Shards lastConfig), []);
     newShards \<leftarrow> (if length newGroups \<noteq> 0
        then storeAllShards (assignShards unassignedShards gidToShards) (replicate NShards 0)
        else Some (replicate NShards 0));
     Some (OK, csm\<lparr>csm_Configs := csm_Configs csm @
       [\<lparr>cf_Num = num, cf_Shards = newShards, cf_Groups = newGroups\<rparr>]\<rparr>) }"

definition csm_Move :: "int \<Rightarrow> int \<Rightarrow> ctrler_sm \<Rightarrow> (err \<times> ctrler_sm) option" where
  "csm_Move shardid gid csm = do {
     let num = int (length (csm_Configs csm));
     lastConfig \<leftarrow> slice_get (csm_Configs csm) (num - 1);
     newShards \<leftarrow> slice_set (cf_Shards lastConfig) shardid gid;
     Some (OK, csm\<lparr>csm_Configs := csm_Configs csm @
       [\<lparr>cf_Num = num, cf_Shards = newShards, cf_Groups = copyGroups (cf_Groups lastConfig)\<rparr>]\<rparr>) }"

section \<open>Partitions of the shards\<close>

text \<open>A well-formed map from gid to shards holds every shard exactly once.\<close>

definition contents :: "(int, int list) go_map \<Rightarrow> int multiset" where
  "contents m = (\<Sum>(k, v) \<leftarrow> m. mset v)"

definition all_shards :: "int multiset" where
  "all_shards = mset (map int [0..<NShards])"

definition shard_partition :: "(int, int list) go_map \<Rightarrow> bool" where
  "shard_partition m \<longleftrightarrow> gm_ok m \<and> contents m = all_shards"

abbreviation load :: "(int, int list) go_map \<Rightarrow> int \<Rightarrow> nat" where
  "load m g \<equiv> length (gm_get [] m g)"

lemma contents_update:
  "contents (AList.update k v m) + mset (gm_get [] m k) = contents m + mset v"
  unfolding contents_def by (rule sum_values_update) simp

lemma contents_append:
  "contents (AList.update k (gm_get [] m k @ [s]) m) = add_mset s (contents m)"
  using contents_update[of k "gm_get [] m k @ [s]" m] by simp

lemma contents_get: "mset (gm_get [] m k) \<subseteq># contents m"
proof -
  have "contents (AList.update k [] m) + mset (gm_get [] m k) = contents m"
    using contents_update[of k "[]" m] by simp
  then show ?thesis
    by (metis mset_subset_eq_add_right)
qed

lemma gm_get_Cons [simp]: "gm_get z ((k, v) # m) k' = (if k' = k then v else gm_get z m k')"
  by (simp add: gm_get_def)

lemma contents_in:
  assumes "s \<in># contents m" "gm_ok m"
  obtains g where "g \<in> gm_keys m" "s \<in> set (gm_get [] m g)"
proof -
  have "\<exists>k v. (k, v) \<in> set m \<and> s \<in> set v"
    using assms(1) by (fastforce simp: contents_def)
  then show ?thesis
    using assms(2) that gm_in by (metis fst_conv image_eqI)
qed

lemma contents_two:
  assumes "g \<noteq> h"
  shows "mset (gm_get [] m g) + mset (gm_get [] m h) \<subseteq># contents m"
proof -
  have "mset (gm_get [] m h) \<subseteq># contents (AList.update g [] m)"
    using contents_get[of "AList.update g [] m" h] assms by simp
  then show ?thesis
    using contents_update[of g "[]" m] by (metis add.right_neutral mset.simps(1) mset_subset_eq_mono_add_left_cancel union_commute)
qed

lemma count_all_shards: "count all_shards s = (if 0 \<le> s \<and> s < int NShards then 1 else 0)"
proof -
  have "distinct (map int [0..<NShards])"
    by (simp add: distinct_map)
  moreover have "s \<in> set (map int [0..<NShards]) \<longleftrightarrow> 0 \<le> s \<and> s < int NShards"
    by (auto simp: image_iff intro!: bexI[of _ "nat s"])
  ultimately show ?thesis
    by (simp add: all_shards_def distinct_count_atmost_1)
qed

lemma partition_unique:
  assumes "shard_partition m" "s \<in> set (gm_get [] m g)" "s \<in> set (gm_get [] m h)"
  shows "g = h"
proof (rule ccontr)
  assume "g \<noteq> h"
  then have "count (mset (gm_get [] m g) + mset (gm_get [] m h)) s \<le> count all_shards s"
    using contents_two assms(1) by (metis shard_partition_def mset_subset_eq_count)
  moreover have "0 < count (mset (gm_get [] m g)) s" "0 < count (mset (gm_get [] m h)) s"
    using assms(2,3) by simp_all
  ultimately have "2 \<le> count all_shards s"
    unfolding count_union by linarith
  then show False
    by (simp add: count_all_shards split: if_splits)
qed

lemma partition_range:
  assumes "shard_partition m" "s \<in> set (gm_get [] m g)"
  shows "0 \<le> s \<and> s < int NShards"
proof -
  have "s \<in># all_shards"
    using contents_get[of m g] assms by (auto simp: shard_partition_def dest: mset_subset_eqD)
  then show ?thesis
    unfolding count_greater_zero_iff[symmetric] count_all_shards by (simp split: if_splits)
qed

lemma partition_owner:
  assumes "shard_partition m" "0 \<le> s" "s < int NShards"
  obtains g where "g \<in> gm_keys m" "s \<in> set (gm_get [] m g)"
proof -
  have "s \<in># contents m"
    using assms unfolding count_greater_zero_iff[symmetric] by (simp add: shard_partition_def count_all_shards)
  moreover have "gm_ok m"
    using assms(1) by (simp add: shard_partition_def)
  ultimately show ?thesis
    by (rule contents_in) (rule that)
qed

lemma partition_distinct:
  assumes "shard_partition m"
  shows "distinct (gm_get [] m g)"
proof -
  have "count (mset (gm_get [] m g)) s \<le> 1" for s
  proof -
    have "count (mset (gm_get [] m g)) s \<le> count all_shards s"
      using mset_subset_eq_count[OF contents_get[of m g], of s] assms by (simp only: shard_partition_def)
    also have "\<dots> \<le> 1"
      by (simp add: count_all_shards)
    finally show ?thesis .
  qed
  then have "count (mset (gm_get [] m g)) s = (if s \<in> set (gm_get [] m g) then 1 else 0)" for s
    using count_greater_zero_iff[of "mset (gm_get [] m g)" s] by (simp add: le_Suc_eq not_in_iff)
  then show ?thesis
    by (simp add: distinct_count_atmost_1)
qed

lemma partition_load: "shard_partition m \<Longrightarrow> load m g \<le> NShards"
  using size_mset_mono[OF contents_get[of m g]] by (simp add: shard_partition_def all_shards_def)

section \<open>Building the map and storing it back\<close>

lemma storeShards_spec:
  assumes "\<forall>s \<in> set ss. 0 \<le> s \<and> s < int (length arr)"
  shows "\<exists>arr'. storeShards g ss arr = Some arr' \<and> length arr' = length arr \<and>
    (\<forall>i < length arr. arr' ! i = (if int i \<in> set ss then g else arr ! i))"
  using assms
proof (induction ss arbitrary: arr)
  case (Cons s ss)
  obtain arr' where "storeShards g ss (arr[nat s := g]) = Some arr'" "length arr' = length arr"
      "\<forall>i < length arr. arr' ! i = (if int i \<in> set ss then g else arr[nat s := g] ! i)"
    using Cons.IH[of "arr[nat s := g]"] Cons.prems by auto
  then show ?case
    using Cons.prems by (auto simp: nth_list_update)
qed simp

lemma storeAllShards_spec:
  assumes "gm_ok m" "\<forall>g s. s \<in> set (gm_get [] m g) \<longrightarrow> 0 \<le> s \<and> s < int (length arr)"
    and "\<forall>g h s. s \<in> set (gm_get [] m g) \<longrightarrow> s \<in> set (gm_get [] m h) \<longrightarrow> g = h"
  shows "\<exists>arr'. storeAllShards m arr = Some arr' \<and> length arr' = length arr \<and>
    (\<forall>g i. int i \<in> set (gm_get [] m g) \<longrightarrow> arr' ! i = g) \<and>
    (\<forall>i < length arr. (\<forall>g. int i \<notin> set (gm_get [] m g)) \<longrightarrow> arr' ! i = arr ! i)"
  using assms
proof (induction m arbitrary: arr)
  case (Cons kv m)
  obtain k v where kv: "kv = (k, v)"
    by fastforce
  have k: "gm_get [] m k = []"
    using Cons.prems(1) by (intro gm_get_absent) (simp add: kv)
  have in_m: "s \<in> set (gm_get [] (kv # m) g)" if "s \<in> set (gm_get [] m g)" for s g
    using that k by (auto simp: kv)
  note rng = Cons.prems(2)[rule_format]
  note uniq = Cons.prems(3)[rule_format]
  have v: "\<forall>s \<in> set v. 0 \<le> s \<and> s < int (length arr)"
    using rng[of _ k] by (simp add: kv)
  obtain arr1 where 1: "storeShards k v arr = Some arr1" "length arr1 = length arr"
      "\<forall>i < length arr. arr1 ! i = (if int i \<in> set v then k else arr ! i)"
    using storeShards_spec[OF v, of k] by blast
  have "gm_ok m" "\<forall>g s. s \<in> set (gm_get [] m g) \<longrightarrow> 0 \<le> s \<and> s < int (length arr1)"
    "\<forall>g h s. s \<in> set (gm_get [] m g) \<longrightarrow> s \<in> set (gm_get [] m h) \<longrightarrow> g = h"
    using Cons.prems(1) rng[OF in_m] uniq[OF in_m in_m] 1(2) by auto
  from Cons.IH[OF this] 1(2)
  obtain arr' where 2: "storeAllShards m arr1 = Some arr'" "length arr' = length arr"
      "\<forall>g i. int i \<in> set (gm_get [] m g) \<longrightarrow> arr' ! i = g"
      "\<forall>i < length arr. (\<forall>g. int i \<notin> set (gm_get [] m g)) \<longrightarrow> arr' ! i = arr1 ! i"
    by auto
  have "arr' ! i = g" if i: "int i \<in> set (gm_get [] (kv # m) g)" for g i
  proof (cases "g = k")
    case True
    have "int i \<notin> set (gm_get [] m h)" for h
      using uniq[OF i in_m, of h] k True by (cases "h = k") auto
    moreover have "i < length arr" "int i \<in> set v"
      using rng[OF i] i True by (simp_all add: kv)
    ultimately show ?thesis
      using 1 2 True by simp
  next
    case False
    then show ?thesis
      using i 2(3) by (simp add: kv)
  qed
  moreover have "arr' ! i = arr ! i" if i: "i < length arr" "\<forall>g. int i \<notin> set (gm_get [] (kv # m) g)" for i
  proof -
    have "int i \<notin> set (gm_get [] m g)" for g
      using i(2) in_m by blast
    moreover have "int i \<notin> set v"
      using i(2)[rule_format, of k] by (simp add: kv)
    ultimately show ?thesis
      using i(1) 1(3) 2(4) by simp
  qed
  moreover have "storeAllShards (kv # m) arr = Some arr'"
    using 1 2 by (simp add: kv)
  ultimately show ?case
    using 2(2) by blast
qed simp

text \<open>Storing a partition gives the array of owners.\<close>

lemma store_partition:
  assumes "shard_partition m"
  obtains arr where "storeAllShards m (replicate NShards 0) = Some arr" "length arr = NShards"
    "\<And>i g. i < NShards \<Longrightarrow> arr ! i = g \<longleftrightarrow> int i \<in> set (gm_get [] m g)"
proof -
  have ok: "gm_ok m"
    using assms by (simp add: shard_partition_def)
  have "\<forall>g s. s \<in> set (gm_get [] m g) \<longrightarrow> 0 \<le> s \<and> s < int (length (replicate NShards (0 :: int)))"
    using partition_range[OF assms] by simp
  moreover have "\<forall>g h s. s \<in> set (gm_get [] m g) \<longrightarrow> s \<in> set (gm_get [] m h) \<longrightarrow> g = h"
    using partition_unique[OF assms] by blast
  ultimately obtain arr where arr: "storeAllShards m (replicate NShards 0) = Some arr"
      "length arr = NShards" "\<forall>g i. int i \<in> set (gm_get [] m g) \<longrightarrow> arr ! i = g"
    using storeAllShards_spec[OF ok, of "replicate NShards 0"] by auto
  have "arr ! i = g \<longleftrightarrow> int i \<in> set (gm_get [] m g)" if i: "i < NShards" for i g
  proof -
    obtain h where "int i \<in> set (gm_get [] m h)"
      using partition_owner[OF assms, of "int i"] i by auto
    then show ?thesis
      using arr(3) by auto
  qed
  with arr that show ?thesis
    by blast
qed

lemma store_loads:
  assumes "shard_partition m" "length arr = NShards"
    and "\<And>i g. i < NShards \<Longrightarrow> arr ! i = g \<longleftrightarrow> int i \<in> set (gm_get [] m g)"
  shows "count_list arr g = load m g"
proof -
  have "count_list arr g = card {i. i < NShards \<and> arr ! i = g}"
    using assms(2) by (simp add: count_list_eq_length_filter length_filter_conv_card)
      (metis (no_types, lifting))
  also have "{i. i < NShards \<and> arr ! i = g} = nat ` set (gm_get [] m g)"
  proof (intro set_eqI iffI)
    fix i
    assume "i \<in> nat ` set (gm_get [] m g)"
    then obtain s where s: "s \<in> set (gm_get [] m g)" "i = nat s"
      by blast
    then have "i < NShards" "int i = s"
      using partition_range[OF assms(1) s(1)] by auto
    then show "i \<in> {i. i < NShards \<and> arr ! i = g}"
      using s assms(3) by simp
  qed (use assms(3) in \<open>force simp: image_iff\<close>)
  also have "card \<dots> = card (set (gm_get [] m g))"
    using partition_range[OF assms(1)] by (intro card_image inj_onI) (metis eq_nat_nat_iff)
  also have "\<dots> = load m g"
    using distinct_card[OF partition_distinct[OF assms(1)]] .
  finally show ?thesis .
qed
lemma empty_by_gid:
  fixes groups :: "(int, string list) go_map"
  defines "m \<equiv> fold (\<lambda>(gid, _). AList.update gid []) groups []"
  shows "gm_ok m \<and> gm_keys m = gm_keys groups \<and> contents m = {#} \<and> gm_get [] m g = []"
proof -
  have "gm_ok m0 \<Longrightarrow> contents m0 = {#} \<Longrightarrow> (\<forall>g. gm_get [] m0 g = []) \<Longrightarrow>
    gm_ok (fold (\<lambda>(gid, _). AList.update gid []) groups m0) \<and>
    gm_keys (fold (\<lambda>(gid, _). AList.update gid []) groups m0) = gm_keys groups \<union> gm_keys m0 \<and>
    contents (fold (\<lambda>(gid, _). AList.update gid []) groups m0) = {#} \<and>
    (\<forall>g. gm_get [] (fold (\<lambda>(gid, _). AList.update gid []) groups m0) g = [])"
    for m0 :: "(int, int list) go_map"
  proof (induction groups arbitrary: m0)
    case (Cons kv groups)
    have "contents (AList.update (fst kv) [] m0) = {#}"
      using contents_update[of "fst kv" "[]" m0] Cons.prems by simp
    then show ?case
      using Cons.IH[of "AList.update (fst kv) [] m0"] Cons.prems
      by (cases kv) (simp add: distinct_update)
  qed simp
  from this[of "[]"] show ?thesis
    unfolding m_def by (simp add: contents_def)
qed

lemma shardsByGid_snoc:
  "shardsByGid groups (shards @ [g]) =
     (let m = shardsByGid groups shards in AList.update g (gm_get [] m g @ [int (length shards)]) m)"
  by (simp add: shardsByGid_def enumerate_append_eq Let_def)

lemma shardsByGid_spec:
  "gm_ok (shardsByGid groups shards) \<and>
   gm_keys (shardsByGid groups shards) = gm_keys groups \<union> set shards \<and>
   contents (shardsByGid groups shards) = mset (map int [0..<length shards]) \<and>
   (\<forall>g. gm_get [] (shardsByGid groups shards) g =
      map int (filter (\<lambda>i. shards ! i = g) [0..<length shards]))"
proof (induction shards rule: rev_induct)
  case Nil
  then show ?case
    using empty_by_gid[of groups] by (simp add: shardsByGid_def)
next
  case (snoc x shards)
  have f: "filter (\<lambda>i. (shards @ [x]) ! i = g) [0..<length shards] =
      filter (\<lambda>i. shards ! i = g) [0..<length shards]" for g
    by (rule filter_cong) (auto simp: nth_append)
  moreover have "contents (shardsByGid groups (shards @ [x])) =
      add_mset (int (length shards)) (contents (shardsByGid groups shards))"
    by (simp add: shardsByGid_snoc Let_def contents_append)
  ultimately show ?case
    using snoc by (auto simp: shardsByGid_snoc Let_def distinct_update)
qed

lemma shardsByGid_partition:
  "length shards = NShards \<Longrightarrow> shard_partition (shardsByGid groups shards)"
  using shardsByGid_spec[of groups shards] by (simp add: shard_partition_def all_shards_def)

lemma shardsByGid_owner:
  "int i \<in> set (gm_get [] (shardsByGid groups shards) g) \<longleftrightarrow> i < length shards \<and> shards ! i = g"
  using shardsByGid_spec[of groups shards] by auto

section \<open>The group with the most and the one with the fewest shards\<close>

lemma fold_min_spec:
  fixes m :: "(int, int list) go_map"
  defines "f \<equiv> \<lambda>gid (minGid, minShards).
      if gid \<noteq> 0 \<and> int (load m gid) < minShards then (gid, int (load m gid)) else (minGid, minShards)"
  assumes "fold f gids (g0, n0) = (g, n)"
  shows "n \<le> n0 \<and> (\<forall>h \<in> set gids. h \<noteq> 0 \<longrightarrow> n \<le> int (load m h)) \<and>
    ((g, n) = (g0, n0) \<or> g \<in> set gids \<and> g \<noteq> 0 \<and> n = int (load m g))"
  using assms(2)
proof (induction gids arbitrary: g0 n0)
  case (Cons a gids)
  show ?case
  proof (cases "a \<noteq> 0 \<and> int (load m a) < n0")
    case True
    then have "fold f gids (a, int (load m a)) = (g, n)"
      using Cons.prems by (simp add: f_def)
    from Cons.IH[OF this] True show ?thesis
      by auto
  next
    case False
    then have "fold f gids (g0, n0) = (g, n)"
      using Cons.prems by (auto simp: f_def)
    from Cons.IH[OF this] False show ?thesis
      by auto
  qed
qed simp

lemma fold_max_spec:
  fixes m :: "(int, int list) go_map"
  defines "f \<equiv> \<lambda>gid (maxGid, maxShards).
      if int (load m gid) > maxShards then (gid, int (load m gid)) else (maxGid, maxShards)"
  assumes "fold f gids (g0, n0) = (g, n)"
  shows "n0 \<le> n \<and> (\<forall>h \<in> set gids. int (load m h) \<le> n) \<and>
    ((g, n) = (g0, n0) \<or> g \<in> set gids \<and> n = int (load m g))"
  using assms(2)
proof (induction gids arbitrary: g0 n0)
  case (Cons a gids)
  show ?case
  proof (cases "int (load m a) > n0")
    case True
    then have "fold f gids (a, int (load m a)) = (g, n)"
      using Cons.prems by (simp add: f_def)
    from Cons.IH[OF this] True show ?thesis
      by auto
  next
    case False
    then have "fold f gids (g0, n0) = (g, n)"
      using Cons.prems by (auto simp: f_def)
    from Cons.IH[OF this] False show ?thesis
      by auto
  qed
qed simp

lemma gidWithMinShards_spec:
  assumes "h \<in> gm_keys m" "h \<noteq> 0" "load m h \<le> NShards"
  shows "gidWithMinShards m \<in> gm_keys m" "\<And>g. g \<in> gm_keys m \<Longrightarrow> g \<noteq> 0 \<Longrightarrow>
    load m (gidWithMinShards m) \<le> load m g"
proof -
  obtain g n where f: "fold (\<lambda>gid (minGid, minShards).
      if gid \<noteq> 0 \<and> int (load m gid) < minShards then (gid, int (load m gid)) else (minGid, minShards))
      (sort (map fst m)) (-1, int NShards + 1) = (g, n)"
    by fastforce
  then have g: "gidWithMinShards m = g"
    by (simp add: gidWithMinShards_def)
  note spec = fold_min_spec[OF f]
  have "n \<le> int NShards"
    using spec assms by fastforce
  then have "g \<in> gm_keys m" "n = int (load m g)"
    using spec by auto
  then show "gidWithMinShards m \<in> gm_keys m" "\<And>k. k \<in> gm_keys m \<Longrightarrow> k \<noteq> 0 \<Longrightarrow>
      load m (gidWithMinShards m) \<le> load m k"
    using g spec by auto
qed

lemma gidWithMaxShards_zero: "load m 0 > 0 \<Longrightarrow> gidWithMaxShards m = 0"
  by (auto simp: gidWithMaxShards_def gm_get_def split: option.splits)

lemma gidWithMaxShards_spec:
  assumes "load m 0 = 0" "m \<noteq> []"
  shows "gidWithMaxShards m \<in> gm_keys m"
    and "\<And>g. load m g \<le> load m (gidWithMaxShards m)"
proof -
  obtain g n where f: "fold (\<lambda>gid (maxGid, maxShards).
      if int (load m gid) > maxShards then (gid, int (load m gid)) else (maxGid, maxShards))
      (sort (map fst m)) (-1, -1) = (g, n)"
    by fastforce
  then have g: "gidWithMaxShards m = g"
    using assms(1) by (simp add: gidWithMaxShards_def)
  note spec = fold_max_spec[OF f]
  obtain h where h: "h \<in> gm_keys m"
    using assms(2) by (cases m) auto
  then have "0 \<le> n"
    using spec by fastforce
  then have gn: "g \<in> gm_keys m" "n = int (load m g)"
    using spec by auto
  then show "gidWithMaxShards m \<in> gm_keys m"
    using g by simp
  show "load m k \<le> load m (gidWithMaxShards m)" for k
    using g gn spec gm_get_absent[of k m "[]"] by (cases "k \<in> gm_keys m") auto
qed
section \<open>Balancing\<close>

definition move_shard :: "int \<Rightarrow> int \<Rightarrow> (int, int list) go_map \<Rightarrow> (int, int list) go_map" where
  "move_shard a b m =
     AList.update a (drop 1 (gm_get [] m a)) (AList.update b (gm_get [] m b @ [hd (gm_get [] m a)]) m)"

definition even_load :: "(int, int list) go_map \<Rightarrow> bool" where
  "even_load m \<longleftrightarrow> load m 0 = 0 \<and>
     (\<forall>g \<in> gm_keys m - {0}. \<forall>h \<in> gm_keys m - {0}. load m g \<le> load m h + 1)"

text \<open>When the loop moves a shard from \<open>a\<close> to \<open>b\<close>.\<close>

definition moves :: "int \<Rightarrow> int \<Rightarrow> (int, int list) go_map \<Rightarrow> bool" where
  "moves a b m \<longleftrightarrow> a \<in> gm_keys m \<and> b \<in> gm_keys m \<and> a \<noteq> b \<and> b \<noteq> 0 \<and> gm_get [] m a \<noteq> [] \<and>
     (a = 0 \<or> load m 0 = 0 \<and> (\<forall>g. load m g \<le> load m a) \<and> load m b + 2 \<le> load m a)"

lemma move_shard_get:
  "a \<noteq> b \<Longrightarrow> gm_get [] (move_shard a b m) g =
     (if g = a then tl (gm_get [] m a) else if g = b then gm_get [] m b @ [hd (gm_get [] m a)]
      else gm_get [] m g)"
  by (auto simp: move_shard_def drop_Suc)

lemma move_shard_partition:
  assumes "shard_partition m" "a \<noteq> b" "gm_get [] m a \<noteq> []"
  shows "shard_partition (move_shard a b m)"
proof -
  let ?m1 = "AList.update b (gm_get [] m b @ [hd (gm_get [] m a)]) m"
  have "contents (move_shard a b m) + mset (gm_get [] m a) =
      add_mset (hd (gm_get [] m a)) (contents m) + mset (tl (gm_get [] m a))"
    using contents_update[of a "drop 1 (gm_get [] m a)" ?m1] contents_append[of b m] assms(2)
    by (simp add: move_shard_def drop_Suc)
  also have "\<dots> = contents m + mset (hd (gm_get [] m a) # tl (gm_get [] m a))"
    by simp
  also have "\<dots> = contents m + mset (gm_get [] m a)"
    using assms(3) by simp
  finally have "contents (move_shard a b m) = contents m"
    by simp
  then show ?thesis
    using assms(1) by (simp add: shard_partition_def move_shard_def distinct_update)
qed

lemma partition_nonempty: "shard_partition m \<Longrightarrow> m \<noteq> []"
  by (auto simp: shard_partition_def contents_def all_shards_def NShards_def mset_set_empty_iff)

lemma gidWithMaxShards_loaded:
  assumes "shard_partition m"
  shows "gm_get [] m (gidWithMaxShards m) \<noteq> []" "gidWithMaxShards m \<in> gm_keys m"
    and "load m 0 = 0 \<Longrightarrow> gidWithMaxShards m \<noteq> 0"
proof -
  obtain k where k: "0 \<in> set (gm_get [] m k)"
    by (rule partition_owner[OF assms, of 0]) (simp_all add: NShards_def that)
  then have g: "0 < load m k"
    by (rule length_pos_if_in_set)
  show ne: "gm_get [] m (gidWithMaxShards m) \<noteq> []"
  proof (cases "load m 0 = 0")
    case True
    then show ?thesis
      using g gidWithMaxShards_spec(2)[OF True partition_nonempty[OF assms], of k] by auto
  next
    case False
    then show ?thesis
      using gidWithMaxShards_zero[of m] by auto
  qed
  then show "gidWithMaxShards m \<in> gm_keys m"
    using gm_get_absent by fastforce
  show "gidWithMaxShards m \<noteq> 0" if "load m 0 = 0"
    using ne that by auto
qed

text \<open>One turn of the loop: it either ends with even loads or moves one shard.\<close>

lemma rebalance_turn:
  assumes "shard_partition m" "h \<in> gm_keys m" "h \<noteq> 0"
  shows "rebalance m = Some m \<and> even_load m \<or>
    (\<exists>a b. a = gidWithMaxShards m \<and> b = gidWithMinShards m \<and> moves a b m \<and>
       \<not> (a \<noteq> 0 \<and> int (load m a) - int (load m b) \<le> 1) \<and> rebalance m = rebalance (move_shard a b m))"
proof -
  let ?a = "gidWithMaxShards m" and ?b = "gidWithMinShards m"
  note min = gidWithMinShards_spec[OF assms(2,3) partition_load[OF assms(1)]]
  note max = gidWithMaxShards_loaded[OF assms(1)]
  show ?thesis
  proof (cases "?a \<noteq> 0 \<and> int (load m ?a) - int (load m ?b) \<le> 1")
    case True
    then have zero: "load m 0 = 0"
      using gidWithMaxShards_zero[of m] by auto
    have "load m g \<le> load m k + 1" if "g \<in> gm_keys m - {0}" "k \<in> gm_keys m - {0}" for g k
      using True min(2)[of k] gidWithMaxShards_spec(2)[OF zero partition_nonempty[OF assms(1)], of g] that
      by auto
    then show ?thesis
      using True zero by (subst rebalance.simps) (simp add: Let_def even_load_def)
  next
    case False
    have ne: "?a \<noteq> ?b"
      using False gidWithMinShards_nonzero[of m] by auto
    have "moves ?a ?b m"
      using False ne min(1) max gidWithMinShards_nonzero[of m] gidWithMaxShards_zero[of m]
        gidWithMaxShards_spec(2)[OF _ partition_nonempty[OF assms(1)]]
      by (auto simp: moves_def)
    moreover have "rebalance m = rebalance (move_shard ?a ?b m)"
      unfolding rebalance.simps[of m] Let_def if_not_P[OF False] if_not_P[OF max(1)]
      using ne by (simp only: gm_get_update move_shard_def if_False)
    ultimately show ?thesis
      using False by blast
  qed
qed

text \<open>
  The rule for properties of the loop: it always ends, with every shard placed exactly once,
  the same groups, nothing left at group 0, even loads, and any property its moves keep.
\<close>

lemma rebalance_rule:
  assumes "shard_partition m" "h \<in> gm_keys m" "h \<noteq> 0" "I m"
    and "\<And>m a b. I m \<Longrightarrow> shard_partition m \<Longrightarrow> moves a b m \<Longrightarrow> I (move_shard a b m)"
  shows "\<exists>m'. rebalance m = Some m' \<and> shard_partition m' \<and> gm_keys m' = gm_keys m \<and>
    even_load m' \<and> I m'"
  using assms(1-4)
proof (induction m rule: rebalance.induct)
  case (1 m)
  show ?case
  proof (cases "rebalance m = Some m \<and> even_load m")
    case True
    then show ?thesis
      using "1.prems"(1,4) by (intro exI[of _ m]) simp
  next
    case False
    then obtain a b where ab: "a = gidWithMaxShards m" "b = gidWithMinShards m" "moves a b m"
        "\<not> (a \<noteq> 0 \<and> int (load m a) - int (load m b) \<le> 1)" "rebalance m = rebalance (move_shard a b m)"
      using rebalance_turn[OF "1.prems"(1-3)] by blast
    then have ne: "a \<noteq> b" "gm_get [] m a \<noteq> []" and keys: "gm_keys (move_shard a b m) = gm_keys m"
      by (auto simp: moves_def move_shard_def)
    then have m2: "AList.update a (drop 1 (gm_get [] (AList.update b (gm_get [] m b @ [hd (gm_get [] m a)]) m) a))
        (AList.update b (gm_get [] m b @ [hd (gm_get [] m a)]) m) = move_shard a b m"
      by (simp add: move_shard_def)
    have "\<exists>m'. rebalance (move_shard a b m) = Some m' \<and> shard_partition m' \<and>
        gm_keys m' = gm_keys (move_shard a b m) \<and> even_load m' \<and> I m'"
      using move_shard_partition[OF "1.prems"(1) ne] "1.prems"(2,3) keys
        assms(5)[OF "1.prems"(4,1) ab(3)]
      by (intro "1.IH"[OF ab(1,2,4) ne(2) refl, unfolded m2]) simp_all
    then show ?thesis
      using ab(5) keys by simp
  qed
qed
section \<open>Group maps\<close>

lemma update_absent: "k \<notin> gm_keys m \<Longrightarrow> AList.update k v m = m @ [(k, v)]"
  by (induction m) auto

lemma copyGroups_id [simp]:
  assumes "gm_ok groups"
  shows "copyGroups groups = groups"
proof -
  have "gm_ok (acc @ gs) \<Longrightarrow> fold (\<lambda>(gid, servers). AList.update gid servers) gs acc = acc @ gs"
    for acc gs :: "(int, string list) go_map"
  proof (induction gs arbitrary: acc)
    case (Cons kv gs)
    obtain k v where kv: "kv = (k, v)"
      by fastforce
    have "AList.update k v acc = acc @ [(k, v)]"
      using Cons.prems by (intro update_absent) (auto simp: kv)
    then show ?case
      using Cons.IH[of "acc @ [(k, v)]"] Cons.prems by (simp add: kv)
  qed simp
  from this[of "[]" groups] assms show ?thesis
    by (simp add: copyGroups_def)
qed

abbreviation joinGroups ::
    "(int, string list) go_map \<Rightarrow> (int, string list) go_map \<Rightarrow> (int, string list) go_map" where
  "joinGroups groups old \<equiv> fold (\<lambda>(gid, servers) m.
     if map_of m gid = None then AList.update gid servers m else m) groups old"

lemma joinGroups_spec:
  "gm_ok groups \<Longrightarrow> gm_ok old \<Longrightarrow>
   gm_ok (joinGroups groups old) \<and> gm_keys (joinGroups groups old) = gm_keys groups \<union> gm_keys old \<and>
   map_of (joinGroups groups old) = map_of groups ++ map_of old"
proof (induction groups arbitrary: old)
  case (Cons kv groups)
  obtain k v where kv: "kv = (k, v)"
    by fastforce
  show ?case
  proof (cases "map_of old k")
    case None
    then have "joinGroups (kv # groups) old = joinGroups groups (AList.update k v old)"
      by (simp add: kv)
    moreover have "map_of groups k = None"
      using Cons.prems(1) by (simp add: kv map_of_eq_None_iff)
    ultimately show ?thesis
      using Cons.IH[of "AList.update k v old"] Cons.prems None
      by (auto simp: kv distinct_update update_conv' map_add_def fun_eq_iff split: option.splits)
  next
    case (Some w)
    then have "joinGroups (kv # groups) old = joinGroups groups old" "k \<in> gm_keys old"
      by (auto simp: kv dest: map_of_SomeD intro: rev_image_eqI)
    then show ?thesis
      using Cons.IH[of old] Cons.prems Some by (auto simp: kv map_add_def fun_eq_iff)
  qed
qed simp

section \<open>Invariants of the controller\<close>

text \<open>
  A configuration is valid when every shard belongs to one of its groups, or to the invalid
  group 0 as long as it has none; its number is its place in the sequence.
\<close>

definition cfg_inv :: "config \<Rightarrow> bool" where
  "cfg_inv c \<longleftrightarrow> length (cf_Shards c) = NShards \<and> gm_ok (cf_Groups c) \<and> 0 \<notin> gm_keys (cf_Groups c) \<and>
     set (cf_Shards c) \<subseteq> (if cf_Groups c = [] then {0} else gm_keys (cf_Groups c))"

definition csm_inv :: "ctrler_sm \<Rightarrow> bool" where
  "csm_inv csm \<longleftrightarrow> csm_Configs csm \<noteq> [] \<and> (\<forall>c \<in> set (csm_Configs csm). cfg_inv c) \<and>
     map cf_Num (csm_Configs csm) = map int [0..<length (csm_Configs csm)]"

text \<open>No group has two shards more than another.\<close>

definition balanced :: "config \<Rightarrow> bool" where
  "balanced c \<longleftrightarrow> (\<forall>g \<in> gm_keys (cf_Groups c). \<forall>h \<in> gm_keys (cf_Groups c).
     count_list (cf_Shards c) g \<le> count_list (cf_Shards c) h + 1)"

abbreviation csm_add :: "config \<Rightarrow> ctrler_sm \<Rightarrow> ctrler_sm" where
  "csm_add c csm \<equiv> csm\<lparr>csm_Configs := csm_Configs csm @ [c]\<rparr>"

abbreviation csm_last :: "ctrler_sm \<Rightarrow> config" where
  "csm_last csm \<equiv> last (csm_Configs csm)"

lemma csm_invD:
  assumes "csm_inv csm"
  shows "csm_Configs csm \<noteq> []" "cfg_inv (csm_last csm)"
    "slice_get (csm_Configs csm) (int (length (csm_Configs csm)) - 1) = Some (csm_last csm)"
proof -
  show ne: "csm_Configs csm \<noteq> []" and "cfg_inv (csm_last csm)"
    using assms by (auto simp: csm_inv_def)
  have "nat (int (length (csm_Configs csm)) - 1) = length (csm_Configs csm) - 1"
    by simp
  then show "slice_get (csm_Configs csm) (int (length (csm_Configs csm)) - 1) = Some (csm_last csm)"
    using ne by (simp add: last_conv_nth Suc_le_eq)
qed

lemma csm_inv_add:
  "csm_inv csm \<Longrightarrow> cfg_inv c \<Longrightarrow> cf_Num c = int (length (csm_Configs csm)) \<Longrightarrow> csm_inv (csm_add c csm)"
  by (simp add: csm_inv_def)

lemma cfg_invD:
  assumes "cfg_inv c"
  shows "length (cf_Shards c) = NShards" "gm_ok (cf_Groups c)" "0 \<notin> gm_keys (cf_Groups c)"
    "set (cf_Shards c) \<subseteq> insert 0 (gm_keys (cf_Groups c))"
    "cf_Groups c \<noteq> [] \<Longrightarrow> set (cf_Shards c) \<subseteq> gm_keys (cf_Groups c)"
    "cf_Groups c = [] \<Longrightarrow> set (cf_Shards c) \<subseteq> {0}"
  using assms by (auto simp: cfg_inv_def split: if_splits)

lemma csm_inv_New [simp]: "csm_inv NewCtrlerStateMachine"
  by (auto simp: csm_inv_def NewCtrlerStateMachine_def DefaultConfig_def cfg_inv_def)

lemma count_list_shardsByGid:
  "length shards = NShards \<Longrightarrow> count_list shards g = load (shardsByGid groups shards) g"
  by (rule store_loads[OF shardsByGid_partition]) (auto simp: shardsByGid_owner)
section \<open>Join\<close>

text \<open>
  While a balanced configuration is being extended, the old groups \<open>Old\<close> stay within one
  shard of the fullest group, so none of them is ever the one that receives a shard.
\<close>

definition only_new :: "int set \<Rightarrow> (int, int list) go_map \<Rightarrow> (int, int list) go_map \<Rightarrow> bool" where
  "only_new Old m0 m \<longleftrightarrow>
     (\<forall>g \<in> Old. set (gm_get [] m g) \<subseteq> set (gm_get [] m0 g)) \<and>
     (Old = {} \<or> load m 0 = 0 \<and> (\<forall>g \<in> Old. \<forall>h. load m h \<le> load m g + 1))"

lemma only_new_move:
  assumes "only_new Old m0 m" "shard_partition m" "moves a b m"
  shows "only_new Old m0 (move_shard a b m)"
proof (cases "Old = {}")
  case False
  have ab: "a \<noteq> b" "b \<noteq> 0" "gm_get [] m a \<noteq> []" "a \<noteq> 0" "load m b + 2 \<le> load m a"
      "\<And>g. load m g \<le> load m a" and zero: "load m 0 = 0"
    using assms(1,3) False by (auto simp: moves_def only_new_def)
  have b: "b \<notin> Old"
  proof
    assume "b \<in> Old"
    then have "load m a \<le> load m b + 1"
      using assms(1) False unfolding only_new_def by blast
    with ab(5) show False
      by simp
  qed
  have "set (gm_get [] (move_shard a b m) g) \<subseteq> set (gm_get [] m0 g)" if "g \<in> Old" for g
  proof -
    have "set (gm_get [] (move_shard a b m) g) \<subseteq> set (gm_get [] m g)"
      using that b by (auto simp: move_shard_get[OF ab(1)] dest: list.set_sel(2)[OF ab(3)])
    then show ?thesis
      using assms(1) that by (auto simp: only_new_def)
  qed
  moreover have "load (move_shard a b m) h \<le> load (move_shard a b m) g + 1" if "g \<in> Old" for g h
  proof -
    have "load m h \<le> load m g + 1"
      using assms(1) False that unfolding only_new_def by blast
    moreover have "load m h \<le> load m a" "load m a \<le> load m g + 1"
      using ab(6) assms(1) False that unfolding only_new_def by blast+
    ultimately show ?thesis
      using ab(1,3,5) that b by (auto simp: move_shard_get[OF ab(1)])
  qed
  ultimately show ?thesis
    using zero ab(2,4) by (auto simp: only_new_def move_shard_get[OF ab(1)])
qed (simp add: only_new_def)

lemma only_new_start:
  assumes c: "cfg_inv c" and bal: "balanced c"
  shows "only_new (gm_keys (cf_Groups c)) (shardsByGid groups (cf_Shards c))
    (shardsByGid groups (cf_Shards c))"
proof (cases "cf_Groups c = []")
  case False
  let ?Old = "gm_keys (cf_Groups c)" and ?m = "shardsByGid groups (cf_Shards c)"
  have load: "load ?m g = count_list (cf_Shards c) g" for g
    using count_list_shardsByGid[OF cfg_invD(1)[OF c]] by simp
  have out: "load ?m g = 0" if "g \<notin> ?Old" for g
    using cfg_invD(5)[OF c False] that by (auto simp: load count_list_0_iff)
  have "load ?m h \<le> load ?m g + 1" if "g \<in> ?Old" for g h
    using bal that out[of h] by (cases "h \<in> ?Old") (auto simp: balanced_def load)
  then show ?thesis
    using out[OF cfg_invD(3)[OF c]] by (auto simp: only_new_def)
qed (simp add: only_new_def)

text \<open>The shard array that \<open>Join\<close> stores, for a valid configuration and at least one group.\<close>

lemma rebalance_config:
  assumes c: "cfg_inv c" and g: "gm_ok groups" "0 \<notin> gm_keys groups" "groups \<noteq> []"
    and sub: "gm_keys (cf_Groups c) \<subseteq> gm_keys groups"
  shows "\<exists>m shards. rebalance (shardsByGid groups (cf_Shards c)) = Some m \<and>
    storeAllShards m (replicate NShards 0) = Some shards \<and> length shards = NShards \<and>
    set shards \<subseteq> gm_keys groups \<and>
    (\<forall>g \<in> gm_keys groups. \<forall>h \<in> gm_keys groups. count_list shards g \<le> count_list shards h + 1) \<and>
    (balanced c \<longrightarrow> (\<forall>i < NShards. shards ! i = cf_Shards c ! i \<or> shards ! i \<notin> gm_keys (cf_Groups c)))"
proof -
  let ?m0 = "shardsByGid groups (cf_Shards c)" and ?Old = "gm_keys (cf_Groups c)"
  let ?I = "\<lambda>m. balanced c \<longrightarrow> only_new ?Old ?m0 m"
  have keys: "gm_keys ?m0 \<subseteq> insert 0 (gm_keys groups)" "gm_keys groups \<subseteq> gm_keys ?m0"
    using shardsByGid_spec[of groups "cf_Shards c"] cfg_invD(4)[OF c] sub by auto
  obtain h where h: "h \<in> gm_keys ?m0" "h \<noteq> 0"
    using g(2,3) keys(2) by (cases groups) auto
  obtain m where m: "rebalance ?m0 = Some m" "shard_partition m" "gm_keys m = gm_keys ?m0"
      "even_load m" "?I m"
    using rebalance_rule[where I = ?I, OF shardsByGid_partition[OF cfg_invD(1)[OF c]] h]
      only_new_start[OF c] only_new_move by blast
  obtain shards where s: "storeAllShards m (replicate NShards 0) = Some shards" "length shards = NShards"
      "\<And>i g. i < NShards \<Longrightarrow> shards ! i = g \<longleftrightarrow> int i \<in> set (gm_get [] m g)"
    using store_partition[OF m(2)] by blast
  have owner: "shards ! i \<in> gm_keys groups" if "i < NShards" for i
  proof -
    have own: "int i \<in> set (gm_get [] m (shards ! i))"
      using s(3)[OF that] by blast
    have "shards ! i \<in> gm_keys m"
      using own gm_get_absent[of "shards ! i" m "[]"] by fastforce
    moreover have "shards ! i \<noteq> 0"
      using own m(4) unfolding even_load_def by (metis length_0_conv list.set(1) empty_iff)
    ultimately show ?thesis
      using m(3) keys(1) by auto
  qed
  have loads: "count_list shards g = load m g" for g
    by (rule store_loads[OF m(2) s(2)]) (rule s(3))
  have even: "count_list shards g \<le> count_list shards k + 1"
    if "g \<in> gm_keys groups" "k \<in> gm_keys groups" for g k
  proof -
    have "g \<in> gm_keys m - {0}" "k \<in> gm_keys m - {0}"
      using that m(3) keys(2) assms(3) by auto
    then show ?thesis
      unfolding loads using m(4) by (simp only: even_load_def)
  qed
  have new: "shards ! i = cf_Shards c ! i \<or> shards ! i \<notin> ?Old" if "balanced c" "i < NShards" for i
  proof (cases "shards ! i \<in> ?Old")
    case True
    have "int i \<in> set (gm_get [] m (shards ! i))"
      using s(3)[OF that(2)] by blast
    then have "int i \<in> set (gm_get [] ?m0 (shards ! i))"
      using m(5) that(1) True unfolding only_new_def by blast
    then show ?thesis
      by (simp add: shardsByGid_owner)
  qed simp
  have "set shards \<subseteq> gm_keys groups"
    using owner s(2) by (auto simp: in_set_conv_nth)
  then show ?thesis
    using m(1) s(1,2) even new by blast
qed
lemma Join_result:
  assumes "csm_inv csm" "gm_ok groups" "0 \<notin> gm_keys groups"
    and "groups \<noteq> [] \<or> cf_Groups (csm_last csm) \<noteq> []"
  shows "\<exists>shards. let new = joinGroups groups (cf_Groups (csm_last csm));
      c = \<lparr>cf_Num = int (length (csm_Configs csm)), cf_Shards = shards, cf_Groups = new\<rparr>
    in csm_Join groups csm = Some (OK, csm_add c csm) \<and> csm_inv (csm_add c csm) \<and> balanced c \<and>
      (balanced (csm_last csm) \<longrightarrow> (\<forall>i < NShards. shards ! i = cf_Shards (csm_last csm) ! i \<or>
         shards ! i \<notin> gm_keys (cf_Groups (csm_last csm))))"
proof -
  let ?old = "csm_last csm"
  let ?new = "joinGroups groups (cf_Groups ?old)"
  note last = csm_invD[OF assms(1)]
  note old = cfg_invD[OF last(2)]
  note join = joinGroups_spec[OF assms(2) old(2)]
  have ne: "?new \<noteq> []"
  proof
    assume "?new = []"
    then have "gm_keys groups \<union> gm_keys (cf_Groups ?old) = {}"
      using join by simp
    then show False
      using assms(4) by auto
  qed
  have new: "gm_ok ?new" "0 \<notin> gm_keys ?new" "gm_keys (cf_Groups ?old) \<subseteq> gm_keys ?new"
    using join assms(3) old(3) by auto
  obtain m shards where r: "rebalance (shardsByGid ?new (cf_Shards ?old)) = Some m"
      "storeAllShards m (replicate NShards 0) = Some shards" "length shards = NShards"
      "set shards \<subseteq> gm_keys ?new"
      "\<forall>g \<in> gm_keys ?new. \<forall>h \<in> gm_keys ?new. count_list shards g \<le> count_list shards h + 1"
      "balanced ?old \<longrightarrow> (\<forall>i < NShards. shards ! i = cf_Shards ?old ! i \<or>
         shards ! i \<notin> gm_keys (cf_Groups ?old))"
    using rebalance_config[OF last(2) new(1,2) ne new(3)] by blast
  let ?c = "\<lparr>cf_Num = int (length (csm_Configs csm)), cf_Shards = shards, cf_Groups = ?new\<rparr>"
  have "csm_Join groups csm = Some (OK, csm_add ?c csm)"
    using last(3) r(1,2) old(2) by (simp add: csm_Join_def Let_def)
  moreover have "csm_inv (csm_add ?c csm)"
    using join r(3,4) ne new(2) by (intro csm_inv_add[OF assms(1)]) (auto simp: cfg_inv_def)
  moreover have "balanced ?c"
    using r(5) by (simp add: balanced_def)
  ultimately show ?thesis
    unfolding Let_def using r(6) by (intro exI[of _ shards]) simp
qed

text \<open>
  (C17) \<open>Join\<close>. On a valid controller state, and unless there is no group at all, it never
  panics and its balancing loop ends: it appends one valid configuration whose groups are
  the old ones and the new ones (an old group keeps its servers) and in which no group has
  two shards more than another. If the last configuration was balanced, a shard either stays
  where it was or goes to a group that is new.
\<close>

theorem Join_spec:
  assumes "csm_inv csm" "gm_ok groups" "0 \<notin> gm_keys groups"
    and "groups \<noteq> [] \<or> cf_Groups (csm_last csm) \<noteq> []"
  shows "\<exists>c. csm_Join groups csm = Some (OK, csm_add c csm) \<and> csm_inv (csm_add c csm) \<and>
    map_of (cf_Groups c) = map_of groups ++ map_of (cf_Groups (csm_last csm)) \<and> balanced c \<and>
    (balanced (csm_last csm) \<longrightarrow> (\<forall>i < NShards. cf_Shards c ! i = cf_Shards (csm_last csm) ! i \<or>
       cf_Shards c ! i \<notin> gm_keys (cf_Groups (csm_last csm))))"
proof -
  note join = joinGroups_spec[OF assms(2) cfg_invD(2)[OF csm_invD(2)[OF assms(1)]]]
  obtain shards where s: "let c = \<lparr>cf_Num = int (length (csm_Configs csm)), cf_Shards = shards,
        cf_Groups = joinGroups groups (cf_Groups (csm_last csm))\<rparr>
      in csm_Join groups csm = Some (OK, csm_add c csm) \<and> csm_inv (csm_add c csm) \<and> balanced c \<and>
        (balanced (csm_last csm) \<longrightarrow> (\<forall>i < NShards. shards ! i = cf_Shards (csm_last csm) ! i \<or>
           shards ! i \<notin> gm_keys (cf_Groups (csm_last csm))))"
    using Join_result[OF assms] unfolding Let_def by blast
  show ?thesis
    using s join unfolding Let_def
    by (intro exI[of _ "\<lparr>cf_Num = int (length (csm_Configs csm)), cf_Shards = shards,
        cf_Groups = joinGroups groups (cf_Groups (csm_last csm))\<rparr>"]) simp
qed

theorem Join_spec_witness:
  "\<exists>c. csm_Join [(1, [''a'']), (2, [''b''])] NewCtrlerStateMachine =
       Some (OK, csm_add c NewCtrlerStateMachine) \<and>
     csm_inv (csm_add c NewCtrlerStateMachine) \<and> balanced c"
  using Join_spec[OF csm_inv_New, of "[(1, [''a'']), (2, [''b''])]"] by fastforce

section \<open>Leave\<close>

lemma removeGids_spec:
  assumes "removeGids gids (gs, m, u) = (gs', m', u')" "gm_ok gs" "gm_ok m"
  shows "gm_ok gs' \<and> gm_ok m' \<and> map_of gs' = map_of gs |` (- set gids) \<and>
    gm_keys gs' = gm_keys gs - set gids \<and> gm_keys m' = gm_keys m - set gids \<and>
    contents m' + mset u' = contents m + mset u \<and>
    (\<forall>g. gm_get [] m' g = (if g \<in> set gids then [] else gm_get [] m g))"
  using assms
proof (induction gids arbitrary: gs m u)
  case Nil
  then show ?case
    by simp
next
  case (Cons g gids)
  let ?gs = "AList.delete g gs"
  have gs: "(if map_of gs g \<noteq> None then AList.delete g gs else gs) = ?gs"
    by (auto simp: map_of_eq_None_iff delete_idem image_iff)
  have del: "contents (AList.delete g m) + mset (gm_get [] m g) = contents m"
    if "gm_ok m" for m :: "(int, int list) go_map"
    using that by (induction m) (auto simp: contents_def gm_get_absent delete_idem ac_simps)
  show ?case
  proof (cases "map_of m g")
    case None
    then have rec: "removeGids gids (?gs, m, u) = (gs', m', u')"
      using Cons.prems(1) gs by (simp add: Let_def)
    have "g \<notin> gm_keys m" "gm_get [] m g = []"
      using None by (simp add: map_of_eq_None_iff, simp add: gm_get_def)
    then show ?thesis
      using Cons.IH[OF rec] Cons.prems by (auto simp: distinct_delete delete_conv' restrict_map_def)
  next
    case (Some shards)
    then have rec: "removeGids gids (?gs, AList.delete g m, u @ shards) = (gs', m', u')"
      using Cons.prems(1) gs by (simp add: Let_def)
    have "gm_get [] m g = shards"
      using Some by (simp add: gm_get_def)
    then have "contents (AList.delete g m) + mset (u @ shards) = contents m + mset u"
      using del[OF Cons.prems(3)] by (simp add: ac_simps)
    then show ?thesis
      using Cons.IH[OF rec] Cons.prems by (auto simp: distinct_delete delete_conv' restrict_map_def)
  qed
qed

lemma assignShards_spec:
  assumes "h \<in> gm_keys m" "h \<noteq> 0" "size (contents m) + length shards \<le> NShards" "gm_ok m"
  shows "gm_ok (assignShards shards m) \<and> gm_keys (assignShards shards m) = gm_keys m \<and>
    contents (assignShards shards m) = contents m + mset shards \<and>
    gm_get [] (assignShards shards m) 0 = gm_get [] m 0 \<and>
    (\<forall>g. set (gm_get [] m g) \<subseteq> set (gm_get [] (assignShards shards m) g)) \<and>
    ((\<forall>g \<in> gm_keys m - {0}. \<forall>k \<in> gm_keys m - {0}. load m g \<le> load m k + 1) \<longrightarrow>
     (\<forall>g \<in> gm_keys m - {0}. \<forall>k \<in> gm_keys m - {0}.
        load (assignShards shards m) g \<le> load (assignShards shards m) k + 1))"
  using assms
proof (induction shards arbitrary: m)
  case (Cons s shards)
  let ?b = "gidWithMinShards m"
  let ?m = "AList.update ?b (gm_get [] m ?b @ [s]) m"
  have "load m h \<le> NShards"
    using size_mset_mono[OF contents_get[of m h]] Cons.prems(3) by simp
  note min = gidWithMinShards_spec[OF Cons.prems(1,2) this]
  have keys: "gm_keys ?m = gm_keys m"
    using min(1) by auto
  have cont: "contents ?m = add_mset s (contents m)"
    by (rule contents_append)
  have zero: "gm_get [] ?m 0 = gm_get [] m 0"
    using gidWithMinShards_nonzero[of m] by simp
  have even: "\<forall>g \<in> gm_keys m - {0}. \<forall>k \<in> gm_keys m - {0}. load ?m g \<le> load ?m k + 1"
    if "\<forall>g \<in> gm_keys m - {0}. \<forall>k \<in> gm_keys m - {0}. load m g \<le> load m k + 1"
    using that min(2) by (auto simp: le_SucI)
  have IH: "gm_ok (assignShards shards ?m) \<and> gm_keys (assignShards shards ?m) = gm_keys ?m \<and>
    contents (assignShards shards ?m) = contents ?m + mset shards \<and>
    gm_get [] (assignShards shards ?m) 0 = gm_get [] ?m 0 \<and>
    (\<forall>g. set (gm_get [] ?m g) \<subseteq> set (gm_get [] (assignShards shards ?m) g)) \<and>
    ((\<forall>g \<in> gm_keys ?m - {0}. \<forall>k \<in> gm_keys ?m - {0}. load ?m g \<le> load ?m k + 1) \<longrightarrow>
     (\<forall>g \<in> gm_keys ?m - {0}. \<forall>k \<in> gm_keys ?m - {0}.
        load (assignShards shards ?m) g \<le> load (assignShards shards ?m) k + 1))"
    using Cons.prems keys cont by (intro Cons.IH) (auto simp: distinct_update)
  have sub: "set (gm_get [] m g) \<subseteq> set (gm_get [] (assignShards shards ?m) g)" for g
  proof -
    have "set (gm_get [] m g) \<subseteq> set (gm_get [] ?m g)"
      by auto
    then show ?thesis
      using IH by (meson order_trans)
  qed
  have "assignShards (s # shards) m = assignShards shards ?m"
    by (simp add: Let_def)
  then show ?case
    using IH sub even unfolding keys zero cont by simp
qed simp

text \<open>
  The shard array that \<open>Leave\<close> stores when groups remain: the map of a valid configuration
  without the departing groups, with their shards handed out again.
\<close>

lemma leave_assign:
  assumes c: "cfg_inv c" and ne: "cf_Groups c \<noteq> []"
    and rem: "removeGids gids (cf_Groups c, shardsByGid (cf_Groups c) (cf_Shards c), []) = (gs, m, u)"
    and gs: "gs \<noteq> []"
  shows "gm_keys m = gm_keys gs" "0 \<notin> gm_keys gs"
    "\<exists>h \<in> gm_keys m. h \<noteq> 0" "size (contents m) + length u \<le> NShards" "gm_ok m"
    "contents m + mset u = all_shards"
proof -
  note old = cfg_invD[OF c]
  note by_gid = shardsByGid_spec[of "cf_Groups c" "cf_Shards c"]
  note r = removeGids_spec[OF rem old(2) conjunct1[OF by_gid]]
  show keys: "gm_keys m = gm_keys gs"
    using r by_gid old(5)[OF ne] by auto
  show nz: "0 \<notin> gm_keys gs"
    using r old(3) by auto
  show "\<exists>h \<in> gm_keys m. h \<noteq> 0"
    using gs keys nz by (cases gs) auto
  show sz: "contents m + mset u = all_shards"
    using r shardsByGid_partition[OF old(1), of "cf_Groups c"] by (simp add: shard_partition_def)
  then have "size (contents m + mset u) = NShards"
    by (simp add: all_shards_def)
  then show "size (contents m) + length u \<le> NShards"
    by simp
  show "gm_ok m"
    using r by simp
qed

lemma leave_partition:
  assumes "cfg_inv c" "cf_Groups c \<noteq> []"
    and "removeGids gids (cf_Groups c, shardsByGid (cf_Groups c) (cf_Shards c), []) = (gs, m, u)"
    and "gs \<noteq> []"
  shows "shard_partition (assignShards u m)"
proof -
  note l = leave_assign[OF assms]
  obtain h where h: "h \<in> gm_keys m" "h \<noteq> 0"
    using l(3) by blast
  show ?thesis
    using assignShards_spec[OF h l(4,5)] l(6) by (simp add: shard_partition_def)
qed

lemma leave_config:
  assumes c: "cfg_inv c" and ne: "cf_Groups c \<noteq> []"
    and rem: "removeGids gids (cf_Groups c, shardsByGid (cf_Groups c) (cf_Shards c), []) = (gs, m, u)"
    and gs: "gs \<noteq> []"
  shows "\<exists>shards. storeAllShards (assignShards u m) (replicate NShards 0) = Some shards \<and>
    length shards = NShards \<and> set shards \<subseteq> gm_keys gs \<and>
    (\<forall>i < NShards. cf_Shards c ! i \<notin> set gids \<longrightarrow> shards ! i = cf_Shards c ! i) \<and>
    (balanced c \<longrightarrow> (\<forall>g \<in> gm_keys gs. \<forall>h \<in> gm_keys gs. count_list shards g \<le> count_list shards h + 1))"
proof -
  let ?orig = "shardsByGid (cf_Groups c) (cf_Shards c)" and ?m = "assignShards u m"
  note old = cfg_invD[OF c]
  note by_gid = shardsByGid_spec[of "cf_Groups c" "cf_Shards c"]
  note r = removeGids_spec[OF rem old(2) conjunct1[OF by_gid]]
  note l = leave_assign[OF c ne rem gs]
  note keys = l(1) and nz = l(2)
  obtain h where h: "h \<in> gm_keys m" "h \<noteq> 0"
    using l(3) by blast
  note a = assignShards_spec[OF h l(4,5)]
  note pm = leave_partition[OF c ne rem gs]
  obtain shards where s: "storeAllShards ?m (replicate NShards 0) = Some shards" "length shards = NShards"
      "\<And>i g. i < NShards \<Longrightarrow> shards ! i = g \<longleftrightarrow> int i \<in> set (gm_get [] ?m g)"
    using store_partition[OF pm] by blast
  have loads: "count_list shards g = load ?m g" for g
    by (rule store_loads[OF pm s(2)]) (rule s(3))
  have owner: "shards ! i \<in> gm_keys gs" if "i < NShards" for i
  proof -
    have "gm_get [] ?m (shards ! i) \<noteq> []"
      using s(3)[OF that, of "shards ! i"] by auto
    then have "shards ! i \<in> gm_keys ?m"
      using gm_get_absent by fastforce
    then show ?thesis
      using a keys by simp
  qed
  have keep: "shards ! i = cf_Shards c ! i" if i: "i < NShards" "cf_Shards c ! i \<notin> set gids" for i
  proof -
    have "int i \<in> set (gm_get [] ?orig (cf_Shards c ! i))"
      using i old(1) by (simp add: shardsByGid_owner)
    then have "int i \<in> set (gm_get [] m (cf_Shards c ! i))"
      using r i(2) by simp
    then have "int i \<in> set (gm_get [] ?m (cf_Shards c ! i))"
      using a by blast
    then show ?thesis
      using s(3)[OF i(1)] by simp
  qed
  have even: "\<forall>g \<in> gm_keys gs. \<forall>k \<in> gm_keys gs. count_list shards g \<le> count_list shards k + 1"
    if "balanced c"
  proof -
    have lm: "load m g = count_list (cf_Shards c) g" if "g \<in> gm_keys gs" for g
      using r that count_list_shardsByGid[OF old(1), of g "cf_Groups c"] by auto
    have sub: "gm_keys gs \<subseteq> gm_keys (cf_Groups c)"
      using r by auto
    have "load m g \<le> load m k + 1" if gk: "g \<in> gm_keys gs" "k \<in> gm_keys gs" for g k
    proof -
      have "g \<in> gm_keys (cf_Groups c)" "k \<in> gm_keys (cf_Groups c)"
        using gk sub by blast+
      then show ?thesis
        using \<open>balanced c\<close> unfolding balanced_def lm[OF gk(1)] lm[OF gk(2)] by blast
    qed
    moreover have "gm_keys m - {0} = gm_keys gs"
      using keys nz by auto
    ultimately show ?thesis
      using a unfolding loads by simp
  qed
  have "set shards \<subseteq> gm_keys gs"
    using owner s(2) by (auto simp: in_set_conv_nth)
  then show ?thesis
    using s(1,2) keep even by blast
qed
lemma Leave_result:
  assumes "csm_inv csm"
  shows "\<exists>gs shards. let c = \<lparr>cf_Num = int (length (csm_Configs csm)), cf_Shards = shards, cf_Groups = gs\<rparr>
    in csm_Leave gids csm = Some (OK, csm_add c csm) \<and> csm_inv (csm_add c csm) \<and>
      map_of gs = map_of (cf_Groups (csm_last csm)) |` (- set gids) \<and>
      (if gs = [] then shards = replicate NShards 0
       else (\<forall>i < NShards. cf_Shards (csm_last csm) ! i \<notin> set gids \<longrightarrow>
               shards ! i = cf_Shards (csm_last csm) ! i) \<and>
            (balanced (csm_last csm) \<longrightarrow> balanced c))"
proof -
  let ?old = "csm_last csm"
  note last = csm_invD[OF assms]
  note old = cfg_invD[OF last(2)]
  obtain gs m u where rem:
      "removeGids gids (cf_Groups ?old, shardsByGid (cf_Groups ?old) (cf_Shards ?old), []) = (gs, m, u)"
    by (metis surj_pair)
  note r = removeGids_spec[OF rem old(2) conjunct1[OF shardsByGid_spec]]
  let ?c = "\<lambda>shards. \<lparr>cf_Num = int (length (csm_Configs csm)), cf_Shards = shards, cf_Groups = gs\<rparr>"
  show ?thesis
  proof (cases "gs = []")
    case True
    then have "csm_Leave gids csm = Some (OK, csm_add (?c (replicate NShards 0)) csm)"
      using last(3) old(2) rem by (simp add: csm_Leave_def Let_def)
    moreover have "csm_inv (csm_add (?c (replicate NShards 0)) csm)"
      using True by (intro csm_inv_add[OF assms]) (auto simp: cfg_inv_def)
    ultimately show ?thesis
      unfolding Let_def using r True by (intro exI[of _ gs] exI[of _ "replicate NShards 0"]) simp
  next
    case False
    then have ne: "cf_Groups ?old \<noteq> []"
      using r by auto
    obtain shards where s: "storeAllShards (assignShards u m) (replicate NShards 0) = Some shards"
        "length shards = NShards" "set shards \<subseteq> gm_keys gs"
        "\<forall>i < NShards. cf_Shards ?old ! i \<notin> set gids \<longrightarrow> shards ! i = cf_Shards ?old ! i"
        "balanced ?old \<longrightarrow> (\<forall>g \<in> gm_keys gs. \<forall>h \<in> gm_keys gs. count_list shards g \<le> count_list shards h + 1)"
      using leave_config[OF last(2) ne rem False] by blast
    have "csm_Leave gids csm = Some (OK, csm_add (?c shards) csm)"
      using last(3) old(2) rem s(1) False by (simp add: csm_Leave_def Let_def)
    moreover have "csm_inv (csm_add (?c shards) csm)"
      using r s(2,3) old(3) False by (intro csm_inv_add[OF assms]) (auto simp: cfg_inv_def)
    ultimately show ?thesis
      unfolding Let_def using r s(4,5) False
      by (intro exI[of _ gs] exI[of _ shards]) (simp add: balanced_def)
  qed
qed

text \<open>
  (C18) \<open>Leave\<close>. On a valid controller state it never panics and appends one valid
  configuration without the departing groups. Only shards of departing groups move; when
  groups remain, every shard belongs to one of them, and a balanced configuration stays
  balanced. When no group remains, all shards go back to the invalid group 0.
\<close>

theorem Leave_spec:
  assumes "csm_inv csm"
  shows "\<exists>c. csm_Leave gids csm = Some (OK, csm_add c csm) \<and> csm_inv (csm_add c csm) \<and>
    map_of (cf_Groups c) = map_of (cf_Groups (csm_last csm)) |` (- set gids) \<and>
    (if cf_Groups c = [] then cf_Shards c = replicate NShards 0
     else (\<forall>i < NShards. cf_Shards (csm_last csm) ! i \<notin> set gids \<longrightarrow>
             cf_Shards c ! i = cf_Shards (csm_last csm) ! i) \<and>
          (balanced (csm_last csm) \<longrightarrow> balanced c))"
proof -
  obtain gs shards where s: "let c = \<lparr>cf_Num = int (length (csm_Configs csm)), cf_Shards = shards, cf_Groups = gs\<rparr>
    in csm_Leave gids csm = Some (OK, csm_add c csm) \<and> csm_inv (csm_add c csm) \<and>
      map_of gs = map_of (cf_Groups (csm_last csm)) |` (- set gids) \<and>
      (if gs = [] then shards = replicate NShards 0
       else (\<forall>i < NShards. cf_Shards (csm_last csm) ! i \<notin> set gids \<longrightarrow>
               shards ! i = cf_Shards (csm_last csm) ! i) \<and>
            (balanced (csm_last csm) \<longrightarrow> balanced c))"
    using Leave_result[OF assms] by blast
  then show ?thesis
    unfolding Let_def
    by (intro exI[of _ "\<lparr>cf_Num = int (length (csm_Configs csm)), cf_Shards = shards, cf_Groups = gs\<rparr>"]) simp
qed

theorem Leave_spec_witness:
  "\<exists>c. csm_Leave [1] NewCtrlerStateMachine = Some (OK, csm_add c NewCtrlerStateMachine) \<and>
     csm_inv (csm_add c NewCtrlerStateMachine)"
  using Leave_spec[OF csm_inv_New, of "[1]"] by blast

section \<open>Move and Query\<close>

text \<open>
  (C32) \<open>Move\<close> to an existing group appends a valid configuration that differs from the last
  one in the owner of that one shard; a shard number outside the array is a panic, whatever
  the group.
\<close>

theorem Move_spec:
  assumes "csm_inv csm"
  shows "(if 0 \<le> s \<and> s < int NShards
    then \<exists>c. csm_Move s g csm = Some (OK, csm_add c csm) \<and>
      cf_Shards c = (cf_Shards (csm_last csm))[nat s := g] \<and> cf_Groups c = cf_Groups (csm_last csm) \<and>
      (g \<in> gm_keys (cf_Groups (csm_last csm)) \<longrightarrow> csm_inv (csm_add c csm))
    else csm_Move s g csm = None)"
proof -
  let ?old = "csm_last csm"
  let ?c = "\<lparr>cf_Num = int (length (csm_Configs csm)), cf_Shards = (cf_Shards ?old)[nat s := g],
      cf_Groups = cf_Groups ?old\<rparr>"
  note last = csm_invD[OF assms]
  note old = cfg_invD[OF last(2)]
  have "csm_inv (csm_add ?c csm)" if "g \<in> gm_keys (cf_Groups ?old)"
  proof (rule csm_inv_add[OF assms])
    have "cf_Groups ?old \<noteq> []"
      using that by auto
    then show "cfg_inv ?c"
      using old that set_update_subset_insert[of "cf_Shards ?old" "nat s" g] by (auto simp: cfg_inv_def)
  qed simp
  moreover have "csm_Move s g csm =
      (if 0 \<le> s \<and> s < int NShards then Some (OK, csm_add ?c csm) else None)"
    using last(3) old(1,2) by (simp add: csm_Move_def Let_def slice_set_def)
  ultimately show ?thesis
    by (cases "0 \<le> s \<and> s < int NShards") (auto intro!: exI[of _ ?c])
qed

theorem Move_spec_witness: "csm_Move 10 1 NewCtrlerStateMachine = None"
  using Move_spec[OF csm_inv_New, of 10 1] by (simp add: NShards_def)

text \<open>
  \<open>Query\<close> never fails: a number of a known configuration gives exactly the configuration
  with that number, any other number, \<open>-1\<close> in particular, gives the latest.
\<close>

lemma Query_spec:
  assumes "csm_inv csm"
  shows "\<exists>c. csm_Query num csm = Some (c, OK) \<and> c \<in> set (csm_Configs csm) \<and> cfg_inv c \<and>
    cf_Num c = (if 0 \<le> num \<and> num < int (length (csm_Configs csm)) then num
                else int (length (csm_Configs csm)) - 1)"
proof -
  have num: "cf_Num (csm_Configs csm ! i) = int i" if "i < length (csm_Configs csm)" for i
    using assms that unfolding csm_inv_def by (metis length_map length_upt minus_nat.diff_0 nth_map nth_upt plus_nat.add_0)
  note last = csm_invD[OF assms]
  show ?thesis
  proof (cases "0 \<le> num \<and> num < int (length (csm_Configs csm))")
    case True
    then have "nat num < length (csm_Configs csm)"
      by auto
    then show ?thesis
      using True num[of "nat num"] assms by (auto simp: csm_Query_def csm_inv_def)
  next
    case False
    then have "csm_Query num csm = Some (csm_last csm, OK)"
      using last(3) by (auto simp: csm_Query_def)
    moreover have "cf_Num (csm_last csm) = int (length (csm_Configs csm)) - 1"
      using num[of "length (csm_Configs csm) - 1"] last(1) by (simp add: last_conv_nth of_nat_diff Suc_leI)
    ultimately show ?thesis
      using False last(1,2) by auto
  qed
qed

text \<open>
  \<open>Join\<close> of an empty map while there are no groups gives all shards to group \<open>-1\<close>, which
  does not exist: with no group to receive shards \<open>gidWithMinShards\<close> returns its initial
  value, and the loop moves the shards of group 0 there.
\<close>

lemma empty_Join_assigns_to_missing_group:
  "\<exists>c. csm_Join [] NewCtrlerStateMachine = Some (OK, csm_add c NewCtrlerStateMachine) \<and>
     cf_Shards c = replicate NShards (-1) \<and> cf_Groups c = []"
proof -
  have "csm_Join [] NewCtrlerStateMachine = Some (OK, csm_add
      \<lparr>cf_Num = 1, cf_Shards = replicate NShards (-1), cf_Groups = []\<rparr> NewCtrlerStateMachine)"
    by code_simp
  then show ?thesis
    by (intro exI[of _ "\<lparr>cf_Num = 1, cf_Shards = replicate NShards (-1), cf_Groups = []\<rparr>"]) simp
qed

section \<open>Independence of the map order\<close>

text \<open>
  Replicas apply the same operations to maps that a \<open>range\<close> loop may visit in different
  orders. The two controllers below are the same up to that order.
\<close>

definition same_config :: "config \<Rightarrow> config \<Rightarrow> bool" where
  "same_config c c' \<longleftrightarrow> cf_Num c = cf_Num c' \<and> cf_Shards c = cf_Shards c' \<and>
     same_map (cf_Groups c) (cf_Groups c')"

definition same_csm :: "ctrler_sm \<Rightarrow> ctrler_sm \<Rightarrow> bool" where
  "same_csm csm csm' \<longleftrightarrow> list_all2 same_config (csm_Configs csm) (csm_Configs csm')"

lemma same_mapI:
  assumes "gm_ok m" "gm_ok m'" "gm_keys m = gm_keys m'" "\<And>k. gm_get z m k = gm_get z m' k"
  shows "same_map m m'"
proof -
  have "map_of m k = map_of m' k" for k
  proof (cases "k \<in> gm_keys m")
    case True
    then have "map_of m k = Some (gm_get z m k)" "map_of m' k = Some (gm_get z m' k)"
      using assms gm_get_in[of k m z] gm_get_in[of k m' z] by (auto intro: map_of_is_SomeI)
    then show ?thesis
      using assms(4) by simp
  next
    case False
    then have "map_of m k = None" "map_of m' k = None"
      unfolding map_of_eq_None_iff using assms(3) by simp_all
    then show ?thesis
      by simp
  qed
  then show ?thesis
    using assms(1,2) by (auto simp: same_map_def)
qed

lemma same_gids:
  assumes "same_map m m'"
  shows "gidWithMaxShards m = gidWithMaxShards m'" "gidWithMinShards m = gidWithMinShards m'"
proof -
  have get: "gm_get [] m = gm_get [] m'"
    by (rule ext) (rule same_map_get[OF assms])
  have of: "map_of m = map_of m'"
    using assms by (simp add: same_map_def)
  show "gidWithMaxShards m = gidWithMaxShards m'" "gidWithMinShards m = gidWithMinShards m'"
    unfolding gidWithMaxShards_def gidWithMinShards_def get of same_map_sort_keys[OF assms] by (rule refl)+
qed

lemma same_contents:
  assumes "same_map m m'"
  shows "contents m = contents m'"
proof -
  have eq: "contents m = sum_mset (image_mset (\<lambda>(k, v). mset v) (mset m))" for m
    unfolding contents_def by (metis mset_map sum_mset_sum_list)
  have "set m = set m'" "distinct m" "distinct m'"
    using assms map_of_inject_set[of m m'] by (simp_all add: same_map_def distinct_map)
  then have "mset m = mset m'"
    by (simp add: set_eq_iff_mset_eq_distinct)
  then show ?thesis
    by (simp add: eq)
qed

lemma rebalance_same:
  "same_map m m' \<Longrightarrow> rel_option same_map (rebalance m) (rebalance m')"
proof (induction m arbitrary: m' rule: rebalance.induct)
  case (1 m)
  let ?a = "gidWithMaxShards m" and ?b = "gidWithMinShards m"
  let ?step = "\<lambda>m. AList.update ?b (gm_get [] m ?b @ [hd (gm_get [] m ?a)]) m"
  note same = same_gids[OF "1.prems", symmetric] same_map_get[OF "1.prems", symmetric, where z = "[]"]
  show ?case
  proof (cases "(?a \<noteq> 0 \<and> int (load m ?a) - int (load m ?b) \<le> 1) \<or> gm_get [] m ?a = []")
    case True
    then show ?thesis
      unfolding rebalance.simps[of m] rebalance.simps[of m'] Let_def same using "1.prems" by auto
  next
    case False
    have 1: "same_map (?step m) (?step m')"
      unfolding same by (rule same_map_update[OF "1.prems"])
    have 2: "same_map (AList.update ?a (drop 1 (gm_get [] (?step m) ?a)) (?step m))
        (AList.update ?a (drop 1 (gm_get [] (?step m') ?a)) (?step m'))"
      unfolding same_map_get[OF 1, symmetric] by (rule same_map_update[OF 1])
    have "rel_option same_map (rebalance (AList.update ?a (drop 1 (gm_get [] (?step m) ?a)) (?step m)))
        (rebalance (AList.update ?a (drop 1 (gm_get [] (?step m') ?a)) (?step m')))"
      using False by (intro "1.IH"[OF refl refl _ _ refl 2]) auto
    moreover have "rebalance m = rebalance (AList.update ?a (drop 1 (gm_get [] (?step m) ?a)) (?step m))"
        "rebalance m' = rebalance (AList.update ?a (drop 1 (gm_get [] (?step m') ?a)) (?step m'))"
      using False unfolding rebalance.simps[of m] rebalance.simps[of m'] Let_def same by auto
    ultimately show ?thesis
      by simp
  qed
qed

lemma store_same:
  assumes "same_map m m'" "shard_partition m"
  shows "storeAllShards m (replicate NShards 0) = storeAllShards m' (replicate NShards 0)"
proof -
  have "shard_partition m'"
    using assms same_contents[OF assms(1)] by (simp add: shard_partition_def same_map_def)
  obtain a where a: "storeAllShards m (replicate NShards 0) = Some a" "length a = NShards"
      "\<And>i g. i < NShards \<Longrightarrow> a ! i = g \<longleftrightarrow> int i \<in> set (gm_get [] m g)"
    using store_partition[OF assms(2)] by blast
  obtain b where b: "storeAllShards m' (replicate NShards 0) = Some b" "length b = NShards"
      "\<And>i g. i < NShards \<Longrightarrow> b ! i = g \<longleftrightarrow> int i \<in> set (gm_get [] m' g)"
    using store_partition[OF \<open>shard_partition m'\<close>] by blast
  have "a = b"
    using a b same_map_get[OF assms(1)] by (intro nth_equalityI) auto
  then show ?thesis
    using a b by simp
qed

lemma shardsByGid_same:
  "same_map gs gs' \<Longrightarrow> same_map (shardsByGid gs shards) (shardsByGid gs' shards)"
  using shardsByGid_spec[of gs shards] shardsByGid_spec[of gs' shards]
  by (intro same_mapI[where z = "[]"]) (simp_all add: same_map_keys)

lemma joinGroups_same:
  assumes "same_map groups groups'" "same_map old old'"
  shows "same_map (joinGroups groups old) (joinGroups groups' old')"
  using assms joinGroups_spec[of groups old] joinGroups_spec[of groups' old']
  by (simp add: same_map_def)

lemma removeGids_same:
  assumes "same_map gs gs'" "same_map m m'" "removeGids gids (gs, m, u) = (gs1, m1, u1)"
    "removeGids gids (gs', m', u) = (gs1', m1', u1')"
  shows "same_map gs1 gs1' \<and> same_map m1 m1' \<and> u1 = u1'"
  using assms
proof (induction gids arbitrary: gs gs' m m' u)
  case (Cons g gids)
  have eq: "map_of gs = map_of gs'" "map_of m = map_of m'"
    using Cons.prems(1,2) by (simp_all add: same_map_def)
  let ?d = "\<lambda>gs. if map_of gs g \<noteq> None then AList.delete g gs else gs"
  have gs: "same_map (?d gs) (?d gs')"
    using Cons.prems(1) eq(1) by (simp add: same_map_delete)
  show ?case
  proof (cases "map_of m' g")
    case None
    then show ?thesis
      using Cons.prems(3,4) eq(2) by (intro Cons.IH[OF gs Cons.prems(2), of u]) (simp_all add: Let_def)
  next
    case (Some shards)
    then show ?thesis
      using Cons.prems(3,4) eq(2)
      by (intro Cons.IH[OF gs same_map_delete[OF Cons.prems(2), of g], of "u @ shards"])
        (simp_all add: Let_def)
  qed
qed auto

lemma assignShards_same:
  "same_map m m' \<Longrightarrow> same_map (assignShards shards m) (assignShards shards m')"
  by (induction shards arbitrary: m m')
    (simp_all add: Let_def same_gids[symmetric] same_map_get[symmetric] same_map_update)

lemma same_csm_last:
  assumes "same_csm csm csm'" "csm_inv csm"
  shows "same_config (csm_last csm) (csm_last csm')" "length (csm_Configs csm) = length (csm_Configs csm')"
    "csm_Configs csm' \<noteq> []"
proof -
  have l: "list_all2 same_config (csm_Configs csm) (csm_Configs csm')"
    using assms(1) by (simp add: same_csm_def)
  show len: "length (csm_Configs csm) = length (csm_Configs csm')"
    using l by (rule list_all2_lengthD)
  have ne: "csm_Configs csm \<noteq> []"
    using assms(2) by (rule csm_invD)
  then show ne': "csm_Configs csm' \<noteq> []"
    using len by auto
  show "same_config (csm_last csm) (csm_last csm')"
    using l ne ne' len by (simp add: last_conv_nth list_all2_nthD)
qed

lemma same_csm_add:
  "same_csm csm csm' \<Longrightarrow> same_config c c' \<Longrightarrow> same_csm (csm_add c csm) (csm_add c' csm')"
  by (simp add: same_csm_def list_all2_appendI)

lemma rebalance_partition:
  "shard_partition m \<Longrightarrow> rebalance m = Some m' \<Longrightarrow> shard_partition m'"
proof (induction m rule: rebalance.induct)
  case (1 m)
  let ?a = "gidWithMaxShards m" and ?b = "gidWithMinShards m"
  show ?case
  proof (cases "?a \<noteq> 0 \<and> int (load m ?a) - int (load m ?b) \<le> 1")
    case True
    then show ?thesis
      using "1.prems" unfolding rebalance.simps[of m] Let_def by simp
  next
    case False
    note max = gidWithMaxShards_loaded[OF "1.prems"(1)]
    have ne: "?a \<noteq> ?b"
      using False gidWithMinShards_nonzero[of m] by auto
    have m2: "AList.update ?a (drop 1 (gm_get [] (AList.update ?b (gm_get [] m ?b @ [hd (gm_get [] m ?a)]) m) ?a))
        (AList.update ?b (gm_get [] m ?b @ [hd (gm_get [] m ?a)]) m) = move_shard ?a ?b m"
      using ne by (simp add: move_shard_def)
    have "rebalance (move_shard ?a ?b m) = Some m'"
      using "1.prems"(2) unfolding rebalance.simps[of m] Let_def if_not_P[OF False] if_not_P[OF max(1)] m2 .
    then show ?thesis
      by (rule "1.IH"[OF refl refl False max(1) refl, unfolded m2, OF move_shard_partition[OF "1.prems"(1) ne max(1)]])
  qed
qed

lemma Join_same:
  assumes inv: "csm_inv csm" and same: "same_csm csm csm'" "same_map groups groups'"
  shows "rel_option (rel_prod (=) same_csm) (csm_Join groups csm) (csm_Join groups' csm')"
proof -
  note last = same_csm_last[OF same(1) inv]
  let ?gs = "joinGroups groups (cf_Groups (csm_last csm))"
  let ?gs' = "joinGroups groups' (cf_Groups (csm_last csm'))"
  have sc: "cf_Shards (csm_last csm) = cf_Shards (csm_last csm')"
      "same_map (cf_Groups (csm_last csm)) (cf_Groups (csm_last csm'))"
    using last(1) by (simp_all add: same_config_def)
  have ok: "gm_ok (cf_Groups (csm_last csm))" "gm_ok (cf_Groups (csm_last csm'))"
    using sc(2) by (simp_all add: same_map_def)
  have get': "slice_get (csm_Configs csm') (int (length (csm_Configs csm')) - 1) = Some (csm_last csm')"
    using last(3) by (simp add: last_conv_nth Suc_le_eq nat_diff_distrib)
  have gs: "same_map ?gs ?gs'"
    by (rule joinGroups_same[OF same(2) sc(2)])
  have r: "rel_option same_map (rebalance (shardsByGid ?gs (cf_Shards (csm_last csm))))
      (rebalance (shardsByGid ?gs' (cf_Shards (csm_last csm'))))"
    unfolding sc(1) by (rule rebalance_same[OF shardsByGid_same[OF gs]])
  show ?thesis
  proof (cases "rebalance (shardsByGid ?gs (cf_Shards (csm_last csm)))")
    case None
    then show ?thesis
      using r csm_invD(3)[OF inv] get' ok by (simp add: csm_Join_def Let_def)
  next
    case (Some m)
    then obtain m' where m': "rebalance (shardsByGid ?gs' (cf_Shards (csm_last csm'))) = Some m'"
        "same_map m m'"
      using r by (auto simp: option_rel_Some1)
    have "shard_partition m"
      using Some cfg_invD(1)[OF csm_invD(2)[OF inv]] by (intro rebalance_partition[OF shardsByGid_partition])
    then have st: "storeAllShards m (replicate NShards 0) = storeAllShards m' (replicate NShards 0)"
      by (rule store_same[OF m'(2)])
    obtain arr where "storeAllShards m (replicate NShards 0) = Some arr"
      using store_partition[OF \<open>shard_partition m\<close>] by blast
    then show ?thesis
      using Some m'(1) st csm_invD(3)[OF inv] get' ok gs last(2)
      by (simp add: csm_Join_def Let_def same_csm_add[OF same(1)] same_config_def)
  qed
qed

lemma Leave_same:
  assumes inv: "csm_inv csm" and same: "same_csm csm csm'"
  shows "rel_option (rel_prod (=) same_csm) (csm_Leave gids csm) (csm_Leave gids csm')"
proof -
  note last = same_csm_last[OF same inv]
  note old = cfg_invD[OF csm_invD(2)[OF inv]]
  let ?c = "csm_last csm" and ?d = "csm_last csm'"
  have sc: "cf_Shards ?c = cf_Shards ?d" "same_map (cf_Groups ?c) (cf_Groups ?d)"
    using last(1) by (simp_all add: same_config_def)
  have ok: "gm_ok (cf_Groups ?d)"
    using sc(2) by (simp add: same_map_def)
  have get': "slice_get (csm_Configs csm') (int (length (csm_Configs csm')) - 1) = Some ?d"
    using last(3) by (simp add: last_conv_nth Suc_le_eq nat_diff_distrib)
  obtain gs m u where 1: "removeGids gids (cf_Groups ?c, shardsByGid (cf_Groups ?c) (cf_Shards ?c), []) = (gs, m, u)"
    by (metis surj_pair)
  obtain gs' m' u' where 2: "removeGids gids (cf_Groups ?d, shardsByGid (cf_Groups ?d) (cf_Shards ?d), []) = (gs', m', u')"
    by (metis surj_pair)
  have rs: "same_map gs gs'" "same_map m m'" "u = u'"
    using removeGids_same[OF sc(2) shardsByGid_same[OF sc(2)] 1, unfolded sc(1), OF 2] by blast+
  have len: "length gs = 0 \<longleftrightarrow> length gs' = 0"
    using same_map_keys[OF rs(1)] by auto
  show ?thesis
  proof (cases "gs = []")
    case True
    then show ?thesis
      using 1 2 len rs(1) csm_invD(3)[OF inv] get' ok old(2) last(2)
      by (simp add: csm_Leave_def Let_def same_csm_add[OF same] same_config_def)
  next
    case False
    then have ne: "cf_Groups ?c \<noteq> []"
      using removeGids_spec[OF 1 old(2) conjunct1[OF shardsByGid_spec]] by auto
    obtain arr where arr: "storeAllShards (assignShards u m) (replicate NShards 0) = Some arr"
      using leave_config[OF csm_invD(2)[OF inv] ne 1 False] by blast
    have "shard_partition (assignShards u m)"
      by (rule leave_partition[OF csm_invD(2)[OF inv] ne 1 False])
    then have "storeAllShards (assignShards u' m') (replicate NShards 0) = Some arr"
      using store_same[OF assignShards_same[OF rs(2)]] arr rs(3) by metis
    then show ?thesis
      using 1 2 len rs(1) csm_invD(3)[OF inv] get' ok old(2) last(2) arr False
      by (simp add: csm_Leave_def Let_def same_csm_add[OF same] same_config_def)
  qed
qed
lemma Move_result:
  assumes "csm_inv csm" "0 \<le> s" "s < int NShards" "g \<in> gm_keys (cf_Groups (csm_last csm))"
  shows "\<exists>c. csm_Move s g csm = Some (OK, csm_add c csm) \<and> csm_inv (csm_add c csm)"
proof -
  let ?old = "csm_last csm"
  let ?c = "\<lparr>cf_Num = int (length (csm_Configs csm)), cf_Shards = (cf_Shards ?old)[nat s := g],
      cf_Groups = cf_Groups ?old\<rparr>"
  note last = csm_invD[OF assms(1)]
  note old = cfg_invD[OF last(2)]
  have "cf_Groups ?old \<noteq> []"
    using assms(4) by auto
  then have "cfg_inv ?c"
    using old assms(4) set_update_subset_insert[of "cf_Shards ?old" "nat s" g] by (auto simp: cfg_inv_def)
  then have "csm_inv (csm_add ?c csm)"
    by (intro csm_inv_add[OF assms(1)]) simp_all
  moreover have "csm_Move s g csm = Some (OK, csm_add ?c csm)"
    using last(3) old(1,2) assms(2,3) by (simp add: csm_Move_def Let_def slice_set_def)
  ultimately show ?thesis
    by blast
qed

lemma Move_same:
  assumes inv: "csm_inv csm" and same: "same_csm csm csm'"
  shows "rel_option (rel_prod (=) same_csm) (csm_Move s g csm) (csm_Move s g csm')"
proof -
  note l = same_csm_last[OF same inv]
  note last = csm_invD[OF inv]
  have last': "slice_get (csm_Configs csm') (int (length (csm_Configs csm')) - 1) = Some (csm_last csm')"
    using l(3) by (simp add: last_conv_nth Suc_le_eq nat_diff_distrib)
  have "same_map (copyGroups (cf_Groups (csm_last csm))) (copyGroups (cf_Groups (csm_last csm')))"
    using l(1) by (simp add: same_config_def same_map_def)
  then show ?thesis
    using last(3) last' l
    by (cases "slice_set (cf_Shards (csm_last csm)) s g")
      (auto simp: csm_Move_def Let_def same_config_def intro!: same_csm_add[OF same])
qed

lemma Query_same:
  assumes inv: "csm_inv csm" and same: "same_csm csm csm'"
  shows "\<exists>c c'. csm_Query num csm = Some (c, OK) \<and> csm_Query num csm' = Some (c', OK) \<and> same_config c c'"
proof -
  note l = same_csm_last[OF same inv]
  have nth: "i < length (csm_Configs csm) \<Longrightarrow> same_config (csm_Configs csm ! i) (csm_Configs csm' ! i)" for i
    using same by (simp add: same_csm_def list_all2_nthD)
  have ne: "0 < length (csm_Configs csm)"
    using csm_invD(1)[OF inv] by simp
  then have "nat (int (length (csm_Configs csm)) - 1) < length (csm_Configs csm)"
    by linarith
  then show ?thesis
    using ne l(2) nth[of "nat num"] nth[of "nat (int (length (csm_Configs csm)) - 1)"]
    by (auto simp: csm_Query_def slice_get_def)
qed

end
