(* ===== verification/Ctrler_Server.thy ===== *)
theory Ctrler_Server
  imports Ctrler_State_Machine Log_Client
begin

text \<open>
  The replicated shard controller, \<^verbatim>\<open>src/src/shardctrler/server.go\<close>, its request types
  in \<^verbatim>\<open>common.go\<close> and its clerk in \<^verbatim>\<open>client.go\<close>. A controller executes the
  commands of the log on the state machine of \<open>Ctrler_State_Machine\<close>; it makes no snapshots.
\<close>

section \<open>Requests and replies\<close>

datatype ctrler_op_type = OpJoin | OpLeave | OpMove | OpQuery

record ctrler_op =
  co_Servers :: "(int, string list) go_map"
  co_GIDs :: "int list"
  co_Shard :: int
  co_GID :: int
  co_Num :: int
  co_OpType :: ctrler_op_type
  co_ClientId :: int
  co_SeqId :: int

record ctrler_reply =
  cr_ControllerConfig :: config
  cr_Err :: err

text \<open>The operation with all fields zero that the composite literals of the handlers fill in.\<close>

definition zero_op :: "ctrler_op_type \<Rightarrow> ctrler_op" where
  "zero_op t = \<lparr>co_Servers = [], co_GIDs = [], co_Shard = 0, co_GID = 0, co_Num = 0, co_OpType = t,
     co_ClientId = 0, co_SeqId = 0\<rparr>"

section \<open>The server\<close>

record 'b shard_ctrler =
  sc_me :: int
  sc_rf :: "(ctrler_op, 'b) raft"
  sc_configs :: "config list"
  sc_dead :: bool
  sc_lastApplied :: int
  sc_stateMachine :: ctrler_sm
  sc_notifyChans :: "ctrler_reply notify"
  sc_duplicateTable :: "ctrler_reply dup_table"

definition sc_requestDuplicated :: "int \<Rightarrow> int \<Rightarrow> ctrler_reply dup_table \<Rightarrow> bool" where
  "sc_requestDuplicated clientId seqId table =
     (case table clientId of Some (n, _) \<Rightarrow> seqId \<le> n | None \<Rightarrow> False)"

text \<open>A reply that is no answer to a \<open>Query\<close> carries the zero configuration.\<close>

definition sc_applyToStateMachine :: "ctrler_op \<Rightarrow> ctrler_sm \<Rightarrow> (ctrler_reply \<times> ctrler_sm) option" where
  "sc_applyToStateMachine op csm =
     (case co_OpType op of
        OpQuery \<Rightarrow> do {
          (cfg, err) \<leftarrow> csm_Query (co_Num op) csm;
          Some (\<lparr>cr_ControllerConfig = cfg, cr_Err = err\<rparr>, csm) }
      | OpJoin \<Rightarrow> do {
          (err, csm) \<leftarrow> csm_Join (co_Servers op) csm;
          Some (\<lparr>cr_ControllerConfig = DefaultConfig, cr_Err = err\<rparr>, csm) }
      | OpLeave \<Rightarrow> do {
          (err, csm) \<leftarrow> csm_Leave (co_GIDs op) csm;
          Some (\<lparr>cr_ControllerConfig = DefaultConfig, cr_Err = err\<rparr>, csm) }
      | OpMove \<Rightarrow> do {
          (err, csm) \<leftarrow> csm_Move (co_Shard op) (co_GID op) csm;
          Some (\<lparr>cr_ControllerConfig = DefaultConfig, cr_Err = err\<rparr>, csm) })"

definition sc_execute :: "ctrler_op \<Rightarrow> ctrler_sm \<times> ctrler_reply dup_table \<Rightarrow>
    (ctrler_reply \<times> ctrler_sm \<times> ctrler_reply dup_table) option" where
  "sc_execute op = (\<lambda>(csm, table).
     if co_OpType op \<noteq> OpQuery \<and> sc_requestDuplicated (co_ClientId op) (co_SeqId op) table
     then do { (_, reply) \<leftarrow> table (co_ClientId op); Some (reply, csm, table) }
     else do {
       (reply, csm) \<leftarrow> sc_applyToStateMachine op csm;
       Some (reply, csm, if co_OpType op \<noteq> OpQuery
                         then table(co_ClientId op \<mapsto> (co_SeqId op, reply)) else table) })"

definition sc_getNotifyChannel :: "int \<Rightarrow> 'b shard_ctrler \<Rightarrow> nat \<times> 'b shard_ctrler" where
  "sc_getNotifyChannel index sc =
     (let (ch, nc) = get_chan index (sc_notifyChans sc) in (ch, sc\<lparr>sc_notifyChans := nc\<rparr>))"

abbreviation sc_content :: "'b shard_ctrler \<Rightarrow> ctrler_sm \<times> ctrler_reply dup_table" where
  "sc_content sc \<equiv> (sc_stateMachine sc, sc_duplicateTable sc)"

text \<open>One round of \<open>applyTask\<close>; a message that is not a command is dropped.\<close>

definition sc_applyTask :: "bool \<Rightarrow> (ctrler_op, 'b) apply_msg \<Rightarrow> 'b shard_ctrler \<Rightarrow> stop + 'b shard_ctrler" where
  "sc_applyTask isLeader message sc =
     (if am_CommandValid message then
        if am_CommandIndex message \<le> sc_lastApplied sc then Inr sc
        else let index = am_CommandIndex message; sc = sc\<lparr>sc_lastApplied := index\<rparr> in
          (case am_Command message of
             None \<Rightarrow> Inl Panic
           | Some op \<Rightarrow>
              (case sc_execute op (sc_content sc) of
                 None \<Rightarrow> Inl Panic
               | Some (opReply, csm, table) \<Rightarrow>
                   let sc = sc\<lparr>sc_stateMachine := csm, sc_duplicateTable := table\<rparr> in
                   if isLeader
                   then let (ch, sc) = sc_getNotifyChannel index sc in
                     (case chan_send ch opReply (sc_notifyChans sc) of
                        None \<Rightarrow> Inl Blocked
                      | Some nc \<Rightarrow> Inr (sc\<lparr>sc_notifyChans := nc\<rparr>))
                   else Inr sc))
      else Inr sc)"

text \<open>The server's field \<open>configs\<close> is set here and used nowhere else.\<close>

definition sc_StartServer :: "nat \<Rightarrow> int \<Rightarrow> (ctrler_op, 'b) persister \<Rightarrow> 'b shard_ctrler" where
  "sc_StartServer nservers self ps =
     \<lparr>sc_me = self, sc_rf = Make nservers self ps, sc_configs = [DefaultConfig], sc_dead = False,
      sc_lastApplied = 0, sc_stateMachine = NewCtrlerStateMachine, sc_notifyChans = no_chans,
      sc_duplicateTable = Map.empty\<rparr>"

definition sc_Kill :: "'b shard_ctrler \<Rightarrow> 'b shard_ctrler" where
  "sc_Kill sc = sc\<lparr>sc_dead := True, sc_rf := Kill (sc_rf sc)\<rparr>"

definition sc_killed :: "'b shard_ctrler \<Rightarrow> bool" where
  "sc_killed sc = sc_dead sc"

section \<open>The handlers\<close>

text \<open>One step of \<open>command\<close>, which all four handlers call; a duplicate gets no configuration.\<close>

definition sc_command_step :: "bool \<Rightarrow> ctrler_op \<Rightarrow> ctrler_reply handler_pc \<Rightarrow> 'b shard_ctrler \<Rightarrow>
    (ctrler_reply handler_pc \<times> 'b shard_ctrler) option" where
  "sc_command_step timer args pc sc =
     (if pc = HCheck then
        if co_OpType args \<noteq> OpQuery \<and>
           sc_requestDuplicated (co_ClientId args) (co_SeqId args) (sc_duplicateTable sc)
        then do {
          (_, opReply) \<leftarrow> sc_duplicateTable sc (co_ClientId args);
          Some (HDone \<lparr>cr_ControllerConfig = DefaultConfig, cr_Err = cr_Err opReply\<rparr>, sc) }
        else Some (HStart, sc)
      else if pc = HStart then
        let ((index, _, isLeader), rf) = Start (Some args) (sc_rf sc); sc = sc\<lparr>sc_rf := rf\<rparr>
        in Some (if \<not> isLeader
                 then (HDone \<lparr>cr_ControllerConfig = DefaultConfig, cr_Err = ErrWrongLeader\<rparr>, sc)
                 else (HRegister index, sc))
      else let (pc, nc) = await timer (\<lambda>r. r) \<lparr>cr_ControllerConfig = DefaultConfig, cr_Err = ErrTimeout\<rparr>
                 pc (sc_notifyChans sc)
           in Some (pc, sc\<lparr>sc_notifyChans := nc\<rparr>))"

text \<open>The operations that the handlers pass to \<open>command\<close>, from the arguments of their RPC.\<close>

definition sc_Join_op :: "(int, string list) go_map \<Rightarrow> int \<Rightarrow> int \<Rightarrow> ctrler_op" where
  "sc_Join_op servers clientId seqId =
     (zero_op OpJoin)\<lparr>co_ClientId := clientId, co_SeqId := seqId, co_Servers := servers\<rparr>"

definition sc_Leave_op :: "int list \<Rightarrow> int \<Rightarrow> int \<Rightarrow> ctrler_op" where
  "sc_Leave_op gids clientId seqId =
     (zero_op OpLeave)\<lparr>co_ClientId := clientId, co_SeqId := seqId, co_GIDs := gids\<rparr>"

definition sc_Move_op :: "int \<Rightarrow> int \<Rightarrow> int \<Rightarrow> int \<Rightarrow> ctrler_op" where
  "sc_Move_op shard gid clientId seqId =
     (zero_op OpMove)\<lparr>co_ClientId := clientId, co_SeqId := seqId, co_Shard := shard, co_GID := gid\<rparr>"

definition sc_Query_op :: "int \<Rightarrow> ctrler_op" where
  "sc_Query_op num = (zero_op OpQuery)\<lparr>co_Num := num\<rparr>"

section \<open>The clerk\<close>

record ctrler_clerk =
  cc_servers :: int
  cc_leaderId :: int
  cc_clientId :: int
  cc_seqId :: int

definition cc_MakeClerk :: "int \<Rightarrow> int \<Rightarrow> ctrler_clerk" where
  "cc_MakeClerk servers nrand = \<lparr>cc_servers = servers, cc_leaderId = 0, cc_clientId = nrand, cc_seqId = 0\<rparr>"

text \<open>\<open>call op n s\<close> is what attempt \<open>n\<close> of the RPC with the arguments of \<open>op\<close> gets from server \<open>s\<close>.\<close>

type_synonym ctrler_calls = "ctrler_op \<Rightarrow> nat \<Rightarrow> int \<Rightarrow> ctrler_reply option"

definition cc_Query :: "ctrler_calls \<Rightarrow> int \<Rightarrow> ctrler_clerk \<Rightarrow> (config \<times> ctrler_clerk) option" where
  "cc_Query call num ck = do {
     (leader, reply) \<leftarrow> clerk_loop (call (sc_Query_op num)) (\<lambda>r. try_again (cr_Err r))
       (cc_servers ck) 0 (cc_leaderId ck);
     Some (cr_ControllerConfig reply, ck\<lparr>cc_leaderId := leader\<rparr>) }"

definition cc_Join :: "ctrler_calls \<Rightarrow> (int, string list) go_map \<Rightarrow> ctrler_clerk \<Rightarrow> ctrler_clerk option" where
  "cc_Join call servers ck = do {
     (leader, reply) \<leftarrow> clerk_loop (call (sc_Join_op servers (cc_clientId ck) (cc_seqId ck)))
       (\<lambda>r. try_again (cr_Err r)) (cc_servers ck) 0 (cc_leaderId ck);
     Some (ck\<lparr>cc_leaderId := leader, cc_seqId := cc_seqId ck + 1\<rparr>) }"

definition cc_Leave :: "ctrler_calls \<Rightarrow> int list \<Rightarrow> ctrler_clerk \<Rightarrow> ctrler_clerk option" where
  "cc_Leave call gids ck = do {
     (leader, reply) \<leftarrow> clerk_loop (call (sc_Leave_op gids (cc_clientId ck) (cc_seqId ck)))
       (\<lambda>r. try_again (cr_Err r)) (cc_servers ck) 0 (cc_leaderId ck);
     Some (ck\<lparr>cc_leaderId := leader, cc_seqId := cc_seqId ck + 1\<rparr>) }"

definition cc_Move :: "ctrler_calls \<Rightarrow> int \<Rightarrow> int \<Rightarrow> ctrler_clerk \<Rightarrow> ctrler_clerk option" where
  "cc_Move call shard gid ck = do {
     (leader, reply) \<leftarrow> clerk_loop (call (sc_Move_op shard gid (cc_clientId ck) (cc_seqId ck)))
       (\<lambda>r. try_again (cr_Err r)) (cc_servers ck) 0 (cc_leaderId ck);
     Some (ck\<lparr>cc_leaderId := leader, cc_seqId := cc_seqId ck + 1\<rparr>) }"

section \<open>The duplicate table and the log\<close>

interpretation sc_table: dedup_service
  "\<lambda>op _. co_OpType op = OpQuery" co_ClientId co_SeqId sc_applyToStateMachine sc_execute
proof unfold_locales
  fix op :: ctrler_op and s :: ctrler_sm and t
  show "co_OpType op = OpQuery \<Longrightarrow>
      sc_execute op (s, t) = map_option (\<lambda>(r, s'). (r, s', t)) (sc_applyToStateMachine op s)"
    by (cases "sc_applyToStateMachine op s") (auto simp: sc_execute_def split: prod.splits)
  show "co_OpType op \<noteq> OpQuery \<Longrightarrow> t (co_ClientId op) = None \<or> fst (the (t (co_ClientId op))) < co_SeqId op \<Longrightarrow>
      sc_execute op (s, t) =
        map_option (\<lambda>(r, s'). (r, s', t(co_ClientId op \<mapsto> (co_SeqId op, r)))) (sc_applyToStateMachine op s)"
    by (cases "sc_applyToStateMachine op s")
      (auto simp: sc_execute_def sc_requestDuplicated_def split: prod.splits option.splits)
  fix r s'
  assume "co_OpType op = OpQuery" "sc_applyToStateMachine op s = Some (r, s')"
  then show "s' = s"
    by (auto simp: sc_applyToStateMachine_def)
qed (auto simp: sc_execute_def sc_requestDuplicated_def split: prod.splits option.splits)

definition sc_round :: "bool \<Rightarrow> (ctrler_op, 'b) apply_msg \<Rightarrow> 'b shard_ctrler \<Rightarrow> 'b shard_ctrler option" where
  "sc_round isLeader m sc = (case sc_applyTask isLeader m sc of Inr sc \<Rightarrow> Some sc | Inl _ \<Rightarrow> None)"

interpretation sc_client: log_client sc_round sc_lastApplied sc_content sc_execute "\<lambda>_ _. False"
proof unfold_locales
  fix m :: "(ctrler_op, 'b) apply_msg" and c e sc sc'
  assume "am_CommandValid m" "sc_lastApplied sc < am_CommandIndex m" "am_Command m = Some c"
    and "sc_round e m sc = Some sc'"
  then show "sc_lastApplied sc' = am_CommandIndex m \<and>
      (\<exists>r. sc_execute c (sc_content sc) = Some (r, sc_content sc'))"
    by (auto simp: sc_round_def sc_applyTask_def sc_getNotifyChannel_def Let_def
        split: sum.splits prod.splits option.splits if_splits)
qed (auto simp: sc_round_def sc_applyTask_def)

section \<open>Every log keeps the configurations valid\<close>

text \<open>
  What the controller's clients are expected to ask for: \<open>Join\<close> new groups with nonzero
  gids, some group being there at the end, and \<open>Move\<close> an existing shard to an existing group.
  A log is valid when every command is at the moment it is executed; repeated commands are not.
\<close>

definition valid_op :: "ctrler_op \<Rightarrow> ctrler_sm \<Rightarrow> bool" where
  "valid_op op csm =
     (case co_OpType op of
        OpJoin \<Rightarrow> gm_ok (co_Servers op) \<and> 0 \<notin> gm_keys (co_Servers op) \<and>
          (co_Servers op \<noteq> [] \<or> cf_Groups (csm_last csm) \<noteq> [])
      | OpLeave \<Rightarrow> True
      | OpMove \<Rightarrow> 0 \<le> co_Shard op \<and> co_Shard op < int NShards \<and>
          co_GID op \<in> gm_keys (cf_Groups (csm_last csm))
      | OpQuery \<Rightarrow> True)"

abbreviation sc_repeated :: "ctrler_op \<Rightarrow> ctrler_reply dup_table \<Rightarrow> bool" where
  "sc_repeated op table \<equiv>
     co_OpType op \<noteq> OpQuery \<and> sc_requestDuplicated (co_ClientId op) (co_SeqId op) table"

fun valid_log :: "ctrler_op list \<Rightarrow> ctrler_sm \<times> ctrler_reply dup_table \<Rightarrow> bool" where
  "valid_log [] x = True"
| "valid_log (op # ops) x =
     ((sc_repeated op (snd x) \<or> valid_op op (fst x)) \<and>
      (case sc_execute op x of None \<Rightarrow> True | Some (_, y) \<Rightarrow> valid_log ops y))"

abbreviation sc_init :: "ctrler_sm \<times> ctrler_reply dup_table" where
  "sc_init \<equiv> (NewCtrlerStateMachine, Map.empty)"

lemma sc_apply_valid:
  assumes "csm_inv csm" "valid_op op csm"
  shows "\<exists>r csm'. sc_applyToStateMachine op csm = Some (r, csm') \<and> csm_inv csm'"
proof (cases "co_OpType op")
  case OpJoin
  then obtain c where "csm_Join (co_Servers op) csm = Some (OK, csm_add c csm)" "csm_inv (csm_add c csm)"
    using Join_result[OF assms(1), of "co_Servers op"] assms(2) unfolding Let_def valid_op_def by auto
  then show ?thesis
    using OpJoin by (simp add: sc_applyToStateMachine_def)
next
  case OpLeave
  obtain c where "csm_Leave (co_GIDs op) csm = Some (OK, csm_add c csm)" "csm_inv (csm_add c csm)"
    using Leave_result[OF assms(1), of "co_GIDs op"] unfolding Let_def by blast
  then show ?thesis
    using OpLeave by (simp add: sc_applyToStateMachine_def)
next
  case OpMove
  then obtain c where "csm_Move (co_Shard op) (co_GID op) csm = Some (OK, csm_add c csm)"
      "csm_inv (csm_add c csm)"
    using Move_result[OF assms(1), of "co_Shard op" "co_GID op"] assms(2) unfolding valid_op_def by auto
  then show ?thesis
    using OpMove by (simp add: sc_applyToStateMachine_def)
next
  case OpQuery
  have "same_csm csm csm"
    using assms(1) by (auto simp: same_csm_def same_config_def same_map_def csm_inv_def cfg_inv_def
        intro!: list_all2_refl[THEN list_all2_mono] list.rel_refl_strong)
  then obtain c where "csm_Query (co_Num op) csm = Some (c, OK)"
    using Query_same[OF assms(1)] by blast
  then show ?thesis
    using OpQuery assms(1) by (simp add: sc_applyToStateMachine_def)
qed

lemma sc_execute_valid:
  assumes "csm_inv csm" "sc_repeated op t \<or> valid_op op csm"
  shows "\<exists>r csm' t'. sc_execute op (csm, t) = Some (r, csm', t') \<and> csm_inv csm'"
proof (cases "sc_repeated op t")
  case True
  then show ?thesis
    using assms(1) by (auto simp: sc_execute_def sc_requestDuplicated_def split: option.splits)
next
  case False
  then show ?thesis
    using sc_apply_valid[OF assms(1)] assms(2) by (fastforce simp: sc_execute_def)
qed

lemma valid_log_runs:
  "valid_log ops x \<Longrightarrow> csm_inv (fst x) \<Longrightarrow>
   \<exists>rs y. run_log sc_execute ops x = Some (rs, y) \<and> csm_inv (fst y)"
proof (induction ops arbitrary: x)
  case (Cons op ops)
  obtain csm t where x: "x = (csm, t)"
    by fastforce
  obtain r csm' t' where step: "sc_execute op x = Some (r, csm', t')" "csm_inv csm'"
    using sc_execute_valid[of csm op t] Cons.prems x by auto
  then show ?case
    using Cons.IH[of "(csm', t')"] Cons.prems(1) by auto
qed simp

lemma valid_log_take: "valid_log ops x \<Longrightarrow> valid_log (take n ops) x"
  by (induction ops arbitrary: x n) (auto simp: take_Cons split: nat.splits option.splits)

text \<open>
  (C14) A controller that processes the messages of its peer holds, for some prefix of the
  log that includes everything delivered, the configurations that executing each request of
  that prefix once gives, and every one of them is valid: shards belong to existing groups,
  and the numbers count up from 0. No \<open>Move\<close> of the log names an unknown group, the messages
  agree with the log, and no snapshot is overtaken by a newer one while it is sent.
\<close>

theorem ctrler_replica_state:
  assumes "ps = MakePersister \<or> ps = persister (persistLocked rf0)"
    and "lastApplied (Make n i ps) = 0" "valid_log ops sc_init"
    and "app_run (Make n i ps) ms rf d"
    and "\<forall>m \<in> set ms. agrees ops sc_execute sc_init (\<lambda>_ _. False) m"
    and "length es = length ms" "deliver sc_round (zip es ms) (sc_StartServer n i ps) = Some sc"
  shows "csm_inv (sc_stateMachine sc) \<and> (\<exists>k \<ge> d. k \<le> int (length ops) \<and>
    (\<exists>rs. run_log sc_applyToStateMachine
      (counted (\<lambda>op. co_OpType op = OpQuery) co_ClientId co_SeqId (take (nat k) ops))
      NewCtrlerStateMachine = Some (rs, sc_stateMachine sc)))"
proof -
  have gap: "gap_free 0 ms" "d = foldl reached 0 ms"
    using app_run_inv[OF assms(4) app_inv_Make[OF assms(1)]] assms(2) by auto
  have "sc_client.follows ops sc_init 0 (sc_StartServer n i ps)"
    unfolding sc_client.follows_def by (simp add: sc_StartServer_def after_0)
  then have "sc_client.follows ops sc_init d sc"
    using sc_client.deliver_follows[OF assms(7), of 0 ops sc_init] gap assms(5,6) by simp
  then obtain k where "d \<le> k" "after sc_execute sc_init ops k (sc_content sc)"
    unfolding sc_client.follows_def by (meson max.cobounded1)
  then obtain rs where k: "d \<le> k" "k \<le> int (length ops)"
    and run: "run_log sc_execute (take (nat k) ops) sc_init = Some (rs, sc_content sc)"
    by (auto simp: after_def)
  have "csm_inv (sc_stateMachine sc)"
    using valid_log_runs[OF valid_log_take[OF assms(3)], of "nat k"] run by auto
  then show ?thesis
    using sc_table.run_table[OF run] k by blast
qed

theorem ctrler_replica_state_witness:
  "\<exists>ms (rf :: (ctrler_op, nat) raft) sc. app_run (Make 3 0 MakePersister) ms rf 1 \<and>
     deliver sc_round (zip [True] ms) (sc_StartServer 3 0 MakePersister) = Some sc \<and>
     csm_inv (sc_stateMachine sc)"
proof -
  let ?op = "sc_Leave_op [7] 1 0"
  obtain m :: "(ctrler_op, nat) apply_msg" and rf where m: "app_run (Make 3 0 MakePersister) [m] rf 1"
      "am_CommandValid m" "\<not> am_SnapshotValid m" "am_CommandIndex m = 1" "am_Command m = Some ?op"
    using app_run_one_command[of ?op] by blast
  have v: "valid_op ?op NewCtrlerStateMachine"
    by (simp add: valid_op_def sc_Leave_op_def zero_op_def)
  then obtain r csm t where ex: "sc_execute ?op sc_init = Some (r, csm, t)"
    using sc_execute_valid[of NewCtrlerStateMachine ?op Map.empty] by auto
  obtain sc where sc: "deliver sc_round (zip [True] [m]) (sc_StartServer 3 0 MakePersister) = Some sc"
    using m ex by (auto simp: sc_round_def sc_applyTask_def sc_StartServer_def Let_def
        sc_getNotifyChannel_def get_chan_def no_chans_def chan_send_def)
  have "csm_inv (sc_stateMachine sc)"
    using m v by (intro conjunct1[OF ctrler_replica_state[OF _ _ _ m(1) _ _ sc, of rf "[?op]"]])
      (auto simp: Make_fresh agrees_def split: option.splits)
  then show ?thesis
    using m(1) sc by blast
qed

section \<open>Replicas agree\<close>

text \<open>Two copies of a command whose maps are visited in different orders, and their replies.\<close>

definition same_op :: "ctrler_op \<Rightarrow> ctrler_op \<Rightarrow> bool" where
  "same_op op op' \<longleftrightarrow> op' = op\<lparr>co_Servers := co_Servers op'\<rparr> \<and> same_map (co_Servers op) (co_Servers op')"

definition same_reply :: "ctrler_reply \<Rightarrow> ctrler_reply \<Rightarrow> bool" where
  "same_reply r r' \<longleftrightarrow> same_config (cr_ControllerConfig r) (cr_ControllerConfig r') \<and> cr_Err r = cr_Err r'"

definition same_state :: "ctrler_sm \<times> ctrler_reply dup_table \<Rightarrow> ctrler_sm \<times> ctrler_reply dup_table \<Rightarrow> bool" where
  "same_state x x' \<longleftrightarrow> same_csm (fst x) (fst x') \<and>
     (\<forall>c. rel_option (rel_prod (=) same_reply) (snd x c) (snd x' c))"

lemma same_op_fields:
  assumes "same_op op op'"
  shows "co_OpType op' = co_OpType op" "co_ClientId op' = co_ClientId op" "co_SeqId op' = co_SeqId op"
    "co_GIDs op' = co_GIDs op" "co_Shard op' = co_Shard op" "co_GID op' = co_GID op" "co_Num op' = co_Num op"
    "same_map (co_Servers op) (co_Servers op')"
proof -
  obtain s where s: "op' = op\<lparr>co_Servers := s\<rparr>" "same_map (co_Servers op) (co_Servers op')"
    using assms unfolding same_op_def by metis
  then show "co_OpType op' = co_OpType op" "co_ClientId op' = co_ClientId op" "co_SeqId op' = co_SeqId op"
    "co_GIDs op' = co_GIDs op" "co_Shard op' = co_Shard op" "co_GID op' = co_GID op" "co_Num op' = co_Num op"
    "same_map (co_Servers op) (co_Servers op')"
    by simp_all
qed

lemma same_config_Default [simp]: "same_config DefaultConfig DefaultConfig"
  by (simp add: same_config_def same_map_def DefaultConfig_def)

lemma sc_apply_same:
  assumes inv: "csm_inv csm" and csm: "same_csm csm csm'" and op: "same_op op op'"
  shows "rel_option (rel_prod same_reply same_csm)
    (sc_applyToStateMachine op csm) (sc_applyToStateMachine op' csm')"
proof -
  note f = same_op_fields[OF op]
  have lift: "rel_option (rel_prod same_reply same_csm)
      (do { (err, csm) \<leftarrow> x; Some (\<lparr>cr_ControllerConfig = DefaultConfig, cr_Err = err\<rparr>, csm) })
      (do { (err, csm) \<leftarrow> y; Some (\<lparr>cr_ControllerConfig = DefaultConfig, cr_Err = err\<rparr>, csm) })"
    if "rel_option (rel_prod (=) same_csm) x y" for x y
    using that by (cases x; cases y) (auto simp: same_reply_def)
  show ?thesis
  proof (cases "co_OpType op")
    case OpJoin
    then show ?thesis
      using lift[OF Join_same[OF inv csm f(8)]] f by (simp add: sc_applyToStateMachine_def)
  next
    case OpLeave
    then show ?thesis
      using lift[OF Leave_same[OF inv csm]] f by (simp add: sc_applyToStateMachine_def)
  next
    case OpMove
    then show ?thesis
      using lift[OF Move_same[OF inv csm]] f by (simp add: sc_applyToStateMachine_def)
  next
    case OpQuery
    then show ?thesis
      using Query_same[OF inv csm, of "co_Num op"] csm f
      by (auto simp: sc_applyToStateMachine_def same_reply_def)
  qed
qed

lemma sc_execute_same:
  assumes inv: "csm_inv (fst x)" and x: "same_state x x'" and op: "same_op op op'"
  shows "rel_option (rel_prod same_reply same_state) (sc_execute op x) (sc_execute op' x')"
proof -
  obtain csm t csm' t' where eq: "x = (csm, t)" "x' = (csm', t')"
    by (metis surj_pair)
  note f = same_op_fields[OF op]
  have csm: "same_csm csm csm'" and t: "\<And>c. rel_option (rel_prod (=) same_reply) (t c) (t' c)"
    using x eq by (simp_all add: same_state_def)
  note tc = t[of "co_ClientId op"]
  have dup: "sc_requestDuplicated c n t' = sc_requestDuplicated c n t" for c n
    using t[of c] by (cases "t c"; cases "t' c") (auto simp: sc_requestDuplicated_def)
  note ap = sc_apply_same[OF _ csm op] 
  show ?thesis
  proof (cases "sc_repeated op t")
    case True
    then obtain n r where r: "t (co_ClientId op) = Some (n, r)"
      by (auto simp: sc_requestDuplicated_def split: option.splits)
    then obtain r' where "t' (co_ClientId op) = Some (n, r')" "same_reply r r'"
      using tc by (cases "t' (co_ClientId op)") auto
    then show ?thesis
      using True r eq f dup x by (simp add: sc_execute_def)
  next
    case False
    then show ?thesis
      using ap inv eq f dup csm t
      by (cases "sc_applyToStateMachine op csm"; cases "sc_applyToStateMachine op' csm'")
        (auto simp: sc_execute_def same_state_def)
  qed
qed

lemma run_same:
  "valid_log ops x \<Longrightarrow> csm_inv (fst x) \<Longrightarrow> same_state x x' \<Longrightarrow> list_all2 same_op ops ops' \<Longrightarrow>
   \<exists>rs y rs' y'. run_log sc_execute ops x = Some (rs, y) \<and> run_log sc_execute ops' x' = Some (rs', y') \<and>
     list_all2 same_reply rs rs' \<and> same_state y y'"
proof (induction ops arbitrary: x x' ops')
  case (Cons op ops)
  obtain op' ops1 where ops': "ops' = op' # ops1" "same_op op op'" "list_all2 same_op ops ops1"
    using Cons.prems(4) by (auto simp: list_all2_Cons1)
  obtain r y where y: "sc_execute op x = Some (r, y)" "csm_inv (fst y)"
    using sc_execute_valid[of "fst x" op "snd x"] Cons.prems(1,2) by auto
  obtain r' y' where y': "sc_execute op' x' = Some (r', y')" "same_reply r r'" "same_state y y'"
    using sc_execute_same[OF Cons.prems(2,3) ops'(2)] y(1) by (cases "sc_execute op' x'") auto
  have "valid_log ops y"
    using Cons.prems(1) y(1) by simp
  then show ?case
    using Cons.IH[OF _ y(2) y'(3) ops'(3)] y(1) y'(1,2) ops'(1) by fastforce
qed auto

text \<open>
  (C19) Replicas agree although they may visit the maps of their configurations in different
  orders: two controllers that execute the same valid commands give the same replies and end
  with the same configurations, shard by shard.
\<close>

theorem ctrler_replicas_agree:
  assumes "valid_log ops sc_init" "list_all2 same_op ops ops'"
  shows "\<exists>rs csm t rs' csm' t'. run_log sc_execute ops sc_init = Some (rs, csm, t) \<and>
    run_log sc_execute ops' sc_init = Some (rs', csm', t') \<and>
    list_all2 same_reply rs rs' \<and> list_all2 same_config (csm_Configs csm) (csm_Configs csm')"
proof -
  have "same_state sc_init sc_init"
    by (simp add: same_state_def same_csm_def NewCtrlerStateMachine_def)
  then show ?thesis
    using run_same[OF assms(1) _ _ assms(2), of sc_init] by (fastforce simp: same_state_def same_csm_def)
qed

theorem ctrler_replicas_agree_witness:
  "\<exists>rs csm t rs' csm' t'.
    run_log sc_execute [sc_Join_op [(1, [''a'']), (2, [''b''])] 1 0] sc_init = Some (rs, csm, t) \<and>
    run_log sc_execute [sc_Join_op [(2, [''b'']), (1, [''a''])] 1 0] sc_init = Some (rs', csm', t') \<and>
    list_all2 same_config (csm_Configs csm) (csm_Configs csm')"
proof -
  have "map_of [(1, [''a'']), (2, [''b''])] = map_of [(2, [''b'']), (1 :: int, [''a''])]"
    by auto
  then have "list_all2 same_op [sc_Join_op [(1, [''a'']), (2, [''b''])] 1 0]
      [sc_Join_op [(2, [''b'']), (1, [''a''])] 1 0]"
    by (simp add: same_op_def sc_Join_op_def zero_op_def same_map_def)
  moreover have "valid_log [sc_Join_op [(1, [''a'']), (2, [''b''])] 1 0] sc_init"
    by (simp add: valid_op_def sc_Join_op_def zero_op_def split: option.splits)
  ultimately show ?thesis
    using ctrler_replicas_agree by blast
qed

end
