(* ===== verification/Shard_Kv.thy ===== *)
theory Shard_Kv
  imports Ctrler_Server Kv_Server
begin

text \<open>
  A server of a replica group of the sharded key/value service, \<^verbatim>\<open>src/src/shardkv\<close>:
  the state machine with its shards and configurations (\<^verbatim>\<open>state_machine.go\<close>,
  \<^verbatim>\<open>conf_change.go\<close>), the handlers and snapshots (\<^verbatim>\<open>server.go\<close>), the
  background tasks that fetch configurations and move shards (\<^verbatim>\<open>task.go\<close>) and the
  clerk (\<^verbatim>\<open>client.go\<close>). The request types are those of \<open>Kv_Server\<close>, whose
  structs the package repeats; the protocol between groups is in \<open>Shard_Migration\<close>.
\<close>

section \<open>Data\<close>

type_synonym shard_op = kv_op
type_synonym shard_op_reply = op_reply
type_synonym shard_put_append_args = put_append_args

datatype shard_status = Normal | MoveIn | MoveOut | GC

record shard_mem =
  sm_KV :: "string \<rightharpoonup> string"
  sm_Status :: shard_status

definition NewShardMem :: shard_mem where
  "NewShardMem = \<lparr>sm_KV = Map.empty, sm_Status = Normal\<rparr>"

definition sm_Get :: "string \<Rightarrow> shard_mem \<Rightarrow> string \<times> err" where
  "sm_Get key mkv = (case sm_KV mkv key of Some value \<Rightarrow> (value, OK) | None \<Rightarrow> ('''', ErrNoKey))"

definition sm_Put :: "string \<Rightarrow> string \<Rightarrow> shard_mem \<Rightarrow> err \<times> shard_mem" where
  "sm_Put key value mkv = (OK, mkv\<lparr>sm_KV := (sm_KV mkv)(key \<mapsto> value)\<rparr>)"

definition sm_Append :: "string \<Rightarrow> string \<Rightarrow> shard_mem \<Rightarrow> err \<times> shard_mem" where
  "sm_Append key value mkv =
     (OK, mkv\<lparr>sm_KV := (sm_KV mkv)(key \<mapsto>
        (case sm_KV mkv key of Some old \<Rightarrow> old | None \<Rightarrow> '''') @ value)\<rparr>)"

text \<open>The copy of a map, made by a loop over it, has the same entries.\<close>

definition sm_copyData :: "shard_mem \<Rightarrow> string \<rightharpoonup> string" where
  "sm_copyData mkv = sm_KV mkv"

definition li_copyData :: "int \<times> op_reply \<Rightarrow> int \<times> op_reply" where
  "li_copyData = (\<lambda>(seqId, reply). (seqId, \<lparr>or_Value = or_Value reply, or_Err = or_Err reply\<rparr>))"

record shard_args =
  sa_ConfigNum :: int
  sa_ShardIds :: "int list"

record shard_reply =
  sr_Err :: err
  sr_ConfigNum :: int
  sr_ShardData :: "(int, string \<rightharpoonup> string) go_map"
  sr_DuplicateTable :: "op_reply dup_table"

datatype raft_command =
  ClientOpeartion kv_op | ConfigChange config | ShardMigration shard_reply | ShardGC shard_args

text \<open>
  The fields of \<open>ShardKV\<close> that the commands of the log change, and the group's own gid. The
  shards are an association list, since the tasks go through them with \<open>range\<close>; a missing
  entry is a nil pointer.
\<close>

record shard_state =
  ss_gid :: int
  ss_shards :: "(int, shard_mem) go_map"
  ss_duplicateTable :: "op_reply dup_table"
  ss_currentConfig :: config
  ss_prevConfig :: config

definition key2shard :: "string \<Rightarrow> int" where
  "key2shard key = (let shard = (if length key > 0 then of_char (hd key) else 0) in shard mod int NShards)"

section \<open>Client operations\<close>

definition sk_matchGroup :: "string \<Rightarrow> shard_state \<Rightarrow> bool option" where
  "sk_matchGroup key st = do {
     let shard = key2shard key;
     mem \<leftarrow> map_of (ss_shards st) shard;
     owner \<leftarrow> slice_get (cf_Shards (ss_currentConfig st)) shard;
     Some (owner = ss_gid st \<and> (sm_Status mem = Normal \<or> sm_Status mem = GC)) }"

definition sk_requestDuplicated :: "int \<Rightarrow> int \<Rightarrow> op_reply dup_table \<Rightarrow> bool" where
  "sk_requestDuplicated clientId seqId table =
     (case table clientId of Some (n, _) \<Rightarrow> seqId \<le> n | None \<Rightarrow> False)"

definition sk_applyToStateMachine :: "kv_op \<Rightarrow> int \<Rightarrow> shard_state \<Rightarrow> (op_reply \<times> shard_state) option" where
  "sk_applyToStateMachine op shardId st = do {
     mem \<leftarrow> map_of (ss_shards st) shardId;
     Some (case op_OpType op of
       OpGet \<Rightarrow> (let (value, err) = sm_Get (op_Key op) mem
                in (\<lparr>or_Value = value, or_Err = err\<rparr>, st))
     | OpPut \<Rightarrow> (let (err, mem) = sm_Put (op_Key op) (op_Value op) mem
                in (\<lparr>or_Value = '''', or_Err = err\<rparr>, st\<lparr>ss_shards := AList.update shardId mem (ss_shards st)\<rparr>))
     | OpAppend \<Rightarrow> (let (err, mem) = sm_Append (op_Key op) (op_Value op) mem
                in (\<lparr>or_Value = '''', or_Err = err\<rparr>, st\<lparr>ss_shards := AList.update shardId mem (ss_shards st)\<rparr>))) }"

definition sk_applyClientOperation :: "kv_op \<Rightarrow> shard_state \<Rightarrow> (op_reply \<times> shard_state) option" where
  "sk_applyClientOperation op st = do {
     mine \<leftarrow> sk_matchGroup (op_Key op) st;
     if mine then
       if op_OpType op \<noteq> OpGet \<and> sk_requestDuplicated (op_ClientId op) (op_SeqId op) (ss_duplicateTable st)
       then do { (_, reply) \<leftarrow> ss_duplicateTable st (op_ClientId op); Some (reply, st) }
       else do {
         (reply, st) \<leftarrow> sk_applyToStateMachine op (key2shard (op_Key op)) st;
         Some (reply, if op_OpType op \<noteq> OpGet
                      then st\<lparr>ss_duplicateTable := (ss_duplicateTable st)(op_ClientId op \<mapsto> (op_SeqId op, reply))\<rparr>
                      else st) }
     else Some (\<lparr>or_Value = '''', or_Err = ErrWrongGroup\<rparr>, st) }"

section \<open>Configuration changes and migration\<close>

definition setStatus :: "int \<Rightarrow> shard_status \<Rightarrow> (int, shard_mem) go_map \<Rightarrow> (int, shard_mem) go_map option" where
  "setStatus i status shards = do {
     mem \<leftarrow> map_of shards i;
     Some (AList.update i (mem\<lparr>sm_Status := status\<rparr>) shards) }"

text \<open>The loop of \<open>applyNewConfig\<close> over the shards \<open>i, \<dots>, i + n - 1\<close>.\<close>

fun newConfig_loop :: "int \<Rightarrow> int list \<Rightarrow> int list \<Rightarrow> int \<Rightarrow> nat \<Rightarrow> (int, shard_mem) go_map \<Rightarrow>
    (int, shard_mem) go_map option" where
  "newConfig_loop gid cur new i 0 shards = Some shards"
| "newConfig_loop gid cur new i (Suc n) shards = do {
     curGid \<leftarrow> slice_get cur i;
     newGid \<leftarrow> slice_get new i;
     shards \<leftarrow> (if curGid \<noteq> gid \<and> newGid = gid \<and> curGid \<noteq> 0
                then setStatus i MoveIn shards else Some shards);
     shards \<leftarrow> (if curGid = gid \<and> newGid \<noteq> gid \<and> newGid \<noteq> 0
                then setStatus i MoveOut shards else Some shards);
     newConfig_loop gid cur new (i + 1) n shards }"

definition sk_applyNewConfig :: "config \<Rightarrow> shard_state \<Rightarrow> (op_reply \<times> shard_state) option" where
  "sk_applyNewConfig newConfig st =
     (if cf_Num (ss_currentConfig st) + 1 = cf_Num newConfig then do {
        shards \<leftarrow> newConfig_loop (ss_gid st) (cf_Shards (ss_currentConfig st)) (cf_Shards newConfig)
          0 NShards (ss_shards st);
        Some (\<lparr>or_Value = '''', or_Err = OK\<rparr>,
          st\<lparr>ss_shards := shards, ss_prevConfig := ss_currentConfig st, ss_currentConfig := newConfig\<rparr>) }
      else Some (\<lparr>or_Value = '''', or_Err = ErrWrongConfig\<rparr>, st))"

text \<open>
  The loop of \<open>applyShardMigration\<close>, which stops at the first shard that is not awaited;
  the inner loop stores every entry of the received map over the present ones. The order of the
  shards is that of the command; the shards of one reply are all awaited or none of them, so that
  the order in which the code visits them shows only in other replies.
\<close>

fun migrate_loop :: "(int, string \<rightharpoonup> string) go_map \<Rightarrow> (int, shard_mem) go_map \<Rightarrow>
    (int, shard_mem) go_map option" where
  "migrate_loop [] shards = Some shards"
| "migrate_loop ((shardId, shardData) # rest) shards = do {
     mem \<leftarrow> map_of shards shardId;
     if sm_Status mem = MoveIn
     then migrate_loop rest
       (AList.update shardId (mem\<lparr>sm_KV := sm_KV mem ++ shardData, sm_Status := GC\<rparr>) shards)
     else Some shards }"

definition mergeTable :: "op_reply dup_table \<Rightarrow> op_reply dup_table \<Rightarrow> op_reply dup_table" where
  "mergeTable new table = (\<lambda>clientId.
     case new clientId of
       None \<Rightarrow> table clientId
     | Some info \<Rightarrow>
        (case table clientId of
           None \<Rightarrow> Some info
         | Some old \<Rightarrow> if fst old < fst info then Some info else Some old))"

definition sk_applyShardMigration :: "shard_reply \<Rightarrow> shard_state \<Rightarrow> (op_reply \<times> shard_state) option" where
  "sk_applyShardMigration data st = do {
     st \<leftarrow> (if sr_ConfigNum data = cf_Num (ss_currentConfig st) then do {
        shards \<leftarrow> migrate_loop (sr_ShardData data) (ss_shards st);
        Some (st\<lparr>ss_shards := shards,
          ss_duplicateTable := mergeTable (sr_DuplicateTable data) (ss_duplicateTable st)\<rparr>) }
      else Some st);
     Some (\<lparr>or_Value = '''', or_Err = ErrWrongConfig\<rparr>, st) }"

fun gc_loop :: "int list \<Rightarrow> (int, shard_mem) go_map \<Rightarrow> (int, shard_mem) go_map option" where
  "gc_loop [] shards = Some shards"
| "gc_loop (shardId # rest) shards = do {
     mem \<leftarrow> map_of shards shardId;
     if sm_Status mem = GC
     then gc_loop rest (AList.update shardId (mem\<lparr>sm_Status := Normal\<rparr>) shards)
     else if sm_Status mem = MoveOut
     then gc_loop rest (AList.update shardId NewShardMem shards)
     else Some shards }"

definition sk_applyShardGC :: "shard_args \<Rightarrow> shard_state \<Rightarrow> (op_reply \<times> shard_state) option" where
  "sk_applyShardGC info st = do {
     st \<leftarrow> (if sa_ConfigNum info = cf_Num (ss_currentConfig st) then do {
        shards \<leftarrow> gc_loop (sa_ShardIds info) (ss_shards st);
        Some (st\<lparr>ss_shards := shards\<rparr>) }
      else Some st);
     Some (\<lparr>or_Value = '''', or_Err = OK\<rparr>, st) }"

text \<open>\<open>handleConfigChangeMessage\<close>, and the choice in \<open>applyTask\<close> that leads to it.\<close>

definition sk_execute :: "raft_command \<Rightarrow> shard_state \<Rightarrow> (op_reply \<times> shard_state) option" where
  "sk_execute command st =
     (case command of
        ClientOpeartion op \<Rightarrow> sk_applyClientOperation op st
      | ConfigChange newConfig \<Rightarrow> sk_applyNewConfig newConfig st
      | ShardMigration data \<Rightarrow> sk_applyShardMigration data st
      | ShardGC info \<Rightarrow> sk_applyShardGC info st)"

section \<open>The server\<close>

datatype shard_gob =
  GobShards "(int, shard_mem) go_map" | GobDup "op_reply dup_table" | GobConfig config

record shard_kv =
  sk_me :: int
  sk_rf :: "(raft_command, shard_gob) raft"
  sk_maxraftstate :: int
  sk_dead :: bool
  sk_lastApplied :: int
  sk_state :: shard_state
  sk_notifyChans :: "op_reply notify"
  sk_mck :: ctrler_clerk

definition sk_getNotifyChannel :: "int \<Rightarrow> shard_kv \<Rightarrow> nat \<times> shard_kv" where
  "sk_getNotifyChannel index kv =
     (let (ch, nc) = get_chan index (sk_notifyChans kv) in (ch, kv\<lparr>sk_notifyChans := nc\<rparr>))"

definition sk_makeSnapshot :: "shard_state \<Rightarrow> shard_gob list" where
  "sk_makeSnapshot st =
     [GobShards (ss_shards st), GobDup (ss_duplicateTable st), GobConfig (ss_currentConfig st),
      GobConfig (ss_prevConfig st)]"

text \<open>An empty snapshot fills in the shards that are missing.\<close>

definition fillShards :: "(int, shard_mem) go_map \<Rightarrow> (int, shard_mem) go_map" where
  "fillShards shards = fold (\<lambda>i shards.
     if map_of shards (int i) = None then AList.update (int i) NewShardMem shards else shards)
     [0..<NShards] shards"

fun sk_restoreFromSnapshot :: "shard_gob list \<Rightarrow> shard_state \<Rightarrow> shard_state option" where
  "sk_restoreFromSnapshot [] st = Some (st\<lparr>ss_shards := fillShards (ss_shards st)\<rparr>)"
| "sk_restoreFromSnapshot (GobShards shards # GobDup table # GobConfig cur # GobConfig prev # _) st =
     Some (st\<lparr>ss_shards := shards, ss_duplicateTable := table, ss_currentConfig := cur,
              ss_prevConfig := prev\<rparr>)"
| "sk_restoreFromSnapshot _ st = None"

definition sk_applyTask :: "bool \<times> int \<Rightarrow> (raft_command, shard_gob) apply_msg \<Rightarrow> shard_kv \<Rightarrow>
    stop + shard_kv \<times> (int \<times> shard_gob list) option" where
  "sk_applyTask = (\<lambda>(isLeader, bytes) message kv.
     if am_CommandValid message then
       if am_CommandIndex message \<le> sk_lastApplied kv then Inr (kv, None)
       else let index = am_CommandIndex message; kv = kv\<lparr>sk_lastApplied := index\<rparr> in
         (case am_Command message of
            None \<Rightarrow> Inl Panic
          | Some command \<Rightarrow>
             (case sk_execute command (sk_state kv) of
                None \<Rightarrow> Inl Panic
              | Some (opReply, st) \<Rightarrow>
                  let kv = kv\<lparr>sk_state := st\<rparr>;
                      sent = (if isLeader
                              then let (ch, kv) = sk_getNotifyChannel index kv in
                                map_option (\<lambda>nc. kv\<lparr>sk_notifyChans := nc\<rparr>)
                                  (chan_send ch opReply (sk_notifyChans kv))
                              else Some kv)
                  in (case sent of
                        None \<Rightarrow> Inl Blocked
                      | Some kv \<Rightarrow>
                          Inr (kv, if sk_maxraftstate kv \<noteq> -1 \<and> bytes \<ge> sk_maxraftstate kv
                                   then Some (index, sk_makeSnapshot (sk_state kv)) else None))))
     else if am_SnapshotValid message then
       (case sk_restoreFromSnapshot (am_Snapshot message) (sk_state kv) of
          None \<Rightarrow> Inl Panic
        | Some st \<Rightarrow> Inr (kv\<lparr>sk_state := st, sk_lastApplied := am_SnapshotIndex message\<rparr>, None))
     else Inr (kv, None))"

definition emptyShardState :: "int \<Rightarrow> shard_state" where
  "emptyShardState gid =
     \<lparr>ss_gid = gid, ss_shards = [], ss_duplicateTable = Map.empty, ss_currentConfig = DefaultConfig,
      ss_prevConfig = DefaultConfig\<rparr>"

definition sk_StartServer :: "nat \<Rightarrow> int \<Rightarrow> (raft_command, shard_gob) persister \<Rightarrow> int \<Rightarrow> int \<Rightarrow>
    ctrler_clerk \<Rightarrow> shard_kv option" where
  "sk_StartServer nservers self ps maxraftstate gid mck = do {
     st \<leftarrow> sk_restoreFromSnapshot (ps_ReadSnapshot ps) (emptyShardState gid);
     Some \<lparr>sk_me = self, sk_rf = Make nservers self ps, sk_maxraftstate = maxraftstate,
       sk_dead = False, sk_lastApplied = 0, sk_state = st, sk_notifyChans = no_chans, sk_mck = mck\<rparr> }"

definition sk_Kill :: "shard_kv \<Rightarrow> shard_kv" where
  "sk_Kill kv = kv\<lparr>sk_dead := True, sk_rf := Kill (sk_rf kv)\<rparr>"

definition sk_killed :: "shard_kv \<Rightarrow> bool" where
  "sk_killed kv = sk_dead kv"

section \<open>The handlers\<close>

definition sk_start :: "raft_command \<Rightarrow> shard_kv \<Rightarrow> int option \<times> shard_kv" where
  "sk_start command kv =
     (let ((index, _, isLeader), rf) = Start (Some command) (sk_rf kv)
      in (if isLeader then Some index else None, kv\<lparr>sk_rf := rf\<rparr>))"

definition sk_Get_step :: "bool \<Rightarrow> string \<Rightarrow> op_reply handler_pc \<Rightarrow> shard_kv \<Rightarrow>
    (op_reply handler_pc \<times> shard_kv) option" where
  "sk_Get_step timer key pc kv =
     (if pc = HCheck then do {
        mine \<leftarrow> sk_matchGroup key (sk_state kv);
        Some (if \<not> mine then (HDone \<lparr>or_Value = '''', or_Err = ErrWrongGroup\<rparr>, kv) else (HStart, kv)) }
      else if pc = HStart then
        Some (case sk_start (ClientOpeartion \<lparr>op_Key = key, op_Value = '''', op_OpType = OpGet,
                 op_ClientId = 0, op_SeqId = 0\<rparr>) kv of
            (None, kv) \<Rightarrow> (HDone \<lparr>or_Value = '''', or_Err = ErrWrongLeader\<rparr>, kv)
          | (Some index, kv) \<Rightarrow> (HRegister index, kv))
      else let (pc, nc) = await timer (\<lambda>r. \<lparr>or_Value = or_Value r, or_Err = or_Err r\<rparr>)
                 \<lparr>or_Value = '''', or_Err = ErrTimeout\<rparr> pc (sk_notifyChans kv)
           in Some (pc, kv\<lparr>sk_notifyChans := nc\<rparr>))"

definition sk_PutAppend_step :: "bool \<Rightarrow> put_append_args \<Rightarrow> err handler_pc \<Rightarrow> shard_kv \<Rightarrow>
    (err handler_pc \<times> shard_kv) option" where
  "sk_PutAppend_step timer args pc kv =
     (if pc = HCheck then do {
        mine \<leftarrow> sk_matchGroup (pa_Key args) (sk_state kv);
        if \<not> mine then Some (HDone ErrWrongGroup, kv)
        else if sk_requestDuplicated (pa_ClientId args) (pa_SeqId args) (ss_duplicateTable (sk_state kv))
        then do {
          (_, opReply) \<leftarrow> ss_duplicateTable (sk_state kv) (pa_ClientId args);
          Some (HDone (or_Err opReply), kv) }
        else Some (HStart, kv) }
      else if pc = HStart then do {
        opType \<leftarrow> getOperationType (pa_Op args);
        Some (case sk_start (ClientOpeartion \<lparr>op_Key = pa_Key args, op_Value = pa_Value args,
                 op_OpType = opType, op_ClientId = pa_ClientId args, op_SeqId = pa_SeqId args\<rparr>) kv of
            (None, kv) \<Rightarrow> (HDone ErrWrongLeader, kv)
          | (Some index, kv) \<Rightarrow> (HRegister index, kv)) }
      else let (pc, nc) = await timer or_Err ErrTimeout pc (sk_notifyChans kv)
           in Some (pc, kv\<lparr>sk_notifyChans := nc\<rparr>))"

text \<open>\<open>ConfigCommand\<close> begins with the start of its command.\<close>

definition sk_ConfigCommand_step :: "bool \<Rightarrow> raft_command \<Rightarrow> op_reply handler_pc \<Rightarrow> shard_kv \<Rightarrow>
    op_reply handler_pc \<times> shard_kv" where
  "sk_ConfigCommand_step timer command pc kv =
     (if pc = HCheck then (HStart, kv)
      else if pc = HStart then
        (case sk_start command kv of
           (None, kv) \<Rightarrow> (HDone \<lparr>or_Value = '''', or_Err = ErrWrongLeader\<rparr>, kv)
         | (Some index, kv) \<Rightarrow> (HRegister index, kv))
      else let (pc, nc) = await timer (\<lambda>r. \<lparr>or_Value = or_Value r, or_Err = or_Err r\<rparr>)
                 \<lparr>or_Value = '''', or_Err = ErrTimeout\<rparr> pc (sk_notifyChans kv)
           in (pc, kv\<lparr>sk_notifyChans := nc\<rparr>))"

section \<open>The background tasks\<close>

text \<open>
  A round of a task, as a function of what it sees: \<open>isLeader\<close> is the answer of
  \<open>GetState\<close>. The result is the commands that the round passes to \<open>ConfigCommand\<close>.
\<close>

definition needFetch :: "shard_state \<Rightarrow> bool" where
  "needFetch st = (\<not> (\<exists>(_, mem) \<in> set (ss_shards st). sm_Status mem \<noteq> Normal))"

definition fetchConfigTask_round :: "bool \<Rightarrow> (int \<Rightarrow> config) \<Rightarrow> shard_state \<Rightarrow> raft_command list" where
  "fetchConfigTask_round isLeader query st =
     (if isLeader \<and> needFetch st
      then let currentNum = cf_Num (ss_currentConfig st); newConfig = query (currentNum + 1)
           in if cf_Num newConfig = currentNum + 1 then [ConfigChange newConfig] else []
      else [])"

fun shardByStatus_loop :: "shard_status \<Rightarrow> int list \<Rightarrow> (int, shard_mem) go_map \<Rightarrow> (int, int list) go_map \<Rightarrow>
    (int, int list) go_map option" where
  "shardByStatus_loop status prev [] gidToShards = Some gidToShards"
| "shardByStatus_loop status prev ((i, mem) # rest) gidToShards =
     (if sm_Status mem = status then do {
        gid \<leftarrow> slice_get prev i;
        shardByStatus_loop status prev rest
          (if gid \<noteq> 0 then AList.update gid (gm_get [] gidToShards gid @ [i]) gidToShards else gidToShards) }
      else shardByStatus_loop status prev rest gidToShards)"

definition sk_getShardByStatus :: "shard_status \<Rightarrow> shard_state \<Rightarrow> (int, int list) go_map option" where
  "sk_getShardByStatus status st =
     shardByStatus_loop status (cf_Shards (ss_prevConfig st)) (ss_shards st) []"

text \<open>
  The goroutine that \<open>shardMigrationTask\<close> starts for one group asks its servers one by one;
  \<open>call server args\<close> is the reply of a server, \<open>None\<close> when the call fails.
\<close>

definition migration_calls :: "(string \<Rightarrow> shard_args \<Rightarrow> shard_reply option) \<Rightarrow> string list \<Rightarrow> int \<Rightarrow>
    int list \<Rightarrow> raft_command list" where
  "migration_calls call servers configNum shardIds =
     concat (map (\<lambda>server.
       case call server \<lparr>sa_ConfigNum = configNum, sa_ShardIds = shardIds\<rparr> of
         Some reply \<Rightarrow> if sr_Err reply = OK then [ShardMigration reply] else []
       | None \<Rightarrow> []) servers)"

definition gc_calls :: "(string \<Rightarrow> shard_args \<Rightarrow> shard_reply option) \<Rightarrow> string list \<Rightarrow> int \<Rightarrow>
    int list \<Rightarrow> raft_command list" where
  "gc_calls call servers configNum shardIds =
     (let args = \<lparr>sa_ConfigNum = configNum, sa_ShardIds = shardIds\<rparr> in
      concat (map (\<lambda>server.
        case call server args of
          Some reply \<Rightarrow> if sr_Err reply = OK then [ShardGC args] else []
        | None \<Rightarrow> []) servers))"

definition shardMigrationTask_round :: "bool \<Rightarrow> (string \<Rightarrow> shard_args \<Rightarrow> shard_reply option) \<Rightarrow>
    shard_state \<Rightarrow> raft_command list option" where
  "shardMigrationTask_round isLeader call st =
     (if isLeader then do {
        gidToShards \<leftarrow> sk_getShardByStatus MoveIn st;
        Some (concat (map (\<lambda>(gid, shardIds).
          migration_calls call (gm_get [] (cf_Groups (ss_prevConfig st)) gid)
            (cf_Num (ss_currentConfig st)) shardIds) gidToShards)) }
      else Some [])"

definition shardGCTask_round :: "bool \<Rightarrow> (string \<Rightarrow> shard_args \<Rightarrow> shard_reply option) \<Rightarrow>
    shard_state \<Rightarrow> raft_command list option" where
  "shardGCTask_round isLeader call st =
     (if isLeader then do {
        gidToShards \<leftarrow> sk_getShardByStatus GC st;
        Some (concat (map (\<lambda>(gid, shardIds).
          gc_calls call (gm_get [] (cf_Groups (ss_prevConfig st)) gid)
            (cf_Num (ss_currentConfig st)) shardIds) gidToShards)) }
      else Some [])"

section \<open>Remote access to shards\<close>

fun copyShards :: "int list \<Rightarrow> (int, shard_mem) go_map \<Rightarrow> (int, string \<rightharpoonup> string) go_map \<Rightarrow>
    (int, string \<rightharpoonup> string) go_map option" where
  "copyShards [] shards data = Some data"
| "copyShards (shardId # ids) shards data = do {
     mem \<leftarrow> map_of shards shardId;
     copyShards ids shards (AList.update shardId (sm_copyData mem) data) }"

text \<open>The zero value of the reply, of which the early returns only set \<open>Err\<close>.\<close>

definition shard_error :: "err \<Rightarrow> shard_reply" where
  "shard_error e = \<lparr>sr_Err = e, sr_ConfigNum = 0, sr_ShardData = [], sr_DuplicateTable = Map.empty\<rparr>"

definition sk_GetShardsData :: "bool \<Rightarrow> shard_args \<Rightarrow> shard_state \<Rightarrow> shard_reply option" where
  "sk_GetShardsData isLeader args st =
     (if \<not> isLeader then Some (shard_error ErrWrongLeader)
      else if cf_Num (ss_currentConfig st) < sa_ConfigNum args then Some (shard_error ErrNotReady)
      else do {
        data \<leftarrow> copyShards (sa_ShardIds args) (ss_shards st) [];
        Some \<lparr>sr_Err = OK, sr_ConfigNum = sa_ConfigNum args, sr_ShardData = data,
              sr_DuplicateTable = (\<lambda>c. map_option li_copyData (ss_duplicateTable st c))\<rparr> })"

text \<open>
  \<open>DeleteShardsData\<close> answers at once, or passes a command to \<open>ConfigCommand\<close> and answers
  with the error that it returns.
\<close>

definition sk_DeleteShardsData :: "bool \<Rightarrow> shard_args \<Rightarrow> shard_state \<Rightarrow> err + raft_command" where
  "sk_DeleteShardsData isLeader args st =
     (if \<not> isLeader then Inl ErrWrongLeader
      else if cf_Num (ss_currentConfig st) > sa_ConfigNum args then Inl OK
      else Inr (ShardGC args))"

section \<open>The clerk\<close>

record shard_clerk =
  kc_config :: config
  kc_leaderIds :: "int \<rightharpoonup> int"
  kc_clientId :: int
  kc_seqId :: int

definition kc_MakeClerk :: "int \<Rightarrow> shard_clerk" where
  "kc_MakeClerk nrand =
     \<lparr>kc_config = \<lparr>cf_Num = 0, cf_Shards = replicate NShards 0, cf_Groups = []\<rparr>,
      kc_leaderIds = Map.empty, kc_clientId = nrand, kc_seqId = 0\<rparr>"

text \<open>
  The inner loop over the servers of a group, starting at \<open>old\<close>. \<open>call n s\<close> is the answer
  of server \<open>s\<close> to call number \<open>n\<close>, \<open>error\<close> its error and \<open>fin\<close> whether it ends the
  request. An answer that is neither final nor asks to go elsewhere is simply asked for again.
\<close>

datatype 'r tried = Returned 'r | GaveUp | Crashed

partial_function (option) kc_try :: "(nat \<Rightarrow> string \<Rightarrow> 'r option) \<Rightarrow> ('r \<Rightarrow> err) \<Rightarrow> (err \<Rightarrow> bool) \<Rightarrow>
    string list \<Rightarrow> int \<Rightarrow> nat \<Rightarrow> int \<Rightarrow> ('r tried \<times> nat \<times> int) option" where
  "kc_try call error fin servers old n leader =
     (case slice_get servers leader of
        None \<Rightarrow> Some (Crashed, n, leader)
      | Some srv \<Rightarrow>
         (case call n srv of
            Some reply \<Rightarrow>
              if fin (error reply) then Some (Returned reply, Suc n, leader)
              else if error reply = ErrWrongGroup then Some (GaveUp, Suc n, leader)
              else if try_again (error reply)
              then let l = (leader + 1) mod int (length servers) in
                if l = old then Some (GaveUp, Suc n, l) else kc_try call error fin servers old (Suc n) l
              else kc_try call error fin servers old (Suc n) leader
          | None \<Rightarrow>
              let l = (leader + 1) mod int (length servers) in
              if l = old then Some (GaveUp, Suc n, l) else kc_try call error fin servers old (Suc n) l))"

text \<open>
  The outer loop, which asks the controller for the newest configuration between two rounds;
  \<open>query n\<close> is what it answers after \<open>n\<close> calls. A crash is \<open>Crashed\<close>, a loop that never
  ends \<open>None\<close>.
\<close>

partial_function (option) kc_loop :: "(nat \<Rightarrow> string \<Rightarrow> 'r option) \<Rightarrow> ('r \<Rightarrow> err) \<Rightarrow> (err \<Rightarrow> bool) \<Rightarrow>
    (nat \<Rightarrow> config) \<Rightarrow> string \<Rightarrow> nat \<Rightarrow> shard_clerk \<Rightarrow> ('r tried \<times> shard_clerk) option" where
  "kc_loop call error fin query key n ck =
     (case slice_get (cf_Shards (kc_config ck)) (key2shard key) of
        None \<Rightarrow> Some (Crashed, ck)
      | Some gid \<Rightarrow>
         (case map_of (cf_Groups (kc_config ck)) gid of
            None \<Rightarrow> kc_loop call error fin query key (Suc n) (ck\<lparr>kc_config := query (Suc n)\<rparr>)
          | Some servers \<Rightarrow>
              let old = (case kc_leaderIds ck gid of Some l \<Rightarrow> l | None \<Rightarrow> 0) in
              Option.bind (kc_try call error fin servers old n old) (\<lambda>(r, n, l).
                let ck = ck\<lparr>kc_leaderIds := (kc_leaderIds ck)(gid \<mapsto> l)\<rparr> in
                if r = GaveUp
                then kc_loop call error fin query key (Suc n) (ck\<lparr>kc_config := query (Suc n)\<rparr>)
                else Some (r, ck))))"

definition kc_Get :: "(string \<Rightarrow> nat \<Rightarrow> string \<Rightarrow> op_reply option) \<Rightarrow> (nat \<Rightarrow> config) \<Rightarrow> string \<Rightarrow> shard_clerk \<Rightarrow>
    (op_reply tried \<times> shard_clerk) option" where
  "kc_Get call query key ck =
     kc_loop (call key) or_Err (\<lambda>e. e = OK \<or> e = ErrNoKey) query key 0 ck"

definition kc_PutAppend :: "(put_append_args \<Rightarrow> nat \<Rightarrow> string \<Rightarrow> err option) \<Rightarrow> (nat \<Rightarrow> config) \<Rightarrow>
    string \<Rightarrow> string \<Rightarrow> string \<Rightarrow> shard_clerk \<Rightarrow> (err tried \<times> shard_clerk) option" where
  "kc_PutAppend call query key value op ck =
     (let args = \<lparr>pa_Key = key, pa_Value = value, pa_Op = op, pa_ClientId = kc_clientId ck,
                  pa_SeqId = kc_seqId ck\<rparr>
      in map_option (\<lambda>(r, ck). (r, if r = Crashed then ck else ck\<lparr>kc_seqId := kc_seqId ck + 1\<rparr>))
        (kc_loop (call args) id (\<lambda>e. e = OK) query key 0 ck))"

definition kc_Put :: "(put_append_args \<Rightarrow> nat \<Rightarrow> string \<Rightarrow> err option) \<Rightarrow> (nat \<Rightarrow> config) \<Rightarrow>
    string \<Rightarrow> string \<Rightarrow> shard_clerk \<Rightarrow> (err tried \<times> shard_clerk) option" where
  "kc_Put call query key value ck = kc_PutAppend call query key value ''Put'' ck"

definition kc_Append :: "(put_append_args \<Rightarrow> nat \<Rightarrow> string \<Rightarrow> err option) \<Rightarrow> (nat \<Rightarrow> config) \<Rightarrow>
    string \<Rightarrow> string \<Rightarrow> shard_clerk \<Rightarrow> (err tried \<times> shard_clerk) option" where
  "kc_Append call query key value ck = kc_PutAppend call query key value ''Append'' ck"

section \<open>Keys and shards\<close>

text \<open>Every key belongs to one of the shards \<open>0, \<dots>, NShards - 1\<close>, and every shard has keys.\<close>

lemma key2shard_bounds:
  "0 \<le> key2shard key \<and> key2shard key < int NShards \<and>
   (s < NShards \<longrightarrow> (\<exists>key. key2shard key = int s))"
proof -
  have "(of_char (char_of s :: char) :: int) = int (s mod 256)"
    using of_nat_of_char[of "char_of s :: char", where ?'a = int] by (simp add: of_char_of)
  then have "key2shard [char_of s] = int s" if "s < NShards"
    using that by (simp add: key2shard_def NShards_def)
  then have "s < NShards \<longrightarrow> (\<exists>key. key2shard key = int s)"
    by blast
  moreover have "0 \<le> key2shard key" "key2shard key < int NShards"
    by (simp_all add: key2shard_def NShards_def Let_def)
  ultimately show ?thesis
    by blast
qed

section \<open>Termination of the clerk's round\<close>

text \<open>
  A clerk's round over the servers of a group ends: started at a valid leader, and with
  servers that never give an answer outside the ones the loop expects, it makes at most one
  call per server before it returns or gives up, and it does not crash.
\<close>

lemma kc_try_ends:
  assumes "0 \<le> old" "old < int (length servers)"
    and "\<forall>n s reply. call n s = Some reply \<longrightarrow>
      fin (error reply) \<or> error reply = ErrWrongGroup \<or> try_again (error reply)"
  shows "\<exists>r n' l. kc_try call error fin servers old n old = Some (r, n', l) \<and> r \<noteq> Crashed \<and>
    n < n' \<and> n' \<le> n + length servers \<and> 0 \<le> l \<and> l < int (length servers)"
proof -
  let ?m = "int (length servers)"
  have step: "\<exists>r n' l'. kc_try call error fin servers old n l = Some (r, n', l') \<and> r \<noteq> Crashed \<and>
      n < n' \<and> n' \<le> n + nat d \<and> 0 \<le> l' \<and> l' < ?m"
    if "0 \<le> l" "l < ?m" "d = (if l < old then old - l else ?m + old - l)" for n l d
    using that
  proof (induction "nat d" arbitrary: n l d rule: less_induct)
    case less
    let ?next = "(l + 1) mod ?m"
    obtain srv where srv: "slice_get servers l = Some srv"
      using less.prems by simp
    have d: "0 < d"
      using less.prems assms(1,2) by (auto split: if_splits)
    have again: "\<exists>r n' l'. (if ?next = old then Some (GaveUp, Suc n, ?next)
        else kc_try call error fin servers old (Suc n) ?next) = Some (r, n', l') \<and> r \<noteq> Crashed \<and>
        n < n' \<and> n' \<le> n + nat d \<and> 0 \<le> l' \<and> l' < ?m"
    proof (cases "?next = old")
      case True
      then show ?thesis
        using assms(1,2) d by auto
    next
      case False
      let ?d = "if ?next < old then old - ?next else ?m + old - ?next"
      have n: "0 \<le> ?next" "?next < ?m"
        using pos_mod_sign[of ?m "l + 1"] pos_mod_bound[of ?m "l + 1"] less.prems(1,2) by linarith+
      have eq: "?d = d - 1"
        using False less.prems assms(1,2) by (cases "l + 1 = ?m") auto
      then have "nat ?d < nat d"
        using d by linarith
      then have IH: "\<exists>r n' l'. kc_try call error fin servers old (Suc n) ?next = Some (r, n', l') \<and>
          r \<noteq> Crashed \<and> Suc n < n' \<and> n' \<le> Suc n + nat ?d \<and> 0 \<le> l' \<and> l' < ?m"
        by (rule less.hyps[OF _ n refl])
      have "Suc n + nat ?d = n + nat d"
        using eq d by linarith
      then show ?thesis
        using IH False by fastforce
    qed
    show ?case
    proof (cases "call n srv")
      case None
      then show ?thesis
        using again srv by (subst kc_try.simps) (simp add: Let_def)
    next
      case (Some reply)
      consider "fin (error reply)" | "\<not> fin (error reply)" "error reply = ErrWrongGroup"
        | "\<not> fin (error reply)" "error reply \<noteq> ErrWrongGroup" "try_again (error reply)"
        using assms(3) Some by blast
      then show ?thesis
      proof cases
        case 1
        then show ?thesis
          using srv Some less.prems(1,2) d by (subst kc_try.simps) simp
      next
        case 2
        then show ?thesis
          using srv Some less.prems(1,2) d by (subst kc_try.simps) simp
      next
        case 3
        then show ?thesis
          using srv Some again by (subst kc_try.simps) (simp add: Let_def)
      qed
    qed
  qed
  show ?thesis
    using step[of old "?m" n] assms(1,2) by auto
qed

section \<open>The duplicate table and the log\<close>

text \<open>
  While the configuration stays, a request of a client either concerns a shard the server
  does not serve, or goes through the duplicate table as in \<open>Kv_Server\<close>.
\<close>

definition sk_exec :: "kv_op \<Rightarrow> shard_state \<Rightarrow> (op_reply \<times> shard_state) option" where
  "sk_exec op st = do {
     mine \<leftarrow> sk_matchGroup (op_Key op) st;
     if mine then sk_applyToStateMachine op (key2shard (op_Key op)) st
     else Some (\<lparr>or_Value = '''', or_Err = ErrWrongGroup\<rparr>, st) }"

definition sk_handle :: "kv_op \<Rightarrow> shard_state \<times> op_reply dup_table \<Rightarrow>
    (op_reply \<times> shard_state \<times> op_reply dup_table) option" where
  "sk_handle op = (\<lambda>(st, t). map_option
     (\<lambda>(r, st'). (r, st'\<lparr>ss_duplicateTable := ss_duplicateTable st\<rparr>, ss_duplicateTable st'))
     (sk_applyClientOperation op (st\<lparr>ss_duplicateTable := t\<rparr>)))"

lemma sk_matchGroup_table [simp]:
  "sk_matchGroup key (st\<lparr>ss_duplicateTable := t\<rparr>) = sk_matchGroup key st"
  by (simp add: sk_matchGroup_def)

lemma sk_apply_table:
  "sk_applyToStateMachine op i (st\<lparr>ss_duplicateTable := t\<rparr>) =
     map_option (\<lambda>(r, st'). (r, st'\<lparr>ss_duplicateTable := t\<rparr>)) (sk_applyToStateMachine op i st)"
  by (cases "map_of (ss_shards st) i")
    (auto simp: sk_applyToStateMachine_def split: op_type.splits prod.splits)

lemma sk_apply_cases:
  assumes "sk_applyToStateMachine op i st = Some (r, st')"
  obtains mem mem' where "map_of (ss_shards st) i = Some mem" "sm_Status mem' = sm_Status mem"
    "st' = st \<or> st' = st\<lparr>ss_shards := AList.update i mem' (ss_shards st)\<rparr>"
    "op_OpType op \<noteq> OpGet \<Longrightarrow> st' = st\<lparr>ss_shards := AList.update i mem' (ss_shards st)\<rparr>"
    "sm_KV mem' = (case op_OpType op of OpGet \<Rightarrow> sm_KV mem
       | OpPut \<Rightarrow> (sm_KV mem)(op_Key op \<mapsto> op_Value op)
       | OpAppend \<Rightarrow> (sm_KV mem)(op_Key op \<mapsto>
           (case sm_KV mem (op_Key op) of Some old \<Rightarrow> old | None \<Rightarrow> []) @ op_Value op))"
proof -
  obtain mem where mem: "map_of (ss_shards st) i = Some mem"
    using assms by (cases "map_of (ss_shards st) i") (auto simp: sk_applyToStateMachine_def)
  show ?thesis
  proof (cases "op_OpType op")
    case OpGet
    show ?thesis
      by (rule that[of mem mem])
        (use assms mem OpGet in \<open>auto simp: sk_applyToStateMachine_def split: prod.splits\<close>)
  next
    case OpPut
    show ?thesis
      by (rule that[of mem "snd (sm_Put (op_Key op) (op_Value op) mem)"])
        (use assms mem OpPut in \<open>auto simp: sk_applyToStateMachine_def sm_Put_def\<close>)
  next
    case OpAppend
    show ?thesis
      by (rule that[of mem "snd (sm_Append (op_Key op) (op_Value op) mem)"])
        (use assms mem OpAppend in \<open>auto simp: sk_applyToStateMachine_def sm_Append_def\<close>)
  qed
qed

lemma sk_apply_frame:
  assumes "sk_applyToStateMachine op i st = Some (r, st')"
  shows "ss_gid st' = ss_gid st" "ss_duplicateTable st' = ss_duplicateTable st"
    "ss_currentConfig st' = ss_currentConfig st" "ss_prevConfig st' = ss_prevConfig st"
    "map_option sm_Status (map_of (ss_shards st') j) = map_option sm_Status (map_of (ss_shards st) j)"
    "j \<noteq> i \<Longrightarrow> map_of (ss_shards st') j = map_of (ss_shards st) j"
  by (rule sk_apply_cases[OF assms], auto simp: AList.update_conv')+

lemma sk_matchGroup_cong:
  assumes "ss_gid st' = ss_gid st" "ss_currentConfig st' = ss_currentConfig st"
    and "\<And>j. map_option sm_Status (map_of (ss_shards st') j) = map_option sm_Status (map_of (ss_shards st) j)"
  shows "sk_matchGroup key st' = sk_matchGroup key st"
  using assms(1,2) assms(3)[of "key2shard key"]
  by (cases "map_of (ss_shards st) (key2shard key)"; cases "map_of (ss_shards st') (key2shard key)")
    (auto simp: sk_matchGroup_def)

lemma sk_handle_served:
  assumes "sk_matchGroup (op_Key op) st = Some True"
  shows "sk_handle op (st, t) =
    (if op_OpType op \<noteq> OpGet \<and> sk_requestDuplicated (op_ClientId op) (op_SeqId op) t
     then map_option (\<lambda>(_, r). (r, st, t)) (t (op_ClientId op))
     else map_option (\<lambda>(r, st'). (r, st', if op_OpType op \<noteq> OpGet
             then t(op_ClientId op \<mapsto> (op_SeqId op, r)) else t))
           (sk_applyToStateMachine op (key2shard (op_Key op)) st))"
proof (cases "op_OpType op \<noteq> OpGet \<and> sk_requestDuplicated (op_ClientId op) (op_SeqId op) t")
  case True
  then show ?thesis
    using assms by (cases "t (op_ClientId op)") (auto simp: sk_handle_def sk_applyClientOperation_def)
next
  case False
  show ?thesis
  proof (cases "sk_applyToStateMachine op (key2shard (op_Key op)) st")
    case None
    then show ?thesis
      using assms False by (auto simp: sk_handle_def sk_applyClientOperation_def sk_apply_table)
  next
    case (Some x)
    obtain r st' where x: "x = (r, st')"
      by fastforce
    have "st'\<lparr>ss_duplicateTable := ss_duplicateTable st\<rparr> = st'"
      using sk_apply_frame(2)[of op "key2shard (op_Key op)" st r st'] Some x by (cases st') simp
    then show ?thesis
      using assms False Some x by (auto simp: sk_handle_def sk_applyClientOperation_def sk_apply_table)
  qed
qed

lemma sk_handle_other:
  "sk_matchGroup (op_Key op) st \<noteq> Some True \<Longrightarrow>
   sk_handle op (st, t) = map_option (\<lambda>(r, st'). (r, st', t)) (sk_exec op st)"
  by (cases "sk_matchGroup (op_Key op) st") (auto simp: sk_handle_def sk_applyClientOperation_def sk_exec_def)

lemma sk_exec_match:
  assumes "sk_exec op st = Some (r, st')"
  shows "sk_matchGroup key st' = sk_matchGroup key st"
proof (cases "sk_matchGroup (op_Key op) st = Some True")
  case True
  then have "sk_applyToStateMachine op (key2shard (op_Key op)) st = Some (r, st')"
    using assms by (simp add: sk_exec_def)
  then show ?thesis
    by (intro sk_matchGroup_cong sk_apply_frame(1,3,5))
next
  case False
  then show ?thesis
    using assms by (cases "sk_matchGroup (op_Key op) st") (auto simp: sk_exec_def)
qed

interpretation sk_table: dedup_service
  "\<lambda>op st. op_OpType op = OpGet \<or> sk_matchGroup (op_Key op) st \<noteq> Some True"
  op_ClientId op_SeqId sk_exec sk_handle
proof unfold_locales
  fix op :: kv_op and st and t :: "op_reply dup_table"
  assume plain: "op_OpType op = OpGet \<or> sk_matchGroup (op_Key op) st \<noteq> Some True"
  show "sk_handle op (st, t) = map_option (\<lambda>(r, s'). (r, s', t)) (sk_exec op st)"
  proof (cases "sk_matchGroup (op_Key op) st = Some True")
    case True
    then show ?thesis
      using plain sk_handle_served[OF True, of t] by (simp add: sk_exec_def)
  qed (rule sk_handle_other)
  fix r st'
  assume "sk_exec op st = Some (r, st')"
  then show "st' = st"
    using plain by (cases "sk_matchGroup (op_Key op) st")
      (auto simp: sk_exec_def sk_applyToStateMachine_def case_prod_beta Let_def split: if_splits)
next
  fix op :: kv_op and st and t :: "op_reply dup_table"
  assume served: "\<not> (op_OpType op = OpGet \<or> sk_matchGroup (op_Key op) st \<noteq> Some True)"
  then have match: "sk_matchGroup (op_Key op) st = Some True"
    by simp
  show "t (op_ClientId op) = None \<or> fst (the (t (op_ClientId op))) < op_SeqId op \<Longrightarrow>
      sk_handle op (st, t) =
        map_option (\<lambda>(r, s'). (r, s', t(op_ClientId op \<mapsto> (op_SeqId op, r)))) (sk_exec op st)"
    using served sk_handle_served[OF match, of t] match
    by (cases "t (op_ClientId op)") (simp_all add: sk_exec_def sk_requestDuplicated_def split: prod.splits)
  show "t (op_ClientId op) = Some (n, r) \<Longrightarrow> op_SeqId op \<le> n \<Longrightarrow> sk_handle op (st, t) = Some (r, st, t)" for n r
    using served sk_handle_served[OF match, of t] by (simp add: sk_requestDuplicated_def)
qed (simp add: sk_exec_match)

text \<open>A server of group \<open>g\<close> at work on the messages of its peer, and its snapshots.\<close>

definition sk_round :: "int \<Rightarrow> bool \<times> int \<Rightarrow> (raft_command, shard_gob) apply_msg \<Rightarrow> shard_kv \<Rightarrow> shard_kv option" where
  "sk_round g e m kv =
     (if ss_gid (sk_state kv) = g
      then case sk_applyTask e m kv of Inr (kv, _) \<Rightarrow> Some kv | Inl _ \<Rightarrow> None else None)"

abbreviation sk_snap :: "int \<Rightarrow> shard_state \<Rightarrow> shard_gob list \<Rightarrow> bool" where
  "sk_snap g st b \<equiv> ss_gid st = g \<and> b = sk_makeSnapshot st"

lemma sk_restore_make:
  "ss_gid st = ss_gid st' \<Longrightarrow> sk_restoreFromSnapshot (sk_makeSnapshot st) st' = Some st"
  by (cases st; cases st') (simp add: sk_makeSnapshot_def)

interpretation sk_client: log_client "sk_round g" sk_lastApplied sk_state sk_execute "sk_snap g" for g
proof unfold_locales
  fix m c e kv kv'
  assume "am_CommandValid m" "sk_lastApplied kv < am_CommandIndex m" "am_Command m = Some c"
    and "sk_round g e m kv = Some kv'"
  then show "sk_lastApplied kv' = am_CommandIndex m \<and>
      (\<exists>r. sk_execute c (sk_state kv) = Some (r, sk_state kv'))"
    by (auto simp: sk_round_def sk_applyTask_def sk_getNotifyChannel_def Let_def
        split: sum.splits prod.splits option.splits if_splits)
next
  fix m e kv kv' st
  assume "\<not> am_CommandValid m" "am_SnapshotValid m" "sk_snap g st (am_Snapshot m)"
    and "sk_round g e m kv = Some kv'"
  then show "sk_lastApplied kv' = am_SnapshotIndex m \<and> sk_state kv' = st"
    using sk_restore_make[of st "sk_state kv"]
    by (auto simp: sk_round_def sk_applyTask_def split: sum.splits prod.splits option.splits if_splits)
qed (auto simp: sk_round_def sk_applyTask_def split: if_splits prod.splits)

text \<open>The state a server of group \<open>g\<close> begins with when it has no snapshot.\<close>

definition sk_init :: "int \<Rightarrow> shard_state" where
  "sk_init g = (emptyShardState g)\<lparr>ss_shards := fillShards []\<rparr>"

lemma sk_StartServer_state:
  assumes "sk_snap g st (ps_ReadSnapshot ps) \<or> ps_ReadSnapshot ps = [] \<and> st = sk_init g"
  shows "\<exists>kv. sk_StartServer n i ps mrs g mck = Some kv \<and> sk_state kv = st \<and> sk_lastApplied kv = 0 \<and>
    sk_rf kv = Make n i ps"
  using assms sk_restore_make[of st "emptyShardState g"]
  by (auto simp: sk_StartServer_def sk_init_def) (simp_all add: emptyShardState_def)

text \<open>
  (C15) Every server of a group holds the state of a prefix of the group's log: shards,
  duplicate table and configurations are what executing the first \<open>k\<close> commands gives, and
  \<open>k\<close> is at least the index its peer has delivered, also after restarts and rollbacks to
  snapshots. The messages are those of a run of the peer in which no snapshot is overtaken by a
  newer one while it is sent, and are assumed to agree with the log \<open>cmds\<close> that the group has
  committed.
\<close>

theorem shard_replica_state:
  assumes "ps = MakePersister \<or> ps = persister (persistLocked rf0)"
    and "after sk_execute (sk_init g) cmds (lastApplied (Make n i ps)) st"
    and "sk_snap g st (ps_ReadSnapshot ps) \<or> ps_ReadSnapshot ps = [] \<and> st = sk_init g"
    and "sk_StartServer n i ps mrs g mck = Some kv"
    and "app_run (Make n i ps) ms rf d"
    and "\<forall>m \<in> set ms. agrees cmds sk_execute (sk_init g) (sk_snap g) m"
    and "length es = length ms" "deliver (sk_round g) (zip es ms) kv = Some kv'"
  shows "\<exists>k \<ge> d. after sk_execute (sk_init g) cmds k (sk_state kv')"
proof -
  have gap: "gap_free (lastApplied (Make n i ps)) ms" "d = foldl reached (lastApplied (Make n i ps)) ms"
    using app_run_inv[OF assms(5) app_inv_Make[OF assms(1)]] by auto
  have "sk_state kv = st" "sk_lastApplied kv = 0"
    using sk_StartServer_state[OF assms(3), of n i mrs mck] assms(4) by auto
  then have "sk_client.follows cmds (sk_init g) (lastApplied (Make n i ps)) kv"
    using assms(2) unfolding sk_client.follows_def by (simp add: after_def max_absorb1)
  then have "sk_client.follows cmds (sk_init g) d kv'"
    using sk_client.deliver_follows[OF assms(8), of "lastApplied (Make n i ps)" cmds "sk_init g"]
      gap assms(6,7) by simp
  then show ?thesis
    unfolding sk_client.follows_def by (intro exI[of _ "max d (sk_lastApplied kv')"]) simp
qed

theorem shard_replica_state_witness:
  "\<exists>ms (rf :: (raft_command, shard_gob) raft) kv kv' k.
     app_run (Make 3 0 MakePersister) ms rf 1 \<and>
     sk_StartServer 3 0 MakePersister 100 7 (cc_MakeClerk 3 1) = Some kv \<and>
     deliver (sk_round 7) (zip [(False, 0)] ms) kv = Some kv' \<and> 1 \<le> k \<and>
     after sk_execute (sk_init 7) [ShardGC \<lparr>sa_ConfigNum = 5, sa_ShardIds = [1]\<rparr>] k (sk_state kv')"
proof -
  let ?c = "ShardGC \<lparr>sa_ConfigNum = 5, sa_ShardIds = [1]\<rparr>"
  obtain m :: "(raft_command, shard_gob) apply_msg" and rf where
    m: "app_run (Make 3 0 MakePersister) [m] rf 1"
      "am_CommandValid m" "\<not> am_SnapshotValid m" "am_CommandIndex m = 1" "am_Command m = Some ?c"
    using app_run_one_command[of ?c] by blast
  have ps: "ps_ReadSnapshot (MakePersister :: (raft_command, shard_gob) persister) = []"
    by (simp add: MakePersister_def ps_ReadSnapshot_def)
  obtain kv where kv: "sk_StartServer 3 0 MakePersister 100 7 (cc_MakeClerk 3 1) = Some kv"
      "sk_state kv = sk_init 7" "sk_lastApplied kv = 0"
    using sk_StartServer_state[where g = 7 and st = "sk_init 7" and ps = MakePersister and n = 3 and i = 0 and
      mrs = 100 and mck = "cc_MakeClerk 3 1"] ps by auto
  obtain kv' where kv': "deliver (sk_round 7) (zip [(False, 0)] [m]) kv = Some kv'"
    using m kv(2,3)
    by (auto simp: sk_round_def sk_applyTask_def Let_def sk_execute_def sk_applyShardGC_def
        sk_init_def emptyShardState_def DefaultConfig_def)
  have "\<exists>k \<ge> 1. after sk_execute (sk_init 7) [?c] k (sk_state kv')"
    using ps m kv
    by (intro shard_replica_state[OF _ _ _ kv(1) m(1) _ _ kv', of rf "[?c]" "sk_init 7"])
      (auto simp: Make_fresh after_0 agrees_def)
  then show ?thesis
    using m(1) kv(1) kv' by blast
qed

end
