(* ===== verification/Shard_Handover.thy ===== *)
theory Shard_Handover
  imports Shard_Kv
begin

text \<open>
  Why the shards of the sharded key/value service are handed over safely, as an argument
  about configuration numbers and shard states alone. The theory \<open>Shard_Migration\<close> shows
  that the commands of \<^verbatim>\<open>src/src/shardkv/conf_change.go\<close> act on these as described here.
\<close>

abbreviation is_shard :: "int \<Rightarrow> bool" where
  "is_shard s \<equiv> 0 \<le> s \<and> s < int NShards"

section \<open>The order of the handovers\<close>

text \<open>
  \<open>own n s\<close> is the owner of shard \<open>s\<close> in configuration \<open>n\<close>, \<open>N g\<close> the number of the
  configuration of group \<open>g\<close> and \<open>S g s\<close> the state of its shard \<open>s\<close>. A shard has arrived at
  its owner for configuration \<open>n\<close> when the group serves it there or has gone on.
\<close>

definition arrived :: "(int \<Rightarrow> int) \<Rightarrow> (int \<Rightarrow> int \<Rightarrow> shard_status) \<Rightarrow> int \<Rightarrow> int \<Rightarrow> int \<Rightarrow> bool" where
  "arrived N S g s n \<longleftrightarrow> n < N g \<or> N g = n \<and> (S g s = GC \<or> S g s = Normal)"

definition owner_ok :: "(int \<Rightarrow> int \<Rightarrow> int) \<Rightarrow> bool" where
  "owner_ok own \<longleftrightarrow> (\<forall>n s. 0 \<le> n \<longrightarrow> is_shard s \<longrightarrow> own n s \<noteq> 0 \<longrightarrow> own (n + 1) s \<noteq> 0)"

text \<open>A shard is awaited, kept for deletion or given away only where the configurations say so.\<close>

definition status_ok :: "(int \<Rightarrow> int \<Rightarrow> int) \<Rightarrow> (int \<Rightarrow> int) \<Rightarrow> (int \<Rightarrow> int \<Rightarrow> shard_status) \<Rightarrow> bool" where
  "status_ok own N S \<longleftrightarrow> (\<forall>g s. 0 \<le> N g \<and> (is_shard s \<longrightarrow>
     (S g s = MoveIn \<or> S g s = GC \<longrightarrow> 0 < N g \<and> own (N g) s = g \<and> own (N g - 1) s \<notin> {g, 0}) \<and>
     (S g s = MoveOut \<longrightarrow> 0 < N g \<and> own (N g - 1) s = g \<and> own (N g) s \<notin> {g, 0})))"

text \<open>The previous owner of an awaited shard has not gone on, and has not deleted it.\<close>

definition awaited_ok :: "(int \<Rightarrow> int \<Rightarrow> int) \<Rightarrow> (int \<Rightarrow> int) \<Rightarrow> (int \<Rightarrow> int \<Rightarrow> shard_status) \<Rightarrow> bool" where
  "awaited_ok own N S \<longleftrightarrow> (\<forall>g s. is_shard s \<longrightarrow> S g s = MoveIn \<longrightarrow>
     (let p = own (N g - 1) s in N p < N g \<or> N p = N g \<and> S p s = MoveOut))"

text \<open>A group that is done with a shard it gave away knows that the shard has arrived.\<close>

definition released_ok :: "(int \<Rightarrow> int \<Rightarrow> int) \<Rightarrow> (int \<Rightarrow> int) \<Rightarrow> (int \<Rightarrow> int \<Rightarrow> shard_status) \<Rightarrow> bool" where
  "released_ok own N S \<longleftrightarrow> (\<forall>s n. is_shard s \<longrightarrow> 0 \<le> n \<longrightarrow> own (n + 1) s \<noteq> own n s \<longrightarrow>
     own (n + 1) s \<noteq> 0 \<longrightarrow>
     n + 1 < N (own n s) \<or> N (own n s) = n + 1 \<and> S (own n s) s = Normal \<longrightarrow>
     arrived N S (own (n + 1) s) s (n + 1))"

text \<open>When a shard has arrived, all its earlier owners have gone on.\<close>

definition earlier_ok :: "(int \<Rightarrow> int \<Rightarrow> int) \<Rightarrow> (int \<Rightarrow> int) \<Rightarrow> (int \<Rightarrow> int \<Rightarrow> shard_status) \<Rightarrow> bool" where
  "earlier_ok own N S \<longleftrightarrow> (\<forall>s n m. is_shard s \<longrightarrow> 0 \<le> m \<longrightarrow> m < n \<longrightarrow> own n s \<noteq> 0 \<longrightarrow>
     arrived N S (own n s) s n \<longrightarrow> own m s \<noteq> 0 \<longrightarrow> m < N (own m s))"

definition order_ok :: "(int \<Rightarrow> int \<Rightarrow> int) \<Rightarrow> (int \<Rightarrow> int) \<Rightarrow> (int \<Rightarrow> int \<Rightarrow> shard_status) \<Rightarrow> bool" where
  "order_ok own N S \<longleftrightarrow> status_ok own N S \<and> awaited_ok own N S \<and> released_ok own N S \<and> earlier_ok own N S"

text \<open>The three ways in which a command changes configuration numbers and shard states.\<close>

definition advances :: "(int \<Rightarrow> int \<Rightarrow> int) \<Rightarrow> int \<Rightarrow> (int \<Rightarrow> int) \<Rightarrow> (int \<Rightarrow> int \<Rightarrow> shard_status) \<Rightarrow>
    (int \<Rightarrow> shard_status) \<Rightarrow> bool" where
  "advances own g N S T \<longleftrightarrow> (\<forall>s. is_shard s \<longrightarrow> S g s = Normal \<and>
     T s = (if own (N g) s \<noteq> g \<and> own (N g + 1) s = g \<and> own (N g) s \<noteq> 0 then MoveIn
            else if own (N g) s = g \<and> own (N g + 1) s \<notin> {g, 0} then MoveOut else Normal))"

definition receives :: "(int \<Rightarrow> int \<Rightarrow> int) \<Rightarrow> int \<Rightarrow> (int \<Rightarrow> int) \<Rightarrow> (int \<Rightarrow> int \<Rightarrow> shard_status) \<Rightarrow>
    (int \<Rightarrow> shard_status) \<Rightarrow> bool" where
  "receives own g N S T \<longleftrightarrow> (\<forall>s. is_shard s \<longrightarrow> T s = S g s \<or>
     S g s = MoveIn \<and> T s = GC \<and> N (own (N g - 1) s) = N g \<and> S (own (N g - 1) s) s = MoveOut)"

definition clears :: "(int \<Rightarrow> int \<Rightarrow> int) \<Rightarrow> int \<Rightarrow> (int \<Rightarrow> int) \<Rightarrow> (int \<Rightarrow> int \<Rightarrow> shard_status) \<Rightarrow>
    (int \<Rightarrow> shard_status) \<Rightarrow> bool" where
  "clears own g N S T \<longleftrightarrow> (\<forall>s. is_shard s \<longrightarrow> T s = S g s \<or> S g s = GC \<and> T s = Normal \<or>
     S g s = MoveOut \<and> T s = Normal \<and> arrived N S (own (N g) s) s (N g))"

lemma own_zero:
  assumes "owner_ok own" "is_shard s" "0 \<le> m" "m \<le> n" "own n s = 0"
  shows "own m s = 0"
proof -
  have "own (m + int k) s \<noteq> 0" if "own m s \<noteq> 0" for k
  proof (induction k)
    case (Suc k)
    then have "own (m + int k + 1) s \<noteq> 0"
      using assms(1-3) by (simp add: owner_ok_def)
    moreover have "m + int (Suc k) = m + int k + 1"
      by simp
    ultimately show ?case
      by metis
  qed (use that in simp)
  from this[of "nat (n - m)"] show ?thesis
    using assms(4,5) by auto
qed

lemma status_okD:
  assumes "status_ok own N S" "is_shard s"
  shows "S h s = MoveIn \<or> S h s = GC \<longrightarrow> 0 < N h \<and> own (N h) s = h \<and> own (N h - 1) s \<notin> {h, 0}"
    "S h s = MoveOut \<longrightarrow> 0 < N h \<and> own (N h - 1) s = h \<and> own (N h) s \<notin> {h, 0}"
  using assms unfolding status_ok_def by blast+

lemma awaited_okD:
  "awaited_ok own N S \<Longrightarrow> is_shard s \<Longrightarrow> S g s = MoveIn \<Longrightarrow>
   N (own (N g - 1) s) < N g \<or> N (own (N g - 1) s) = N g \<and> S (own (N g - 1) s) s = MoveOut"
  by (simp add: awaited_ok_def Let_def)

lemma released_okD:
  "released_ok own N S \<Longrightarrow> is_shard s \<Longrightarrow> 0 \<le> n \<Longrightarrow> own (n + 1) s \<noteq> own n s \<Longrightarrow> own (n + 1) s \<noteq> 0 \<Longrightarrow>
   n + 1 < N (own n s) \<or> N (own n s) = n + 1 \<and> S (own n s) s = Normal \<Longrightarrow>
   arrived N S (own (n + 1) s) s (n + 1)"
  unfolding released_ok_def by blast

lemma earlier_okD:
  "earlier_ok own N S \<Longrightarrow> is_shard s \<Longrightarrow> 0 \<le> m \<Longrightarrow> m < n \<Longrightarrow> own n s \<noteq> 0 \<Longrightarrow>
   arrived N S (own n s) s n \<Longrightarrow> own m s \<noteq> 0 \<Longrightarrow> m < N (own m s)"
  unfolding earlier_ok_def by blast

lemma order_okD:
  assumes "order_ok own N S"
  shows "status_ok own N S" "awaited_ok own N S" "released_ok own N S" "earlier_ok own N S" "0 \<le> N h"
  using assms by (simp_all add: order_ok_def status_ok_def)

lemma advancesD:
  assumes "advances own g N S T" "is_shard s"
  shows "S g s = Normal"
    "T s = (if own (N g) s \<noteq> g \<and> own (N g + 1) s = g \<and> own (N g) s \<noteq> 0 then MoveIn
       else if own (N g) s = g \<and> own (N g + 1) s \<notin> {g, 0} then MoveOut else Normal)"
  using assms by (simp_all add: advances_def)

lemma receivesD:
  "receives own g N S T \<Longrightarrow> is_shard s \<Longrightarrow> T s = S g s \<or>
   S g s = MoveIn \<and> T s = GC \<and> N (own (N g - 1) s) = N g \<and> S (own (N g - 1) s) s = MoveOut"
  by (simp add: receives_def)

lemma clearsD:
  "clears own g N S T \<Longrightarrow> is_shard s \<Longrightarrow> T s = S g s \<or> S g s = GC \<and> T s = Normal \<or>
   S g s = MoveOut \<and> T s = Normal \<and> arrived N S (own (N g) s) s (N g)"
  by (simp add: clears_def)

lemma arrived_advance: "arrived N S h s n \<Longrightarrow> arrived (N(g := N g + 1)) (S(g := T)) h s n"
  by (auto simp: arrived_def)

lemma arrived_receive:
  "receives own g N S T \<Longrightarrow> is_shard s \<Longrightarrow> arrived N S h s n \<Longrightarrow> arrived N (S(g := T)) h s n"
  by (auto simp: arrived_def receives_def)

lemma arrived_clear:
  "clears own g N S T \<Longrightarrow> is_shard s \<Longrightarrow> arrived N S h s n \<Longrightarrow> arrived N (S(g := T)) h s n"
  by (auto simp: arrived_def clears_def)

lemma advance_status:
  assumes ok: "order_ok own N S" and own: "owner_ok own" and adv: "advances own g N S T" and g: "g \<noteq> 0"
  shows "status_ok own (N(g := N g + 1)) (S(g := T))"
proof -
  let ?N = "N(g := N g + 1)" and ?S = "S(g := T)"
  note N = fun_upd_apply[of N g "N g + 1"] and S = fun_upd_apply[of S g T] and [simp del] = fun_upd_apply
  note st = order_okD(1)[OF ok] and aw = order_okD(2)[OF ok] and re = order_okD(3)[OF ok]
    and ea = order_okD(4)[OF ok]
  note N0 = order_okD(5)[OF ok] and T = advancesD[OF adv]
  show ?thesis
    unfolding status_ok_def
  proof (intro allI conjI impI)
    fix h s
    show "0 \<le> ?N h"
      using N0[of h] N0[of g] by (simp add: N)
    assume s: "is_shard s"
    show "0 < ?N h" if "?S h s = MoveIn \<or> ?S h s = GC"
      using that st s N0[of g] by (auto simp: N S status_ok_def)
    show "own (?N h) s = h" if "?S h s = MoveIn \<or> ?S h s = GC"
      using that st s T[OF s] by (auto simp: N S status_ok_def split: if_splits)
    show "own (?N h - 1) s \<notin> {h, 0}" if "?S h s = MoveIn \<or> ?S h s = GC"
      using that st s T[OF s] by (auto simp: N S status_ok_def split: if_splits)
    show "0 < ?N h" if "?S h s = MoveOut"
      using that st s N0[of g] by (auto simp: N S status_ok_def)
    show "own (?N h - 1) s = h" if "?S h s = MoveOut"
      using that st s T[OF s] by (auto simp: N S status_ok_def split: if_splits)
    show "own (?N h) s \<notin> {h, 0}" if "?S h s = MoveOut"
      using that st s T[OF s] by (auto simp: N S status_ok_def split: if_splits)
  qed
qed

lemma advance_awaited:
  assumes ok: "order_ok own N S" and own: "owner_ok own" and adv: "advances own g N S T" and g: "g \<noteq> 0"
  shows "awaited_ok own (N(g := N g + 1)) (S(g := T))"
proof -
  let ?N = "N(g := N g + 1)" and ?S = "S(g := T)"
  note N = fun_upd_apply[of N g "N g + 1"] and S = fun_upd_apply[of S g T] and [simp del] = fun_upd_apply
  note st = order_okD(1)[OF ok] and aw = order_okD(2)[OF ok] and re = order_okD(3)[OF ok]
    and ea = order_okD(4)[OF ok]
  note N0 = order_okD(5)[OF ok] and T = advancesD[OF adv]
  show ?thesis
    unfolding awaited_ok_def Let_def
  proof (intro allI impI)
    fix h s
    assume s: "is_shard s" and h: "?S h s = MoveIn"
    show "?N (own (?N h - 1) s) < ?N h \<or>
        ?N (own (?N h - 1) s) = ?N h \<and> ?S (own (?N h - 1) s) s = MoveOut"
    proof (cases "h = g")
      case True
      then have mi: "own (N g) s \<noteq> g" "own (N g + 1) s = g" "own (N g) s \<noteq> 0"
        using h T[OF s] by (auto simp: S split: if_splits)
      let ?p = "own (N g) s"
      have "N ?p \<le> N g \<or> N ?p = N g + 1 \<and> S ?p s = MoveOut"
      proof (rule ccontr)
        assume n: "\<not> ?thesis"
        have "N ?p = N g + 1 \<Longrightarrow> S ?p s = Normal"
          using n mi status_okD[OF st s, of ?p] by (cases "S ?p s") auto
        then have "N g + 1 < N ?p \<or> N ?p = N g + 1 \<and> S ?p s = Normal"
          using n by linarith
        then have "arrived N S g s (N g + 1)"
          using released_okD[OF re s N0[of g]] mi g by simp
        then show False
          by (simp add: arrived_def)
      qed
      then show ?thesis
        using True mi(1) by (auto simp: N S)
    next
      case False
      let ?p = "own (N h - 1) s"
      have q: "N ?p < N h \<or> N ?p = N h \<and> S ?p s = MoveOut"
        using awaited_okD[OF aw s, of h] h False by (simp add: S)
      show ?thesis
      proof (cases "?p = g")
        case pg: True
        then have lt: "N g < N h"
          using q T(1)[OF s] by auto
        have hh: "own (N h) s = h" "0 < N h" "own (N h - 1) s \<notin> {h, 0}"
          using status_okD(1)[OF st s, of h] h False by (simp_all add: S)
        then have "h \<noteq> 0"
          using own_zero[OF own s, of "N h - 1" "N h"] by auto
        then have "own (N h) s \<notin> {g, 0}"
          using hh False by simp
        moreover have "N g + 1 = N h \<Longrightarrow> own (N g) s = g"
          using pg by (metis add_diff_cancel_right')
        ultimately have "N g + 1 = N h \<Longrightarrow> T s = MoveOut"
          using T(2)[OF s] by auto
        then show ?thesis
          using pg False lt by (auto simp: N S)
      next
        case pg: False
        then show ?thesis
          using q False by (simp add: N S)
      qed
    qed
  qed
qed

lemma advance_released:
  assumes ok: "order_ok own N S" and own: "owner_ok own" and adv: "advances own g N S T" and g: "g \<noteq> 0"
  shows "released_ok own (N(g := N g + 1)) (S(g := T))"
proof -
  let ?N = "N(g := N g + 1)" and ?S = "S(g := T)"
  note N = fun_upd_apply[of N g "N g + 1"] and S = fun_upd_apply[of S g T] and [simp del] = fun_upd_apply
  note st = order_okD(1)[OF ok] and aw = order_okD(2)[OF ok] and re = order_okD(3)[OF ok]
    and ea = order_okD(4)[OF ok]
  note N0 = order_okD(5)[OF ok] and T = advancesD[OF adv]
  show ?thesis
    unfolding released_ok_def
  proof (intro allI impI)
    fix s n
    assume s: "is_shard s" and n: "0 \<le> n" and diff: "own (n + 1) s \<noteq> own n s" "own (n + 1) s \<noteq> 0"
      and fin: "n + 1 < ?N (own n s) \<or> ?N (own n s) = n + 1 \<and> ?S (own n s) s = Normal"
    have "n + 1 < N (own n s) \<or> N (own n s) = n + 1 \<and> S (own n s) s = Normal"
    proof (cases "own n s = g")
      case True
      have "\<not> (N g = n)"
        using fin True diff T(2)[OF s] by (auto simp: N S split: if_splits)
      then show ?thesis
        using fin True T(1)[OF s] by (auto simp: N S)
    next
      case False
      then show ?thesis
        using fin by (simp add: N S)
    qed
    then have "arrived N S (own (n + 1) s) s (n + 1)"
      by (rule released_okD[OF re s n diff])
    then show "arrived ?N ?S (own (n + 1) s) s (n + 1)"
      by (rule arrived_advance)
  qed
qed

lemma advance_earlier:
  assumes ok: "order_ok own N S" and own: "owner_ok own" and adv: "advances own g N S T" and g: "g \<noteq> 0"
  shows "earlier_ok own (N(g := N g + 1)) (S(g := T))"
proof -
  let ?N = "N(g := N g + 1)" and ?S = "S(g := T)"
  note N = fun_upd_apply[of N g "N g + 1"] and S = fun_upd_apply[of S g T] and [simp del] = fun_upd_apply
  note st = order_okD(1)[OF ok] and aw = order_okD(2)[OF ok] and re = order_okD(3)[OF ok]
    and ea = order_okD(4)[OF ok]
  note N0 = order_okD(5)[OF ok] and T = advancesD[OF adv]
  show ?thesis
    unfolding earlier_ok_def
  proof (intro allI impI)
    fix s n m
    assume s: "is_shard s" and m: "0 \<le> m" "m < n" "own n s \<noteq> 0" "own m s \<noteq> 0"
      and ar: "arrived ?N ?S (own n s) s n"
    have mono: "m < N (own m s) \<Longrightarrow> m < ?N (own m s)"
      by (auto simp: N)
    show "m < ?N (own m s)"
    proof (cases "arrived N S (own n s) s n")
      case True
      then show ?thesis
        using earlier_okD[OF ea s m(1-3) True m(4)] mono by blast
    next
      case False
      then have own_g: "own n s = g" and n: "n = N g + 1" and Ts: "T s \<noteq> MoveIn"
        using ar T(1)[OF s] by (auto simp: arrived_def N S split: if_splits)
      then consider "own (N g) s = g" | "own (N g) s = 0"
        using T(2)[OF s] g by (auto split: if_splits)
      then show ?thesis
      proof cases
        case 1
        have "arrived N S g s (N g)"
          using T(1)[OF s] by (simp add: arrived_def)
        then have "m < N g \<Longrightarrow> m < N (own m s)"
          using earlier_okD[OF ea s m(1), of "N g"] m(4) 1 g by simp
        then show ?thesis
          using mono n m(2) 1 by (cases "m = N g") (auto simp: N)
      next
        case 2
        then show ?thesis
          using own_zero[OF own s m(1), of "N g"] m n by simp
      qed
    qed
  qed
qed

lemma order_advance:
  assumes "order_ok own N S" and "owner_ok own" and "advances own g N S T" and "g \<noteq> 0"
  shows "order_ok own (N(g := N g + 1)) (S(g := T))"
  using advance_status[OF assms] advance_awaited[OF assms] advance_released[OF assms] advance_earlier[OF assms] unfolding order_ok_def[of _ _ "S(g := T)"] by blast

lemma receive_status:
  assumes ok: "order_ok own N S" and rec: "receives own g N S T"
  shows "status_ok own N (S(g := T))"
proof -
  let ?S = "S(g := T)"
  note S = fun_upd_apply[of S g T] and [simp del] = fun_upd_apply
  note st = order_okD(1)[OF ok] and aw = order_okD(2)[OF ok] and re = order_okD(3)[OF ok]
    and ea = order_okD(4)[OF ok]
  note T = receivesD[OF rec]
  have out: "S h s = MoveOut \<Longrightarrow> ?S h s = MoveOut" and other: "?S h s \<noteq> GC \<Longrightarrow> ?S h s = S h s"
    if "is_shard s" for h s
    using T[OF that] by (auto simp: S)
  show ?thesis
    unfolding status_ok_def
  proof (intro allI conjI impI)
    fix h s
    show "0 \<le> N h"
      using st by (simp add: status_ok_def)
    assume s: "is_shard s"
    note D = status_okD[OF st s, of h]
    show "0 < N h" "own (N h) s = h" "own (N h - 1) s \<notin> {h, 0}" if "?S h s = MoveIn \<or> ?S h s = GC"
      using that D T[OF s] by (auto simp: S split: if_splits)
    show "0 < N h" "own (N h - 1) s = h" "own (N h) s \<notin> {h, 0}" if "?S h s = MoveOut"
      using that D T[OF s] by (auto simp: S split: if_splits)
  qed
qed

lemma receive_awaited:
  assumes ok: "order_ok own N S" and rec: "receives own g N S T"
  shows "awaited_ok own N (S(g := T))"
proof -
  let ?S = "S(g := T)"
  note S = fun_upd_apply[of S g T] and [simp del] = fun_upd_apply
  note st = order_okD(1)[OF ok] and aw = order_okD(2)[OF ok] and re = order_okD(3)[OF ok]
    and ea = order_okD(4)[OF ok]
  note T = receivesD[OF rec]
  have out: "S h s = MoveOut \<Longrightarrow> ?S h s = MoveOut" and other: "?S h s \<noteq> GC \<Longrightarrow> ?S h s = S h s"
    if "is_shard s" for h s
    using T[OF that] by (auto simp: S)
  show ?thesis
    unfolding awaited_ok_def Let_def
  proof (intro allI impI)
    fix h s
    assume s: "is_shard s" and h: "?S h s = MoveIn"
    then have "S h s = MoveIn"
      using other[OF s, of h] by simp
    then show "N (own (N h - 1) s) < N h \<or> N (own (N h - 1) s) = N h \<and> ?S (own (N h - 1) s) s = MoveOut"
      using awaited_okD[OF aw s] out[OF s] by blast
  qed
qed

lemma receive_released:
  assumes ok: "order_ok own N S" and rec: "receives own g N S T"
  shows "released_ok own N (S(g := T))"
proof -
  let ?S = "S(g := T)"
  note S = fun_upd_apply[of S g T] and [simp del] = fun_upd_apply
  note st = order_okD(1)[OF ok] and aw = order_okD(2)[OF ok] and re = order_okD(3)[OF ok]
    and ea = order_okD(4)[OF ok]
  note T = receivesD[OF rec]
  have out: "S h s = MoveOut \<Longrightarrow> ?S h s = MoveOut" and other: "?S h s \<noteq> GC \<Longrightarrow> ?S h s = S h s"
    if "is_shard s" for h s
    using T[OF that] by (auto simp: S)
  show ?thesis
    unfolding released_ok_def
  proof (intro allI impI)
    fix s n
    assume s: "is_shard s" and n: "0 \<le> n" and diff: "own (n + 1) s \<noteq> own n s" "own (n + 1) s \<noteq> 0"
      and fin: "n + 1 < N (own n s) \<or> N (own n s) = n + 1 \<and> ?S (own n s) s = Normal"
    then have "n + 1 < N (own n s) \<or> N (own n s) = n + 1 \<and> S (own n s) s = Normal"
      using other[OF s, of "own n s"] by auto
    from released_okD[OF re s n diff this] show "arrived N ?S (own (n + 1) s) s (n + 1)"
      by (rule arrived_receive[OF rec s])
  qed
qed

lemma receive_earlier:
  assumes ok: "order_ok own N S" and rec: "receives own g N S T"
  shows "earlier_ok own N (S(g := T))"
proof -
  let ?S = "S(g := T)"
  note S = fun_upd_apply[of S g T] and [simp del] = fun_upd_apply
  note st = order_okD(1)[OF ok] and aw = order_okD(2)[OF ok] and re = order_okD(3)[OF ok]
    and ea = order_okD(4)[OF ok]
  note T = receivesD[OF rec]
  have out: "S h s = MoveOut \<Longrightarrow> ?S h s = MoveOut" and other: "?S h s \<noteq> GC \<Longrightarrow> ?S h s = S h s"
    if "is_shard s" for h s
    using T[OF that] by (auto simp: S)
  show ?thesis
    unfolding earlier_ok_def
  proof (intro allI impI)
    fix s n m
    assume s: "is_shard s" and m: "0 \<le> m" "m < n" "own n s \<noteq> 0" "own m s \<noteq> 0"
      and ar: "arrived N ?S (own n s) s n"
    show "m < N (own m s)"
    proof (cases "arrived N S (own n s) s n")
      case True
      then show ?thesis
        using earlier_okD[OF ea s m(1-3) True m(4)] by blast
    next
      case False
      then have own_g: "own n s = g" and n: "N g = n" and Ts: "T s \<noteq> S g s"
        using ar by (auto simp: arrived_def S split: if_splits)
      let ?p = "own (N g - 1) s"
      have mi: "S g s = MoveIn" and p: "N ?p = N g"
        using T[OF s] Ts by auto
      have "0 < N g" "?p \<noteq> 0"
        using status_okD(1)[OF st s, of g] mi by auto
      moreover have "arrived N S ?p s (N g - 1)"
        using p by (simp add: arrived_def)
      ultimately have "m < N g - 1 \<Longrightarrow> m < N (own m s)"
        using earlier_okD[OF ea s m(1), of "N g - 1"] m(4) by simp
      then show ?thesis
        using n m(2) p by (cases "m = N g - 1") auto
    qed
  qed
qed

lemma order_receive:
  assumes "order_ok own N S" and "receives own g N S T"
  shows "order_ok own N (S(g := T))"
  using receive_status[OF assms] receive_awaited[OF assms] receive_released[OF assms] receive_earlier[OF assms] unfolding order_ok_def[of _ _ "S(g := T)"] by blast

lemma clear_status:
  assumes ok: "order_ok own N S" and cl: "clears own g N S T"
  shows "status_ok own N (S(g := T))"
proof -
  let ?S = "S(g := T)"
  note S = fun_upd_apply[of S g T] and [simp del] = fun_upd_apply
  note st = order_okD(1)[OF ok] and aw = order_okD(2)[OF ok] and re = order_okD(3)[OF ok]
    and ea = order_okD(4)[OF ok]
  note T = clearsD[OF cl]
  have old: "?S h s \<noteq> Normal \<Longrightarrow> ?S h s = S h s" if "is_shard s" for h s
    using T[OF that] by (auto simp: S)
  show ?thesis
    unfolding status_ok_def
  proof (intro allI conjI impI)
    fix h s
    show "0 \<le> N h"
      using st by (simp add: status_ok_def)
    assume s: "is_shard s"
    note D = status_okD[OF st s, of h] old[OF s, of h]
    show "0 < N h" "own (N h) s = h" "own (N h - 1) s \<notin> {h, 0}" if "?S h s = MoveIn \<or> ?S h s = GC"
      using that D by auto
    show "0 < N h" "own (N h - 1) s = h" "own (N h) s \<notin> {h, 0}" if "?S h s = MoveOut"
      using that D by auto
  qed
qed

lemma clear_awaited:
  assumes ok: "order_ok own N S" and cl: "clears own g N S T"
  shows "awaited_ok own N (S(g := T))"
proof -
  let ?S = "S(g := T)"
  note S = fun_upd_apply[of S g T] and [simp del] = fun_upd_apply
  note st = order_okD(1)[OF ok] and aw = order_okD(2)[OF ok] and re = order_okD(3)[OF ok]
    and ea = order_okD(4)[OF ok]
  note T = clearsD[OF cl]
  have old: "?S h s \<noteq> Normal \<Longrightarrow> ?S h s = S h s" if "is_shard s" for h s
    using T[OF that] by (auto simp: S)
  show ?thesis
    unfolding awaited_ok_def Let_def
  proof (intro allI impI)
    fix h s
    assume s: "is_shard s" and h: "?S h s = MoveIn"
    then have mi: "S h s = MoveIn"
      using old[OF s, of h] by simp
    let ?p = "own (N h - 1) s"
    have "?S ?p s = MoveOut" if p: "N ?p = N h" "S ?p s = MoveOut"
    proof (rule ccontr)
      assume "?S ?p s \<noteq> MoveOut"
      then have "?p = g" "arrived N S (own (N g) s) s (N g)"
        using T[OF s] p(2) by (auto simp: S split: if_splits)
      then show False
        using p(1) mi status_okD(1)[OF st s, of h] by (simp add: arrived_def)
    qed
    then show "N ?p < N h \<or> N ?p = N h \<and> ?S ?p s = MoveOut"
      using awaited_okD[OF aw s mi] by blast
  qed
qed

lemma clear_released:
  assumes ok: "order_ok own N S" and cl: "clears own g N S T"
  shows "released_ok own N (S(g := T))"
proof -
  let ?S = "S(g := T)"
  note S = fun_upd_apply[of S g T] and [simp del] = fun_upd_apply
  note st = order_okD(1)[OF ok] and aw = order_okD(2)[OF ok] and re = order_okD(3)[OF ok]
    and ea = order_okD(4)[OF ok]
  note T = clearsD[OF cl]
  have old: "?S h s \<noteq> Normal \<Longrightarrow> ?S h s = S h s" if "is_shard s" for h s
    using T[OF that] by (auto simp: S)
  show ?thesis
    unfolding released_ok_def
  proof (intro allI impI)
    fix s n
    assume s: "is_shard s" and n: "0 \<le> n" and diff: "own (n + 1) s \<noteq> own n s" "own (n + 1) s \<noteq> 0"
      and fin: "n + 1 < N (own n s) \<or> N (own n s) = n + 1 \<and> ?S (own n s) s = Normal"
    let ?p = "own n s"
    have "arrived N S (own (n + 1) s) s (n + 1)"
    proof (cases "n + 1 < N ?p \<or> N ?p = n + 1 \<and> S ?p s = Normal")
      case True
      then show ?thesis
        by (rule released_okD[OF re s n diff])
    next
      case False
      then have p: "N ?p = n + 1" "?p = g" "S g s \<noteq> Normal" "T s = Normal"
        using fin by (auto simp: S split: if_splits)
      moreover have "S g s \<noteq> GC"
        using status_okD(1)[OF st s, of g] p(1,2) diff by auto
      ultimately show ?thesis
        using T[OF s] by auto
    qed
    then show "arrived N ?S (own (n + 1) s) s (n + 1)"
      by (rule arrived_clear[OF cl s])
  qed
qed

lemma clear_earlier:
  assumes ok: "order_ok own N S" and cl: "clears own g N S T"
  shows "earlier_ok own N (S(g := T))"
proof -
  let ?S = "S(g := T)"
  note S = fun_upd_apply[of S g T] and [simp del] = fun_upd_apply
  note st = order_okD(1)[OF ok] and aw = order_okD(2)[OF ok] and re = order_okD(3)[OF ok]
    and ea = order_okD(4)[OF ok]
  note T = clearsD[OF cl]
  have old: "?S h s \<noteq> Normal \<Longrightarrow> ?S h s = S h s" if "is_shard s" for h s
    using T[OF that] by (auto simp: S)
  show ?thesis
    unfolding earlier_ok_def
  proof (intro allI impI)
    fix s n m
    assume s: "is_shard s" and m: "0 \<le> m" "m < n" "own n s \<noteq> 0" "own m s \<noteq> 0"
      and ar: "arrived N ?S (own n s) s n"
    have "arrived N S (own n s) s n"
    proof (rule ccontr)
      assume "\<not> ?thesis"
      then have "own n s = g" "N g = n" "S g s = MoveOut"
        using ar T[OF s] by (auto simp: arrived_def S split: if_splits)
      then show False
        using status_okD(2)[OF st s, of g] by simp
    qed
    then show "m < N (own m s)"
      using earlier_okD[OF ea s m(1-3) _ m(4)] by blast
  qed
qed

lemma order_clear:
  assumes "order_ok own N S" and "clears own g N S T"
  shows "order_ok own N (S(g := T))"
  using clear_status[OF assms] clear_awaited[OF assms] clear_released[OF assms] clear_earlier[OF assms] unfolding order_ok_def[of _ _ "S(g := T)"] by blast

text \<open>A shard is served by one group at a time.\<close>

definition serves :: "(int \<Rightarrow> int \<Rightarrow> int) \<Rightarrow> (int \<Rightarrow> int) \<Rightarrow> (int \<Rightarrow> int \<Rightarrow> shard_status) \<Rightarrow> int \<Rightarrow> int \<Rightarrow> bool" where
  "serves own N S g s \<longleftrightarrow> own (N g) s = g \<and> (S g s = Normal \<or> S g s = GC)"

lemma serves_unique:
  assumes ok: "order_ok own N S" and s: "is_shard s"
    and "serves own N S g s" "serves own N S h s" "g \<noteq> 0" "h \<noteq> 0"
  shows "g = h"
proof -
  note ea = order_okD(4)[OF ok] and N0 = order_okD(5)[OF ok]
  have not_less: "\<not> N g < N h" if "serves own N S g s" "serves own N S h s" "g \<noteq> 0" "h \<noteq> 0" for g h
  proof
    assume "N g < N h"
    then have "N g < N (own (N g) s)"
      using that by (intro earlier_okD[OF ea s N0, of _ "N h"]) (auto simp: serves_def arrived_def)
    then show False
      using that by (simp add: serves_def)
  qed
  have "N g = N h"
    using not_less[OF assms(3-6)] not_less[OF assms(4,3,6,5)] by simp
  then show ?thesis
    using assms(3,4) by (auto simp: serves_def)
qed

text \<open>While a shard that was given away has not arrived, nobody serves it.\<close>

lemma transit_unserved:
  assumes ok: "order_ok own N S" and own: "owner_ok own" and s: "is_shard s" and out: "S h s = MoveOut"
    and not: "\<not> arrived N S (own (N h) s) s (N h)" and serve: "serves own N S g s" and nz: "g \<noteq> 0"
  shows False
proof -
  note st = order_okD(1)[OF ok] and ea = order_okD(4)[OF ok] and N0 = order_okD(5)[OF ok]
  note h = status_okD(2)[OF st s, of h, rule_format, OF out]
  have g: "own (N g) s = g" "arrived N S g s (N g)"
    using serve by (auto simp: serves_def arrived_def)
  consider "N h < N g" | "N h = N g" | "N g = N h - 1" | "N g < N h - 1"
    by linarith
  then show False
  proof cases
    case 1
    then have "N h < N (own (N h) s)"
      using h g nz N0 by (intro earlier_okD[OF ea s, of _ "N g"]) auto
    then show False
      using not by (simp add: arrived_def)
  next
    case 2
    then show False
      using not g by simp
  next
    case 3
    have "own (N g) s = h"
      unfolding 3 using h by simp
    then have "g = h"
      using g(1) by (rule subst[rotated])
    then show False
      using 3 by simp
  next
    case 4
    have "h \<noteq> 0"
    proof
      assume "h = 0"
      then have "own (N h - 1) s = 0"
        using h by simp
      from own_zero[OF own s N0[of g] _ this] have "own (N g) s = 0"
        using 4 by linarith
      then show False
        using g(1) nz by simp
    qed
    then have "N g < N (own (N g) s)"
      using g h nz N0 4 by (intro earlier_okD[OF ea s, of _ "N h - 1"]) (auto simp: arrived_def)
    then show False
      using g by simp
  qed
qed

section \<open>Any change\<close>

definition evolves :: "(int \<Rightarrow> int \<Rightarrow> int) \<Rightarrow> int \<Rightarrow> (int \<Rightarrow> int) \<Rightarrow> (int \<Rightarrow> int \<Rightarrow> shard_status) \<Rightarrow>
    (int \<Rightarrow> int) \<Rightarrow> (int \<Rightarrow> int \<Rightarrow> shard_status) \<Rightarrow> bool" where
  "evolves own g N S N' S' \<longleftrightarrow> (\<exists>T. S' = S(g := T) \<and>
     (N' = N(g := N g + 1) \<and> advances own g N S T \<or> N' = N \<and> (receives own g N S T \<or> clears own g N S T)))"

text \<open>Within a configuration the state of a shard only moves towards \<open>Normal\<close>.\<close>

definition progress :: "shard_status \<Rightarrow> shard_status \<Rightarrow> bool" where
  "progress a b \<longleftrightarrow> a = b \<or> b = Normal \<or> a = MoveIn \<and> b = GC"

lemma progress_trans: "progress a b \<Longrightarrow> progress b c \<Longrightarrow> progress a c"
  by (auto simp: progress_def)

lemma evolves_order:
  "order_ok own N S \<Longrightarrow> owner_ok own \<Longrightarrow> g \<noteq> 0 \<Longrightarrow> evolves own g N S N' S' \<Longrightarrow> order_ok own N' S'"
  unfolding evolves_def using order_advance order_receive order_clear by blast

lemma evolves_arrived:
  "evolves own g N S N' S' \<Longrightarrow> is_shard s \<Longrightarrow> arrived N S h s n \<Longrightarrow> arrived N' S' h s n"
  unfolding evolves_def by (elim exE conjE disjE)
    (simp_all only: arrived_advance arrived_receive[of own g N S] arrived_clear[of own g N S])

lemma evolves_frame:
  "evolves own g N S N' S' \<Longrightarrow> N h \<le> N' h \<and> (h \<noteq> g \<longrightarrow> N' h = N h \<and> S' h = S h)"
  by (auto simp: evolves_def)

lemma evolves_progress:
  assumes "evolves own g N S N' S'" "N' h = N h" "is_shard s"
  shows "progress (S h s) (S' h s)"
  using assms
  by (auto simp: evolves_def progress_def receives_def clears_def split: if_splits)

lemma evolves_same: "evolves own g N S N S"
  unfolding evolves_def by (intro exI[of _ "S g"]) (simp add: receives_def)

end
