(* ===== verification/Shard_Migration.thy ===== *)
theory Shard_Migration
  imports Shard_Handover
begin

text \<open>
  The protocol by which the groups of the sharded key/value service hand shards over
  (\<^verbatim>\<open>src/src/shardkv/task.go\<close> and \<^verbatim>\<open>conf_change.go\<close>). A group is its
  replicated state, which by the theorem on replicas of \<open>Shard_Kv\<close> its servers follow; the
  tasks and remote handlers of any of its servers may act on any state the group has been
  in, since a leader may lag behind or be out of office without knowing it.
\<close>

section \<open>The system\<close>

text \<open>
  \<open>ms_group g\<close> is the state of group \<open>g\<close>, \<open>ms_past g\<close> all states it has had, \<open>ms_pending g\<close>
  the commands that were passed to its log; they may be applied late, repeatedly, in any order
  or never. \<open>ms_db\<close> and \<open>ms_done\<close> record the effects of the client operations for the
  whole system: the value of every key, and for every executed write its shard, client and
  sequence number.
\<close>

record mig_sys =
  ms_group :: "int \<Rightarrow> shard_state"
  ms_past :: "int \<Rightarrow> shard_state set"
  ms_pending :: "int \<Rightarrow> raft_command set"
  ms_db :: "string \<rightharpoonup> string"
  ms_done :: "(int \<times> int \<times> int) list"

definition mig_init :: mig_sys where
  "mig_init = \<lparr>ms_group = sk_init, ms_past = (\<lambda>g. {sk_init g}), ms_pending = (\<lambda>_. {}),
     ms_db = Map.empty, ms_done = []\<rparr>"

text \<open>
  The configurations that the controller hands out over time: numbered from 0 without a
  group, and a shard that has an owner never loses it without a successor.
\<close>

abbreviation owner :: "(nat \<Rightarrow> config) \<Rightarrow> int \<Rightarrow> int \<Rightarrow> int" where
  "owner configs n s \<equiv> cf_Shards (configs (nat n)) ! nat s"

definition configs_ok :: "(nat \<Rightarrow> config) \<Rightarrow> bool" where
  "configs_ok configs \<longleftrightarrow> configs 0 = DefaultConfig \<and>
     (\<forall>n. cf_Num (configs n) = int n \<and> length (cf_Shards (configs n)) = NShards) \<and>
     (\<forall>n s. s < NShards \<longrightarrow> cf_Shards (configs n) ! s \<noteq> 0 \<longrightarrow> cf_Shards (configs (Suc n)) ! s \<noteq> 0)"

text \<open>Whether a command is a write that group state \<open>st\<close> executes, and the write's effect on a map.\<close>

definition executes :: "kv_op \<Rightarrow> shard_state \<Rightarrow> bool" where
  "executes op st \<longleftrightarrow> op_OpType op \<noteq> OpGet \<and> sk_matchGroup (op_Key op) st = Some True \<and>
     \<not> sk_requestDuplicated (op_ClientId op) (op_SeqId op) (ss_duplicateTable st)"

definition apply_write :: "kv_op \<Rightarrow> (string \<rightharpoonup> string) \<Rightarrow> (string \<rightharpoonup> string)" where
  "apply_write op db = db(op_Key op \<mapsto>
     (if op_OpType op = OpAppend then case db (op_Key op) of Some old \<Rightarrow> old | None \<Rightarrow> [] else []) @
     op_Value op)"

definition record_effect :: "raft_command \<Rightarrow> shard_state \<Rightarrow> mig_sys \<Rightarrow> mig_sys" where
  "record_effect cmd st sys =
     (case cmd of
        ClientOpeartion op \<Rightarrow>
          if executes op st
          then sys\<lparr>ms_db := apply_write op (ms_db sys),
                   ms_done := ms_done sys @ [(key2shard (op_Key op), op_ClientId op, op_SeqId op)]\<rparr>
          else sys
      | _ \<Rightarrow> sys)"

abbreviation propose :: "int \<Rightarrow> raft_command \<Rightarrow> mig_sys \<Rightarrow> mig_sys" where
  "propose g cmd sys \<equiv> sys\<lparr>ms_pending := (ms_pending sys)(g := insert cmd (ms_pending sys g))\<rparr>"

text \<open>
  The steps; 0 is the gid that stands for no group. A fetched configuration is one of the controller's; the data of a migration
  comes from a state of the previous owner, for the shards and the configuration number that
  a state of the group asks for; a deletion is asked for by a state of the new owner, and
  confirmed to it by the answer of a state of the previous owner.
\<close>

inductive mig_step :: "(nat \<Rightarrow> config) \<Rightarrow> mig_sys \<Rightarrow> mig_sys \<Rightarrow> bool" for configs where
  mig_client: "mig_step configs sys (propose g (ClientOpeartion op) sys)"
| mig_fetch: "x \<in> ms_past sys g \<Longrightarrow> \<forall>k. \<exists>n. query k = configs n \<Longrightarrow>
    cmd \<in> set (fetchConfigTask_round True query x) \<Longrightarrow> mig_step configs sys (propose g cmd sys)"
| mig_migrate: "x \<in> ms_past sys g \<Longrightarrow> sk_getShardByStatus MoveIn x = Some m \<Longrightarrow> (p, ids) \<in> set m \<Longrightarrow>
    y \<in> ms_past sys p \<Longrightarrow>
    sk_GetShardsData True \<lparr>sa_ConfigNum = cf_Num (ss_currentConfig x), sa_ShardIds = ids\<rparr> y = Some r \<Longrightarrow>
    cmd \<in> set (migration_calls (\<lambda>_ _. Some r) [server] (cf_Num (ss_currentConfig x)) ids) \<Longrightarrow>
    mig_step configs sys (propose g cmd sys)"
| mig_delete: "x \<in> ms_past sys g \<Longrightarrow> sk_getShardByStatus GC x = Some m \<Longrightarrow> (p, ids) \<in> set m \<Longrightarrow>
    y \<in> ms_past sys p \<Longrightarrow>
    sk_DeleteShardsData True \<lparr>sa_ConfigNum = cf_Num (ss_currentConfig x), sa_ShardIds = ids\<rparr> y = Inr cmd \<Longrightarrow>
    mig_step configs sys (propose p cmd sys)"
| mig_gc: "x \<in> ms_past sys g \<Longrightarrow> sk_getShardByStatus GC x = Some m \<Longrightarrow> (p, ids) \<in> set m \<Longrightarrow>
    cmd \<in> set (gc_calls (\<lambda>_ _. Some (shard_error OK)) [server] (cf_Num (ss_currentConfig x)) ids) \<Longrightarrow>
    mig_step configs sys (propose g cmd sys)"
| mig_apply: "g \<noteq> 0 \<Longrightarrow> cmd \<in> ms_pending sys g \<Longrightarrow> sk_execute cmd (ms_group sys g) = Some (r, st) \<Longrightarrow>
    mig_step configs sys ((record_effect cmd (ms_group sys g) sys)
      \<lparr>ms_group := (ms_group sys)(g := st), ms_past := (ms_past sys)(g := insert st (ms_past sys g))\<rparr>)"

inductive mig_run :: "(nat \<Rightarrow> config) \<Rightarrow> mig_sys \<Rightarrow> bool" for configs where
  mig_run_init: "mig_run configs mig_init"
| mig_run_step: "mig_run configs sys \<Longrightarrow> mig_step configs sys sys' \<Longrightarrow> mig_run configs sys'"

section \<open>What the commands do to a group\<close>

abbreviation num :: "shard_state \<Rightarrow> int" where
  "num st \<equiv> cf_Num (ss_currentConfig st)"

abbreviation mem :: "shard_state \<Rightarrow> int \<Rightarrow> shard_mem" where
  "mem st s \<equiv> the (map_of (ss_shards st) s)"

abbreviation stat :: "shard_state \<Rightarrow> int \<Rightarrow> shard_status" where
  "stat st s \<equiv> sm_Status (mem st s)"

definition has_shards :: "shard_state \<Rightarrow> bool" where
  "has_shards st \<longleftrightarrow> gm_ok (ss_shards st) \<and> dom (map_of (ss_shards st)) = {s. is_shard s}"

lemma has_shardsD:
  assumes "has_shards st" "is_shard s"
  shows "map_of (ss_shards st) s = Some (mem st s)"
proof -
  have "s \<in> dom (map_of (ss_shards st))"
    using assms by (simp add: has_shards_def)
  then show ?thesis
    by (auto simp: domIff)
qed

lemma has_shards_set:
  "has_shards st \<Longrightarrow> (s, m) \<in> set (ss_shards st) \<Longrightarrow> is_shard s \<and> m = mem st s"
  by (auto simp: has_shards_def dest!: map_of_is_SomeI[rotated])

definition moved :: "int \<Rightarrow> int \<Rightarrow> int \<Rightarrow> shard_mem \<Rightarrow> shard_mem" where
  "moved gid old new m =
     (if old \<noteq> gid \<and> new = gid \<and> old \<noteq> 0 then m\<lparr>sm_Status := MoveIn\<rparr>
      else if old = gid \<and> new \<noteq> gid \<and> new \<noteq> 0 then m\<lparr>sm_Status := MoveOut\<rparr> else m)"

lemma newConfig_loop_effect:
  assumes "newConfig_loop gid cur new i n shards = Some shards'"
  shows "map_of shards' s = (if i \<le> s \<and> s < i + int n
    then map_option (moved gid (cur ! nat s) (new ! nat s)) (map_of shards s) else map_of shards s)"
  using assms
proof (induction n arbitrary: i shards)
  case (Suc n)
  obtain c w sh1 sh where cw: "slice_get cur i = Some c" "slice_get new i = Some w"
    and 1: "(if c \<noteq> gid \<and> w = gid \<and> c \<noteq> 0 then setStatus i MoveIn shards else Some shards) = Some sh1"
    and 2: "(if c = gid \<and> w \<noteq> gid \<and> w \<noteq> 0 then setStatus i MoveOut sh1 else Some sh1) = Some sh"
    and sh: "newConfig_loop gid cur new (i + 1) n sh = Some shards'"
    using Suc.prems by (simp only: newConfig_loop.simps bind_eq_Some_iff) blast
  have "map_of sh = (map_of shards)(i := map_option (moved gid c w) (map_of shards i))"
    using 1 2 by (cases "c = gid"; cases "map_of shards i")
      (auto simp: setStatus_def AList.update_conv' moved_def fun_eq_iff split: if_splits)
  then show ?case
    using Suc.IH[OF sh] cw by (auto simp: slice_get_eq_Some)
qed auto

lemma migrate_loop_effect:
  assumes "migrate_loop data shards = Some shards'"
  shows "map_of shards' s = map_of shards s \<or>
    (\<exists>m d. map_of shards s = Some m \<and> sm_Status m = MoveIn \<and> (s, d) \<in> set data \<and>
       map_of shards' s = Some (m\<lparr>sm_KV := sm_KV m ++ d, sm_Status := GC\<rparr>))"
  using assms
proof (induction data arbitrary: shards)
  case (Cons sd data)
  obtain i d where sd: "sd = (i, d)"
    by fastforce
  obtain m where m: "map_of shards i = Some m"
    using Cons.prems sd by auto
  show ?case
  proof (cases "sm_Status m = MoveIn")
    case True
    let ?sh = "AList.update i (m\<lparr>sm_KV := sm_KV m ++ d, sm_Status := GC\<rparr>) shards"
    have "migrate_loop data ?sh = Some shards'"
      using Cons.prems sd m True by simp
    from Cons.IH[OF this] show ?thesis
      using m True sd by (cases "s = i") (auto simp: AList.update_conv')
  next
    case False
    then show ?thesis
      using Cons.prems sd m by simp
  qed
qed simp

lemma gc_loop_effect:
  assumes "gc_loop ids shards = Some shards'"
  shows "map_of shards' s = map_of shards s \<or>
    (\<exists>m. map_of shards s = Some m \<and> s \<in> set ids \<and>
       (sm_Status m = GC \<and> map_of shards' s = Some (m\<lparr>sm_Status := Normal\<rparr>) \<or>
        sm_Status m = MoveOut \<and> map_of shards' s = Some NewShardMem))"
  using assms
proof (induction ids arbitrary: shards)
  case (Cons i ids)
  obtain m where m: "map_of shards i = Some m"
    using Cons.prems by auto
  let ?sh = "\<lambda>m'. AList.update i m' shards"
  consider (gc) "sm_Status m = GC" "gc_loop ids (?sh (m\<lparr>sm_Status := Normal\<rparr>)) = Some shards'"
    | (out) "sm_Status m = MoveOut" "gc_loop ids (?sh NewShardMem) = Some shards'"
    | (stop) "shards' = shards"
    using Cons.prems m by (auto split: if_splits)
  then show ?case
  proof cases
    case gc
    from Cons.IH[OF gc(2)] show ?thesis
      using m gc(1) by (cases "s = i") (auto simp: AList.update_conv')
  next
    case out
    from Cons.IH[OF out(2)] show ?thesis
      using m out(1) by (cases "s = i") (auto simp: AList.update_conv' NewShardMem_def)
  qed simp
qed simp

lemma newConfig_loop_ok:
  "newConfig_loop gid cur new i n shards = Some shards' \<Longrightarrow> gm_ok shards \<Longrightarrow> gm_ok shards'"
  by (induction n arbitrary: i shards) (auto simp: setStatus_def distinct_update split: if_splits)

lemma migrate_loop_ok: "migrate_loop data shards = Some shards' \<Longrightarrow> gm_ok shards \<Longrightarrow> gm_ok shards'"
  by (induction data shards rule: migrate_loop.induct) (auto simp: distinct_update split: if_splits)

lemma gc_loop_ok: "gc_loop ids shards = Some shards' \<Longrightarrow> gm_ok shards \<Longrightarrow> gm_ok shards'"
  by (induction ids shards rule: gc_loop.induct) (auto simp: distinct_update split: if_splits)

lemma applyClientOperation_effect:
  assumes "sk_applyClientOperation op st = Some (r, st')" "has_shards st"
  shows "has_shards st' \<and> ss_gid st' = ss_gid st \<and> ss_currentConfig st' = ss_currentConfig st \<and>
    ss_prevConfig st' = ss_prevConfig st \<and>
    (\<forall>s. is_shard s \<longrightarrow> stat st' s = stat st s \<and>
       sm_KV (mem st' s) = (if executes op st \<and> s = key2shard (op_Key op)
         then apply_write op (sm_KV (mem st s)) else sm_KV (mem st s))) \<and>
    ss_duplicateTable st' = (if executes op st
      then (ss_duplicateTable st)(op_ClientId op \<mapsto> (op_SeqId op, r)) else ss_duplicateTable st)"
proof (cases "sk_matchGroup (op_Key op) st = Some True \<and>
    (op_OpType op = OpGet \<or> \<not> sk_requestDuplicated (op_ClientId op) (op_SeqId op) (ss_duplicateTable st))")
  case True
  let ?i = "key2shard (op_Key op)"
  obtain st1 where ap: "sk_applyToStateMachine op ?i st = Some (r, st1)"
    and st': "st' = (if op_OpType op \<noteq> OpGet
      then st1\<lparr>ss_duplicateTable := (ss_duplicateTable st1)(op_ClientId op \<mapsto> (op_SeqId op, r))\<rparr> else st1)"
    using assms(1) True by (auto simp: sk_applyClientOperation_def)
  obtain m m' where m: "map_of (ss_shards st) ?i = Some m" "sm_Status m' = sm_Status m"
      "st1 = st \<or> st1 = st\<lparr>ss_shards := AList.update ?i m' (ss_shards st)\<rparr>"
      "op_OpType op \<noteq> OpGet \<Longrightarrow> st1 = st\<lparr>ss_shards := AList.update ?i m' (ss_shards st)\<rparr>"
      "sm_KV m' = (case op_OpType op of OpGet \<Rightarrow> sm_KV m
         | OpPut \<Rightarrow> (sm_KV m)(op_Key op \<mapsto> op_Value op)
         | OpAppend \<Rightarrow> (sm_KV m)(op_Key op \<mapsto>
             (case sm_KV m (op_Key op) of Some old \<Rightarrow> old | None \<Rightarrow> []) @ op_Value op))"
    by (rule sk_apply_cases[OF ap], rule that)
  have ex: "executes op st \<longleftrightarrow> op_OpType op \<noteq> OpGet"
    using True by (auto simp: executes_def)
  show ?thesis
  proof (cases "op_OpType op = OpGet")
    case get: True
    then have "st1 = st"
      using ap by (auto simp: sk_applyToStateMachine_def case_prod_beta Let_def)
    then show ?thesis
      using st' get ex assms(2) by simp
  next
    case False
    then have kv: "sm_KV m' = apply_write op (sm_KV m)"
      using m(5) by (cases "op_OpType op") (auto simp: apply_write_def)
    have st1: "st1 = st\<lparr>ss_shards := AList.update ?i m' (ss_shards st)\<rparr>"
      using m(4) False by simp
    have "dom (map_of (ss_shards st1)) = dom (map_of (ss_shards st))"
      using m(1) st1 by (auto simp: AList.update_conv')
    then have "has_shards st'"
      using assms(2) st1 st' False by (simp add: has_shards_def distinct_update)
    then show ?thesis
      using st1 st' False ex m(1,2) kv by (auto simp: AList.update_conv')
  qed
next
  case False
  then have "\<not> executes op st" "st' = st"
    using assms(1) by (auto simp: executes_def sk_applyClientOperation_def split: if_splits)
  then show ?thesis
    using assms(2) by simp
qed

lemma applyClientOperation_effectD:
  assumes "sk_applyClientOperation op st = Some (r, st')" "has_shards st"
  shows "has_shards st'" "ss_gid st' = ss_gid st" "ss_currentConfig st' = ss_currentConfig st"
    "ss_prevConfig st' = ss_prevConfig st" "is_shard s \<Longrightarrow> stat st' s = stat st s"
    "is_shard s \<Longrightarrow> sm_KV (mem st' s) = (if executes op st \<and> s = key2shard (op_Key op)
       then apply_write op (sm_KV (mem st s)) else sm_KV (mem st s))"
    "ss_duplicateTable st' = (if executes op st
       then (ss_duplicateTable st)(op_ClientId op \<mapsto> (op_SeqId op, r)) else ss_duplicateTable st)"
  using applyClientOperation_effect[OF assms]
  by - (elim conjE, simp only:)+

lemma applyNewConfig_effect:
  assumes "sk_applyNewConfig c st = Some (r, st')" "has_shards st"
  shows "if num st + 1 = cf_Num c
    then has_shards st' \<and> ss_gid st' = ss_gid st \<and> ss_currentConfig st' = c \<and>
      ss_prevConfig st' = ss_currentConfig st \<and> ss_duplicateTable st' = ss_duplicateTable st \<and>
      (\<forall>s. is_shard s \<longrightarrow> mem st' s =
        moved (ss_gid st) (cf_Shards (ss_currentConfig st) ! nat s) (cf_Shards c ! nat s) (mem st s))
    else st' = st"
proof (cases "num st + 1 = cf_Num c")
  case True
  then obtain shards where sh: "newConfig_loop (ss_gid st) (cf_Shards (ss_currentConfig st)) (cf_Shards c)
      0 NShards (ss_shards st) = Some shards"
    and st': "st' = st\<lparr>ss_shards := shards, ss_prevConfig := ss_currentConfig st, ss_currentConfig := c\<rparr>"
    using assms(1) by (auto simp: sk_applyNewConfig_def)
  note eff = newConfig_loop_effect[OF sh]
  have "dom (map_of shards) = dom (map_of (ss_shards st))"
    unfolding dom_def eff by auto
  then have "has_shards st'"
    using assms(2) newConfig_loop_ok[OF sh] st' by (simp add: has_shards_def)
  moreover have "mem st' s = moved (ss_gid st) (cf_Shards (ss_currentConfig st) ! nat s)
      (cf_Shards c ! nat s) (mem st s)" if s: "is_shard s" for s
  proof -
    obtain m where "map_of (ss_shards st) s = Some m"
      using has_shardsD[OF assms(2) s] by blast
    then show ?thesis
      using eff[of s] s st' by simp
  qed
  ultimately show ?thesis
    using True st' by simp
next
  case False
  then show ?thesis
    using assms(1) by (simp add: sk_applyNewConfig_def)
qed

lemma applyShardMigration_effect:
  assumes "sk_applyShardMigration d st = Some (r, st')" "has_shards st"
  shows "if sr_ConfigNum d = num st
    then has_shards st' \<and> ss_gid st' = ss_gid st \<and> ss_currentConfig st' = ss_currentConfig st \<and>
      ss_prevConfig st' = ss_prevConfig st \<and>
      ss_duplicateTable st' = mergeTable (sr_DuplicateTable d) (ss_duplicateTable st) \<and>
      (\<forall>s. is_shard s \<longrightarrow> mem st' s = mem st s \<or>
        stat st s = MoveIn \<and> (\<exists>data. (s, data) \<in> set (sr_ShardData d) \<and>
          mem st' s = (mem st s)\<lparr>sm_KV := sm_KV (mem st s) ++ data, sm_Status := GC\<rparr>))
    else st' = st"
proof (cases "sr_ConfigNum d = num st")
  case True
  then obtain shards where sh: "migrate_loop (sr_ShardData d) (ss_shards st) = Some shards"
    and st': "st' = st\<lparr>ss_shards := shards,
      ss_duplicateTable := mergeTable (sr_DuplicateTable d) (ss_duplicateTable st)\<rparr>"
    using assms(1) by (auto simp: sk_applyShardMigration_def)
  note eff = migrate_loop_effect[OF sh]
  have "dom (map_of shards) = dom (map_of (ss_shards st))"
    using eff unfolding dom_def by (metis option.distinct(1))
  then have "has_shards st'"
    using assms(2) migrate_loop_ok[OF sh] st' by (simp add: has_shards_def)
  moreover have "mem st' s = mem st s \<or>
      stat st s = MoveIn \<and> (\<exists>data. (s, data) \<in> set (sr_ShardData d) \<and>
        mem st' s = (mem st s)\<lparr>sm_KV := sm_KV (mem st s) ++ data, sm_Status := GC\<rparr>)" for s
    using eff[of s] st' by auto
  ultimately show ?thesis
    using True st' by simp
next
  case False
  then show ?thesis
    using assms(1) by (simp add: sk_applyShardMigration_def)
qed

lemma applyShardGC_effect:
  assumes "sk_applyShardGC a st = Some (r, st')" "has_shards st"
  shows "has_shards st' \<and> ss_gid st' = ss_gid st \<and> ss_currentConfig st' = ss_currentConfig st \<and>
    ss_prevConfig st' = ss_prevConfig st \<and> ss_duplicateTable st' = ss_duplicateTable st \<and>
    (\<forall>s. is_shard s \<longrightarrow> mem st' s = mem st s \<or>
      sa_ConfigNum a = num st \<and> s \<in> set (sa_ShardIds a) \<and>
        (stat st s = GC \<and> mem st' s = (mem st s)\<lparr>sm_Status := Normal\<rparr> \<or>
         stat st s = MoveOut \<and> mem st' s = NewShardMem))"
proof (cases "sa_ConfigNum a = num st")
  case True
  then obtain shards where sh: "gc_loop (sa_ShardIds a) (ss_shards st) = Some shards"
    and st': "st' = st\<lparr>ss_shards := shards\<rparr>"
    using assms(1) by (auto simp: sk_applyShardGC_def)
  note eff = gc_loop_effect[OF sh]
  have "dom (map_of shards) = dom (map_of (ss_shards st))"
    using eff unfolding dom_def by (metis option.distinct(1))
  then have "has_shards st'"
    using assms(2) gc_loop_ok[OF sh] st' by (simp add: has_shards_def)
  moreover have "mem st' s = mem st s \<or> s \<in> set (sa_ShardIds a) \<and>
        (stat st s = GC \<and> mem st' s = (mem st s)\<lparr>sm_Status := Normal\<rparr> \<or>
         stat st s = MoveOut \<and> mem st' s = NewShardMem)" for s
    using eff[of s] st' by auto
  ultimately show ?thesis
    using True st' by simp
next
  case False
  then show ?thesis
    using assms by (simp add: sk_applyShardGC_def)
qed

section \<open>The invariant\<close>

abbreviation nums :: "mig_sys \<Rightarrow> int \<Rightarrow> int" where
  "nums sys \<equiv> (\<lambda>g. num (ms_group sys g))"

abbreviation stats :: "mig_sys \<Rightarrow> int \<Rightarrow> int \<Rightarrow> shard_status" where
  "stats sys \<equiv> (\<lambda>g s. stat (ms_group sys g) s)"

abbreviation present :: "(nat \<Rightarrow> config) \<Rightarrow> mig_sys \<Rightarrow> int \<Rightarrow> int \<Rightarrow> bool" where
  "present configs sys s n \<equiv> arrived (nums sys) (stats sys) (owner configs n s) s n"

text \<open>
  A state of group \<open>g\<close> refers to the configurations of the controller, its shards are moved
  only where these say so, and a shard that is not the group's, or not there yet, is empty.
\<close>

definition state_ok :: "(nat \<Rightarrow> config) \<Rightarrow> int \<Rightarrow> shard_state \<Rightarrow> bool" where
  "state_ok configs g st \<longleftrightarrow> ss_gid st = g \<and> has_shards st \<and> 0 \<le> num st \<and>
     ss_currentConfig st = configs (nat (num st)) \<and> ss_prevConfig st = configs (nat (num st) - 1) \<and>
     (\<forall>s. is_shard s \<longrightarrow>
       (stat st s = MoveIn \<or> stat st s = GC \<longrightarrow> 0 < num st \<and> owner configs (num st) s = g \<and>
          owner configs (num st - 1) s \<notin> {g, 0}) \<and>
       (stat st s = MoveOut \<longrightarrow> 0 < num st \<and> owner configs (num st - 1) s = g \<and>
          owner configs (num st) s \<notin> {g, 0}) \<and>
       (stat st s = MoveIn \<or> stat st s = Normal \<and> owner configs (num st) s \<noteq> g \<longrightarrow>
          sm_KV (mem st s) = Map.empty))"

text \<open>
  A copy of a shard is current when it has the value of every key of the shard and knows of
  every write executed on the shard.
\<close>

definition covered :: "op_reply dup_table \<Rightarrow> int \<Rightarrow> int \<Rightarrow> bool" where
  "covered t c n \<longleftrightarrow> (\<exists>m r. t c = Some (m, r) \<and> n \<le> m)"

definition current :: "mig_sys \<Rightarrow> int \<Rightarrow> (string \<rightharpoonup> string) \<Rightarrow> op_reply dup_table \<Rightarrow> bool" where
  "current sys s kv t \<longleftrightarrow> (\<forall>key. key2shard key = s \<longrightarrow> kv key = ms_db sys key) \<and>
     (\<forall>c n. (s, c, n) \<in> set (ms_done sys) \<longrightarrow> covered t c n)"

definition past_ok :: "(nat \<Rightarrow> config) \<Rightarrow> mig_sys \<Rightarrow> int \<Rightarrow> shard_state \<Rightarrow> bool" where
  "past_ok configs sys g x \<longleftrightarrow> state_ok configs g x \<and> num x \<le> nums sys g \<and>
     (num x = nums sys g \<longrightarrow> (\<forall>s. is_shard s \<longrightarrow> progress (stat x s) (stats sys g s) \<and>
        (stat x s = MoveOut \<longrightarrow> \<not> present configs sys s (nums sys g) \<longrightarrow>
           current sys s (sm_KV (mem x s)) (ss_duplicateTable x))))"

fun pending_ok :: "(nat \<Rightarrow> config) \<Rightarrow> mig_sys \<Rightarrow> int \<Rightarrow> raft_command \<Rightarrow> bool" where
  "pending_ok configs sys g (ClientOpeartion op) = True"
| "pending_ok configs sys g (ConfigChange c) =
     (\<exists>n. c = configs (Suc n) \<and> int n \<le> nums sys g \<and>
        (int n = nums sys g \<longrightarrow> (\<forall>s. is_shard s \<longrightarrow> stats sys g s = Normal)))"
| "pending_ok configs sys g (ShardMigration r) =
     (sr_ConfigNum r \<le> nums sys g \<and> (\<forall>(s, d) \<in> set (sr_ShardData r). is_shard s \<and>
        (sr_ConfigNum r = nums sys g \<longrightarrow> stats sys g s = MoveIn \<longrightarrow>
           nums sys (owner configs (nums sys g - 1) s) = nums sys g \<and>
           stats sys (owner configs (nums sys g - 1) s) s = MoveOut \<and>
           current sys s d (sr_DuplicateTable r))))"
| "pending_ok configs sys g (ShardGC a) =
     (\<forall>s \<in> set (sa_ShardIds a). is_shard s \<and> present configs sys s (sa_ConfigNum a))"

definition served_ok :: "(nat \<Rightarrow> config) \<Rightarrow> mig_sys \<Rightarrow> bool" where
  "served_ok configs sys \<longleftrightarrow> (\<forall>g s. g \<noteq> 0 \<longrightarrow> is_shard s \<longrightarrow>
     serves (owner configs) (nums sys) (stats sys) g s \<longrightarrow>
     current sys s (sm_KV (mem (ms_group sys g) s)) (ss_duplicateTable (ms_group sys g)))"

text \<open>A shard on which something was written has arrived at an owner.\<close>

definition used_ok :: "(nat \<Rightarrow> config) \<Rightarrow> mig_sys \<Rightarrow> bool" where
  "used_ok configs sys \<longleftrightarrow> (\<forall>s. is_shard s \<longrightarrow>
     (\<exists>key. key2shard key = s \<and> ms_db sys key \<noteq> None) \<or> (\<exists>c n. (s, c, n) \<in> set (ms_done sys)) \<longrightarrow>
     (\<exists>n \<ge> 0. owner configs n s \<noteq> 0 \<and> present configs sys s n))"

definition sys_ok :: "(nat \<Rightarrow> config) \<Rightarrow> mig_sys \<Rightarrow> bool" where
  "sys_ok configs sys \<longleftrightarrow> order_ok (owner configs) (nums sys) (stats sys) \<and>
     (\<forall>g. ms_group sys g \<in> ms_past sys g \<and> (\<forall>x \<in> ms_past sys g. past_ok configs sys g x)) \<and>
     (\<forall>g. \<forall>cmd \<in> ms_pending sys g. pending_ok configs sys g cmd) \<and>
     served_ok configs sys \<and> used_ok configs sys \<and> distinct (ms_done sys)"

lemma configs_owner_ok: "configs_ok configs \<Longrightarrow> owner_ok (owner configs)"
  unfolding owner_ok_def configs_ok_def by (auto simp: nat_add_distrib)

lemma sys_okD:
  assumes "sys_ok configs sys"
  shows "order_ok (owner configs) (nums sys) (stats sys)" "ms_group sys g \<in> ms_past sys g"
    "x \<in> ms_past sys g \<Longrightarrow> past_ok configs sys g x" "state_ok configs g (ms_group sys g)"
    "cmd \<in> ms_pending sys g \<Longrightarrow> pending_ok configs sys g cmd"
    "served_ok configs sys" "used_ok configs sys" "distinct (ms_done sys)"
  using assms by (auto simp: sys_ok_def past_ok_def)

subsection \<open>The beginning\<close>

lemma fillShards_empty: "gm_ok (fillShards [])" "dom (map_of (fillShards [])) = {s. is_shard s}"
    "map_of (fillShards []) s \<in> {None, Some NewShardMem}"
proof -
  have eq: "fillShards [] = map (\<lambda>i. (int i, NewShardMem)) [0..<NShards]"
    by (simp add: fillShards_def NShards_def upt_rec)
  then show "gm_ok (fillShards [])"
    by (simp add: comp_def distinct_map inj_on_def)
  have "s \<in> int ` {0..<NShards}" if "is_shard s" for s
    using that by (intro image_eqI[of _ _ "nat s"]) auto
  then show "dom (map_of (fillShards [])) = {s. is_shard s}"
    unfolding dom_map_of_conv_image_fst eq by (auto simp: image_image)
  show "map_of (fillShards []) s \<in> {None, Some NewShardMem}"
    by (cases "map_of (fillShards []) s") (auto simp: eq dest: map_of_SomeD)
qed

lemma sk_init_mem:
  assumes "is_shard s"
  shows "mem (sk_init g) s = NewShardMem"
proof -
  have "s \<in> dom (map_of (fillShards []))"
    using assms fillShards_empty(2) by simp
  then have "map_of (fillShards []) s = Some NewShardMem"
    using fillShards_empty(3)[of s] by auto
  then show ?thesis
    by (simp add: sk_init_def)
qed

lemma sk_init_state:
  assumes "configs_ok configs"
  shows "state_ok configs g (sk_init g)"
proof -
  have "has_shards (sk_init g)"
    using fillShards_empty by (simp add: has_shards_def sk_init_def)
  moreover have "ss_gid (sk_init g) = g" "ss_currentConfig (sk_init g) = DefaultConfig"
      "ss_prevConfig (sk_init g) = DefaultConfig" "num (sk_init g) = 0"
    by (simp_all add: sk_init_def emptyShardState_def DefaultConfig_def)
  ultimately show ?thesis
    using assms sk_init_mem by (auto simp: state_ok_def configs_ok_def NewShardMem_def)
qed

lemma owner_0: "configs_ok configs \<Longrightarrow> is_shard s \<Longrightarrow> cf_Shards (configs 0) ! nat s = 0"
  by (auto simp: configs_ok_def DefaultConfig_def)

lemma sys_ok_init:
  assumes ok: "configs_ok configs"
  shows "sys_ok configs mig_init"
proof -
  have num0: "num (sk_init g) = 0" for g
    by (simp add: sk_init_def emptyShardState_def DefaultConfig_def)
  have stat0: "is_shard s \<Longrightarrow> stat (sk_init g) s = Normal" for g s
    using sk_init_mem[of s g] by (simp add: NewShardMem_def)
  have "order_ok (owner configs) (nums mig_init) (stats mig_init)"
    by (auto simp: order_ok_def status_ok_def awaited_ok_def released_ok_def earlier_ok_def
        arrived_def mig_init_def num0 stat0)
  moreover have "past_ok configs mig_init g (sk_init g)" for g
    using sk_init_state[OF ok, of g] stat0 by (auto simp: past_ok_def mig_init_def progress_def)
  moreover have "served_ok configs mig_init"
    using owner_0[OF ok] by (auto simp: served_ok_def serves_def mig_init_def num0)
  ultimately show ?thesis
    by (auto simp: sys_ok_def used_ok_def) (simp_all add: mig_init_def)
qed

end
