(* ===== verification/Shard_Safety.thy ===== *)
theory Shard_Safety
  imports Shard_Migration
begin

text \<open>
  The invariant of \<open>Shard_Migration\<close> is kept by every step of the shard handover protocol, and
  what it means for the clients: a shard is served by one group, the groups together behave as
  one map, and every write takes effect once.
\<close>

lemma state_okD:
  assumes "state_ok configs g x"
  shows "ss_gid x = g" "has_shards x" "0 \<le> num x" "ss_currentConfig x = configs (nat (num x))"
    "ss_prevConfig x = configs (nat (num x) - 1)"
    "is_shard s \<Longrightarrow> stat x s = MoveIn \<or> stat x s = GC \<Longrightarrow>
       0 < num x \<and> owner configs (num x) s = g \<and> owner configs (num x - 1) s \<notin> {g, 0}"
    "is_shard s \<Longrightarrow> stat x s = MoveOut \<Longrightarrow>
       0 < num x \<and> owner configs (num x - 1) s = g \<and> owner configs (num x) s \<notin> {g, 0}"
    "is_shard s \<Longrightarrow> stat x s = MoveIn \<or> stat x s = Normal \<and> owner configs (num x) s \<noteq> g \<Longrightarrow>
       sm_KV (mem x s) = Map.empty"
  using assms unfolding state_ok_def by blast+

lemma past_okD:
  assumes "past_ok configs sys g x"
  shows "state_ok configs g x" "num x \<le> nums sys g"
    "num x = nums sys g \<Longrightarrow> is_shard s \<Longrightarrow> progress (stat x s) (stats sys g s)"
    "num x = nums sys g \<Longrightarrow> is_shard s \<Longrightarrow> stat x s = MoveOut \<Longrightarrow>
       \<not> present configs sys s (nums sys g) \<Longrightarrow> current sys s (sm_KV (mem x s)) (ss_duplicateTable x)"
  using assms unfolding past_ok_def by blast+

section \<open>Proposals\<close>

lemma current_pending [simp]: "current (sys\<lparr>ms_pending := x\<rparr>) = current sys"
  by (simp add: current_def fun_eq_iff)

lemma pending_ok_pending [simp]:
  "pending_ok configs (sys\<lparr>ms_pending := x\<rparr>) g cmd = pending_ok configs sys g cmd"
  by (cases cmd) simp_all

lemma sys_ok_propose:
  assumes "sys_ok configs sys" "pending_ok configs sys g cmd"
  shows "sys_ok configs (propose g cmd sys)"
  using assms by (auto simp: sys_ok_def past_ok_def served_ok_def used_ok_def)

lemma in_update: "(k, v) \<in> set (AList.update k' v' al) \<Longrightarrow> (k, v) = (k', v') \<or> (k, v) \<in> set al"
  by (induction al) (auto split: if_splits)

lemma shardByStatus_loop_ids:
  assumes "shardByStatus_loop status prev shards acc = Some m"
    and "\<forall>(p, ids) \<in> set acc. p \<noteq> 0 \<and> (\<forall>s \<in> set ids. P p s)"
    and "\<forall>(i, mem) \<in> set shards. sm_Status mem = status \<longrightarrow> (\<forall>p. slice_get prev i = Some p \<longrightarrow> P p i)"
  shows "\<forall>(p, ids) \<in> set m. p \<noteq> 0 \<and> (\<forall>s \<in> set ids. P p s)"
  using assms
proof (induction status prev shards acc rule: shardByStatus_loop.induct)
  case (2 status prev i mem rest acc)
  show ?case
  proof (cases "sm_Status mem = status")
    case True
    then obtain p where p: "slice_get prev i = Some p" "P p i"
      using "2.prems"(1,3) by auto
    let ?acc = "if p \<noteq> 0 then AList.update p (gm_get [] acc p @ [i]) acc else acc"
    have "\<forall>s \<in> set (gm_get [] acc p). P p s"
    proof (cases "map_of acc p")
      case (Some ids)
      then have "(p, ids) \<in> set acc"
        by (rule map_of_SomeD)
      then show ?thesis
        using "2.prems"(2) Some by (auto simp: gm_get_def)
    qed (simp add: gm_get_def)
    then have "\<forall>(p, ids) \<in> set ?acc. p \<noteq> 0 \<and> (\<forall>s \<in> set ids. P p s)"
      using "2.prems"(2) p by (auto dest!: in_update split: if_splits)
    then show ?thesis
      using "2.IH"(1)[OF True p(1)] "2.prems"(1,3) True p(1) by simp
  next
    case False
    then show ?thesis
      using "2.IH"(2)[OF False] "2.prems" by simp
  qed
qed simp

lemma getShardByStatus_ids:
  assumes "sk_getShardByStatus status x = Some m" "(p, ids) \<in> set m" "state_ok configs g x"
  shows "p \<noteq> 0 \<and> (\<forall>s \<in> set ids. is_shard s \<and> stat x s = status \<and> p = owner configs (num x - 1) s)"
proof -
  have prev: "ss_prevConfig x = configs (nat (num x - 1))"
    using assms(3) by (simp add: state_ok_def nat_diff_distrib')
  have hs: "has_shards x"
    using assms(3) by (simp add: state_ok_def)
  let ?P = "\<lambda>p s. is_shard s \<and> stat x s = status \<and> p = owner configs (num x - 1) s"
  have "\<forall>(i, m) \<in> set (ss_shards x). sm_Status m = status \<longrightarrow>
      (\<forall>p. slice_get (cf_Shards (ss_prevConfig x)) i = Some p \<longrightarrow> ?P p i)"
  proof (intro ballI case_prodI2 impI allI)
    fix im i m p
    assume im: "im \<in> set (ss_shards x)" "im = (i, m)" and m: "sm_Status m = status"
      and p: "slice_get (cf_Shards (ss_prevConfig x)) i = Some p"
    have "is_shard i" "mem x i = m"
      using has_shards_set[OF hs, of i m] im by simp_all
    moreover have "p = owner configs (num x - 1) i"
      using p by (simp add: prev slice_get_eq_Some)
    ultimately show "?P p i"
      using m by simp
  qed
  from shardByStatus_loop_ids[OF assms(1)[unfolded sk_getShardByStatus_def] _ this]
  have "\<forall>(p, ids) \<in> set m. p \<noteq> 0 \<and> (\<forall>s \<in> set ids. ?P p s)"
    by simp
  then show ?thesis
    using assms(2) by auto
qed

lemma copyShards_data:
  assumes "copyShards ids shards data = Some data'" "(s, d) \<in> set data'"
  shows "(s, d) \<in> set data \<or> s \<in> set ids \<and> (\<exists>m. map_of shards s = Some m \<and> d = sm_KV m)"
  using assms
proof (induction ids arbitrary: data)
  case (Cons i ids)
  then obtain m where m: "map_of shards i = Some m"
      "copyShards ids shards (AList.update i (sm_copyData m) data) = Some data'"
    by auto
  from Cons.IH[OF m(2) Cons.prems(2)] show ?case
    using m(1) by (auto simp: sm_copyData_def dest!: in_update)
qed simp

lemma propose_fetch:
  assumes ok: "sys_ok configs sys" "configs_ok configs" and x: "x \<in> ms_past sys g"
    and q: "\<forall>k. \<exists>n. query k = configs n" and cmd: "cmd \<in> set (fetchConfigTask_round True query x)"
  shows "pending_ok configs sys g cmd"
proof -
  have past: "past_ok configs sys g x"
    using sys_okD(3)[OF ok(1) x] .
  then have st: "state_ok configs g x"
    by (simp add: past_ok_def)
  obtain n where n: "query (num x + 1) = configs n"
    using q by blast
  have cmd: "cmd = ConfigChange (configs n)" "cf_Num (configs n) = num x + 1" "needFetch x"
    using cmd n by (auto simp: fetchConfigTask_round_def Let_def split: if_splits)
  have "cf_Num (configs n) = int n"
    using ok(2) by (simp add: configs_ok_def)
  then have "n = Suc (nat (num x))"
    using cmd(2) state_okD(3)[OF st] by linarith
  moreover have normal: "stat x s = Normal" if "is_shard s" for s
  proof -
    have "(s, mem x s) \<in> set (ss_shards x)"
      using has_shardsD[OF state_okD(2)[OF st] that] by (rule map_of_SomeD)
    then show ?thesis
      using cmd(3) unfolding needFetch_def by blast
  qed
  have "stats sys g s = Normal" if "num x = nums sys g" "is_shard s" for s
    using past_okD(3)[OF past that] normal[OF that(2)] by (auto simp: progress_def)
  moreover have "0 \<le> num x" "num x \<le> nums sys g"
    using state_okD(3)[OF st] past_okD(2)[OF past] .
  ultimately show ?thesis
    by (auto simp: cmd(1) intro!: exI[of _ "nat (num x)"])
qed

lemma progress_MoveIn: "progress a MoveIn \<Longrightarrow> a = MoveIn"
  by (simp add: progress_def)

lemma progress_MoveOut: "progress a MoveOut \<Longrightarrow> a = MoveOut"
  by (simp add: progress_def)

lemma propose_migrate:
  assumes ok: "sys_ok configs sys" and x: "x \<in> ms_past sys g" and y: "y \<in> ms_past sys p"
    and m: "sk_getShardByStatus MoveIn x = Some m" "(p, ids) \<in> set m"
    and r: "sk_GetShardsData True \<lparr>sa_ConfigNum = num x, sa_ShardIds = ids\<rparr> y = Some r" "sr_Err r = OK"
  shows "pending_ok configs sys g (ShardMigration r)"
proof -
  note px = sys_okD(3)[OF ok x] and py = sys_okD(3)[OF ok y]
  note sx = past_okD(1)[OF px]
  obtain data where data: "copyShards ids (ss_shards y) [] = Some data" and le: "num x \<le> num y"
    and req: "r = \<lparr>sr_Err = OK, sr_ConfigNum = num x, sr_ShardData = data,
      sr_DuplicateTable = (\<lambda>c. map_option li_copyData (ss_duplicateTable y c))\<rparr>"
    using r by (auto simp: sk_GetShardsData_def shard_error_def split: if_splits)
  have copy: "current sys s d (\<lambda>c. map_option li_copyData (ss_duplicateTable y c)) =
      current sys s d (ss_duplicateTable y)" for s d
    by (auto simp: current_def covered_def li_copyData_def)
  have "is_shard s \<and> (num x = nums sys g \<longrightarrow> stats sys g s = MoveIn \<longrightarrow>
      nums sys (owner configs (nums sys g - 1) s) = nums sys g \<and>
      stats sys (owner configs (nums sys g - 1) s) s = MoveOut \<and> current sys s d (ss_duplicateTable y))"
    if sd: "(s, d) \<in> set data" for s d
  proof -
    have s: "s \<in> set ids" "d = sm_KV (mem y s)"
      using copyShards_data[OF data sd] by auto
    then have i: "is_shard s" and o: "p = owner configs (num x - 1) s"
      using getShardByStatus_ids[OF m sx] by auto
    have "nums sys p = nums sys g \<and> stats sys p s = MoveOut \<and> current sys s d (ss_duplicateTable y)"
      if n: "num x = nums sys g" and mi: "stats sys g s = MoveIn"
    proof -
      have "nums sys g \<le> nums sys p"
        using le n past_okD(2)[OF py] by linarith
      moreover have "p = owner configs (nums sys g - 1) s"
        using o n by simp
      ultimately have p: "nums sys p = nums sys g" "stats sys p s = MoveOut"
        using awaited_okD[OF order_okD(2)[OF sys_okD(1)[OF ok]] i, of g, OF mi] by auto
      then have ny: "num y = nums sys p"
        using le n past_okD(2)[OF py] by linarith
      have out: "stat y s = MoveOut"
        using past_okD(3)[OF py ny i] p(2) by (auto simp: progress_def)
      have "owner configs (nums sys p) s = g"
        using status_okD(1)[OF order_okD(1)[OF sys_okD(1)[OF ok]] i, of g] mi p(1) by simp
      then have "\<not> present configs sys s (nums sys p)"
        using mi p(1) by (simp add: arrived_def)
      then have "current sys s (sm_KV (mem y s)) (ss_duplicateTable y)"
        by (rule past_okD(4)[OF py ny i out])
      then show ?thesis
        using p s(2) by simp
    qed
    then show ?thesis
      using i o by auto
  qed
  then show ?thesis
    using past_okD(2)[OF px] by (auto simp: req copy)
qed

lemma propose_gc:
  assumes ok: "sys_ok configs sys" and x: "x \<in> ms_past sys g"
    and m: "sk_getShardByStatus GC x = Some m" "(p, ids) \<in> set m"
  shows "pending_ok configs sys h (ShardGC \<lparr>sa_ConfigNum = num x, sa_ShardIds = ids\<rparr>)"
proof -
  note px = sys_okD(3)[OF ok x]
  note sx = past_okD(1)[OF px]
  have "is_shard s \<and> present configs sys s (num x)" if "s \<in> set ids" for s
  proof -
    have i: "is_shard s" "stat x s = GC"
      using getShardByStatus_ids[OF m sx] that by auto
    have own: "owner configs (num x) s = g"
      using state_okD(6)[OF sx i(1)] i(2) by simp
    have "arrived (nums sys) (stats sys) g s (num x)"
      using past_okD(2)[OF px] past_okD(3)[OF px _ i(1)] i(2) by (auto simp: arrived_def progress_def)
    then show ?thesis
      using i own by simp
  qed
  then show ?thesis
    by simp
qed

section \<open>A command that moves shards\<close>

abbreviation put :: "int \<Rightarrow> shard_state \<Rightarrow> mig_sys \<Rightarrow> mig_sys" where
  "put g st sys \<equiv> sys\<lparr>ms_group := (ms_group sys)(g := st), ms_past := (ms_past sys)(g := insert st (ms_past sys g))\<rparr>"

abbreviation kv :: "shard_state \<Rightarrow> int \<Rightarrow> (string \<rightharpoonup> string)" where
  "kv st s \<equiv> sm_KV (mem st s)"

lemma put_simps:
  "nums (put g st sys) = (nums sys)(g := num st)" "stats (put g st sys) = (stats sys)(g := stat st)"
  "current (put g st sys) = current sys"
  by (simp_all add: current_def fun_eq_iff)

lemma put_same: "ms_group sys g \<in> ms_past sys g \<Longrightarrow> put g (ms_group sys g) sys = sys"
  by (simp add: insert_absorb)

text \<open>The claims on pending commands and on earlier states survive any change of numbers and states.\<close>

lemma past_ok_evolves:
  assumes ev: "evolves (owner configs) g (nums sys) (stats sys) (nums sys') (stats sys')"
    and past: "past_ok configs sys h x" and cur: "current sys' = current sys"
  shows "past_ok configs sys' h x"
  unfolding past_ok_def
proof (intro conjI impI allI)
  note fr = evolves_frame[OF ev, of h] and le = past_okD(2)[OF past]
  show "state_ok configs h x"
    by (rule past_okD(1)[OF past])
  show "num x \<le> nums sys' h"
    using fr le by linarith
  assume n: "num x = nums sys' h"
  then have n': "num x = nums sys h" "nums sys' h = nums sys h"
    using fr le by linarith+
  fix s
  assume s: "is_shard s"
  show "progress (stat x s) (stats sys' h s)"
    by (rule progress_trans[OF past_okD(3)[OF past n'(1) s] evolves_progress[OF ev n'(2) s]])
  assume out: "stat x s = MoveOut" and not: "\<not> present configs sys' s (nums sys' h)"
  have "\<not> present configs sys s (nums sys h)"
    using not evolves_arrived[OF ev s, of "owner configs (nums sys h) s" "nums sys h"] n'(2) by auto
  then show "current sys' s (sm_KV (mem x s)) (ss_duplicateTable x)"
    unfolding cur by (rule past_okD(4)[OF past n'(1) s out])
qed

lemma pending_ok_evolves:
  assumes ev: "evolves (owner configs) g (nums sys) (stats sys) (nums sys') (stats sys')"
    and ord: "order_ok (owner configs) (nums sys') (stats sys')"
    and pend: "pending_ok configs sys h cmd" and cur: "current sys' = current sys"
  shows "pending_ok configs sys' h cmd"
proof (cases cmd)
  case (ConfigChange c)
  then obtain n where n: "c = configs (Suc n)" "int n \<le> nums sys h"
      "int n = nums sys h \<Longrightarrow> \<forall>s. is_shard s \<longrightarrow> stats sys h s = Normal"
    using pend by auto
  have le: "nums sys h \<le> nums sys' h"
    using evolves_frame[OF ev, of h] by simp
  have "stats sys' h s = Normal" if eq: "int n = nums sys' h" and s: "is_shard s" for s
  proof -
    have same: "nums sys' h = nums sys h" "int n = nums sys h"
      using eq le n(2) by linarith+
    show ?thesis
      using evolves_progress[OF ev same(1) s] n(3)[OF same(2)] s by (auto simp: progress_def)
  qed
  then show ?thesis
    using ConfigChange n(1,2) le by auto
next
  case (ShardMigration r)
  have le: "nums sys k \<le> nums sys' k" for k
    using evolves_frame[OF ev, of k] by simp
  have old: "sr_ConfigNum r \<le> nums sys h" "\<forall>(s, d) \<in> set (sr_ShardData r). is_shard s \<and>
        (sr_ConfigNum r = nums sys h \<longrightarrow> stats sys h s = MoveIn \<longrightarrow>
           nums sys (owner configs (nums sys h - 1) s) = nums sys h \<and>
           stats sys (owner configs (nums sys h - 1) s) s = MoveOut \<and>
           current sys s d (sr_DuplicateTable r))"
    using pend ShardMigration by auto
  have "nums sys' (owner configs (nums sys' h - 1) s) = nums sys' h \<and>
      stats sys' (owner configs (nums sys' h - 1) s) s = MoveOut \<and> current sys s d (sr_DuplicateTable r)"
    if sd: "(s, d) \<in> set (sr_ShardData r)" and n: "sr_ConfigNum r = nums sys' h" and mi: "stats sys' h s = MoveIn"
    for s d
  proof -
    have s: "is_shard s"
      using old(2) sd by auto
    have same: "nums sys' h = nums sys h" "sr_ConfigNum r = nums sys h"
      using n old(1) le[of h] by linarith+
    have "stats sys h s = MoveIn"
      using evolves_progress[OF ev same(1) s] mi by (auto simp: progress_def)
    then have "nums sys (owner configs (nums sys h - 1) s) = nums sys h" "current sys s d (sr_DuplicateTable r)"
      using old(2) sd same(2) by auto
    then show ?thesis
      using awaited_okD[OF order_okD(2)[OF ord] s, of h, OF mi] le[of "owner configs (nums sys h - 1) s"]
      unfolding same(1) by linarith
  qed
  then show ?thesis
    using ShardMigration old le[of h] cur by auto
next
  case (ShardGC a)
  then show ?thesis
    using pend evolves_arrived[OF ev] by auto
qed simp

lemma sys_ok_evolves:
  assumes ok: "sys_ok configs sys" "configs_ok configs" and g: "g \<noteq> 0"
    and ev: "evolves (owner configs) g (nums sys) (stats sys) (nums (put g st sys)) (stats (put g st sys))"
    and st: "state_ok configs g st"
    and out: "\<And>s. is_shard s \<Longrightarrow> stat st s = MoveOut \<Longrightarrow> \<not> present configs sys s (num st) \<Longrightarrow>
      current sys s (kv st s) (ss_duplicateTable st)"
    and srv: "\<And>s. is_shard s \<Longrightarrow> owner configs (num st) s = g \<Longrightarrow> stat st s = Normal \<or> stat st s = GC \<Longrightarrow>
      current sys s (kv st s) (ss_duplicateTable st)"
  shows "sys_ok configs (put g st sys)"
proof -
  let ?sys = "put g st sys"
  have ord: "order_ok (owner configs) (nums ?sys) (stats ?sys)"
    by (rule evolves_order[OF sys_okD(1)[OF ok(1)] configs_owner_ok[OF ok(2)] g ev])
  have "past_ok configs ?sys g st"
    unfolding past_ok_def
  proof (intro conjI impI allI)
    fix s
    assume s: "is_shard s" "stat st s = MoveOut" "\<not> present configs ?sys s (nums ?sys g)"
    then have "\<not> present configs sys s (num st)"
      using evolves_arrived[OF ev s(1), of "owner configs (num st) s" "num st"] by auto
    then show "current ?sys s (sm_KV (mem st s)) (ss_duplicateTable st)"
      unfolding put_simps by (rule out[OF s(1,2)])
  qed (use st in \<open>auto simp: progress_def\<close>)
  then have past: "past_ok configs ?sys h x" if "x \<in> ms_past ?sys h" for h x
    using past_ok_evolves[OF ev sys_okD(3)[OF ok(1)] put_simps(3)] that by (auto split: if_splits)
  have pend: "pending_ok configs ?sys h cmd" if "cmd \<in> ms_pending ?sys h" for h cmd
    using pending_ok_evolves[OF ev ord sys_okD(5)[OF ok(1)] put_simps(3)] that by simp
  have served: "served_ok configs ?sys"
    unfolding served_ok_def put_simps(3)
  proof (intro allI impI)
    fix h s
    assume h: "h \<noteq> 0" "is_shard s" "serves (owner configs) (nums ?sys) (stats ?sys) h s"
    show "current sys s (kv (ms_group ?sys h) s) (ss_duplicateTable (ms_group ?sys h))"
    proof (cases "h = g")
      case True
      then show ?thesis
        using h srv[of s] by (auto simp: serves_def)
    next
      case False
      then show ?thesis
        using h sys_okD(6)[OF ok(1)] by (auto simp: served_ok_def serves_def)
    qed
  qed
  have used: "used_ok configs ?sys"
    using sys_okD(7)[OF ok(1)] evolves_arrived[OF ev] unfolding used_ok_def by (simp del: fun_upd_apply) blast
  show ?thesis
    using ord past pend served used sys_okD(2,8)[OF ok(1)] by (simp add: sys_ok_def)
qed

lemma state_okI:
  assumes "order_ok (owner configs) N S" "N g = num st" "\<And>s. is_shard s \<Longrightarrow> S g s = stat st s"
    and "ss_gid st = g" "has_shards st" "ss_currentConfig st = configs (nat (num st))"
      "ss_prevConfig st = configs (nat (num st) - 1)"
    and "\<And>s. is_shard s \<Longrightarrow> stat st s = MoveIn \<or> stat st s = Normal \<and> owner configs (num st) s \<noteq> g \<Longrightarrow>
      kv st s = Map.empty"
  shows "state_ok configs g st"
proof -
  note st = order_okD(1)[OF assms(1)]
  have "0 \<le> num st"
    using order_okD(5)[OF assms(1), of g] assms(2) by simp
  moreover have "0 < num st \<and> owner configs (num st) s = g \<and> owner configs (num st - 1) s \<notin> {g, 0}"
    if "is_shard s" "stat st s = MoveIn \<or> stat st s = GC" for s
    using status_okD(1)[OF st that(1), of g] assms(2) assms(3)[OF that(1)] that(2) by simp
  moreover have "0 < num st \<and> owner configs (num st - 1) s = g \<and> owner configs (num st) s \<notin> {g, 0}"
    if "is_shard s" "stat st s = MoveOut" for s
    using status_okD(2)[OF st that(1), of g] assms(2) assms(3)[OF that(1)] that(2) by simp
  ultimately show ?thesis
    using assms(4-8) unfolding state_ok_def by blast
qed

lemma current_group:
  assumes ok: "sys_ok configs sys" and s: "is_shard s"
  shows "g \<noteq> 0 \<Longrightarrow> owner configs (nums sys g) s = g \<Longrightarrow> stats sys g s = Normal \<or> stats sys g s = GC \<Longrightarrow>
      current sys s (kv (ms_group sys g) s) (ss_duplicateTable (ms_group sys g))"
    "stats sys g s = MoveOut \<Longrightarrow> \<not> present configs sys s (nums sys g) \<Longrightarrow>
      current sys s (kv (ms_group sys g) s) (ss_duplicateTable (ms_group sys g))"
  using sys_okD(6)[OF ok] s past_okD(4)[OF sys_okD(3)[OF ok sys_okD(2)[OF ok]], of g s]
  by (auto simp: served_ok_def serves_def)

text \<open>A shard that no configuration up to the group's own has given to anybody was never written.\<close>

lemma current_unused:
  assumes ok: "sys_ok configs sys" "configs_ok configs" and s: "is_shard s" and g: "g \<noteq> 0"
    and own: "owner configs (nums sys g) s = 0" "owner configs (nums sys g + 1) s = g"
  shows "current sys s Map.empty t"
proof -
  note ord = sys_okD(1)[OF ok(1)]
  have "False" if n: "0 \<le> n" "owner configs n s \<noteq> 0" "present configs sys s n" for n
  proof -
    have "nums sys g < n"
      using own_zero[OF configs_owner_ok[OF ok(2)] s n(1) _ own(1)] n(2) by linarith
    moreover have "\<not> nums sys g + 1 < n"
      using earlier_okD[OF order_okD(4)[OF ord] s _ _ n(2,3), of "nums sys g + 1"] order_okD(5)[OF ord, of g] own(2) g
      by auto
    ultimately have "n = nums sys g + 1"
      by linarith
    then show False
      using n(3) own(2) by (simp add: arrived_def)
  qed
  then show ?thesis
    using sys_okD(7)[OF ok(1)] s unfolding used_ok_def current_def by (metis option.exhaust)
qed

lemma covered_mergeTable: "covered t c n \<or> covered t' c n \<Longrightarrow> covered (mergeTable t t') c n"
  by (force simp: covered_def mergeTable_def split: option.splits)

lemma current_mergeTable:
  "current sys s d t \<or> current sys s d t' \<Longrightarrow> current sys s d (mergeTable t t')"
  unfolding current_def using covered_mergeTable by blast

text \<open>What the command for the next configuration does to a group all of whose shards are in their normal state.\<close>

lemma newConfig_facts:
  assumes ok: "sys_ok configs sys" "configs_ok configs"
    and pend: "pending_ok configs sys g (ConfigChange c)"
    and ap: "sk_applyNewConfig c (ms_group sys g) = Some (r, st)"
    and True: "num (ms_group sys g) + 1 = cf_Num c"
  shows "num st = num (ms_group sys g) + 1" "c = configs (nat (num st))" "has_shards st" "ss_gid st = ss_gid (ms_group sys g)"
    "ss_currentConfig st = c" "ss_prevConfig st = ss_currentConfig (ms_group sys g)"
    "ss_duplicateTable st = ss_duplicateTable (ms_group sys g)"
    "is_shard s \<Longrightarrow> stat (ms_group sys g) s = Normal" "is_shard s \<Longrightarrow> kv st s = kv (ms_group sys g) s"
    "is_shard s \<Longrightarrow> stat st s =
      (if owner configs (num (ms_group sys g)) s \<noteq> g \<and> owner configs (num (ms_group sys g) + 1) s = g \<and>
          owner configs (num (ms_group sys g)) s \<noteq> 0 then MoveIn
       else if owner configs (num (ms_group sys g)) s = g \<and> owner configs (num (ms_group sys g) + 1) s \<notin> {g, 0} then MoveOut
       else Normal)"
proof -
  let ?st = "ms_group sys g"
  note s0 = sys_okD(4)[OF ok(1), of g]
  have step: "has_shards st \<and> ss_gid st = ss_gid ?st \<and> ss_currentConfig st = c \<and>
      ss_prevConfig st = ss_currentConfig ?st \<and> ss_duplicateTable st = ss_duplicateTable ?st \<and>
      (\<forall>s. is_shard s \<longrightarrow> mem st s = moved (ss_gid ?st) (cf_Shards (ss_currentConfig ?st) ! nat s)
         (cf_Shards c ! nat s) (mem ?st s))"
    using applyNewConfig_effect[OF ap state_okD(2)[OF s0]] True by simp
  obtain n where n: "c = configs (Suc n)" "int n \<le> num ?st"
      "int n = num ?st \<Longrightarrow> \<forall>s. is_shard s \<longrightarrow> stat ?st s = Normal"
    using pend by auto
  have c: "cf_Num c = int (Suc n)"
    using ok(2) n(1) by (simp add: configs_ok_def)
  then have eq: "int n = num ?st" and num: "num st = num ?st + 1"
    using True step by simp_all
  have nat: "nat (num st) = Suc n" "nat (num ?st) = n" "nat (num ?st + 1) = Suc n"
    using num eq by linarith+
  have normal: "stat ?st s = Normal" if "is_shard s" for s
    using n(3)[OF eq] that by blast
  have mem: "mem st s = moved g (owner configs (num ?st) s) (owner configs (num ?st + 1) s) (mem ?st s)"
    if "is_shard s" for s
    using step that state_okD(1,4)[OF s0] n(1) nat by simp
  have kv: "kv st s = kv ?st s" if "is_shard s" for s
    unfolding mem[OF that] by (simp add: moved_def)
  have stat: "stat st s = (if owner configs (num ?st) s \<noteq> g \<and> owner configs (num ?st + 1) s = g \<and>
        owner configs (num ?st) s \<noteq> 0 then MoveIn
      else if owner configs (num ?st) s = g \<and> owner configs (num ?st + 1) s \<notin> {g, 0} then MoveOut else Normal)"
    if "is_shard s" for s
    unfolding mem[OF that] using normal[OF that] by (simp add: moved_def)
  show "num st = num ?st + 1" "c = configs (nat (num st))"
    using num n(1) nat(1) by simp_all
  show "has_shards st" "ss_gid st = ss_gid ?st" "ss_currentConfig st = c" "ss_prevConfig st = ss_currentConfig ?st"
    "ss_duplicateTable st = ss_duplicateTable ?st"
    using step by simp_all
  show "is_shard s \<Longrightarrow> stat ?st s = Normal" "is_shard s \<Longrightarrow> kv st s = kv ?st s"
    by (fact normal kv)+
  show "is_shard s \<Longrightarrow> stat st s = (if owner configs (num ?st) s \<noteq> g \<and> owner configs (num ?st + 1) s = g \<and>
        owner configs (num ?st) s \<noteq> 0 then MoveIn
      else if owner configs (num ?st) s = g \<and> owner configs (num ?st + 1) s \<notin> {g, 0} then MoveOut else Normal)"
    by (fact stat)
qed

lemma apply_ConfigChange:
  assumes ok: "sys_ok configs sys" "configs_ok configs" and g: "g \<noteq> 0"
    and pend: "pending_ok configs sys g (ConfigChange c)"
    and ap: "sk_applyNewConfig c (ms_group sys g) = Some (r, st)"
  shows "sys_ok configs (put g st sys)"
proof (cases "num (ms_group sys g) + 1 = cf_Num c")
  case True
  let ?st = "ms_group sys g"
  note ord = sys_okD(1)[OF ok(1)] and s0 = sys_okD(4)[OF ok(1), of g]
  note facts = newConfig_facts[OF ok pend ap True]
  note num = facts(1) and step = facts(3-7) and normal = facts(8) and kv = facts(9) and stat = facts(10)
  have prev: "nat (num st) - Suc 0 = nat (num ?st)"
    using num state_okD(3)[OF s0] by simp
  have "advances (owner configs) g (nums sys) (stats sys) (stat st)"
    unfolding advances_def using normal stat by blast
  then have ev: "evolves (owner configs) g (nums sys) (stats sys) (nums (put g st sys)) (stats (put g st sys))"
    unfolding evolves_def put_simps num by blast
  have keep: "owner configs (num ?st + 1) s \<noteq> 0" if "is_shard s" "owner configs (num ?st) s = g" for s
    using configs_owner_ok[OF ok(2)] that g state_okD(3)[OF s0] by (auto simp: owner_ok_def)
  show ?thesis
  proof (rule sys_ok_evolves[OF ok g ev])
    show "state_ok configs g st"
    proof (rule state_okI[OF evolves_order[OF ord configs_owner_ok[OF ok(2)] g ev]])
      fix s
      assume s: "is_shard s" and e: "stat st s = MoveIn \<or> stat st s = Normal \<and> owner configs (num st) s \<noteq> g"
      have "owner configs (num ?st) s \<noteq> g"
        using e stat[OF s] keep[OF s] num by (auto split: if_splits)
      then show "kv st s = Map.empty"
        using state_okD(8)[OF s0 s] normal[OF s] kv[OF s] by simp
    qed (use step facts(2) prev state_okD[OF s0] in auto)
    fix s
    assume s: "is_shard s"
    show "current sys s (kv st s) (ss_duplicateTable st)" if "stat st s = MoveOut"
    proof -
      have "owner configs (num ?st) s = g"
        using that stat[OF s] by (auto split: if_splits)
      then show ?thesis
        using current_group(1)[OF ok(1) s g] normal[OF s] kv[OF s] step by simp
    qed
    show "current sys s (kv st s) (ss_duplicateTable st)"
      if own: "owner configs (num st) s = g" "stat st s = Normal \<or> stat st s = GC"
    proof (cases "owner configs (num ?st) s = g")
      case True
      then show ?thesis
        using current_group(1)[OF ok(1) s g] normal[OF s] kv[OF s] step by simp
    next
      case False
      then have "owner configs (num ?st) s = 0"
        using own stat[OF s] num by (auto split: if_splits)
      moreover have "kv st s = Map.empty"
        using state_okD(8)[OF s0 s] normal[OF s] kv[OF s] False by simp
      ultimately show ?thesis
        using current_unused[OF ok s g] own(1) num by simp
    qed
  qed
next
  case False
  then have "st = ms_group sys g"
    using applyNewConfig_effect[OF ap state_okD(2)[OF sys_okD(4)[OF ok(1)]]] by simp
  then show ?thesis
    using put_same[OF sys_okD(2)[OF ok(1)], of g] ok(1) by simp
qed

text \<open>
  A migration and a deletion keep the configuration and change some shards; what is to be
  shown of such a change is a statement about every single shard.
\<close>

lemma sys_ok_changes:
  assumes ok: "sys_ok configs sys" "configs_ok configs" and g: "g \<noteq> 0"
    and frame: "has_shards st" "ss_gid st = g" "ss_currentConfig st = ss_currentConfig (ms_group sys g)"
      "ss_prevConfig st = ss_prevConfig (ms_group sys g)"
    and ch: "receives (owner configs) g (nums sys) (stats sys) (stat st) \<or>
      clears (owner configs) g (nums sys) (stats sys) (stat st)"
    and tab: "\<And>s d. current sys s d (ss_duplicateTable (ms_group sys g)) \<Longrightarrow> current sys s d (ss_duplicateTable st)"
    and mem: "\<And>s. is_shard s \<Longrightarrow> mem st s = mem (ms_group sys g) s \<or>
      stat st s = GC \<and> current sys s (kv st s) (ss_duplicateTable st) \<or>
      stat st s = Normal \<and> stats sys g s = GC \<and> kv st s = kv (ms_group sys g) s \<or>
      stat st s = Normal \<and> stats sys g s = MoveOut \<and> kv st s = Map.empty"
  shows "sys_ok configs (put g st sys)"
proof -
  let ?st = "ms_group sys g"
  note ord = sys_okD(1)[OF ok(1)] and s0 = sys_okD(4)[OF ok(1), of g]
  note so = order_okD(1)[OF ord]
  have same: "nums (put g st sys) = nums sys"
    using frame(3) by (simp add: fun_eq_iff)
  have ev: "evolves (owner configs) g (nums sys) (stats sys) (nums (put g st sys)) (stats (put g st sys))"
    unfolding evolves_def same using ch put_simps(2) by blast
  show ?thesis
  proof (rule sys_ok_evolves[OF ok g ev])
    show "state_ok configs g st"
    proof (rule state_okI[OF evolves_order[OF ord configs_owner_ok[OF ok(2)] g ev]])
      fix s
      assume s: "is_shard s" and e: "stat st s = MoveIn \<or> stat st s = Normal \<and> owner configs (num st) s \<noteq> g"
      then show "kv st s = Map.empty"
        using mem[OF s] state_okD(8)[OF s0 s] status_okD(1)[OF so s, of g] frame(3) by auto
    qed (use frame state_okD[OF s0] in auto)
    fix s
    assume s: "is_shard s"
    show "current sys s (kv st s) (ss_duplicateTable st)"
      if "stat st s = MoveOut" "\<not> present configs sys s (num st)"
      using mem[OF s] current_group(2)[OF ok(1) s, of g] that frame(3) tab by auto
    show "current sys s (kv st s) (ss_duplicateTable st)"
      if "owner configs (num st) s = g" "stat st s = Normal \<or> stat st s = GC"
      using mem[OF s] current_group(1)[OF ok(1) s g] status_okD(2)[OF so s, of g] that frame(3) tab by auto
  qed
qed

lemma apply_ShardMigration:
  assumes ok: "sys_ok configs sys" "configs_ok configs" and g: "g \<noteq> 0"
    and pend: "pending_ok configs sys g (ShardMigration d)"
    and ap: "sk_applyShardMigration d (ms_group sys g) = Some (r, st)"
  shows "sys_ok configs (put g st sys)"
proof (cases "sr_ConfigNum d = num (ms_group sys g)")
  case True
  let ?st = "ms_group sys g"
  note s0 = sys_okD(4)[OF ok(1), of g]
  have step: "has_shards st \<and> ss_gid st = ss_gid ?st \<and> ss_currentConfig st = ss_currentConfig ?st \<and>
      ss_prevConfig st = ss_prevConfig ?st \<and>
      ss_duplicateTable st = mergeTable (sr_DuplicateTable d) (ss_duplicateTable ?st) \<and>
      (\<forall>s. is_shard s \<longrightarrow> mem st s = mem ?st s \<or>
        stat ?st s = MoveIn \<and> (\<exists>data. (s, data) \<in> set (sr_ShardData d) \<and>
          mem st s = (mem ?st s)\<lparr>sm_KV := sm_KV (mem ?st s) ++ data, sm_Status := GC\<rparr>))"
    using applyShardMigration_effect[OF ap state_okD(2)[OF s0]] True by simp
  then have tab: "ss_duplicateTable st = mergeTable (sr_DuplicateTable d) (ss_duplicateTable ?st)"
    and frame: "has_shards st" "ss_gid st = ss_gid ?st" "ss_currentConfig st = ss_currentConfig ?st"
      "ss_prevConfig st = ss_prevConfig ?st"
    by blast+
  have shard: "mem st s = mem ?st s \<or> stat ?st s = MoveIn \<and> stat st s = GC \<and>
      nums sys (owner configs (nums sys g - 1) s) = nums sys g \<and>
      stats sys (owner configs (nums sys g - 1) s) s = MoveOut \<and>
      current sys s (kv st s) (sr_DuplicateTable d)" if s: "is_shard s" for s
  proof (cases "mem st s = mem ?st s")
    case False
    then obtain data where data: "stat ?st s = MoveIn" "(s, data) \<in> set (sr_ShardData d)"
        "mem st s = (mem ?st s)\<lparr>sm_KV := sm_KV (mem ?st s) ++ data, sm_Status := GC\<rparr>"
      using step s by auto
    have "kv st s = data"
      using data(3) state_okD(8)[OF s0 s] data(1) by simp
    then show ?thesis
      using pend data True by auto
  qed simp
  show ?thesis
  proof (rule sys_ok_changes[OF ok g])
    show "receives (owner configs) g (nums sys) (stats sys) (stat st) \<or>
        clears (owner configs) g (nums sys) (stats sys) (stat st)"
      unfolding receives_def using shard by metis
  next
    fix s
    assume "is_shard s"
    from shard[OF this] show "mem st s = mem ?st s \<or>
        stat st s = GC \<and> current sys s (kv st s) (ss_duplicateTable st) \<or>
        stat st s = Normal \<and> stats sys g s = GC \<and> kv st s = kv ?st s \<or>
        stat st s = Normal \<and> stats sys g s = MoveOut \<and> kv st s = Map.empty"
      unfolding tab using current_mergeTable by blast
  next
    fix s d'
    assume "current sys s d' (ss_duplicateTable ?st)"
    then show "current sys s d' (ss_duplicateTable st)"
      unfolding tab using current_mergeTable by blast
  qed (use frame state_okD(1)[OF s0] in simp_all)
next
  case False
  then have "st = ms_group sys g"
    using applyShardMigration_effect[OF ap state_okD(2)[OF sys_okD(4)[OF ok(1)]]] by simp
  then show ?thesis
    using put_same[OF sys_okD(2)[OF ok(1)], of g] ok(1) by simp
qed

lemma apply_ShardGC:
  assumes ok: "sys_ok configs sys" "configs_ok configs" and g: "g \<noteq> 0"
    and pend: "pending_ok configs sys g (ShardGC a)"
    and ap: "sk_applyShardGC a (ms_group sys g) = Some (r, st)"
  shows "sys_ok configs (put g st sys)"
proof -
  let ?st = "ms_group sys g"
  note s0 = sys_okD(4)[OF ok(1), of g]
  note step = applyShardGC_effect[OF ap state_okD(2)[OF s0]]
  have shard: "mem st s = mem ?st s \<or> stat ?st s = GC \<and> stat st s = Normal \<and> kv st s = kv ?st s \<or>
      stat ?st s = MoveOut \<and> stat st s = Normal \<and> kv st s = Map.empty \<and> present configs sys s (nums sys g)"
    if "is_shard s" for s
    using step that pend by (auto simp: NewShardMem_def)
  have frame: "has_shards st" "ss_gid st = ss_gid ?st" "ss_currentConfig st = ss_currentConfig ?st"
      "ss_prevConfig st = ss_prevConfig ?st" "ss_duplicateTable st = ss_duplicateTable ?st"
    using step by blast+
  show ?thesis
  proof (rule sys_ok_changes[OF ok g])
    show "receives (owner configs) g (nums sys) (stats sys) (stat st) \<or>
        clears (owner configs) g (nums sys) (stats sys) (stat st)"
      unfolding clears_def using shard by metis
  next
    fix s
    assume "is_shard s"
    from shard[OF this] show "mem st s = mem ?st s \<or>
        stat st s = GC \<and> current sys s (kv st s) (ss_duplicateTable st) \<or>
        stat st s = Normal \<and> stats sys g s = GC \<and> kv st s = kv ?st s \<or>
        stat st s = Normal \<and> stats sys g s = MoveOut \<and> kv st s = Map.empty"
      by blast
  qed (use frame state_okD(1)[OF s0] in simp_all)
qed

section \<open>A client operation\<close>

lemma applyClientOperation_idle:
  assumes "sk_applyClientOperation op st = Some (r, st')" "\<not> executes op st"
  shows "st' = st"
  using assms
  by (auto simp: executes_def sk_applyClientOperation_def sk_applyToStateMachine_def case_prod_beta Let_def
      split: if_splits op_type.splits)

abbreviation write_step :: "kv_op \<Rightarrow> mig_sys \<Rightarrow> mig_sys" where
  "write_step op sys \<equiv> sys\<lparr>ms_db := apply_write op (ms_db sys),
     ms_done := ms_done sys @ [(key2shard (op_Key op), op_ClientId op, op_SeqId op)]\<rparr>"

lemma current_write_other:
  assumes "s \<noteq> key2shard (op_Key op)"
  shows "current (put g st (write_step op sys)) s d t = current sys s d t"
proof -
  have "apply_write op (ms_db sys) key = ms_db sys key" if "key2shard key = s" for key
    using assms that by (auto simp: apply_write_def)
  then show ?thesis
    using assms by (auto simp: current_def)
qed

lemma covered_new:
  assumes "\<not> sk_requestDuplicated c n t" "covered t c' n'"
  shows "covered (t(c \<mapsto> (n, r))) c' n'"
  using assms by (auto simp: sk_requestDuplicated_def covered_def)

lemma current_table:
  assumes "\<not> sk_requestDuplicated c n t" "current sys s d t"
  shows "current sys s d (t(c \<mapsto> (n, r)))"
  using assms(2) covered_new[OF assms(1)] unfolding current_def by blast

lemma current_write:
  assumes dup: "\<not> sk_requestDuplicated (op_ClientId op) (op_SeqId op) t"
    and cur: "current sys (key2shard (op_Key op)) d t"
  shows "current (put g st (write_step op sys)) (key2shard (op_Key op)) (apply_write op d)
    (t(op_ClientId op \<mapsto> (op_SeqId op, r)))"
proof -
  have "covered (t(op_ClientId op \<mapsto> (op_SeqId op, r))) c n"
    if "(key2shard (op_Key op), c, n) \<in> set (ms_done (put g st (write_step op sys)))" for c n
  proof (cases "(key2shard (op_Key op), c, n) \<in> set (ms_done sys)")
    case True
    then show ?thesis
      using cur covered_new[OF dup] unfolding current_def by blast
  next
    case False
    then show ?thesis
      using that by (simp add: covered_def)
  qed
  moreover have "apply_write op d key = apply_write op (ms_db sys) key"
    if "key2shard key = key2shard (op_Key op)" for key
    using cur that by (auto simp: current_def apply_write_def)
  ultimately show ?thesis
    by (auto simp: current_def)
qed

lemma key2shard_is_shard: "is_shard (key2shard key)"
  by (simp add: key2shard_def NShards_def)

lemma matchGroupD:
  assumes "sk_matchGroup key st = Some True" "state_ok configs g st"
  shows "owner configs (num st) (key2shard key) = g"
    "stat st (key2shard key) = Normal \<or> stat st (key2shard key) = GC"
  using assms(1) state_okD(1,4)[OF assms(2)]
  by (auto simp: sk_matchGroup_def slice_get_eq_Some Let_def)

lemma executesD:
  assumes "executes op st" "state_ok configs g st"
  shows "owner configs (num st) (key2shard (op_Key op)) = g"
    "stat st (key2shard (op_Key op)) = Normal \<or> stat st (key2shard (op_Key op)) = GC"
    "\<not> sk_requestDuplicated (op_ClientId op) (op_SeqId op) (ss_duplicateTable st)"
  using assms(1) matchGroupD[OF _ assms(2)] by (simp_all add: executes_def)

text \<open>
  While a group serves a shard, no copy of it is on its way: earlier states that gave it away
  and migrations of it are stale.
\<close>

lemma served_not_moving:
  assumes ok: "sys_ok configs sys" "configs_ok configs" and s: "is_shard s" and g: "g \<noteq> 0"
    and sv: "owner configs (nums sys g) s = g" "stats sys g s = Normal \<or> stats sys g s = GC"
  shows "stats sys h s = MoveOut \<Longrightarrow> present configs sys s (nums sys h)"
    "x \<in> ms_past sys h \<Longrightarrow> num x = nums sys h \<Longrightarrow> stat x s = MoveOut \<Longrightarrow> present configs sys s (nums sys h)"
proof -
  note ord = sys_okD(1)[OF ok(1)]
  have "serves (owner configs) (nums sys) (stats sys) g s"
    using sv by (simp add: serves_def)
  then show 1: "stats sys h s = MoveOut \<Longrightarrow> present configs sys s (nums sys h)"
    using transit_unserved[OF ord configs_owner_ok[OF ok(2)] s _ _ _ g, of h] by blast
  assume x: "x \<in> ms_past sys h" "num x = nums sys h" "stat x s = MoveOut"
  note px = sys_okD(3)[OF ok(1) x(1)]
  consider "stats sys h s = MoveOut" | "stats sys h s = Normal"
    using past_okD(3)[OF px x(2) s] x(3) by (auto simp: progress_def)
  then show "present configs sys s (nums sys h)"
  proof cases
    case 2
    have own: "0 < num x" "owner configs (num x - 1) s = h" "owner configs (num x) s \<notin> {h, 0}"
      using state_okD(7)[OF past_okD(1)[OF px] s x(3)] by auto
    then show ?thesis
      using released_okD[OF order_okD(3)[OF ord] s, of "num x - 1"] 2 x(2) by simp
  qed (rule 1)
qed

lemma write_step_past:
  assumes ok: "sys_ok configs sys" "configs_ok configs" and g: "g \<noteq> 0"
    and ex: "executes op (ms_group sys g)"
    and eff: "state_ok configs g st" "num st = nums sys g"
      "\<And>s. is_shard s \<Longrightarrow> stat st s = stats sys g s"
      "\<And>s. is_shard s \<Longrightarrow> s \<noteq> key2shard (op_Key op) \<Longrightarrow> kv st s = kv (ms_group sys g) s"
      "ss_duplicateTable st = (ss_duplicateTable (ms_group sys g))(op_ClientId op \<mapsto> (op_SeqId op, r))"
    and same: "\<And>h. nums (put g st (write_step op sys)) h = nums sys h"
      "\<And>h s. stats (put g st (write_step op sys)) h s = stats sys h s"
    and x: "x \<in> ms_past (put g st (write_step op sys)) h"
  shows "past_ok configs (put g st (write_step op sys)) h x"
proof -
  let ?sys = "put g st (write_step op sys)" and ?sh = "key2shard (op_Key op)"
  note e = executesD[OF ex sys_okD(4)[OF ok(1)]]
  have old: "past_ok configs ?sys h x" if x: "x \<in> ms_past sys h" for h x
    unfolding past_ok_def same
  proof (intro conjI impI allI)
    note px = sys_okD(3)[OF ok(1) x]
    show "state_ok configs h x" "num x \<le> nums sys h"
      using past_okD(1,2)[OF px] .
    fix s
    assume n: "num x = nums sys h" and s: "is_shard s"
    show "progress (stat x s) (stats sys h s)"
      by (rule past_okD(3)[OF px n s])
    assume out: "stat x s = MoveOut" and not: "\<not> present configs sys s (nums sys h)"
    have "s \<noteq> ?sh"
      using served_not_moving(2)[OF ok s g _ _ x n out] e(1,2) not by blast
    then show "current ?sys s (sm_KV (mem x s)) (ss_duplicateTable x)"
      unfolding current_write_other[OF \<open>s \<noteq> ?sh\<close>] by (intro past_okD(4)[OF px n s out not])
  qed
  have "past_ok configs ?sys g st"
    unfolding past_ok_def same
  proof (intro conjI impI allI)
    fix s
    assume s: "is_shard s"
    show "progress (stat st s) (stats sys g s)"
      by (simp add: eff(3)[OF s] progress_def)
    assume out: "stat st s = MoveOut" and not: "\<not> present configs sys s (nums sys g)"
    then have "s \<noteq> ?sh"
      using e(2) eff(3)[OF s] by auto
    then show "current ?sys s (sm_KV (mem st s)) (ss_duplicateTable st)"
      unfolding current_write_other[OF \<open>s \<noteq> ?sh\<close>] eff(4)[OF s \<open>s \<noteq> ?sh\<close>] eff(5)
      using current_table[OF e(3) current_group(2)[OF ok(1) s]] out eff(3)[OF s] not by simp
  qed (use eff in simp_all)
  then show ?thesis
    using old x by (auto split: if_splits)
qed

lemma write_step_pending:
  assumes ok: "sys_ok configs sys" "configs_ok configs" and g: "g \<noteq> 0"
    and ex: "executes op (ms_group sys g)"
    and same: "\<And>h. nums (put g st (write_step op sys)) h = nums sys h"
      "\<And>h s. stats (put g st (write_step op sys)) h s = stats sys h s"
    and cmd: "cmd \<in> ms_pending sys h"
  shows "pending_ok configs (put g st (write_step op sys)) h cmd"
proof (cases cmd)
  case (ShardMigration r)
  let ?sys = "put g st (write_step op sys)" and ?sh = "key2shard (op_Key op)"
  let ?p = "\<lambda>s. owner configs (nums sys h - 1) s"
  note e = executesD[OF ex sys_okD(4)[OF ok(1)]] and ord = sys_okD(1)[OF ok(1)]
  have old: "sr_ConfigNum r \<le> nums sys h" "\<forall>(s, d) \<in> set (sr_ShardData r). is_shard s \<and>
        (sr_ConfigNum r = nums sys h \<longrightarrow> stats sys h s = MoveIn \<longrightarrow>
           nums sys (?p s) = nums sys h \<and> stats sys (?p s) s = MoveOut \<and> current sys s d (sr_DuplicateTable r))"
    using sys_okD(5)[OF ok(1) cmd] ShardMigration by auto
  have "current ?sys s d (sr_DuplicateTable r)"
    if sd: "(s, d) \<in> set (sr_ShardData r)" and n: "sr_ConfigNum r = nums sys h" and mi: "stats sys h s = MoveIn"
    for s d
  proof -
    have s: "is_shard s" and p: "nums sys (?p s) = nums sys h" "stats sys (?p s) s = MoveOut"
      and cur: "current sys s d (sr_DuplicateTable r)"
      using old(2) sd n mi by auto
    have "owner configs (nums sys h) s = h"
      using status_okD(1)[OF order_okD(1)[OF ord] s, of h] mi by simp
    then have "\<not> present configs sys s (nums sys (?p s))"
      using p(1) mi by (simp add: arrived_def)
    then have "s \<noteq> ?sh"
      using served_not_moving(1)[OF ok s g _ _ p(2)] e(1,2) by blast
    from current_write_other[OF this] show ?thesis
      using cur by (rule iffD2)
  qed
  then show ?thesis
    unfolding ShardMigration pending_ok.simps same using old by auto
next
  case (ConfigChange c)
  show ?thesis
    using sys_okD(5)[OF ok(1) cmd] unfolding ConfigChange pending_ok.simps same .
next
  case (ShardGC a)
  show ?thesis
    using sys_okD(5)[OF ok(1) cmd] unfolding ShardGC pending_ok.simps same .
qed simp

text \<open>What the group that executes a write looks like afterwards.\<close>

lemma write_effect:
  assumes ok: "sys_ok configs sys"
    and ap: "sk_applyClientOperation op (ms_group sys g) = Some (r, st)" and ex: "executes op (ms_group sys g)"
  shows "ss_duplicateTable st = (ss_duplicateTable (ms_group sys g))(op_ClientId op \<mapsto> (op_SeqId op, r))"
    "is_shard s \<Longrightarrow> kv st s = (if s = key2shard (op_Key op) then apply_write op (kv (ms_group sys g) s)
       else kv (ms_group sys g) s)"
    "nums (put g st (write_step op sys)) h = nums sys h" "stats (put g st (write_step op sys)) h s = stats sys h s"
    "state_ok configs g st" "num st = nums sys g" "stat st s = stats sys g s"
proof -
  let ?st = "ms_group sys g" and ?sh = "key2shard (op_Key op)"
  note s0 = sys_okD(4)[OF ok, of g]
  note e = executesD[OF ex s0] and step = applyClientOperation_effectD[OF ap state_okD(2)[OF s0]]
  show "ss_duplicateTable st = (ss_duplicateTable ?st)(op_ClientId op \<mapsto> (op_SeqId op, r))"
    using step(7) ex by simp
  show kv: "kv st s = (if s = ?sh then apply_write op (kv ?st s) else kv ?st s)" if "is_shard s" for s
    using step(6)[OF that] ex by simp
  have none: "map_of (ss_shards x) s = None" if "has_shards x" "\<not> is_shard s" for x s
    using that unfolding has_shards_def by (metis (mono_tags) domIff mem_Collect_eq)
  show num: "num st = num ?st" and stat: "stat st s = stat ?st s" for s
    using step(3,5) none[OF step(1)] none[OF state_okD(2)[OF s0]] by (simp, cases "is_shard s") simp_all
  then show "nums (put g st (write_step op sys)) h = nums sys h" "stats (put g st (write_step op sys)) h s = stats sys h s"
    by simp_all
  show "state_ok configs g st"
  proof (rule state_okI[OF sys_okD(1)[OF ok]])
    fix s
    assume s: "is_shard s" and "stat st s = MoveIn \<or> stat st s = Normal \<and> owner configs (num st) s \<noteq> g"
    then have "s \<noteq> ?sh" "kv ?st s = Map.empty"
      using e(1,2) num stat state_okD(8)[OF s0 s] by auto
    then show "kv st s = Map.empty"
      using kv[OF s] by simp
  qed (use step(1-4) state_okD(1,4,5)[OF s0] stat in auto)
qed

lemma write_step_served:
  assumes ok: "sys_ok configs sys" and g: "g \<noteq> 0"
    and ap: "sk_applyClientOperation op (ms_group sys g) = Some (r, st)" and ex: "executes op (ms_group sys g)"
    and h: "h \<noteq> 0" "is_shard s" "serves (owner configs) (nums sys) (stats sys) h s"
  shows "current (put g st (write_step op sys)) s (kv (ms_group (put g st (write_step op sys)) h) s)
    (ss_duplicateTable (ms_group (put g st (write_step op sys)) h))"
proof (cases "s = key2shard (op_Key op)")
  case True
  note e = executesD[OF ex sys_okD(4)[OF ok]]
  have "serves (owner configs) (nums sys) (stats sys) g s"
    using e(1,2) True by (simp add: serves_def)
  then have "h = g"
    using serves_unique[OF sys_okD(1)[OF ok] h(2,3) _ h(1) g] by blast
  then show ?thesis
    using current_write[OF e(3) current_group(1)[OF ok key2shard_is_shard g e(1,2)]] True
      write_effect(1,2)[OF ok ap ex] h(2) by simp
next
  case False
  note e = executesD[OF ex sys_okD(4)[OF ok]]
  have "current sys s (kv (ms_group sys h) s) (ss_duplicateTable (ms_group sys h))"
    using sys_okD(6)[OF ok] h by (simp add: served_ok_def)
  then have "current sys s (kv (ms_group (put g st (write_step op sys)) h) s)
      (ss_duplicateTable (ms_group (put g st (write_step op sys)) h))"
    using write_effect(1,2)[OF ok ap ex] h(2) False current_table[OF e(3)] by auto
  with current_write_other[OF False] show ?thesis
    by (rule iffD2)
qed

lemma write_step_used:
  assumes ok: "sys_ok configs sys" and g: "g \<noteq> 0" and ex: "executes op (ms_group sys g)"
    and s: "is_shard s" and us: "(\<exists>key. key2shard key = s \<and> ms_db (write_step op sys) key \<noteq> None) \<or>
      (\<exists>c n. (s, c, n) \<in> set (ms_done (write_step op sys)))"
  shows "\<exists>n \<ge> 0. owner configs n s \<noteq> 0 \<and> present configs sys s n"
proof (cases "s = key2shard (op_Key op)")
  case True
  then show ?thesis
    using executesD(1,2)[OF ex sys_okD(4)[OF ok]] g order_okD(5)[OF sys_okD(1)[OF ok], of g]
    by (intro exI[of _ "nums sys g"]) (auto simp: arrived_def)
next
  case False
  then have "(\<exists>key. key2shard key = s \<and> ms_db sys key \<noteq> None) \<or> (\<exists>c n. (s, c, n) \<in> set (ms_done sys))"
    using us by (auto simp: apply_write_def split: if_splits)
  then show ?thesis
    using sys_okD(7)[OF ok] s unfolding used_ok_def by blast
qed

lemma write_not_done:
  assumes ok: "sys_ok configs sys" and g: "g \<noteq> 0" and ex: "executes op (ms_group sys g)"
  shows "(key2shard (op_Key op), op_ClientId op, op_SeqId op) \<notin> set (ms_done sys)"
proof
  note e = executesD[OF ex sys_okD(4)[OF ok]]
  assume "(key2shard (op_Key op), op_ClientId op, op_SeqId op) \<in> set (ms_done sys)"
  then have "covered (ss_duplicateTable (ms_group sys g)) (op_ClientId op) (op_SeqId op)"
    using current_group(1)[OF ok key2shard_is_shard g e(1,2)] unfolding current_def by blast
  then show False
    using e(3) by (auto simp: covered_def sk_requestDuplicated_def)
qed

lemma apply_write_ok:
  assumes ok: "sys_ok configs sys" "configs_ok configs" and g: "g \<noteq> 0"
    and ap: "sk_applyClientOperation op (ms_group sys g) = Some (r, st)" and ex: "executes op (ms_group sys g)"
  shows "sys_ok configs (put g st (write_step op sys))"
proof -
  let ?sys = "put g st (write_step op sys)"
  note eff = write_effect[OF ok(1) ap ex]
  have past: "past_ok configs ?sys h x" if "x \<in> ms_past ?sys h" for h x
    by (rule write_step_past[OF ok g ex eff(5,6,7) _ eff(1,3,4) that]) (simp add: eff(2))
  have pend: "pending_ok configs ?sys h cmd" if "cmd \<in> ms_pending ?sys h" for h cmd
    using write_step_pending[OF ok g ex eff(3,4), of cmd h] that by simp
  have "used_ok configs ?sys"
    unfolding used_ok_def eff(3,4) using write_step_used[OF ok(1) g ex] by simp
  then show ?thesis
    using past pend sys_okD(1,2,8)[OF ok(1)] write_step_served[OF ok(1) g ap ex] write_not_done[OF ok(1) g ex]
    unfolding sys_ok_def served_ok_def eff(3,4) by simp
qed

section \<open>Every step\<close>

lemma record_effect_frame [simp]:
  "ms_group (record_effect cmd st sys) = ms_group sys" "ms_past (record_effect cmd st sys) = ms_past sys"
  by (simp_all add: record_effect_def split: raft_command.splits)

lemma apply_ok:
  assumes ok: "sys_ok configs sys" "configs_ok configs" and g: "g \<noteq> 0"
    and cmd: "cmd \<in> ms_pending sys g" "sk_execute cmd (ms_group sys g) = Some (r, st)"
  shows "sys_ok configs (put g st (record_effect cmd (ms_group sys g) sys))"
proof (cases cmd)
  case (ClientOpeartion op)
  then have ap: "sk_applyClientOperation op (ms_group sys g) = Some (r, st)"
    using cmd(2) by (simp add: sk_execute_def)
  show ?thesis
  proof (cases "executes op (ms_group sys g)")
    case True
    then show ?thesis
      using apply_write_ok[OF ok g ap] ClientOpeartion by (simp add: record_effect_def)
  next
    case False
    then show ?thesis
      using applyClientOperation_idle[OF ap] put_same[OF sys_okD(2)[OF ok(1)], of g] ok(1) ClientOpeartion
      by (simp add: record_effect_def)
  qed
qed (use sys_okD(5)[OF ok(1) cmd(1)] cmd(2) apply_ConfigChange[OF ok g] apply_ShardMigration[OF ok g]
    apply_ShardGC[OF ok g] in \<open>auto simp: sk_execute_def record_effect_def simp del: pending_ok.simps\<close>)

lemma sys_ok_step:
  assumes "mig_step configs sys sys'" "sys_ok configs sys" "configs_ok configs"
  shows "sys_ok configs sys'"
  using assms(1)
proof cases
  case mig_client
  then show ?thesis
    using sys_ok_propose[OF assms(2)] by simp
next
  case mig_fetch
  then show ?thesis
    using sys_ok_propose[OF assms(2) propose_fetch[OF assms(2,3)]] by blast
next
  case (mig_migrate x g m p ids y r cmd server)
  then have "cmd = ShardMigration r \<and> sr_Err r = OK"
    by (simp add: migration_calls_def split: if_splits)
  then show ?thesis
    using mig_migrate sys_ok_propose[OF assms(2) propose_migrate[OF assms(2)]] by blast
next
  case (mig_delete x g m p ids y cmd)
  then have "cmd = ShardGC \<lparr>sa_ConfigNum = num x, sa_ShardIds = ids\<rparr>"
    by (auto simp: sk_DeleteShardsData_def split: if_splits)
  then show ?thesis
    using mig_delete sys_ok_propose[OF assms(2) propose_gc[OF assms(2)]] by blast
next
  case (mig_gc x g m p ids cmd server)
  then have "cmd = ShardGC \<lparr>sa_ConfigNum = num x, sa_ShardIds = ids\<rparr>"
    by (simp add: gc_calls_def shard_error_def)
  then show ?thesis
    using mig_gc sys_ok_propose[OF assms(2) propose_gc[OF assms(2)]] by blast
next
  case (mig_apply g cmd r st)
  then show ?thesis
    using apply_ok[OF assms(2,3) mig_apply(2-4)] by simp
qed

lemma mig_run_ok: "mig_run configs sys \<Longrightarrow> configs_ok configs \<Longrightarrow> sys_ok configs sys"
  by (induction rule: mig_run.induct) (simp_all add: sys_ok_init sys_ok_step)

section \<open>An example run\<close>

text \<open>
  Group 1 owns all shards in the first configuration and group 2 in the second. Group 1
  executes a write, then both take the second configuration, and group 2 fetches the shards.
\<close>

definition ex_configs :: "nat \<Rightarrow> config" where
  "ex_configs n = (if n = 0 then DefaultConfig
     else \<lparr>cf_Num = int n, cf_Shards = replicate NShards (if n = 1 then 1 else 2),
           cf_Groups = [(1, [''a'']), (2, [''b''])]\<rparr>)"

definition ex_op :: "op_type \<Rightarrow> int \<Rightarrow> kv_op" where
  "ex_op t n = \<lparr>op_Key = ''x'', op_Value = ''v'', op_OpType = t, op_ClientId = 7, op_SeqId = n\<rparr>"

abbreviation executed :: "raft_command \<Rightarrow> shard_state \<Rightarrow> shard_state" where
  "executed cmd st \<equiv> snd (the (sk_execute cmd st))"

definition ex_one :: shard_state where
  "ex_one = executed (ClientOpeartion (ex_op OpPut 0)) (executed (ConfigChange (ex_configs 1)) (sk_init 1))"

definition ex_one' :: shard_state where
  "ex_one' = executed (ConfigChange (ex_configs 2)) ex_one"

definition ex_two :: shard_state where
  "ex_two = executed (ConfigChange (ex_configs 2)) (executed (ConfigChange (ex_configs 1)) (sk_init 2))"

definition ex_data :: shard_reply where
  "ex_data = the (sk_GetShardsData True \<lparr>sa_ConfigNum = 2, sa_ShardIds = [0, 1, 2, 3, 4, 5, 6, 7, 8, 9]\<rparr> ex_one')"

definition ex_two' :: shard_state where
  "ex_two' = executed (ShardMigration ex_data) ex_two"

lemma ex_configs_ok: "configs_ok ex_configs"
  by (auto simp: configs_ok_def ex_configs_def DefaultConfig_def)

definition ex_reached :: "shard_state \<Rightarrow> shard_state \<Rightarrow> (string \<rightharpoonup> string) \<Rightarrow> (int \<times> int \<times> int) list \<Rightarrow> bool" where
  "ex_reached x y db fin \<longleftrightarrow> (\<exists>sys. mig_run ex_configs sys \<and> ms_group sys 1 = x \<and> ms_group sys 2 = y \<and>
     ms_db sys = db \<and> ms_done sys = fin)"

lemma ex_reached_apply:
  assumes run: "mig_run ex_configs sys" and "mig_step ex_configs sys (propose g cmd sys)" "g \<noteq> 0"
    and def: "sk_execute cmd (ms_group sys g) \<noteq> None"
  shows "\<exists>sys'. mig_run ex_configs sys' \<and> ms_group sys' = (ms_group sys)(g := executed cmd (ms_group sys g)) \<and>
    ms_db sys' = ms_db (record_effect cmd (ms_group sys g) sys) \<and>
    ms_done sys' = ms_done (record_effect cmd (ms_group sys g) sys)"
proof -
  let ?sys = "propose g cmd sys"
  have "mig_run ex_configs ?sys"
    using mig_run_step[OF run assms(2)] .
  moreover obtain r st where st: "sk_execute cmd (ms_group sys g) = Some (r, st)"
    using def by auto
  ultimately have "mig_run ex_configs (put g st (record_effect cmd (ms_group sys g) ?sys))"
    using mig_step.mig_apply[OF assms(3), of cmd ?sys r st ex_configs] mig_run_step[of ex_configs ?sys] by simp
  moreover have "ms_db (record_effect cmd x ?sys) = ms_db (record_effect cmd x sys)"
      "ms_done (record_effect cmd x ?sys) = ms_done (record_effect cmd x sys)" for x
    by (simp_all add: record_effect_def split: raft_command.splits)
  ultimately show ?thesis
    using st by (intro exI[of _ "put g st (record_effect cmd (ms_group sys g) ?sys)"]) simp
qed

lemma ex_client:
  assumes "ex_reached x y db fin" "executes op x" "sk_execute (ClientOpeartion op) x \<noteq> None"
  shows "ex_reached (executed (ClientOpeartion op) x) y (apply_write op db)
    (fin @ [(key2shard (op_Key op), op_ClientId op, op_SeqId op)])"
proof -
  obtain sys where sys: "mig_run ex_configs sys" "ms_group sys 1 = x" "ms_group sys 2 = y" "ms_db sys = db"
      "ms_done sys = fin"
    using assms(1) by (auto simp: ex_reached_def)
  show ?thesis
    using ex_reached_apply[OF sys(1) mig_client, of 1 op] assms(2,3) sys(2-5)
    by (auto simp: ex_reached_def record_effect_def)
qed

lemma ex_fetch:
  assumes "ex_reached x y db fin" "n \<in> {1, 2}"
  shows "needFetch x \<Longrightarrow> num x + 1 = int n \<Longrightarrow> sk_execute (ConfigChange (ex_configs n)) x \<noteq> None \<Longrightarrow>
      ex_reached (executed (ConfigChange (ex_configs n)) x) y db fin"
    "needFetch y \<Longrightarrow> num y + 1 = int n \<Longrightarrow> sk_execute (ConfigChange (ex_configs n)) y \<noteq> None \<Longrightarrow>
      ex_reached x (executed (ConfigChange (ex_configs n)) y) db fin"
proof -
  obtain sys where sys: "mig_run ex_configs sys" "ms_group sys 1 = x" "ms_group sys 2 = y" "ms_db sys = db"
      "ms_done sys = fin"
    using assms(1) by (auto simp: ex_reached_def)
  have fetch: "mig_step ex_configs sys (propose g (ConfigChange (ex_configs n)) sys)"
    if "needFetch (ms_group sys g)" "num (ms_group sys g) + 1 = int n" for g
  proof (rule mig_fetch)
    show "ms_group sys g \<in> ms_past sys g"
      using sys_okD(2)[OF mig_run_ok[OF sys(1) ex_configs_ok]] .
    show "\<forall>k. \<exists>n. (\<lambda>k. ex_configs (nat k)) k = ex_configs n"
      by blast
    show "ConfigChange (ex_configs n) \<in> set (fetchConfigTask_round True (\<lambda>k. ex_configs (nat k)) (ms_group sys g))"
      using that assms(2) by (auto simp: fetchConfigTask_round_def ex_configs_def)
  qed
  show "ex_reached (executed (ConfigChange (ex_configs n)) x) y db fin"
    if "needFetch x" "num x + 1 = int n" "sk_execute (ConfigChange (ex_configs n)) x \<noteq> None"
    using ex_reached_apply[OF sys(1) fetch, of 1] that sys(2-5) by (auto simp: ex_reached_def record_effect_def)
  show "ex_reached x (executed (ConfigChange (ex_configs n)) y) db fin"
    if "needFetch y" "num y + 1 = int n" "sk_execute (ConfigChange (ex_configs n)) y \<noteq> None"
    using ex_reached_apply[OF sys(1) fetch, of 2] that sys(2-5) by (auto simp: ex_reached_def record_effect_def)
qed

lemma ex_migrate:
  assumes "ex_reached x y db fin" "sk_getShardByStatus MoveIn y = Some [(1, ids)]"
    and "sk_GetShardsData True \<lparr>sa_ConfigNum = num y, sa_ShardIds = ids\<rparr> x = Some r" "sr_Err r = OK"
    and "sk_execute (ShardMigration r) y \<noteq> None"
  shows "ex_reached x (executed (ShardMigration r) y) db fin"
proof -
  obtain sys where sys: "mig_run ex_configs sys" "ms_group sys 1 = x" "ms_group sys 2 = y" "ms_db sys = db"
      "ms_done sys = fin"
    using assms(1) by (auto simp: ex_reached_def)
  have past: "ms_group sys g \<in> ms_past sys g" for g
    using sys_okD(2)[OF mig_run_ok[OF sys(1) ex_configs_ok]] .
  have "mig_step ex_configs sys (propose 2 (ShardMigration r) sys)"
  proof (rule mig_migrate[where m = "[(1, ids)]" and p = 1 and ids = ids])
    show "ms_group sys 2 \<in> ms_past sys 2" "ms_group sys 1 \<in> ms_past sys 1"
      by (rule past)+
    show "ShardMigration r \<in> set (migration_calls (\<lambda>_ _. Some r) [''a''] (num (ms_group sys 2)) ids)"
      using assms(4) by (simp add: migration_calls_def)
  qed (use assms(2,3) sys(2,3) in simp_all)
  from ex_reached_apply[OF sys(1) this] show ?thesis
    using assms(5) sys(2-5) by (auto simp: ex_reached_def record_effect_def)
qed

lemma ex_init: "ex_reached (sk_init 1) (sk_init 2) Map.empty []"
  unfolding ex_reached_def by (rule exI[of _ mig_init]) (simp add: mig_run_init, simp add: mig_init_def)

lemma ex_one_reached:
  "ex_reached ex_one (sk_init 2) (apply_write (ex_op OpPut 0) Map.empty) [(0, 7, 0)]"
proof -
  have "ex_reached (executed (ConfigChange (ex_configs 1)) (sk_init 1)) (sk_init 2) Map.empty []"
    by (rule ex_fetch(1)[OF ex_init]) code_simp+
  moreover have "executes (ex_op OpPut 0) (executed (ConfigChange (ex_configs 1)) (sk_init 1))"
    "sk_execute (ClientOpeartion (ex_op OpPut 0)) (executed (ConfigChange (ex_configs 1)) (sk_init 1)) \<noteq> None"
    by code_simp+
  moreover have "[] @ [(key2shard (op_Key (ex_op OpPut 0)), op_ClientId (ex_op OpPut 0), op_SeqId (ex_op OpPut 0))]
      = [(0, 7, 0)]"
    by code_simp
  ultimately show ?thesis
    using ex_client[of _ "sk_init 2" Map.empty "[]" "ex_op OpPut 0"] unfolding ex_one_def by metis
qed

lemma ex_moving_reached:
  "ex_reached ex_one' ex_two (apply_write (ex_op OpPut 0) Map.empty) [(0, 7, 0)]"
proof -
  have "ex_reached ex_one' (sk_init 2) (apply_write (ex_op OpPut 0) Map.empty) [(0, 7, 0)]"
    unfolding ex_one'_def by (rule ex_fetch(1)[OF ex_one_reached]) code_simp+
  then have "ex_reached ex_one' (executed (ConfigChange (ex_configs 1)) (sk_init 2))
      (apply_write (ex_op OpPut 0) Map.empty) [(0, 7, 0)]"
    by (rule ex_fetch(2)) code_simp+
  then show ?thesis
    unfolding ex_two_def by (rule ex_fetch(2)) code_simp+
qed

lemma ex_moved_reached:
  "ex_reached ex_one' ex_two' (apply_write (ex_op OpPut 0) Map.empty) [(0, 7, 0)]"
  unfolding ex_two'_def
proof (rule ex_migrate[OF ex_moving_reached])
  show "sk_getShardByStatus MoveIn ex_two = Some [(1, [0, 1, 2, 3, 4, 5, 6, 7, 8, 9])]"
    by code_simp
  have "num ex_two = 2" "sk_GetShardsData True \<lparr>sa_ConfigNum = 2, sa_ShardIds = [0, 1, 2, 3, 4, 5, 6, 7, 8, 9]\<rparr> ex_one' \<noteq> None"
    by code_simp+
  then show "sk_GetShardsData True \<lparr>sa_ConfigNum = num ex_two, sa_ShardIds = [0, 1, 2, 3, 4, 5, 6, 7, 8, 9]\<rparr> ex_one' = Some ex_data"
    by (auto simp: ex_data_def)
  show "sr_Err ex_data = OK" "sk_execute (ShardMigration ex_data) ex_two \<noteq> None"
    by code_simp+
qed

section \<open>What the clients see\<close>

text \<open>
  (C2) Whatever the order in which the groups fetch configurations, hand shards over and delete
  them, and however late, repeated or lost their commands are, two groups never both accept
  operations on keys of one shard.
\<close>

theorem shard_served_once:
  assumes "mig_run configs sys" "configs_ok configs" "g \<noteq> 0" "h \<noteq> 0"
    and "key2shard k = key2shard l"
    and "sk_matchGroup k (ms_group sys g) = Some True" "sk_matchGroup l (ms_group sys h) = Some True"
  shows "g = h"
proof -
  note ok = mig_run_ok[OF assms(1,2)]
  note G = matchGroupD[OF assms(6) sys_okD(4)[OF ok]] and H = matchGroupD[OF assms(7) sys_okD(4)[OF ok]]
  have "serves (owner configs) (nums sys) (stats sys) g (key2shard k)"
    "serves (owner configs) (nums sys) (stats sys) h (key2shard k)"
    unfolding serves_def using G H assms(5) by simp_all
  then show ?thesis
    using serves_unique[OF sys_okD(1)[OF ok] key2shard_is_shard] assms(3,4) by blast
qed

theorem shard_served_once_witness:
  "\<exists>sys. mig_run ex_configs sys \<and> configs_ok ex_configs \<and> sk_matchGroup ''x'' (ms_group sys 2) = Some True \<and>
     sk_matchGroup ''x'' (ms_group sys 1) \<noteq> Some True"
proof -
  obtain sys where sys: "mig_run ex_configs sys" "ms_group sys 2 = ex_two'"
    using ex_moved_reached by (auto simp: ex_reached_def)
  have "sk_matchGroup ''x'' ex_two' = Some True"
    by code_simp
  then show ?thesis
    using shard_served_once[OF sys(1) ex_configs_ok, of 1 2 "''x''" "''x''"] sys ex_configs_ok by force
qed

text \<open>
  (C4) The groups together are one map: a group that answers a read answers with the value that
  all writes executed so far, on whichever groups, have given to the key, also after the shard
  has moved between groups any number of times.
\<close>

theorem shard_read_value:
  assumes "mig_run configs sys" "configs_ok configs" "g \<noteq> 0"
    and "sk_applyClientOperation op (ms_group sys g) = Some (r, st)" "op_OpType op = OpGet"
    and "or_Err r \<noteq> ErrWrongGroup"
  shows "st = ms_group sys g \<and> r = (case ms_db sys (op_Key op) of
    Some v \<Rightarrow> \<lparr>or_Value = v, or_Err = OK\<rparr> | None \<Rightarrow> \<lparr>or_Value = [], or_Err = ErrNoKey\<rparr>)"
proof -
  note ok = mig_run_ok[OF assms(1,2)]
  let ?s = "key2shard (op_Key op)"
  obtain m where m: "sk_matchGroup (op_Key op) (ms_group sys g) = Some True"
      "map_of (ss_shards (ms_group sys g)) ?s = Some m"
      "r = (let (value, err) = sm_Get (op_Key op) m in \<lparr>or_Value = value, or_Err = err\<rparr>)" "st = ms_group sys g"
    using assms(4-6)
    by (auto simp: sk_applyClientOperation_def sk_applyToStateMachine_def case_prod_beta Let_def split: if_splits)
  note G = matchGroupD[OF m(1) sys_okD(4)[OF ok]]
  have "sm_KV m (op_Key op) = ms_db sys (op_Key op)"
    using current_group(1)[OF ok key2shard_is_shard assms(3) G] m(2) by (simp add: current_def)
  then show ?thesis
    using m(3,4) by (simp add: sm_Get_def split: option.splits)
qed

theorem shard_read_value_witness:
  "\<exists>sys r. mig_run ex_configs sys \<and> configs_ok ex_configs \<and>
     sk_applyClientOperation (ex_op OpGet 1) (ms_group sys 2) = Some (r, ms_group sys 2) \<and>
     r = \<lparr>or_Value = ''v'', or_Err = OK\<rparr>"
proof -
  obtain sys where sys: "mig_run ex_configs sys" "ms_group sys 2 = ex_two'"
      "ms_db sys = apply_write (ex_op OpPut 0) Map.empty"
    using ex_moved_reached by (auto simp: ex_reached_def)
  have "sk_applyClientOperation (ex_op OpGet 1) ex_two' \<noteq> None"
    "or_Err (fst (the (sk_applyClientOperation (ex_op OpGet 1) ex_two'))) \<noteq> ErrWrongGroup"
    by code_simp+
  then obtain r st where ap: "sk_applyClientOperation (ex_op OpGet 1) (ms_group sys 2) = Some (r, st)"
      "or_Err r \<noteq> ErrWrongGroup"
    using sys(2) by auto
  have db: "ms_db sys (op_Key (ex_op OpGet 1)) = Some ''v''"
    unfolding sys(3) by code_simp
  show ?thesis
    using shard_read_value[OF sys(1) ex_configs_ok _ ap(1) _ ap(2)] db sys(1) ex_configs_ok ap(1)
    by (intro exI[of _ sys] exI[of _ r]) (simp add: ex_op_def)
qed

text \<open>
  (C9) A write of a client takes effect at most once on the whole system: the executed writes,
  each with its shard, client and sequence number, are pairwise different, although the client
  may have sent it to several groups and the shard may have moved in between.
\<close>

theorem shard_writes_once:
  assumes "mig_run configs sys" "configs_ok configs"
  shows "distinct (ms_done sys)"
  using sys_okD(8)[OF mig_run_ok[OF assms]] .

theorem shard_writes_once_witness:
  "\<exists>sys. mig_run ex_configs sys \<and> configs_ok ex_configs \<and> ms_done sys = [(0, 7, 0)] \<and> distinct (ms_done sys)"
proof -
  obtain sys where "mig_run ex_configs sys" "ms_done sys = [(0, 7, 0)]"
    using ex_moved_reached by (auto simp: ex_reached_def)
  then show ?thesis
    using shard_writes_once[OF _ ex_configs_ok, of sys] ex_configs_ok by blast
qed

end
