(* ===== verification/Porcupine_Bitset.thy ===== *)
theory Porcupine_Bitset
  imports Go_Base "HOL-Library.Word"
begin

text \<open>
  The bit set of the linearizability checker (\<^verbatim>\<open>src/src/porcupine/bitset.go\<close>): a slice of
  64-bit words, with the index arithmetic of the source and a panic, \<^const>\<open>None\<close>, for a
  position behind the last word. The methods change the slice in place; every caller that
  keeps the old value works on a \<open>clone\<close>, so sets are values here. The lemmas relate the
  operations to those on sets of positions.
\<close>

unbundle bit_operations_syntax

type_synonym bitset = "64 word list"

definition newBitset :: "nat \<Rightarrow> bitset" where
  "newBitset bits = (let extra = (if bits mod 64 \<noteq> 0 then 1 else 0); chunks = bits div 64 + extra
     in replicate chunks 0)"

definition bs_clone :: "bitset \<Rightarrow> bitset" where
  "bs_clone b = b"

definition bitsetIndex :: "nat \<Rightarrow> nat \<times> nat" where
  "bitsetIndex pos = (pos div 64, pos mod 64)"

definition bs_set :: "nat \<Rightarrow> bitset \<Rightarrow> bitset option" where
  "bs_set pos b = (case bitsetIndex pos of (major, minor) \<Rightarrow> do {
     w \<leftarrow> slice_get b (int major);
     slice_set b (int major) (w OR push_bit minor 1) })"

definition bs_clear :: "nat \<Rightarrow> bitset \<Rightarrow> bitset option" where
  "bs_clear pos b = (case bitsetIndex pos of (major, minor) \<Rightarrow> do {
     w \<leftarrow> slice_get b (int major);
     slice_set b (int major) (w AND NOT (push_bit minor 1)) })"

definition bs_get :: "nat \<Rightarrow> bitset \<Rightarrow> bool option" where
  "bs_get pos b = (case bitsetIndex pos of (major, minor) \<Rightarrow> do {
     w \<leftarrow> slice_get b (int major);
     Some (w AND push_bit minor 1 \<noteq> 0) })"

text \<open>\<open>bits.OnesCount64\<close> of the standard library.\<close>

definition OnesCount64 :: "64 word \<Rightarrow> nat" where
  "OnesCount64 v = length (filter (bit v) [0..<64])"

definition bs_popcnt :: "bitset \<Rightarrow> nat" where
  "bs_popcnt b = fold (\<lambda>v total. total + OnesCount64 v) b 0"

definition bs_hash :: "bitset \<Rightarrow> 64 word" where
  "bs_hash b = fold (\<lambda>v hash. hash XOR v) b (of_nat (bs_popcnt b))"

definition bs_equals :: "bitset \<Rightarrow> bitset \<Rightarrow> bool" where
  "bs_equals b b2 = (if length b \<noteq> length b2 then False else list_all (\<lambda>i. b ! i = b2 ! i) [0..<length b])"

section \<open>Bit sets as sets of positions\<close>

definition bits_of :: "bitset \<Rightarrow> nat set" where
  "bits_of b = {pos. pos < 64 * length b \<and> bit (b ! (pos div 64)) (pos mod 64)}"

lemma major_lt: "pos < 64 * length b \<Longrightarrow> pos div 64 < length (b :: bitset)"
  by (simp add: less_mult_imp_div_less mult.commute)

lemma same_pos: "p div 64 = q div 64 \<Longrightarrow> (p mod 64 = q mod (64 :: nat)) = (p = q)"
  by (metis div_mult_mod_eq)

lemma bs_set_ok:
  assumes "pos < 64 * length b"
  obtains b' where "bs_set pos b = Some b'" "bits_of b' = insert pos (bits_of b)" "length b' = length b"
proof
  let ?b = "b[pos div 64 := b ! (pos div 64) OR push_bit (pos mod 64) 1]"
  note m = major_lt[OF assms]
  show "bs_set pos b = Some ?b"
    using m by (simp add: bs_set_def bitsetIndex_def)
  have "q \<in> bits_of ?b \<longleftrightarrow> q \<in> insert pos (bits_of b)" for q
    using assms m same_pos[of q pos] by (auto simp: bits_of_def nth_list_update bit_or_iff bit_exp_iff)
  then show "bits_of ?b = insert pos (bits_of b)"
    by blast
qed simp

lemma bs_clear_ok:
  assumes "pos < 64 * length b"
  obtains b' where "bs_clear pos b = Some b'" "bits_of b' = bits_of b - {pos}" "length b' = length b"
proof
  let ?b = "b[pos div 64 := b ! (pos div 64) AND NOT (push_bit (pos mod 64) 1)]"
  note m = major_lt[OF assms]
  show "bs_clear pos b = Some ?b"
    using m by (simp add: bs_clear_def bitsetIndex_def)
  have "q \<in> bits_of ?b \<longleftrightarrow> q \<in> bits_of b - {pos}" for q
    using assms m same_pos[of q pos] by (auto simp: bits_of_def nth_list_update bit_and_iff bit_not_iff bit_exp_iff)
  then show "bits_of ?b = bits_of b - {pos}"
    by blast
qed simp

lemma bs_get_ok:
  assumes "pos < 64 * length b"
  shows "bs_get pos b = Some (pos \<in> bits_of b)"
proof -
  have "(w AND push_bit (pos mod 64) 1 \<noteq> 0) = bit w (pos mod 64)" for w :: "64 word"
    by (simp only: bit_iff_and_push_bit_not_eq_0)
  then show ?thesis
    using major_lt[OF assms] assms by (simp add: bs_get_def bitsetIndex_def bits_of_def)
qed

lemma bits_of_newBitset [simp]: "bits_of (newBitset n) = {}"
  by (auto simp: bits_of_def newBitset_def Let_def less_mult_imp_div_less mult.commute split: if_splits)

lemma newBitset_capacity: "n \<le> 64 * length (newBitset n)" "64 * length (newBitset n) < n + 64"
proof -
  define k r where "k = n div 64" and "r = n mod 64"
  have "n = 64 * k + r" "r < 64"
    by (simp_all add: k_def r_def)
  then show "n \<le> 64 * length (newBitset n)" "64 * length (newBitset n) < n + 64"
    unfolding newBitset_def Let_def length_replicate k_def[symmetric] r_def[symmetric] by auto
qed

lemma bits_of_Cons:
  "bits_of (v # b) = {i. i < 64 \<and> bit v i} \<union> (\<lambda>i. i + 64) ` bits_of b"
proof (intro set_eqI iffI)
  fix p assume p: "p \<in> bits_of (v # b)"
  show "p \<in> {i. i < 64 \<and> bit v i} \<union> (\<lambda>i. i + 64) ` bits_of b"
  proof (cases "p < 64")
    case False
    then have "p div 64 = Suc ((p - 64) div 64)" "p mod 64 = (p - 64) mod 64"
      by (simp_all add: le_div_geq le_mod_geq)
    then have "p - 64 \<in> bits_of b" "p = p - 64 + 64"
      using p False by (auto simp: bits_of_def)
    then show ?thesis
      by blast
  qed (use p in \<open>auto simp: bits_of_def\<close>)
qed (auto simp: bits_of_def div_add_self2)

lemma bs_popcnt_Cons: "bs_popcnt (v # b) = OnesCount64 v + bs_popcnt b"
proof -
  have "fold (\<lambda>v total. total + OnesCount64 v) b n = n + fold (\<lambda>v total. total + OnesCount64 v) b 0" for n
  proof (induction b arbitrary: n)
    case (Cons a b)
    from Cons[of "n + OnesCount64 a"] Cons[of "OnesCount64 a"] show ?case
      by simp
  qed simp
  from this[of "OnesCount64 v"] show ?thesis
    by (simp add: bs_popcnt_def)
qed

lemma finite_bits_of [simp]: "finite (bits_of b)"
  by (simp add: bits_of_def)

lemma bs_popcnt_card: "bs_popcnt b = card (bits_of b)"
proof (induction b)
  case Nil
  then show ?case
    by (simp add: bs_popcnt_def bits_of_def)
next
  case (Cons v b)
  have "OnesCount64 v = card {i. i < 64 \<and> bit v i}"
    unfolding OnesCount64_def
    by (simp flip: distinct_card[of "filter (bit v) [0..<64]", simplified])
  moreover have "{i. i < 64 \<and> bit v i} \<inter> (\<lambda>i. i + 64) ` bits_of b = {}"
    by auto
  moreover have "card ((\<lambda>i. i + 64) ` bits_of b) = card (bits_of b)"
    by (rule card_image) simp
  ultimately show ?case
    using Cons by (simp add: bits_of_Cons bs_popcnt_Cons card_Un_disjoint)
qed

lemma bs_equals_iff: "bs_equals b c \<longleftrightarrow> b = c"
  by (auto simp: bs_equals_def list_all_iff intro!: nth_equalityI)

lemma bits_of_inject: "length b = length c \<Longrightarrow> bits_of b = bits_of c \<longleftrightarrow> b = c"
proof
  assume len: "length b = length c" and eq: "bits_of b = bits_of c"
  show "b = c"
  proof (rule nth_equalityI[OF len])
    fix i assume i: "i < length b"
    have "bit (b ! i) n = bit (c ! i) n" if "n < 64" for n
    proof -
      have "(64 * i + n) div 64 = i" "(64 * i + n) mod 64 = n" "64 * i + n < 64 * length b"
        using \<open>n < 64\<close> i by auto
      moreover have "64 * i + n \<in> bits_of b \<longleftrightarrow> 64 * i + n \<in> bits_of c"
        using eq by simp
      ultimately show ?thesis
        using len by (simp add: bits_of_def)
    qed
    then show "b ! i = c ! i"
      by (auto intro: bit_word_eqI)
  qed
qed simp

text \<open>
  (C30) The bit set is a set of positions. For a position within the capacity no operation
  panics: \<open>set\<close> inserts it and \<open>clear\<close> removes it without touching any other, \<open>get\<close> is
  membership, \<open>popcnt\<close> the number of elements, \<open>equals\<close> on sets of one capacity equality of
  the sets, and equal sets have one hash; a new set of \<open>n\<close> bits is empty and has room for
  \<open>n\<close> positions, with less than one word too much.
\<close>

theorem bitset_refines_set:
  assumes "pos < 64 * length b" "length c = length b"
  shows "(\<exists>b'. bs_set pos b = Some b' \<and> bits_of b' = insert pos (bits_of b) \<and> length b' = length b) \<and>
    (\<exists>b'. bs_clear pos b = Some b' \<and> bits_of b' = bits_of b - {pos} \<and> length b' = length b) \<and>
    bs_get pos b = Some (pos \<in> bits_of b) \<and> bs_popcnt b = card (bits_of b) \<and>
    bs_equals b c = (bits_of b = bits_of c) \<and> (bits_of b = bits_of c \<longrightarrow> bs_hash b = bs_hash c) \<and>
    bits_of (newBitset n) = {} \<and> n \<le> 64 * length (newBitset n) \<and> 64 * length (newBitset n) < n + 64"
proof -
  obtain b1 where "bs_set pos b = Some b1" "bits_of b1 = insert pos (bits_of b)" "length b1 = length b"
    by (rule bs_set_ok[OF assms(1)])
  moreover obtain b2 where "bs_clear pos b = Some b2" "bits_of b2 = bits_of b - {pos}" "length b2 = length b"
    by (rule bs_clear_ok[OF assms(1)])
  ultimately show ?thesis
    using bs_get_ok[OF assms(1)] bs_popcnt_card[of b] bits_of_inject[OF assms(2)[symmetric]] newBitset_capacity[of n]
    by (auto simp: bs_equals_iff)
qed

theorem bitset_refines_set_witness:
  "bs_set 65 [0, 2] = Some [0, 2] \<and> bs_get 65 [0, 2] = Some True \<and> 65 \<in> bits_of [0, 2] \<and>
   bs_popcnt [0, 2] = card (bits_of [0, 2])"
proof -
  have "bs_set 65 [0, 2] = Some [0, 2]" "bs_get 65 [0, 2] = Some True"
    by (simp_all add: bs_set_def bs_get_def bitsetIndex_def slice_defs)
  then show ?thesis
    using bitset_refines_set[of 65 "[0, 2]" "[0, 2]"] by simp
qed

end
