(* ===== verification/Porcupine_Checker.thy ===== *)
theory Porcupine_Checker
  imports Porcupine_Bitset "HOL-Library.Monad_Syntax"
begin

text \<open>
  The linearizability checker that the tests of the services use
  (\<^verbatim>\<open>src/src/porcupine/model.go\<close>, \<^verbatim>\<open>checker.go\<close>, \<^verbatim>\<open>porcupine.go\<close>).

  A value of Go type \<open>interface{}\<close> is an option, \<^const>\<open>None\<close> is nil. The nodes of the doubly
  linked list of entries live in a heap, a list of records, and a pointer is an index of it
  or nil: the search takes nodes out of the list and puts them back through the pointers they
  still hold. A panic (nil pointer, index out of range, type assertion in the code of a model)
  is \<^const>\<open>None\<close>, and so is a search that does not end.
\<close>

section \<open>Histories and models\<close>

type_synonym 'v iface = "'v option"

record 'v operation =
  op_ClientId :: int
  op_Input :: "'v iface"
  op_Call :: int
  op_Output :: "'v iface"
  op_Return :: int

datatype event_kind = CallEvent | ReturnEvent

record 'v event =
  ev_ClientId :: int
  ev_Kind :: event_kind
  ev_Value :: "'v iface"
  ev_Id :: int

text \<open>A function field that is not set is \<^const>\<open>None\<close>; the two fields for visualization are left out.\<close>

record ('v, 's) pc_model =
  mo_Partition :: "('v operation list \<Rightarrow> 'v operation list list option) option"
  mo_PartitionEvent :: "('v event list \<Rightarrow> 'v event list list option) option"
  mo_Init :: 's
  mo_Step :: "'s \<Rightarrow> 'v iface \<Rightarrow> 'v iface \<Rightarrow> (bool \<times> 's) option"
  mo_Equal :: "('s \<Rightarrow> 's \<Rightarrow> bool) option"

definition NoPartition :: "'v operation list \<Rightarrow> 'v operation list list" where
  "NoPartition history = [history]"

definition NoPartitionEvent :: "'v event list \<Rightarrow> 'v event list list" where
  "NoPartitionEvent history = [history]"

definition ShallowEqual :: "'s \<Rightarrow> 's \<Rightarrow> bool" where
  "ShallowEqual state1 state2 = (state1 = state2)"

datatype check_result = CheckUnknown | CheckOk | CheckIllegal

section \<open>Entries\<close>

datatype entry_kind = CallEntry | ReturnEntry

record 'v pc_entry =
  en_kind :: entry_kind
  en_value :: "'v iface"
  en_id :: int
  en_time :: int
  en_clientId :: int

definition byTime_Less :: "'v pc_entry \<Rightarrow> 'v pc_entry \<Rightarrow> bool" where
  "byTime_Less a b =
     (if en_time a \<noteq> en_time b then en_time a < en_time b
      else en_kind a = CallEntry \<and> en_kind b = ReturnEntry)"

fun makeEntries_loop :: "int \<Rightarrow> 'v operation list \<Rightarrow> 'v pc_entry list" where
  "makeEntries_loop i [] = []"
| "makeEntries_loop i (el # history) =
     \<lparr>en_kind = CallEntry, en_value = op_Input el, en_id = i, en_time = op_Call el, en_clientId = op_ClientId el\<rparr> #
     \<lparr>en_kind = ReturnEntry, en_value = op_Output el, en_id = i, en_time = op_Return el, en_clientId = op_ClientId el\<rparr> #
     makeEntries_loop (i + 1) history"

text \<open>
  \<open>sort.Sort\<close> orders by the given comparison and does not promise an order among equal
  elements: the sorting function is an argument, constrained where its order matters.
\<close>

type_synonym 'v sorter = "('v pc_entry \<Rightarrow> 'v pc_entry \<Rightarrow> bool) \<Rightarrow> 'v pc_entry list \<Rightarrow> 'v pc_entry list"

definition makeEntries :: "'v sorter \<Rightarrow> 'v operation list \<Rightarrow> 'v pc_entry list" where
  "makeEntries srt history = srt byTime_Less (makeEntries_loop 0 history)"

fun renumber_loop :: "(int \<rightharpoonup> int) \<Rightarrow> int \<Rightarrow> 'v event list \<Rightarrow> 'v event list" where
  "renumber_loop m i [] = []"
| "renumber_loop m i (v # events) =
     (case m (ev_Id v) of
        Some r \<Rightarrow> v\<lparr>ev_Id := r\<rparr> # renumber_loop m i events
      | None \<Rightarrow> v\<lparr>ev_Id := i\<rparr> # renumber_loop (m(ev_Id v \<mapsto> i)) (i + 1) events)"

definition renumber :: "'v event list \<Rightarrow> 'v event list" where
  "renumber events = renumber_loop Map.empty 0 events"

definition convertEntry :: "nat \<Rightarrow> 'v event \<Rightarrow> 'v pc_entry" where
  "convertEntry i el =
     \<lparr>en_kind = (if ev_Kind el = ReturnEvent then ReturnEntry else CallEntry), en_value = ev_Value el,
      en_id = ev_Id el, en_time = int i, en_clientId = ev_ClientId el\<rparr>"

definition convertEntries :: "'v event list \<Rightarrow> 'v pc_entry list" where
  "convertEntries events = map (\<lambda>(i, el). convertEntry i el) (enumerate 0 events)"

section \<open>The linked list of entries\<close>

type_synonym ptr = "nat option"

record 'v pnode =
  pn_value :: "'v iface"
  pn_match :: ptr
  pn_id :: int
  pn_next :: ptr
  pn_prev :: ptr

type_synonym 'v pheap = "'v pnode list"

definition deref :: "'v pheap \<Rightarrow> ptr \<Rightarrow> 'v pnode option" where
  "deref h p = (case p of None \<Rightarrow> None | Some a \<Rightarrow> if a < length h then Some (h ! a) else None)"

definition assign :: "ptr \<Rightarrow> ('v pnode \<Rightarrow> 'v pnode) \<Rightarrow> 'v pheap \<Rightarrow> 'v pheap option" where
  "assign p f h = do { n \<leftarrow> deref h p; Some (h[the p := f n]) }"

definition new_node :: "'v iface \<Rightarrow> ptr \<Rightarrow> int \<Rightarrow> 'v pheap \<Rightarrow> ptr \<times> 'v pheap" where
  "new_node v m i h = (Some (length h),
     h @ [\<lparr>pn_value = v, pn_match = m, pn_id = i, pn_next = None, pn_prev = None\<rparr>])"

definition insertBefore :: "ptr \<Rightarrow> ptr \<Rightarrow> 'v pheap \<Rightarrow> 'v pheap option" where
  "insertBefore n mark h =
     (if mark \<noteq> None then do {
        m \<leftarrow> deref h mark;
        let beforeMark = pn_prev m;
        h \<leftarrow> assign mark (pn_prev_update (\<lambda>_. n)) h;
        h \<leftarrow> assign n (pn_next_update (\<lambda>_. mark)) h;
        if beforeMark \<noteq> None then do {
          h \<leftarrow> assign n (pn_prev_update (\<lambda>_. beforeMark)) h;
          assign beforeMark (pn_next_update (\<lambda>_. n)) h }
        else Some h }
      else Some h)"

partial_function (option) list_length :: "'v pheap \<Rightarrow> ptr \<Rightarrow> nat \<Rightarrow> nat option" where
  "list_length h n l =
     (if n \<noteq> None then do { nd \<leftarrow> deref h n; list_length h (pn_next nd) (l + 1) } else Some l)"

text \<open>The loop of \<open>makeLinkedEntries\<close> goes through the entries from the last to the first.\<close>

fun link_loop :: "'v pc_entry list \<Rightarrow> (int \<rightharpoonup> nat) \<Rightarrow> ptr \<Rightarrow> 'v pheap \<Rightarrow> (ptr \<times> 'v pheap) option" where
  "link_loop [] match root h = Some (root, h)"
| "link_loop (el # entries) match root h =
     (if en_kind el = ReturnEntry then do {
        let (entry, h) = new_node (en_value el) None (en_id el) h;
        let match = match(en_id el := entry);
        h \<leftarrow> insertBefore entry root h;
        link_loop entries match entry h }
      else do {
        let (entry, h) = new_node (en_value el) (match (en_id el)) (en_id el) h;
        h \<leftarrow> insertBefore entry root h;
        link_loop entries match entry h })"

definition makeLinkedEntries :: "'v pc_entry list \<Rightarrow> (ptr \<times> 'v pheap) option" where
  "makeLinkedEntries entries = link_loop (rev entries) Map.empty None []"

definition lift :: "ptr \<Rightarrow> 'v pheap \<Rightarrow> 'v pheap option" where
  "lift entry h = do {
     e \<leftarrow> deref h entry;
     h \<leftarrow> assign (pn_prev e) (pn_next_update (\<lambda>_. pn_next e)) h;
     h \<leftarrow> assign (pn_next e) (pn_prev_update (\<lambda>_. pn_prev e)) h;
     m \<leftarrow> deref h (pn_match e);
     h \<leftarrow> assign (pn_prev m) (pn_next_update (\<lambda>_. pn_next m)) h;
     if pn_next m \<noteq> None then assign (pn_next m) (pn_prev_update (\<lambda>_. pn_prev m)) h else Some h }"

definition unlift :: "ptr \<Rightarrow> 'v pheap \<Rightarrow> 'v pheap option" where
  "unlift entry h = do {
     e \<leftarrow> deref h entry;
     m \<leftarrow> deref h (pn_match e);
     h \<leftarrow> assign (pn_prev m) (pn_next_update (\<lambda>_. pn_match e)) h;
     h \<leftarrow> (if pn_next m \<noteq> None then assign (pn_next m) (pn_prev_update (\<lambda>_. pn_match e)) h else Some h);
     h \<leftarrow> assign (pn_prev e) (pn_next_update (\<lambda>_. entry)) h;
     assign (pn_next e) (pn_prev_update (\<lambda>_. entry)) h }"

section \<open>The search\<close>

type_synonym 's cache_entry = "bitset \<times> 's"
type_synonym 's cache = "64 word \<Rightarrow> 's cache_entry list"
type_synonym 's calls_entry = "ptr \<times> 's"

fun cache_loop :: "('v, 's) pc_model \<Rightarrow> 's cache_entry \<Rightarrow> 's cache_entry list \<Rightarrow> bool option" where
  "cache_loop model entry [] = Some False"
| "cache_loop model entry (el # elems) =
     (if bs_equals (fst entry) (fst el)
      then do { Equal \<leftarrow> mo_Equal model; if Equal (snd entry) (snd el) then Some True else cache_loop model entry elems }
      else cache_loop model entry elems)"

definition cacheContains :: "('v, 's) pc_model \<Rightarrow> 's cache \<Rightarrow> 's cache_entry \<Rightarrow> bool option" where
  "cacheContains model cache entry = cache_loop model entry (cache (bs_hash (fst entry)))"

text \<open>
  The local variables of \<open>checkSingle\<close>. The elements of \<open>longest\<close> are pointers to slices; the
  slices pointed to are kept in \<open>cs_seqs\<close>, a pointer is an index of it.
\<close>

record ('v, 's) check_state =
  cs_heap :: "'v pheap"
  cs_entry :: ptr
  cs_linearized :: bitset
  cs_cache :: "'s cache"
  cs_calls :: "'s calls_entry list"
  cs_longest :: "ptr list"
  cs_seqs :: "int list list"
  cs_state :: 's

text \<open>The conversion \<open>uint\<close>; entry numbers count from 0 and are never negative.\<close>

definition uint_of :: "int \<Rightarrow> nat" where
  "uint_of i = nat i"

fun call_ids :: "'v pheap \<Rightarrow> 's calls_entry list \<Rightarrow> int list option" where
  "call_ids h [] = Some []"
| "call_ids h (v # calls) = do { n \<leftarrow> deref h (fst v); is \<leftarrow> call_ids h calls; Some (pn_id n # is) }"

fun longest_loop :: "int list list \<Rightarrow> nat \<Rightarrow> nat \<Rightarrow> int list \<Rightarrow> ptr list \<Rightarrow> ptr list option" where
  "longest_loop seqs callsLen seq [] longest = Some longest"
| "longest_loop seqs callsLen seq (i # is) longest = do {
     l \<leftarrow> slice_get longest i;
     longest \<leftarrow> (if (case l of None \<Rightarrow> True | Some a \<Rightarrow> callsLen > length (seqs ! a))
                then slice_set longest i (Some seq) else Some longest);
     longest_loop seqs callsLen seq is longest }"

text \<open>The slice \<open>seq\<close> is filled when it is first needed; if it is not, nothing points to it.\<close>

definition updateLongest :: "bool \<Rightarrow> ('v, 's) check_state \<Rightarrow> ('v, 's) check_state option" where
  "updateLongest computePartial st =
     (if computePartial then do {
        ids \<leftarrow> call_ids (cs_heap st) (cs_calls st);
        let seqs = cs_seqs st @ [ids];
        longest \<leftarrow> longest_loop seqs (length (cs_calls st)) (length (cs_seqs st)) ids (cs_longest st);
        Some (st\<lparr>cs_seqs := seqs, cs_longest := longest\<rparr>) }
      else Some st)"

definition tryCall :: "('v, 's) pc_model \<Rightarrow> ptr \<Rightarrow> 'v pnode \<Rightarrow> ('v, 's) check_state \<Rightarrow>
    ('v, 's) check_state option" where
  "tryCall model headEntry e st = do {
     matching \<leftarrow> deref (cs_heap st) (pn_match e);
     (ok, newState) \<leftarrow> mo_Step model (cs_state st) (pn_value e) (pn_value matching);
     if ok then do {
       newLinearized \<leftarrow> bs_set (uint_of (pn_id e)) (bs_clone (cs_linearized st));
       let newCacheEntry = (newLinearized, newState);
       found \<leftarrow> cacheContains model (cs_cache st) newCacheEntry;
       if \<not> found then do {
         let hash = bs_hash newLinearized;
         linearized \<leftarrow> bs_set (uint_of (pn_id e)) (cs_linearized st);
         h \<leftarrow> lift (cs_entry st) (cs_heap st);
         hd \<leftarrow> deref h headEntry;
         Some (st\<lparr>cs_cache := (cs_cache st)(hash := cs_cache st hash @ [newCacheEntry]),
           cs_calls := cs_calls st @ [(cs_entry st, cs_state st)], cs_state := newState,
           cs_linearized := linearized, cs_heap := h, cs_entry := pn_next hd\<rparr>) }
       else Some (st\<lparr>cs_entry := pn_next e\<rparr>) }
     else Some (st\<lparr>cs_entry := pn_next e\<rparr>) }"

definition backtrack :: "bool \<Rightarrow> ('v, 's) check_state \<Rightarrow> ('v, 's) check_state option" where
  "backtrack computePartial st = do {
     st \<leftarrow> updateLongest computePartial st;
     let (entry, s) = last (cs_calls st);
     e \<leftarrow> deref (cs_heap st) entry;
     linearized \<leftarrow> bs_clear (uint_of (pn_id e)) (cs_linearized st);
     h \<leftarrow> unlift entry (cs_heap st);
     e \<leftarrow> deref h entry;
     Some (st\<lparr>cs_state := s, cs_linearized := linearized, cs_calls := butlast (cs_calls st),
       cs_heap := h, cs_entry := pn_next e\<rparr>) }"

text \<open>One round of the loop: a return value, or the state for the next round.\<close>

definition checkSingle_round :: "('v, 's) pc_model \<Rightarrow> bool \<Rightarrow> bool \<Rightarrow> ptr \<Rightarrow> ('v, 's) check_state \<Rightarrow>
    (bool \<times> ('v, 's) check_state + ('v, 's) check_state) option" where
  "checkSingle_round model computePartial kill headEntry st =
     (if kill then Some (Inl (False, st))
      else do {
        e \<leftarrow> deref (cs_heap st) (cs_entry st);
        if pn_match e \<noteq> None then do { st \<leftarrow> tryCall model headEntry e st; Some (Inr st) }
        else if cs_calls st = [] then Some (Inl (False, st))
        else do { st \<leftarrow> backtrack computePartial st; Some (Inr st) } })"

text \<open>The variable \<open>kill\<close> is set by another goroutine: \<open>kill k\<close> is what round \<open>k\<close> reads.\<close>

partial_function (option) checkSingle_loop :: "('v, 's) pc_model \<Rightarrow> bool \<Rightarrow> (nat \<Rightarrow> bool) \<Rightarrow> ptr \<Rightarrow> nat \<Rightarrow>
    ('v, 's) check_state \<Rightarrow> (bool \<times> ('v, 's) check_state) option" where
  "checkSingle_loop model computePartial kill headEntry k st = do {
     hd \<leftarrow> deref (cs_heap st) headEntry;
     if pn_next hd \<noteq> None then do {
       r \<leftarrow> checkSingle_round model computePartial (kill k) headEntry st;
       case r of Inl res \<Rightarrow> Some res
       | Inr st \<Rightarrow> checkSingle_loop model computePartial kill headEntry (k + 1) st }
     else do {
       seq \<leftarrow> call_ids (cs_heap st) (cs_calls st);
       Some (True, st\<lparr>cs_seqs := cs_seqs st @ [seq],
         cs_longest := map (\<lambda>_. Some (length (cs_seqs st))) (cs_longest st)\<rparr>) } }"

text \<open>The result of \<open>checkSingle\<close>: the verdict, \<open>longest\<close>, and the slices it points to.\<close>

definition checkSingle :: "('v, 's) pc_model \<Rightarrow> 'v pc_entry list \<Rightarrow> bool \<Rightarrow> (nat \<Rightarrow> bool) \<Rightarrow>
    (bool \<times> ptr list \<times> int list list) option" where
  "checkSingle model history computePartial kill = do {
     (entry, h) \<leftarrow> makeLinkedEntries history;
     l \<leftarrow> list_length h entry 0;
     let n = l div 2;
     let (headEntry, h) = new_node None None (- 1) h;
     h \<leftarrow> insertBefore headEntry entry h;
     (ok, st) \<leftarrow> checkSingle_loop model computePartial kill headEntry 0
       \<lparr>cs_heap = h, cs_entry = entry, cs_linearized = newBitset n, cs_cache = (\<lambda>_. []), cs_calls = [],
        cs_longest = replicate n None, cs_seqs = [], cs_state = mo_Init model\<rparr>;
     Some (ok, cs_longest st, cs_seqs st) }"

section \<open>Partitions in parallel\<close>

definition fillDefault :: "('v, 's) pc_model \<Rightarrow> ('v, 's) pc_model" where
  "fillDefault model =
     (let model = (if mo_Partition model = None
                   then model\<lparr>mo_Partition := Some (\<lambda>history. Some (NoPartition history))\<rparr> else model);
          model = (if mo_PartitionEvent model = None
                   then model\<lparr>mo_PartitionEvent := Some (\<lambda>history. Some (NoPartitionEvent history))\<rparr> else model)
      in if mo_Equal model = None then model\<lparr>mo_Equal := Some ShallowEqual\<rparr> else model)"

text \<open>
  What the \<open>select\<close> of \<open>checkParallel\<close> finds ready: the result of the goroutine of a partition,
  or the timeout channel. The order in which they become ready is a list. The loop is left, or
  still waits when the list is used up; \<open>Impossible\<close> marks a list with an event that cannot occur, the
  result of a goroutine that does not exist or has already sent it, or a timeout where none was set.
  \<open>None\<close> is a search that panics or does not end. No goroutine sees the \<open>kill\<close> flag before the loop
  is left, so a result received in the loop is that of an undisturbed search.
\<close>

datatype select_event = GotResult nat | GotTimeout

datatype 'a selected = Returns 'a | Waits | Impossible

fun select_loop :: "(nat \<Rightarrow> bool option) \<Rightarrow> bool \<Rightarrow> bool \<Rightarrow> nat \<Rightarrow> select_event list \<Rightarrow> nat list \<Rightarrow> bool \<Rightarrow>
    (bool \<times> bool \<times> nat list) selected option" where
  "select_loop results timeout computeInfo len [] received ok = Some Waits"
| "select_loop results timeout computeInfo len (GotTimeout # sched) received ok =
     Some (if timeout then Returns (ok, True, received) else Impossible)"
| "select_loop results timeout computeInfo len (GotResult i # sched) received ok =
     (if i < len \<and> i \<notin> set received then do {
        result \<leftarrow> results i;
        let received = received @ [i];
        let ok = (ok \<and> result);
        if \<not> ok \<and> \<not> computeInfo then Some (Returns (ok, False, received))
        else if length received \<ge> len then Some (Returns (ok, False, received))
        else select_loop results timeout computeInfo len sched received ok }
      else Some Impossible)"

record 'v lin_info =
  li_history :: "'v pc_entry list list"
  li_partialLinearizations :: "int list list list"

text \<open>
  The slices that \<open>longest\<close> points to, each once; \<open>visit\<close> is the order in which the range loop
  goes through the map of pointers.
\<close>

definition partials_of :: "(nat list \<Rightarrow> nat list) \<Rightarrow> ptr list \<Rightarrow> int list list \<Rightarrow> int list list" where
  "partials_of visit longest seqs = map (\<lambda>a. seqs ! a) (visit (remdups (List.map_filter id longest)))"

definition checkParallel :: "(nat list \<Rightarrow> nat list) \<Rightarrow> select_event list \<Rightarrow> (nat \<Rightarrow> nat \<Rightarrow> bool) \<Rightarrow>
    ('v, 's) pc_model \<Rightarrow> 'v pc_entry list list \<Rightarrow> bool \<Rightarrow> int \<Rightarrow> (check_result \<times> 'v lin_info) selected option" where
  "checkParallel visit sched kill model history computeInfo timeout = do {
     let single = (\<lambda>i. checkSingle model (history ! i) computeInfo);
     left \<leftarrow> select_loop (\<lambda>i. map_option fst (single i (\<lambda>_. False))) (timeout > 0) computeInfo (length history) sched [] True;
     case left of
       Returns (ok, timedOut, received) \<Rightarrow> do {
         partials \<leftarrow>
           (if computeInfo
            then those (map (\<lambda>i. map_option (\<lambda>(_, longest, seqs). partials_of visit longest seqs)
                   (single i (if i \<in> set received then \<lambda>_. False else kill i))) [0..<length history])
            else Some []);
         let info = (if computeInfo then \<lparr>li_history = history, li_partialLinearizations = partials\<rparr>
                     else \<lparr>li_history = [], li_partialLinearizations = []\<rparr>);
         Some (Returns (if \<not> ok then CheckIllegal else if timedOut then CheckUnknown else CheckOk, info)) }
     | Waits \<Rightarrow> Some Waits
     | Impossible \<Rightarrow> Some Impossible }"

definition checkEvents :: "(nat list \<Rightarrow> nat list) \<Rightarrow> select_event list \<Rightarrow> (nat \<Rightarrow> nat \<Rightarrow> bool) \<Rightarrow>
    ('v, 's) pc_model \<Rightarrow> 'v event list \<Rightarrow> bool \<Rightarrow> int \<Rightarrow> (check_result \<times> 'v lin_info) selected option" where
  "checkEvents visit sched kill model history verbose timeout = do {
     let model = fillDefault model;
     part \<leftarrow> mo_PartitionEvent model;
     partitions \<leftarrow> part history;
     let l = map (\<lambda>subhistory. convertEntries (renumber subhistory)) partitions;
     checkParallel visit sched kill model l verbose timeout }"

definition checkOperations :: "(nat list \<Rightarrow> nat list) \<Rightarrow> select_event list \<Rightarrow> (nat \<Rightarrow> nat \<Rightarrow> bool) \<Rightarrow> 'v sorter \<Rightarrow>
    ('v, 's) pc_model \<Rightarrow> 'v operation list \<Rightarrow> bool \<Rightarrow> int \<Rightarrow> (check_result \<times> 'v lin_info) selected option" where
  "checkOperations visit sched kill srt model history verbose timeout = do {
     let model = fillDefault model;
     part \<leftarrow> mo_Partition model;
     partitions \<leftarrow> part history;
     let l = map (makeEntries srt) partitions;
     checkParallel visit sched kill model l verbose timeout }"

section \<open>The interface\<close>

definition CheckOperations :: "(nat list \<Rightarrow> nat list) \<Rightarrow> select_event list \<Rightarrow> (nat \<Rightarrow> nat \<Rightarrow> bool) \<Rightarrow> 'v sorter \<Rightarrow>
    ('v, 's) pc_model \<Rightarrow> 'v operation list \<Rightarrow> bool selected option" where
  "CheckOperations visit sched kill srt model history =
     map_option (map_selected (\<lambda>(res, _). res = CheckOk)) (checkOperations visit sched kill srt model history False 0)"

definition CheckOperationsTimeout :: "(nat list \<Rightarrow> nat list) \<Rightarrow> select_event list \<Rightarrow> (nat \<Rightarrow> nat \<Rightarrow> bool) \<Rightarrow>
    'v sorter \<Rightarrow> ('v, 's) pc_model \<Rightarrow> 'v operation list \<Rightarrow> int \<Rightarrow> check_result selected option" where
  "CheckOperationsTimeout visit sched kill srt model history timeout =
     map_option (map_selected fst) (checkOperations visit sched kill srt model history False timeout)"

definition CheckOperationsVerbose :: "(nat list \<Rightarrow> nat list) \<Rightarrow> select_event list \<Rightarrow> (nat \<Rightarrow> nat \<Rightarrow> bool) \<Rightarrow>
    'v sorter \<Rightarrow> ('v, 's) pc_model \<Rightarrow> 'v operation list \<Rightarrow> int \<Rightarrow> (check_result \<times> 'v lin_info) selected option" where
  "CheckOperationsVerbose visit sched kill srt model history timeout =
     checkOperations visit sched kill srt model history True timeout"

definition CheckEvents :: "(nat list \<Rightarrow> nat list) \<Rightarrow> select_event list \<Rightarrow> (nat \<Rightarrow> nat \<Rightarrow> bool) \<Rightarrow>
    ('v, 's) pc_model \<Rightarrow> 'v event list \<Rightarrow> bool selected option" where
  "CheckEvents visit sched kill model history =
     map_option (map_selected (\<lambda>(res, _). res = CheckOk)) (checkEvents visit sched kill model history False 0)"

definition CheckEventsTimeout :: "(nat list \<Rightarrow> nat list) \<Rightarrow> select_event list \<Rightarrow> (nat \<Rightarrow> nat \<Rightarrow> bool) \<Rightarrow>
    ('v, 's) pc_model \<Rightarrow> 'v event list \<Rightarrow> int \<Rightarrow> check_result selected option" where
  "CheckEventsTimeout visit sched kill model history timeout =
     map_option (map_selected fst) (checkEvents visit sched kill model history False timeout)"

definition CheckEventsVerbose :: "(nat list \<Rightarrow> nat list) \<Rightarrow> select_event list \<Rightarrow> (nat \<Rightarrow> nat \<Rightarrow> bool) \<Rightarrow>
    ('v, 's) pc_model \<Rightarrow> 'v event list \<Rightarrow> int \<Rightarrow> (check_result \<times> 'v lin_info) selected option" where
  "CheckEventsVerbose visit sched kill model history timeout =
     checkEvents visit sched kill model history True timeout"

end
