(* ===== verification/Porcupine_Search.thy ===== *)
theory Porcupine_Search
  imports Porcupine_Checker
begin

text \<open>
  Correctness of the search of the linearizability checker. The first part shows that taking
  an entry and its return out of the doubly linked list and putting them back restores the
  heap exactly; the second that the backtracking loop ends, and that it succeeds exactly when
  the entries can be consumed one call at a time.
\<close>

section \<open>Doubly linked lists\<close>

fun hdo :: "nat list \<Rightarrow> ptr \<Rightarrow> ptr" where
  "hdo [] n = n"
| "hdo (a # xs) n = Some a"

fun lasto :: "ptr \<Rightarrow> nat list \<Rightarrow> ptr" where
  "lasto p [] = p"
| "lasto p (a # xs) = lasto (Some a) xs"

fun dseg :: "'v pheap \<Rightarrow> ptr \<Rightarrow> nat list \<Rightarrow> ptr \<Rightarrow> bool" where
  "dseg h p [] n = True"
| "dseg h p (a # xs) n = (pn_prev (h ! a) = p \<and> pn_next (h ! a) = hdo xs n \<and> dseg h (Some a) xs n)"

definition dll :: "'v pheap \<Rightarrow> nat list \<Rightarrow> bool" where
  "dll h xs \<longleftrightarrow> distinct xs \<and> set xs \<subseteq> {..<length h} \<and> dseg h None xs None"

definition statics :: "'v pheap \<Rightarrow> ('v iface \<times> ptr \<times> int) list" where
  "statics h = map (\<lambda>n. (pn_value n, pn_match n, pn_id n)) h"

lemma hdo_append [simp]: "hdo (xs @ ys) n = hdo xs (hdo ys n)"
  by (cases xs) simp_all

lemma lasto_append [simp]: "lasto p (xs @ ys) = lasto (lasto p xs) ys"
  by (induction xs arbitrary: p) simp_all

lemma dseg_append [simp]:
  "dseg h p (xs @ ys) n \<longleftrightarrow> dseg h p xs (hdo ys n) \<and> dseg h (lasto p xs) ys n"
  by (induction xs arbitrary: p) auto

lemma dseg_cong:
  "(\<And>a. a \<in> set xs \<Longrightarrow> h' ! a = h ! a) \<Longrightarrow> dseg h' p xs n = dseg h p xs n"
  by (induction xs arbitrary: p) auto

lemma dseg_update [simp]: "b \<notin> set xs \<Longrightarrow> dseg (h[b := v]) p xs n = dseg h p xs n"
  by (rule dseg_cong) (metis nth_list_update_neq)

lemma statics_length: "statics h = statics h' \<Longrightarrow> length h = length h'"
  by (metis length_map statics_def)

lemma statics_nth:
  assumes "statics h = statics h'" "a < length h"
  shows "pn_value (h ! a) = pn_value (h' ! a)" "pn_match (h ! a) = pn_match (h' ! a)" "pn_id (h ! a) = pn_id (h' ! a)"
proof -
  have "statics h ! a = statics h' ! a"
    using assms(1) by simp
  then show "pn_value (h ! a) = pn_value (h' ! a)" "pn_match (h ! a) = pn_match (h' ! a)" "pn_id (h ! a) = pn_id (h' ! a)"
    using assms(2) statics_length[OF assms(1)] by (simp_all add: statics_def)
qed

lemma statics_update:
  "pn_value v = pn_value (h ! a) \<Longrightarrow> pn_match v = pn_match (h ! a) \<Longrightarrow> pn_id v = pn_id (h ! a) \<Longrightarrow>
   statics (h[a := v]) = statics h"
  by (cases "a < length h") (auto simp: statics_def map_update list_update_same_conv list_update_beyond)

lemma deref_Some [simp]: "deref h (Some a) = (if a < length h then Some (h ! a) else None)"
  by (simp add: deref_def)

lemma deref_None [simp]: "deref h None = None"
  by (simp add: deref_def)

lemma assign_Some [simp]: "a < length h \<Longrightarrow> assign (Some a) f h = Some (h[a := f (h ! a)])"
  by (simp add: assign_def)

section \<open>Taking a node out and putting it back\<close>

definition unlink :: "ptr \<Rightarrow> 'v pheap \<Rightarrow> 'v pheap option" where
  "unlink p h = do {
     e \<leftarrow> deref h p;
     h \<leftarrow> assign (pn_prev e) (pn_next_update (\<lambda>_. pn_next e)) h;
     if pn_next e \<noteq> None then assign (pn_next e) (pn_prev_update (\<lambda>_. pn_prev e)) h else Some h }"

definition relink :: "ptr \<Rightarrow> 'v pheap \<Rightarrow> 'v pheap option" where
  "relink p h = do {
     e \<leftarrow> deref h p;
     h \<leftarrow> assign (pn_prev e) (pn_next_update (\<lambda>_. p)) h;
     if pn_next e \<noteq> None then assign (pn_next e) (pn_prev_update (\<lambda>_. p)) h else Some h }"

lemma pnode_same:
  "pn_next e = p \<Longrightarrow> e\<lparr>pn_next := p\<rparr> = e" "pn_prev e = p \<Longrightarrow> e\<lparr>pn_prev := p\<rparr> = e" for e :: "'v pnode"
  by (cases e; simp)+

lemma unlink_dll:
  assumes "dll h (xs @ [q] @ a # ys)"
  obtains h' where "unlink (Some a) h = Some h'" "dll h' (xs @ q # ys)" "relink (Some a) h' = Some h"
    "h' ! a = h ! a" "statics h' = statics h"
proof (cases ys)
  case Nil
  let ?h = "h[q := (h ! q)\<lparr>pn_next := None\<rparr>]"
  have a: "a < length h" "q < length h" "a \<noteq> q" "pn_prev (h ! a) = Some q" "pn_next (h ! a) = None" "pn_next (h ! q) = Some a"
    using assms Nil by (auto simp: dll_def)
  show ?thesis
  proof (rule that)
    show "unlink (Some a) h = Some ?h" "relink (Some a) ?h = Some h"
      using a by (simp_all add: unlink_def relink_def pnode_same)
    show "dll ?h (xs @ q # ys)"
      using assms Nil by (auto simp: dll_def)
    show "?h ! a = h ! a"
      using a by simp
  qed (simp add: statics_update)
next
  case (Cons y zs)
  let ?h = "h[q := (h ! q)\<lparr>pn_next := Some y\<rparr>, y := (h ! y)\<lparr>pn_prev := Some q\<rparr>]"
  have a: "a < length h" "q < length h" "y < length h" "a \<noteq> q" "a \<noteq> y" "q \<noteq> y" "pn_prev (h ! a) = Some q"
    "pn_next (h ! a) = Some y" "pn_next (h ! q) = Some a" "pn_prev (h ! y) = Some a"
    using assms Cons by (auto simp: dll_def)
  show ?thesis
  proof (rule that)
    show "unlink (Some a) h = Some ?h"
      using a by (simp add: unlink_def)
    show "relink (Some a) ?h = Some h"
      using a by (simp add: relink_def pnode_same list_update_swap[of q y])
    show "dll ?h (xs @ q # ys)"
      using assms Cons by (auto simp: dll_def)
    show "?h ! a = h ! a"
      using a by simp
    show "statics ?h = statics h"
      using a by (simp add: statics_update)
  qed
qed

lemma assign_other: "assign p f h = Some h' \<Longrightarrow> p \<noteq> Some a \<Longrightarrow> h' ! a = h ! a"
  by (cases p) (auto simp: assign_def deref_def split: if_splits)

lemma unlink_other:
  assumes "unlink (Some m) h = Some h'" "m < length h" "pn_prev (h ! m) \<noteq> Some a" "pn_next (h ! m) \<noteq> Some a"
  shows "h' ! a = h ! a"
proof -
  obtain h1 where h1: "assign (pn_prev (h ! m)) (pn_next_update (\<lambda>_. pn_next (h ! m))) h = Some h1"
    "(if pn_next (h ! m) \<noteq> None then assign (pn_next (h ! m)) (pn_prev_update (\<lambda>_. pn_prev (h ! m))) h1 else Some h1) = Some h'"
    using assms(1,2) by (auto simp: unlink_def simp del: not_None_eq)
  then have "h1 ! a = h ! a" "h' ! a = h1 ! a"
    using assms(3,4) assign_other[OF h1(1)] by (auto dest: assign_other split: if_splits)
  then show ?thesis
    by simp
qed

lemma lift_dll:
  assumes d: "dll h (xs @ [q] @ a # ys @ m # zs)" and m: "pn_match (h ! a) = Some m"
  obtains h' where "lift (Some a) h = Some h'" "dll h' (xs @ q # ys @ zs)" "unlift (Some a) h' = Some h"
    "statics h' = statics h"
proof -
  obtain h1 where h1: "unlink (Some a) h = Some h1" "dll h1 (xs @ q # ys @ m # zs)" "relink (Some a) h1 = Some h"
    "h1 ! a = h ! a" "statics h1 = statics h"
    by (rule unlink_dll[OF d])
  obtain us p where us: "xs @ q # ys = us @ [p]"
    by (metis append_Cons append_butlast_last_id append_is_Nil_conv list.distinct(1))
  have d1: "dll h1 (us @ [p] @ m # zs)"
    using h1(2) us by (metis append.assoc append_Cons)
  obtain h2 where h2: "unlink (Some m) h1 = Some h2" "dll h2 (us @ p # zs)" "relink (Some m) h2 = Some h1"
    "h2 ! m = h1 ! m" "statics h2 = statics h1"
    by (rule unlink_dll[OF d1])
  have len: "length h1 = length h" "length h2 = length h"
    using statics_length[OF h1(5)] statics_length[OF h2(5)] by simp_all
  have am: "a < length h" "m < length h" "a \<notin> set (xs @ q # ys @ m # zs)"
    using d by (auto simp: dll_def)
  have nx: "pn_next (h ! a) \<noteq> None"
    using d by (cases ys) (auto simp: dll_def)
  have pm: "pn_prev (h1 ! m) = Some p" "pn_next (h1 ! m) = hdo zs None"
    using d1 by (auto simp: dll_def)
  have "p \<in> set (xs @ q # ys)"
    by (simp add: us)
  then have ne: "p \<noteq> a" "pn_next (h1 ! m) \<noteq> Some a"
    using am(3) pm(2) by (cases zs; auto)+
  have a2: "h2 ! a = h1 ! a"
    using unlink_other[OF h2(1), of a] pm ne am len by simp
  show ?thesis
  proof (rule that)
    have "lift (Some a) h = do { h \<leftarrow> unlink (Some a) h; unlink (Some m) h }"
      using am(1) nx m by (simp add: lift_def unlink_def Option.bind_assoc)
    then show "lift (Some a) h = Some h2"
      using h1(1) h2(1) by simp
    have "unlift (Some a) h2 = do {
        h \<leftarrow> relink (Some m) h2;
        h \<leftarrow> assign (pn_prev (h2 ! a)) (pn_next_update (\<lambda>_. Some a)) h;
        assign (pn_next (h2 ! a)) (pn_prev_update (\<lambda>_. Some a)) h }"
      using am(1) len m a2 h1(4) by (simp add: unlift_def relink_def Option.bind_assoc cong: if_cong)
    also have "\<dots> = relink (Some a) h1"
      unfolding h2(3) using am(1) len nx a2 h1(4) by (simp add: relink_def)
    finally show "unlift (Some a) h2 = Some h"
      using h1(3) by simp
    show "dll h2 (xs @ q # ys @ zs)"
      using h2(2) us by (metis append.assoc append_Cons append_Nil)
    show "statics h2 = statics h"
      using h1(5) h2(5) by simp
  qed
qed

section \<open>Consuming the entries one call at a time\<close>

definition drop_id :: "'v pheap \<Rightarrow> int \<Rightarrow> nat list \<Rightarrow> nat list" where
  "drop_id h i R = filter (\<lambda>b. pn_id (h ! b) \<noteq> i) R"

text \<open>
  Well-formed lists of entries: the return a call points to comes after it and has its
  number, no other entry has the number, and every return belongs to a call.
\<close>

definition wfl :: "'v pheap \<Rightarrow> nat list \<Rightarrow> bool" where
  "wfl h R \<longleftrightarrow> distinct R \<and>
     (\<forall>xs a ys m. R = xs @ a # ys \<and> pn_match (h ! a) = Some m \<longrightarrow>
        m \<in> set ys \<and> pn_match (h ! m) = None \<and> pn_id (h ! m) = pn_id (h ! a)) \<and>
     (\<forall>a\<in>set R. \<forall>b\<in>set R. pn_id (h ! a) = pn_id (h ! b) \<longrightarrow>
        a = b \<or> pn_match (h ! a) = Some b \<or> pn_match (h ! b) = Some a) \<and>
     (\<forall>b\<in>set R. pn_match (h ! b) = None \<longrightarrow> (\<exists>a\<in>set R. pn_match (h ! a) = Some b))"

lemma wflD:
  assumes "wfl h R"
  shows "distinct R"
    "R = xs @ a # ys \<Longrightarrow> pn_match (h ! a) = Some m \<Longrightarrow> m \<in> set ys \<and> pn_match (h ! m) = None \<and> pn_id (h ! m) = pn_id (h ! a)"
    "a \<in> set R \<Longrightarrow> b \<in> set R \<Longrightarrow> pn_id (h ! a) = pn_id (h ! b) \<Longrightarrow>
       a = b \<or> pn_match (h ! a) = Some b \<or> pn_match (h ! b) = Some a"
    "b \<in> set R \<Longrightarrow> pn_match (h ! b) = None \<Longrightarrow> \<exists>a\<in>set R. pn_match (h ! a) = Some b"
  using assms unfolding wfl_def by - (elim conjE, blast)+

lemma wfl_match:
  assumes "wfl h R" "a \<in> set R" "pn_match (h ! a) = Some m"
  shows "m \<in> set R \<and> pn_match (h ! m) = None \<and> pn_id (h ! m) = pn_id (h ! a)"
  using split_list[OF assms(2)] wflD(2)[OF assms(1) _ assms(3)] by fastforce

lemma filter_splitD:
  "filter P R = xs @ a # ys \<Longrightarrow> \<exists>us vs. R = us @ a # vs \<and> filter P us = xs \<and> filter P vs = ys \<and> P a"
proof (induction xs arbitrary: R)
  case Nil
  then show ?case
    using filter_eq_ConsD[of P R a ys] by fastforce
next
  case (Cons x xs)
  then obtain us vs where R: "R = us @ x # vs" "\<forall>u\<in>set us. \<not> P u" "P x" "xs @ a # ys = filter P vs"
    using filter_eq_ConsD[of P R x "xs @ a # ys"] by auto
  obtain us' vs' where "vs = us' @ a # vs'" "filter P us' = xs" "filter P vs' = ys" "P a"
    using Cons.IH[OF R(4)[symmetric]] by auto
  then show ?case
    using R by (intro exI[of _ "us @ x # us'"] exI[of _ vs']) simp
qed

lemma wfl_filter:
  assumes w: "wfl h R"
  shows "wfl h (filter (\<lambda>b. P (pn_id (h ! b))) R)"
proof -
  let ?f = "filter (\<lambda>b. P (pn_id (h ! b)))"
  have 1: "m \<in> set ys \<and> pn_match (h ! m) = None \<and> pn_id (h ! m) = pn_id (h ! a)"
    if eq: "?f R = xs @ a # ys" and m: "pn_match (h ! a) = Some m" for xs a ys m
  proof -
    obtain us vs where "R = us @ a # vs" "?f vs = ys" "P (pn_id (h ! a))"
      using filter_splitD[OF eq] by auto
    then show ?thesis
      using wflD(2)[OF w _ m] by fastforce
  qed
  have 2: "\<exists>a\<in>set (?f R). pn_match (h ! a) = Some b" if b: "b \<in> set (?f R)" "pn_match (h ! b) = None" for b
  proof -
    obtain a where a: "a \<in> set R" "pn_match (h ! a) = Some b"
      using wflD(4)[OF w, of b] b by auto
    then have "pn_id (h ! b) = pn_id (h ! a)"
      using wfl_match[OF w a] by simp
    then show ?thesis
      using a b(1) by auto
  qed
  have 3: "a = b \<or> pn_match (h ! a) = Some b \<or> pn_match (h ! b) = Some a"
    if "a \<in> set (?f R)" "b \<in> set (?f R)" "pn_id (h ! a) = pn_id (h ! b)" for a b
    using wflD(3)[OF w, of a b] that by simp
  show ?thesis
    unfolding wfl_def using wflD(1)[OF w] by (intro conjI allI impI ballI 2 3) (simp, (elim conjE, drule (1) 1, elim conjE, assumption)+)
qed

lemma wfl_drop: "wfl h R \<Longrightarrow> wfl h (drop_id h i R)"
  unfolding drop_id_def by (rule wfl_filter)

lemma wfl_split:
  assumes w: "wfl h R" and ne: "R \<noteq> []"
  shows "\<exists>cs r rest. R = cs @ r # rest \<and> (\<forall>c\<in>set cs. pn_match (h ! c) \<noteq> None) \<and> pn_match (h ! r) = None"
proof -
  have "\<exists>r\<in>set R. pn_match (h ! r) = None"
  proof (cases "pn_match (h ! hd R)")
    case (Some m)
    then show ?thesis
      using wfl_match[OF w hd_in_set[OF ne] Some] by blast
  qed (use ne in auto)
  then show ?thesis
    using split_list_first_prop[of R "\<lambda>r. pn_match (h ! r) = None"] by metis
qed

lemma wfl_call:
  assumes w: "wfl h (xs @ a # ys)" and m: "pn_match (h ! a) = Some m"
  shows "\<exists>us vs. ys = us @ m # vs \<and> drop_id h (pn_id (h ! a)) (xs @ a # ys) = xs @ us @ vs"
proof -
  have my: "m \<in> set ys" "pn_match (h ! m) = None" "pn_id (h ! m) = pn_id (h ! a)"
    using wflD(2)[OF w refl m] by auto
  then obtain us vs where ys: "ys = us @ m # vs"
    by (meson split_list)
  have "pn_id (h ! b) \<noteq> pn_id (h ! a)" if b: "b \<in> set (xs @ us @ vs)" for b
  proof
    assume eq: "pn_id (h ! b) = pn_id (h ! a)"
    have ne: "b \<noteq> a" "b \<noteq> m"
      using wflD(1)[OF w] b ys by auto
    have "pn_match (h ! b) = Some a"
      using wflD(3)[OF w, of b a] b ys eq ne m by auto
    then have "pn_match (h ! a) = None"
      using wfl_match[OF w, of b a] b ys by auto
    then show False
      using m by simp
  qed
  then have "drop_id h (pn_id (h ! a)) (xs @ a # ys) = xs @ us @ vs"
    using my(3) ys by (auto simp: drop_id_def filter_id_conv)
  then show ?thesis
    using ys by blast
qed

definition fires :: "('v, 's) pc_model \<Rightarrow> 'v pheap \<Rightarrow> nat list \<Rightarrow> 's \<Rightarrow> int \<Rightarrow> nat list \<Rightarrow> 's \<Rightarrow> bool" where
  "fires model h R s i R' s' \<longleftrightarrow> (\<exists>xs a ys m. R = xs @ a # ys \<and> (\<forall>b\<in>set xs. pn_match (h ! b) \<noteq> None) \<and>
     pn_match (h ! a) = Some m \<and> i = pn_id (h ! a) \<and>
     mo_Step model s (pn_value (h ! a)) (pn_value (h ! m)) = Some (True, s') \<and> R' = drop_id h i R)"

inductive runs :: "('v, 's) pc_model \<Rightarrow> 'v pheap \<Rightarrow> nat list \<Rightarrow> 's \<Rightarrow> int list \<Rightarrow> nat list \<Rightarrow> 's \<Rightarrow> bool"
  for model h where
  runs_Nil: "runs model h R s [] R s"
| runs_Cons: "fires model h R s i R1 s1 \<Longrightarrow> runs model h R1 s1 is R' s' \<Longrightarrow> runs model h R s (i # is) R' s'"

inductive_simps runs_Nil_iff [simp]: "runs model h R s [] R' s'"
inductive_simps runs_Cons_iff: "runs model h R s (i # is) R' s'"

lemma runs_append:
  "runs model h R s (is @ js) R' s' \<longleftrightarrow> (\<exists>R1 s1. runs model h R s is R1 s1 \<and> runs model h R1 s1 js R' s')"
  by (induction "is" arbitrary: R s) (auto simp: runs_Cons_iff)

definition completes :: "('v, 's) pc_model \<Rightarrow> 'v pheap \<Rightarrow> nat list \<Rightarrow> 's \<Rightarrow> bool" where
  "completes model h R s \<longleftrightarrow> (\<exists>is s'. runs model h R s is [] s')"

lemma completes_fires: "fires model h R s i R1 s1 \<Longrightarrow> completes model h R1 s1 \<Longrightarrow> completes model h R s"
  unfolding completes_def by (blast intro: runs_Cons)

lemma completes_cases:
  assumes "completes model h R s" "R \<noteq> []"
  shows "\<exists>i R1 s1. fires model h R s i R1 s1 \<and> completes model h R1 s1"
proof -
  obtain "is" s' where r: "runs model h R s is [] s'"
    using assms(1) by (auto simp: completes_def)
  then obtain i js where "is = i # js"
    using assms(2) by (cases "is") auto
  then have "runs model h R s (i # js) [] s'"
    using r by simp
  then show ?thesis
    unfolding runs_Cons_iff completes_def by blast
qed

text \<open>States that the model calls equal allow the same steps, to equal states.\<close>

definition equal_ok :: "('v, 's) pc_model \<Rightarrow> ('s \<Rightarrow> 's \<Rightarrow> bool) \<Rightarrow> bool" where
  "equal_ok model eq \<longleftrightarrow> (\<forall>s t i out s'. eq s t \<and> mo_Step model s i out = Some (True, s') \<longrightarrow>
     (\<exists>t'. mo_Step model t i out = Some (True, t') \<and> eq s' t'))"

lemma runs_equal:
  assumes "equal_ok model eq"
  shows "runs model h R s is R' s' \<Longrightarrow> eq s t \<Longrightarrow> \<exists>t'. runs model h R t is R' t'"
proof (induction arbitrary: t rule: runs.induct)
  case (runs_Cons R s i R1 s1 "is" R' s')
  obtain xs a ys m where f: "R = xs @ a # ys" "\<forall>b\<in>set xs. pn_match (h ! b) \<noteq> None" "pn_match (h ! a) = Some m"
    "i = pn_id (h ! a)" "mo_Step model s (pn_value (h ! a)) (pn_value (h ! m)) = Some (True, s1)" "R1 = drop_id h i R"
    using runs_Cons.hyps(1) unfolding fires_def by auto
  obtain t1 where t1: "mo_Step model t (pn_value (h ! a)) (pn_value (h ! m)) = Some (True, t1)" "eq s1 t1"
    using assms f(5) runs_Cons.prems unfolding equal_ok_def by blast
  have "fires model h R t i R1 t1"
    unfolding fires_def using f t1(1) by blast
  moreover obtain t' where "runs model h R1 t1 is R' t'"
    using runs_Cons.IH[OF t1(2)] by auto
  ultimately have "runs model h R t (i # is) R' t'"
    by (rule runs.runs_Cons)
  then show ?case ..
qed auto

lemma completes_equal:
  assumes "equal_ok model eq" "eq s t" "completes model h R s"
  shows "completes model h R t"
proof -
  obtain "is" s' where "runs model h R s is [] s'"
    using assms(3) by (auto simp: completes_def)
  then obtain t' where "runs model h R t is [] t'"
    using runs_equal[OF assms(1) _ assms(2)] by metis
  then show ?thesis
    by (auto simp: completes_def)
qed

section \<open>The invariant of the search\<close>

definition left_in :: "'v pheap \<Rightarrow> nat list \<Rightarrow> bitset \<Rightarrow> nat list" where
  "left_in h F b = filter (\<lambda>a. nat (pn_id (h ! a)) \<notin> bits_of b) F"

definition cached :: "('v, 's) check_state \<Rightarrow> 's cache_entry set" where
  "cached st = (\<Union>hash. set (cs_cache st hash))"

definition dead :: "('v, 's) pc_model \<Rightarrow> 'v pheap \<Rightarrow> nat list \<Rightarrow> 's cache_entry \<Rightarrow> bool" where
  "dead model h F e \<longleftrightarrow> \<not> completes model h (left_in h F (fst e)) (snd e)"

text \<open>The slices that \<open>longest\<close> points to are runs from the beginning.\<close>

definition seqs_ok :: "('v, 's) pc_model \<Rightarrow> 'v pheap \<Rightarrow> nat list \<Rightarrow> ptr list \<Rightarrow> int list list \<Rightarrow> bool" where
  "seqs_ok model h F longest seqs \<longleftrightarrow>
     (\<forall>is\<in>set seqs. \<exists>R s. runs model h F (mo_Init model) is R s) \<and>
     (\<forall>a. Some a \<in> set longest \<longrightarrow> a < length seqs)"

text \<open>
  The entries \<open>F\<close> of the history, their nodes as they were in the heap \<open>h0\<close> when the search
  began, behind the head \<open>hn\<close>.
\<close>

definition searchable :: "('v, 's) pc_model \<Rightarrow> 'v pheap \<Rightarrow> nat list \<Rightarrow> nat \<Rightarrow> bool" where
  "searchable model h0 F n \<longleftrightarrow> wfl h0 F \<and> (\<exists>eq. mo_Equal model = Some eq \<and> equal_ok model eq) \<and>
     (\<forall>a\<in>set F. a < length h0 \<and> 0 \<le> pn_id (h0 ! a) \<and> pn_id (h0 ! a) < int n) \<and>
     (\<forall>a\<in>set F. \<forall>m s. pn_match (h0 ! a) = Some m \<longrightarrow> mo_Step model s (pn_value (h0 ! a)) (pn_value (h0 ! m)) \<noteq> None)"

text \<open>The state between two rounds: \<open>q\<close> has been linearized, \<open>R\<close> is left.\<close>

definition conf :: "('v, 's) pc_model \<Rightarrow> nat \<Rightarrow> 'v pheap \<Rightarrow> nat list \<Rightarrow> nat \<Rightarrow> int list \<Rightarrow> nat list \<Rightarrow>
    ('v, 's) check_state \<Rightarrow> bool" where
  "conf model hn h0 F n q R st \<longleftrightarrow>
     dll (cs_heap st) (hn # R) \<and> statics (cs_heap st) = statics h0 \<and>
     R = left_in h0 F (cs_linearized st) \<and> length (cs_linearized st) = length (newBitset n) \<and>
     call_ids h0 (cs_calls st) = Some q \<and> set q \<subseteq> {0..<int n} \<and>
     runs model h0 F (mo_Init model) q R (cs_state st) \<and>
     length (cs_longest st) = n \<and> seqs_ok model h0 F (cs_longest st) (cs_seqs st)"

definition cache_ok :: "('v, 's) pc_model \<Rightarrow> 'v pheap \<Rightarrow> nat list \<Rightarrow> ('v, 's) check_state \<Rightarrow> bool" where
  "cache_ok model h0 F st \<longleftrightarrow>
     (\<forall>e\<in>cached st. card (bits_of (cs_linearized st)) < card (bits_of (fst e)) \<longrightarrow> dead model h0 F e)"

lemma confD:
  assumes "conf model hn h0 F n q R st"
  shows "dll (cs_heap st) (hn # R)" "statics (cs_heap st) = statics h0"
    "R = left_in h0 F (cs_linearized st)" "length (cs_linearized st) = length (newBitset n)"
    "call_ids h0 (cs_calls st) = Some q" "set q \<subseteq> {0..<int n}"
    "runs model h0 F (mo_Init model) q R (cs_state st)"
    "length (cs_longest st) = n" "seqs_ok model h0 F (cs_longest st) (cs_seqs st)"
  using assms unfolding conf_def by - (elim conjE, assumption)+

lemma searchableD:
  assumes "searchable model h0 F n"
  shows "wfl h0 F" "\<exists>eq. mo_Equal model = Some eq \<and> equal_ok model eq"
    "a \<in> set F \<Longrightarrow> a < length h0" "a \<in> set F \<Longrightarrow> 0 \<le> pn_id (h0 ! a)" "a \<in> set F \<Longrightarrow> pn_id (h0 ! a) < int n"
    "a \<in> set F \<Longrightarrow> pn_match (h0 ! a) = Some m \<Longrightarrow>
       mo_Step model s (pn_value (h0 ! a)) (pn_value (h0 ! m)) \<noteq> None"
  using assms unfolding searchable_def by blast+

end
