(* ===== verification/Porcupine_Loop.thy ===== *)
theory Porcupine_Loop
  imports Porcupine_Search
begin

text \<open>
  The backtracking loop of the linearizability checker: one round on a call, one round on a
  return, and by induction over what is left the whole exploration of a subtree, which ends
  with success or with every candidate refuted and the state restored.
\<close>

section \<open>Parts of a round\<close>

lemma wfl_left: "wfl h F \<Longrightarrow> wfl h (left_in h F b)"
  unfolding left_in_def by (rule wfl_filter)

lemma left_insert:
  assumes "searchable model h0 F n" "a \<in> set F" "bits_of b' = insert (nat (pn_id (h0 ! a))) (bits_of b)"
  shows "left_in h0 F b' = drop_id h0 (pn_id (h0 ! a)) (left_in h0 F b)"
proof -
  have "nat (pn_id (h0 ! c)) = nat (pn_id (h0 ! a)) \<longleftrightarrow> pn_id (h0 ! c) = pn_id (h0 ! a)" if "c \<in> set F" for c
    using searchableD(4)[OF assms(1)] assms(2) that by (metis eq_nat_nat_iff)
  then show ?thesis
    unfolding left_in_def drop_id_def assms(3) filter_filter by (intro filter_cong) auto
qed

lemma conf_in:
  assumes "conf model hn h0 F n q R st" "a \<in> set R"
  shows "a \<in> set F" "a < length (cs_heap st)" "a < length h0"
    "pn_value (cs_heap st ! a) = pn_value (h0 ! a)" "pn_match (cs_heap st ! a) = pn_match (h0 ! a)"
    "pn_id (cs_heap st ! a) = pn_id (h0 ! a)"
proof -
  show "a \<in> set F"
    using assms(2) confD(3)[OF assms(1)] by (simp add: left_in_def)
  show l: "a < length (cs_heap st)"
    using confD(1)[OF assms(1)] assms(2) by (auto simp: dll_def)
  then show "a < length h0"
    using statics_length[OF confD(2)[OF assms(1)]] by simp
  show "pn_value (cs_heap st ! a) = pn_value (h0 ! a)" "pn_match (cs_heap st ! a) = pn_match (h0 ! a)"
    "pn_id (cs_heap st ! a) = pn_id (h0 ! a)"
    using statics_nth[OF confD(2)[OF assms(1)] l] by auto
qed

lemma conf_next:
  assumes "conf model hn h0 F n q (xs @ a # ys) st"
  shows "pn_next (cs_heap st ! a) = hdo ys None"
  using confD(1)[OF assms] by (auto simp: dll_def)

lemma conf_head:
  assumes "conf model hn h0 F n q R st"
  shows "deref (cs_heap st) (Some hn) = Some (cs_heap st ! hn)" "pn_next (cs_heap st ! hn) = hdo R None"
  using confD(1)[OF assms] by (auto simp: dll_def)

lemma cache_loop_eq:
  "mo_Equal model = Some eq \<Longrightarrow>
   cache_loop model e es = Some (\<exists>el\<in>set es. fst e = fst el \<and> eq (snd e) (snd el))"
  by (induction es) (auto simp: bs_equals_iff)

lemma cacheContains_ex:
  assumes "mo_Equal model = Some eq" "cacheContains model (cs_cache st) e = Some True"
  shows "\<exists>el\<in>cached st. fst e = fst el \<and> eq (snd e) (snd el)"
  using assms(2) cache_loop_eq[OF assms(1)] unfolding cacheContains_def cached_def by auto

lemma cached_push:
  "cached (st\<lparr>cs_cache := (cs_cache st)(x := cs_cache st x @ [e])\<rparr>) = insert e (cached st)"
  by (auto simp: cached_def split: if_splits)

lemma call_ids_statics: "statics h = statics h' \<Longrightarrow> call_ids h c = call_ids h' c"
proof (induction c)
  case (Cons v c)
  then show ?case
    using statics_nth(3)[OF Cons.prems] statics_length[OF Cons.prems] by (cases "fst v") auto
qed simp

lemma call_ids_snoc:
  "call_ids h c = Some q \<Longrightarrow> a < length h \<Longrightarrow> call_ids h (c @ [(Some a, s)]) = Some (q @ [pn_id (h ! a)])"
  by (induction c arbitrary: q) auto

lemma call_ids_length: "call_ids h c = Some q \<Longrightarrow> length q = length c"
  by (induction c arbitrary: q) auto

lemma longest_loop_ok:
  "set ids \<subseteq> {0..<int n} \<Longrightarrow> length longest = n \<Longrightarrow>
   \<exists>longest'. longest_loop seqs k p ids longest = Some longest' \<and> length longest' = n \<and>
     set longest' \<subseteq> insert (Some p) (set longest)"
proof (induction ids arbitrary: longest)
  case (Cons i ids)
  let ?l = "longest[nat i := Some p]"
  have i: "0 \<le> i" "i < int n" "set ids \<subseteq> {0..<int n}"
    using Cons.prems(1) by auto
  have get: "slice_get longest i = Some (longest ! nat i)" "slice_set longest i (Some p) = Some ?l"
    using i Cons.prems(2) by simp_all
  obtain l1 where l1: "longest_loop seqs k p ids ?l = Some l1" "length l1 = n" "set l1 \<subseteq> insert (Some p) (set ?l)"
    using Cons.IH[OF i(3), of ?l] Cons.prems(2) by auto
  obtain l2 where l2: "longest_loop seqs k p ids longest = Some l2" "length l2 = n" "set l2 \<subseteq> insert (Some p) (set longest)"
    using Cons.IH[OF i(3) Cons.prems(2)] by auto
  have "set l1 \<subseteq> insert (Some p) (set longest)"
    using l1(3) set_update_subset_insert[of longest "nat i" "Some p"] by blast
  then show ?case
    using get l1(1,2) l2 by (simp split: option.splits)
qed auto

lemma updateLongest_ok:
  assumes c: "conf model hn h0 F n q R st"
  shows "\<exists>seqs longest. updateLongest computePartial st = Some (st\<lparr>cs_seqs := seqs, cs_longest := longest\<rparr>) \<and>
    length longest = n \<and> seqs_ok model h0 F longest seqs"
proof (cases computePartial)
  case True
  let ?seqs = "cs_seqs st @ [q]"
  have ids: "call_ids (cs_heap st) (cs_calls st) = Some q"
    using call_ids_statics[OF confD(2)[OF c], of "cs_calls st"] confD(5)[OF c] by simp
  obtain l where l: "longest_loop ?seqs (length (cs_calls st)) (length (cs_seqs st)) q (cs_longest st) = Some l"
    "length l = n" "set l \<subseteq> insert (Some (length (cs_seqs st))) (set (cs_longest st))"
    using longest_loop_ok[OF confD(6)[OF c] confD(8)[OF c]] by blast
  have "seqs_ok model h0 F l ?seqs"
    using confD(7,9)[OF c] l(3) unfolding seqs_ok_def by fastforce
  then show ?thesis
    using True ids l by (auto simp: updateLongest_def)
qed (use confD(8,9)[OF c] in \<open>auto simp: updateLongest_def intro!: exI[of _ "cs_seqs st"] exI[of _ "cs_longest st"]\<close>)

lemma conf_lift:
  assumes S: "searchable model h0 F n" and c: "conf model hn h0 F n q R st"
    and R: "R = xs @ a # ys" and m: "pn_match (h0 ! a) = Some m"
  shows "\<exists>h'. lift (Some a) (cs_heap st) = Some h' \<and> dll h' (hn # drop_id h0 (pn_id (h0 ! a)) R) \<and>
    unlift (Some a) h' = Some (cs_heap st) \<and> statics h' = statics h0"
proof -
  have w: "wfl h0 (xs @ a # ys)"
    using wfl_left[OF searchableD(1)[OF S]] confD(3)[OF c] R by metis
  obtain us vs where ys: "ys = us @ m # vs" "drop_id h0 (pn_id (h0 ! a)) (xs @ a # ys) = xs @ us @ vs"
    using wfl_call[OF w m] by blast
  obtain zs p where zs: "hn # xs = zs @ [p]"
    by (metis append_butlast_last_id list.distinct(1))
  have "dll (cs_heap st) (zs @ [p] @ a # us @ m # vs)"
    using confD(1)[OF c] R ys(1) zs by (metis append.assoc append_Cons)
  moreover have "pn_match (cs_heap st ! a) = Some m"
    using conf_in(5)[OF c, of a] R m by simp
  ultimately obtain h' where h': "lift (Some a) (cs_heap st) = Some h'" "dll h' (zs @ p # us @ vs)"
    "unlift (Some a) h' = Some (cs_heap st)" "statics h' = statics (cs_heap st)"
    by (rule lift_dll)
  have "zs @ p # us @ vs = hn # drop_id h0 (pn_id (h0 ! a)) R"
    using ys(2) zs R by (metis append.assoc append_Cons append_Nil)
  then show ?thesis
    using h' confD(2)[OF c] by auto
qed

definition pushed :: "nat \<Rightarrow> 's \<Rightarrow> 'v pheap \<Rightarrow> bitset \<Rightarrow> nat list \<Rightarrow> ('v, 's) check_state \<Rightarrow> ('v, 's) check_state" where
  "pushed a s h b R st = st\<lparr>cs_cache := (cs_cache st)(bs_hash b := cs_cache st (bs_hash b) @ [(b, s)]),
     cs_calls := cs_calls st @ [(Some a, cs_state st)], cs_state := s,
     cs_linearized := b, cs_heap := h, cs_entry := hdo R None\<rparr>"

lemma cached_pushed [simp]: "cached (pushed a s h b R st) = insert (b, s) (cached st)"
  unfolding pushed_def cached_def by (auto split: if_splits)

lemma bits_room:
  assumes "searchable model h0 F n" "a \<in> set F" "length b = length (newBitset n)"
  shows "nat (pn_id (h0 ! a)) < 64 * length b"
  using searchableD(4,5)[OF assms(1,2)] newBitset_capacity(1)[of n] assms(3) by linarith

text \<open>A round at a call either goes on to the next entry, and then the call is refuted, or pushes it.\<close>

lemma round_call:
  assumes S: "searchable model h0 F n" and c: "conf model hn h0 F n q R st"
    and ko: "cache_ok model h0 F st" and R: "R = xs @ a # ys"
    and m: "pn_match (h0 ! a) = Some m" and e: "cs_entry st = Some a"
  defines "i \<equiv> pn_id (h0 ! a)"
    and "step \<equiv> mo_Step model (cs_state st) (pn_value (h0 ! a)) (pn_value (h0 ! m))"
  shows "checkSingle_round model cp False (Some hn) st = Some (Inr (st\<lparr>cs_entry := hdo ys None\<rparr>)) \<and>
      (\<forall>s'. step = Some (True, s') \<longrightarrow> \<not> completes model h0 (drop_id h0 i R) s') \<or>
    (\<exists>s' h' b'. step = Some (True, s') \<and> dll h' (hn # drop_id h0 i R) \<and>
      unlift (Some a) h' = Some (cs_heap st) \<and> statics h' = statics h0 \<and>
      bits_of b' = insert (nat i) (bits_of (cs_linearized st)) \<and> length b' = length (cs_linearized st) \<and>
      checkSingle_round model cp False (Some hn) st = Some (Inr (pushed a s' h' b' (drop_id h0 i R) st)))"
proof -
  have aR: "a \<in> set R"
    by (simp add: R)
  note a = conf_in[OF c aR]
  have w: "wfl h0 R"
    using wfl_left[OF searchableD(1)[OF S]] confD(3)[OF c] by metis
  have mR: "m \<in> set R"
    using wfl_match[OF w aR m] by simp
  note mm = conf_in[OF c mR]
  have nx: "pn_next (cs_heap st ! a) = hdo ys None"
    using conf_next[of model hn h0 F n q xs a ys st] c R by simp
  obtain eq where eq: "mo_Equal model = Some eq" "equal_ok model eq"
    using searchableD(2)[OF S] by blast
  obtain b' where b': "bs_set (nat i) (cs_linearized st) = Some b'" "bits_of b' = insert (nat i) (bits_of (cs_linearized st))"
    "length b' = length (cs_linearized st)"
    using bs_set_ok[OF bits_room[OF S a(1) confD(4)[OF c]]] unfolding i_def by metis
  obtain ok s' where step: "step = Some (ok, s')"
    using searchableD(6)[OF S a(1) m, of "cs_state st"] unfolding step_def by auto
  obtain found where found: "cacheContains model (cs_cache st) (b', s') = Some found"
    using cache_loop_eq[OF eq(1)] by (simp add: cacheContains_def)
  note red = checkSingle_round_def tryCall_def e a mm(2,4) m step[unfolded step_def] b'(1)[unfolded i_def] found
    bs_clone_def uint_of_def nx Let_def
  show ?thesis
  proof (cases "ok \<and> \<not> found")
    case True
    obtain h' where h': "lift (Some a) (cs_heap st) = Some h'" "dll h' (hn # drop_id h0 i R)"
      "unlift (Some a) h' = Some (cs_heap st)" "statics h' = statics h0"
      using conf_lift[OF S c R m] unfolding i_def by blast
    have "hn < length h'" "pn_next (h' ! hn) = hdo (drop_id h0 i R) None"
      using h'(2) by (auto simp: dll_def)
    then have "checkSingle_round model cp False (Some hn) st = Some (Inr (pushed a s' h' b' (drop_id h0 i R) st))"
      using True h'(1) by (simp add: red pushed_def)
    then show ?thesis
      using True h' b' step by blast
  next
    case False
    have "\<not> completes model h0 (drop_id h0 i R) s'" if ok: ok
    proof -
      obtain el where el: "el \<in> cached st" "b' = fst el" "eq s' (snd el)"
        using cacheContains_ex[OF eq(1), of st "(b', s')"] found False ok by auto
      have "nat i \<notin> bits_of (cs_linearized st)"
        using aR confD(3)[OF c] by (simp add: left_in_def i_def)
      then have "card (bits_of (cs_linearized st)) < card (bits_of (fst el))"
        using b'(2) el(2) by simp
      then have "dead model h0 F el"
        using ko el(1) unfolding cache_ok_def by blast
      moreover have "left_in h0 F b' = drop_id h0 i R"
        using left_insert[OF S a(1) b'(2)[unfolded i_def]] confD(3)[OF c] unfolding i_def by simp
      ultimately show ?thesis
        using completes_equal[OF eq(2) el(3)] el(2) unfolding dead_def by auto
    qed
    moreover have "checkSingle_round model cp False (Some hn) st = Some (Inr (st\<lparr>cs_entry := hdo ys None\<rparr>))"
      using False by (auto simp: red)
    ultimately show ?thesis
      using step by auto
  qed
qed

lemma conf_pushed:
  assumes S: "searchable model h0 F n" and c: "conf model hn h0 F n q R st"
    and R: "R = xs @ a # ys" "\<forall>b\<in>set xs. pn_match (h0 ! b) \<noteq> None" and m: "pn_match (h0 ! a) = Some m"
    and step: "mo_Step model (cs_state st) (pn_value (h0 ! a)) (pn_value (h0 ! m)) = Some (True, s')"
    and h': "dll h' (hn # drop_id h0 (pn_id (h0 ! a)) R)" "statics h' = statics h0"
    and b': "bits_of b' = insert (nat (pn_id (h0 ! a))) (bits_of (cs_linearized st))" "length b' = length (cs_linearized st)"
  shows "conf model hn h0 F n (q @ [pn_id (h0 ! a)]) (drop_id h0 (pn_id (h0 ! a)) R)
    (pushed a s' h' b' (drop_id h0 (pn_id (h0 ! a)) R) st)"
proof -
  have aR: "a \<in> set R"
    by (simp add: R)
  note a = conf_in[OF c aR]
  have "fires model h0 R (cs_state st) (pn_id (h0 ! a)) (drop_id h0 (pn_id (h0 ! a)) R) s'"
    unfolding fires_def using R m step by blast
  then have "runs model h0 F (mo_Init model) (q @ [pn_id (h0 ! a)]) (drop_id h0 (pn_id (h0 ! a)) R) s'"
    using confD(7)[OF c] by (auto simp: runs_append runs_Cons_iff)
  moreover have "drop_id h0 (pn_id (h0 ! a)) R = left_in h0 F b'"
    using left_insert[OF S a(1) b'(1)] confD(3)[OF c] by simp
  moreover have "call_ids h0 (cs_calls st @ [(Some a, cs_state st)]) = Some (q @ [pn_id (h0 ! a)])"
    by (rule call_ids_snoc[OF confD(5)[OF c] a(3)])
  moreover have "set (q @ [pn_id (h0 ! a)]) \<subseteq> {0..<int n}"
    using confD(6)[OF c] searchableD(4,5)[OF S a(1)] by simp
  ultimately show ?thesis
    using h' b'(2) confD(4,8,9)[OF c] unfolding conf_def by (simp add: pushed_def)
qed

text \<open>A round at a return takes back the last call and goes on behind it.\<close>

lemma round_return:
  assumes S: "searchable model h0 F n" and c: "conf model hn h0 F n q R st"
    and R: "R = xs @ a # ys" and m: "pn_match (h0 ! a) = Some m"
    and c2: "conf model hn h0 F n q2 R2 st2" and r: "cs_entry st2 = Some r" "r \<in> set R2" "pn_match (h0 ! r) = None"
    and calls: "cs_calls st2 = cs_calls st @ [(Some a, cs_state st)]"
    and h: "unlift (Some a) (cs_heap st2) = Some (cs_heap st)"
    and b: "bits_of (cs_linearized st2) = insert (nat (pn_id (h0 ! a))) (bits_of (cs_linearized st))"
  shows "\<exists>st3. checkSingle_round model cp False (Some hn) st2 = Some (Inr st3) \<and> conf model hn h0 F n q R st3 \<and>
    cs_entry st3 = hdo ys None \<and> cs_heap st3 = cs_heap st \<and> cs_linearized st3 = cs_linearized st \<and>
    cs_calls st3 = cs_calls st \<and> cs_state st3 = cs_state st \<and> cs_cache st3 = cs_cache st2"
proof -
  have aR: "a \<in> set R"
    by (simp add: R)
  note a = conf_in[OF c aR]
  have a2: "a < length (cs_heap st2)" "pn_id (cs_heap st2 ! a) = pn_id (h0 ! a)"
    using statics_length[OF confD(2)[OF c2]] statics_nth(3)[OF confD(2)[OF c2], of a] a(3) by simp_all
  obtain seqs longest where u: "updateLongest cp st2 = Some (st2\<lparr>cs_seqs := seqs, cs_longest := longest\<rparr>)"
    "length longest = n" "seqs_ok model h0 F longest seqs"
    using updateLongest_ok[OF c2] by blast
  obtain b'' where b'': "bs_clear (nat (pn_id (h0 ! a))) (cs_linearized st2) = Some b''"
    "bits_of b'' = bits_of (cs_linearized st2) - {nat (pn_id (h0 ! a))}" "length b'' = length (cs_linearized st2)"
    using bs_clear_ok[OF bits_room[OF S a(1) confD(4)[OF c2]]] by metis
  have "nat (pn_id (h0 ! a)) \<notin> bits_of (cs_linearized st)"
    using aR confD(3)[OF c] by (simp add: left_in_def)
  then have "bits_of b'' = bits_of (cs_linearized st)"
    using b''(2) b by simp
  then have eq: "b'' = cs_linearized st"
    using bits_of_inject[of b'' "cs_linearized st"] b''(3) confD(4)[OF c] confD(4)[OF c2] by simp
  have nx: "pn_next (cs_heap st ! a) = hdo ys None"
    using conf_next[of model hn h0 F n q xs a ys st] c R by simp
  let ?st = "st2\<lparr>cs_seqs := seqs, cs_longest := longest, cs_state := cs_state st, cs_linearized := cs_linearized st,
    cs_calls := cs_calls st, cs_heap := cs_heap st, cs_entry := hdo ys None\<rparr>"
  have bt: "backtrack cp st2 = Some ?st"
    using u(1) calls a2 a(2) h b''(1) eq nx by (simp add: backtrack_def uint_of_def)
  have "pn_match (cs_heap st2 ! r) = None" "r < length (cs_heap st2)"
    using conf_in[OF c2 r(2)] r(3) by simp_all
  then have "checkSingle_round model cp False (Some hn) st2 = Some (Inr ?st)"
    using r(1) calls bt by (simp add: checkSingle_round_def)
  moreover have "conf model hn h0 F n q R ?st"
    unfolding conf_def using confD[OF c] u(2,3) by simp
  ultimately show ?thesis
    by (intro exI[of _ ?st]) simp
qed

lemma loop_step:
  assumes "conf model hn h0 F n q R st" "R \<noteq> []"
    and "checkSingle_round model cp False (Some hn) st = Some (Inr st')"
  shows "checkSingle_loop model cp (\<lambda>_. False) (Some hn) k st = checkSingle_loop model cp (\<lambda>_. False) (Some hn) (k + 1) st'"
  using conf_head[OF assms(1)] assms(2,3) by (subst checkSingle_loop.simps) (cases R; simp)

section \<open>Exploring a subtree\<close>

lemma enabled_before:
  "cs @ r # rest = xs @ a # ys \<Longrightarrow> \<forall>b\<in>set xs. P b \<Longrightarrow> P a \<Longrightarrow> \<not> P r \<Longrightarrow> a \<in> set cs"
proof (induction cs arbitrary: xs)
  case Nil
  then show ?case
    by (cases xs) auto
next
  case (Cons c cs)
  then show ?case
    by (cases xs) auto
qed

lemma all_refuted:
  assumes R: "R = cs @ r # rest" "pn_match (h ! r) = None"
    and no: "\<forall>c\<in>set cs. \<forall>m s'. pn_match (h ! c) = Some m \<and>
      mo_Step model s (pn_value (h ! c)) (pn_value (h ! m)) = Some (True, s') \<longrightarrow>
      \<not> completes model h (drop_id h (pn_id (h ! c)) R) s'"
  shows "\<not> completes model h R s"
proof
  assume c: "completes model h R s"
  have ne: "R \<noteq> []"
    using R by simp
  obtain i R1 s1 where f: "fires model h R s i R1 s1" "completes model h R1 s1"
    using completes_cases[OF c ne] by (elim exE conjE)
  obtain xs a ys m where a: "R = xs @ a # ys" "\<forall>b\<in>set xs. pn_match (h ! b) \<noteq> None" "pn_match (h ! a) = Some m"
    "i = pn_id (h ! a)" "mo_Step model s (pn_value (h ! a)) (pn_value (h ! m)) = Some (True, s1)" "R1 = drop_id h i R"
    using f(1) unfolding fires_def by auto
  have "a \<in> set cs"
    using enabled_before[of cs r rest xs a ys "\<lambda>b. pn_match (h ! b) \<noteq> None"] a(1-3) R by auto
  then show False
    using no a(3-6) f(2) by blast
qed

text \<open>The final state of a successful search.\<close>

definition won :: "('v, 's) pc_model \<Rightarrow> 'v pheap \<Rightarrow> nat list \<Rightarrow> nat \<Rightarrow> ('v, 's) check_state \<Rightarrow> bool" where
  "won model h0 F n st \<longleftrightarrow> completes model h0 F (mo_Init model) \<and>
     length (cs_longest st) = n \<and> seqs_ok model h0 F (cs_longest st) (cs_seqs st) \<and>
     (\<forall>p\<in>set (cs_longest st). \<exists>a s. p = Some a \<and> a < length (cs_seqs st) \<and>
        runs model h0 F (mo_Init model) (cs_seqs st ! a) [] s)"

lemma loop_finish:
  assumes c: "conf model hn h0 F n q [] st"
  shows "\<exists>st'. checkSingle_loop model cp kill (Some hn) k st = Some (True, st') \<and> won model h0 F n st'"
proof -
  let ?st = "st\<lparr>cs_seqs := cs_seqs st @ [q], cs_longest := map (\<lambda>_. Some (length (cs_seqs st))) (cs_longest st)\<rparr>"
  have ids: "call_ids (cs_heap st) (cs_calls st) = Some q"
    using call_ids_statics[OF confD(2)[OF c], of "cs_calls st"] confD(5)[OF c] by simp
  have "checkSingle_loop model cp kill (Some hn) k st = Some (True, ?st)"
    using conf_head[OF c] ids by (subst checkSingle_loop.simps) simp
  moreover have "won model h0 F n ?st"
    using confD(7-9)[OF c] unfolding won_def completes_def seqs_ok_def by auto
  ultimately show ?thesis
    by blast
qed

definition explored :: "('v, 's) pc_model \<Rightarrow> nat \<Rightarrow> 'v pheap \<Rightarrow> nat list \<Rightarrow> nat \<Rightarrow> bool \<Rightarrow> int list \<Rightarrow> nat list \<Rightarrow>
    nat list \<Rightarrow> nat \<Rightarrow> nat \<Rightarrow> ('v, 's) check_state \<Rightarrow> bool" where
  "explored model hn h0 F n cp q R cs r k st \<longleftrightarrow>
     (\<exists>st'. checkSingle_loop model cp (\<lambda>_. False) (Some hn) k st = Some (True, st') \<and> won model h0 F n st') \<or>
     (\<exists>k' st'. checkSingle_loop model cp (\<lambda>_. False) (Some hn) k st = checkSingle_loop model cp (\<lambda>_. False) (Some hn) k' st' \<and>
        conf model hn h0 F n q R st' \<and> cs_entry st' = Some r \<and> cs_heap st' = cs_heap st \<and>
        cs_linearized st' = cs_linearized st \<and> cs_calls st' = cs_calls st \<and> cs_state st' = cs_state st \<and>
        (\<forall>e\<in>cached st'. e \<in> cached st \<or> dead model h0 F e) \<and>
        (\<forall>c\<in>set cs. \<forall>m s'. pn_match (h0 ! c) = Some m \<and>
           mo_Step model (cs_state st) (pn_value (h0 ! c)) (pn_value (h0 ! m)) = Some (True, s') \<longrightarrow>
           \<not> completes model h0 (drop_id h0 (pn_id (h0 ! c)) R) s'))"

text \<open>The exploration from a state that continues with the remaining candidates of another.\<close>

lemma explored_continue:
  assumes "explored model hn h0 F n cp q R cs r k1 st1"
    and loop: "checkSingle_loop model cp (\<lambda>_. False) (Some hn) k st = checkSingle_loop model cp (\<lambda>_. False) (Some hn) k1 st1"
    and same: "cs_heap st1 = cs_heap st" "cs_linearized st1 = cs_linearized st" "cs_calls st1 = cs_calls st" "cs_state st1 = cs_state st"
    and old: "\<forall>e\<in>cached st1. e \<in> cached st \<or> dead model h0 F e"
    and a: "\<forall>m s'. pn_match (h0 ! a) = Some m \<and>
           mo_Step model (cs_state st) (pn_value (h0 ! a)) (pn_value (h0 ! m)) = Some (True, s') \<longrightarrow>
           \<not> completes model h0 (drop_id h0 (pn_id (h0 ! a)) R) s'"
  shows "explored model hn h0 F n cp q R (a # cs) r k st"
proof (cases "\<exists>st'. checkSingle_loop model cp (\<lambda>_. False) (Some hn) k1 st1 = Some (True, st') \<and> won model h0 F n st'")
  case True
  then show ?thesis
    unfolding explored_def loop by (rule disjI1)
next
  case False
  then obtain k' st' where st': "checkSingle_loop model cp (\<lambda>_. False) (Some hn) k1 st1 = checkSingle_loop model cp (\<lambda>_. False) (Some hn) k' st'"
    "conf model hn h0 F n q R st'" "cs_entry st' = Some r" "cs_heap st' = cs_heap st1"
    "cs_linearized st' = cs_linearized st1" "cs_calls st' = cs_calls st1" "cs_state st' = cs_state st1"
    "\<forall>e\<in>cached st'. e \<in> cached st1 \<or> dead model h0 F e"
    "\<forall>c\<in>set cs. \<forall>m s'. pn_match (h0 ! c) = Some m \<and>
           mo_Step model (cs_state st1) (pn_value (h0 ! c)) (pn_value (h0 ! m)) = Some (True, s') \<longrightarrow>
           \<not> completes model h0 (drop_id h0 (pn_id (h0 ! c)) R) s'"
    using assms(1) unfolding explored_def by (elim disjE exE conjE) blast+
  show ?thesis
    unfolding explored_def loop
    by (rule disjI2, intro exI[of _ k'] exI[of _ st'] conjI)
      (use st' same old a in \<open>simp_all\<close>, blast+)
qed

lemma cache_ok_pushed:
  assumes "cache_ok model h0 F st" "bits_of b' = insert i (bits_of (cs_linearized st))" "i \<notin> bits_of (cs_linearized st)"
  shows "cache_ok model h0 F (pushed a s' h' b' R1 st)"
  using assms unfolding cache_ok_def cached_pushed by (auto simp: pushed_def)

lemma pushed_sel:
  "cs_heap (pushed a s h b R st) = h" "cs_linearized (pushed a s h b R st) = b"
  "cs_calls (pushed a s h b R st) = cs_calls st @ [(Some a, cs_state st)]"
  "cs_state (pushed a s h b R st) = s" "cs_entry (pushed a s h b R st) = hdo R None"
  by (simp_all add: pushed_def)

text \<open>After the subtree of a pushed call has been explored, the search succeeds or is back behind the call.\<close>

lemma explore_pushed:
  assumes S: "searchable model h0 F n" and c: "conf model hn h0 F n q R st"
    and R: "R = xs @ a # ys" "\<forall>b\<in>set xs. pn_match (h0 ! b) \<noteq> None" and m: "pn_match (h0 ! a) = Some m"
    and R1: "R1 = drop_id h0 (pn_id (h0 ! a)) R"
    and step: "mo_Step model (cs_state st) (pn_value (h0 ! a)) (pn_value (h0 ! m)) = Some (True, s')"
    and h': "dll h' (hn # R1)" "unlift (Some a) h' = Some (cs_heap st)" "statics h' = statics h0"
    and b': "bits_of b' = insert (nat (pn_id (h0 ! a))) (bits_of (cs_linearized st))" "length b' = length (cs_linearized st)"
    and round: "checkSingle_round model cp False (Some hn) st = Some (Inr (pushed a s' h' b' R1 st))"
    and child: "\<And>cs r rest. R1 = cs @ r # rest \<Longrightarrow> \<forall>b\<in>set cs. pn_match (h0 ! b) \<noteq> None \<Longrightarrow> pn_match (h0 ! r) = None \<Longrightarrow>
      explored model hn h0 F n cp (q @ [pn_id (h0 ! a)]) R1 cs r (k + 1) (pushed a s' h' b' R1 st)"
  shows "(\<exists>st'. checkSingle_loop model cp (\<lambda>_. False) (Some hn) k st = Some (True, st') \<and> won model h0 F n st') \<or>
    (\<exists>k3 st3. checkSingle_loop model cp (\<lambda>_. False) (Some hn) k st = checkSingle_loop model cp (\<lambda>_. False) (Some hn) k3 st3 \<and>
      conf model hn h0 F n q R st3 \<and> cs_entry st3 = hdo ys None \<and> cs_heap st3 = cs_heap st \<and>
      cs_linearized st3 = cs_linearized st \<and> cs_calls st3 = cs_calls st \<and> cs_state st3 = cs_state st \<and>
      (\<forall>e\<in>cached st3. e \<in> cached st \<or> dead model h0 F e) \<and> \<not> completes model h0 R1 s')"
proof -
  let ?st1 = "pushed a s' h' b' R1 st"
  let ?q1 = "q @ [pn_id (h0 ! a)]"
  let ?loop = "checkSingle_loop model cp (\<lambda>_. False) (Some hn)"
  have ne: "R \<noteq> []"
    by (simp add: R)
  have loop1: "?loop k st = ?loop (k + 1) ?st1"
    by (rule loop_step[OF c ne round])
  have c1: "conf model hn h0 F n ?q1 R1 ?st1"
    using conf_pushed[OF S c R m step] h'(1,3) b' unfolding R1 by blast
  show ?thesis
  proof (cases "R1 = []")
    case True
    have "conf model hn h0 F n ?q1 [] ?st1"
      using c1 unfolding True .
    from loop_finish[OF this, of cp "\<lambda>_. False" "k + 1"] show ?thesis
      unfolding loop1 by (rule disjI1)
  next
    case False
    have w1: "wfl h0 R1"
      using wfl_left[OF searchableD(1)[OF S]] confD(3)[OF c1] by metis
    obtain cs r rest where R1': "R1 = cs @ r # rest" "\<forall>b\<in>set cs. pn_match (h0 ! b) \<noteq> None" "pn_match (h0 ! r) = None"
      using wfl_split[OF w1 False] by blast
    from child[OF R1'] show ?thesis
      unfolding explored_def loop1[symmetric]
    proof (elim disjE exE conjE)
      fix k2 st2
      assume l2: "?loop k st = ?loop k2 st2" and c2: "conf model hn h0 F n ?q1 R1 st2" and r: "cs_entry st2 = Some r"
        and same: "cs_heap st2 = cs_heap ?st1" "cs_linearized st2 = cs_linearized ?st1" "cs_calls st2 = cs_calls ?st1"
        and old: "\<forall>e\<in>cached st2. e \<in> cached ?st1 \<or> dead model h0 F e"
        and no: "\<forall>c\<in>set cs. \<forall>m s'. pn_match (h0 ! c) = Some m \<and>
          mo_Step model (cs_state ?st1) (pn_value (h0 ! c)) (pn_value (h0 ! m)) = Some (True, s') \<longrightarrow>
          \<not> completes model h0 (drop_id h0 (pn_id (h0 ! c)) R1) s'"
      have fail: "\<not> completes model h0 R1 s'"
        using all_refuted[OF R1'(1,3), of model s'] no unfolding pushed_sel by blast
      have rR: "r \<in> set R1"
        by (simp add: R1')
      obtain st3 where st3: "checkSingle_round model cp False (Some hn) st2 = Some (Inr st3)" "conf model hn h0 F n q R st3"
        "cs_entry st3 = hdo ys None" "cs_heap st3 = cs_heap st" "cs_linearized st3 = cs_linearized st"
        "cs_calls st3 = cs_calls st" "cs_state st3 = cs_state st" "cs_cache st3 = cs_cache st2"
        using round_return[OF S c R(1) m c2 r rR R1'(3)] same h'(2) b'(1) unfolding pushed_sel by metis
      have "dead model h0 F (b', s')"
        using fail confD(3)[OF c1] unfolding dead_def pushed_sel by simp
      moreover have "cached st3 = cached st2"
        unfolding cached_def st3(8) ..
      ultimately have "\<forall>e\<in>cached st3. e \<in> cached st \<or> dead model h0 F e"
        using old by auto
      moreover have "?loop k st = ?loop (k2 + 1) st3"
        unfolding l2 by (rule loop_step[OF c2 False st3(1)])
      ultimately show ?thesis
        using st3 fail by blast
    qed blast
  qed
qed

lemma explore_one:
  assumes S: "searchable model h0 F n"
    and IH: "\<And>q' R' st' k' cs' r' rest'. length R' < length R \<Longrightarrow> conf model hn h0 F n q' R' st' \<Longrightarrow>
      cache_ok model h0 F st' \<Longrightarrow> R' = cs' @ r' # rest' \<Longrightarrow> \<forall>b\<in>set cs'. pn_match (h0 ! b) \<noteq> None \<Longrightarrow>
      pn_match (h0 ! r') = None \<Longrightarrow> cs_entry st' = hdo cs' (Some r') \<Longrightarrow>
      explored model hn h0 F n cp q' R' cs' r' k' st'"
    and c: "conf model hn h0 F n q R st" and ko: "cache_ok model h0 F st"
    and R: "R = xs @ a # ys" "\<forall>b\<in>set xs. pn_match (h0 ! b) \<noteq> None"
    and m: "pn_match (h0 ! a) = Some m" and e: "cs_entry st = Some a"
    and no_win: "\<not> (\<exists>st'. checkSingle_loop model cp (\<lambda>_. False) (Some hn) k st = Some (True, st') \<and> won model h0 F n st')"
  shows "\<exists>k3 st3. checkSingle_loop model cp (\<lambda>_. False) (Some hn) k st = checkSingle_loop model cp (\<lambda>_. False) (Some hn) k3 st3 \<and>
      conf model hn h0 F n q R st3 \<and> cs_entry st3 = hdo ys None \<and> cs_heap st3 = cs_heap st \<and>
      cs_linearized st3 = cs_linearized st \<and> cs_calls st3 = cs_calls st \<and> cs_state st3 = cs_state st \<and>
      (\<forall>e\<in>cached st3. e \<in> cached st \<or> dead model h0 F e) \<and>
      (\<forall>s'. mo_Step model (cs_state st) (pn_value (h0 ! a)) (pn_value (h0 ! m)) = Some (True, s') \<longrightarrow>
        \<not> completes model h0 (drop_id h0 (pn_id (h0 ! a)) R) s')"
  using round_call[OF S c ko R(1) m e, of cp]
proof (elim disjE exE conjE)
  let ?st = "st\<lparr>cs_entry := hdo ys None\<rparr>"
  assume r: "checkSingle_round model cp False (Some hn) st = Some (Inr ?st)"
    and no: "\<forall>s'. mo_Step model (cs_state st) (pn_value (h0 ! a)) (pn_value (h0 ! m)) = Some (True, s') \<longrightarrow>
      \<not> completes model h0 (drop_id h0 (pn_id (h0 ! a)) R) s'"
  have ne: "R \<noteq> []"
    by (simp add: R)
  have "conf model hn h0 F n q R ?st" "cached ?st = cached st"
    unfolding conf_def cached_def using confD[OF c] by simp_all
  then show ?thesis
    using loop_step[OF c ne r, of k] no by (intro exI[of _ "k + 1"] exI[of _ ?st]) simp
next
  fix s' h' b'
  let ?i = "pn_id (h0 ! a)"
  let ?R1 = "drop_id h0 ?i R"
  let ?st1 = "pushed a s' h' b' ?R1 st"
  assume step: "mo_Step model (cs_state st) (pn_value (h0 ! a)) (pn_value (h0 ! m)) = Some (True, s')"
    and h': "dll h' (hn # ?R1)" "unlift (Some a) h' = Some (cs_heap st)" "statics h' = statics h0"
    and b': "bits_of b' = insert (nat ?i) (bits_of (cs_linearized st))" "length b' = length (cs_linearized st)"
    and round: "checkSingle_round model cp False (Some hn) st = Some (Inr ?st1)"
  have c1: "conf model hn h0 F n (q @ [?i]) ?R1 ?st1"
    by (rule conf_pushed[OF S c R m step h'(1,3) b'])
  have "a \<in> set (left_in h0 F (cs_linearized st))"
    using R(1) confD(3)[OF c] by (metis in_set_conv_decomp)
  then have "nat ?i \<notin> bits_of (cs_linearized st)"
    by (simp add: left_in_def)
  note ko1 = cache_ok_pushed[OF ko b'(1) this]
  have "length ?R1 < length R"
    using R(1) by (simp add: drop_id_def less_Suc_eq_le add_mono)
  note IH1 = IH[OF this c1 ko1]
  have child: "explored model hn h0 F n cp (q @ [?i]) ?R1 cs r (k + 1) ?st1"
    if "?R1 = cs @ r # rest" "\<forall>b\<in>set cs. pn_match (h0 ! b) \<noteq> None" "pn_match (h0 ! r) = None" for cs r rest
    by (rule IH1[OF that]) (simp add: pushed_sel that(1))
  have only: "(\<forall>s''. mo_Step model (cs_state st) (pn_value (h0 ! a)) (pn_value (h0 ! m)) = Some (True, s'') \<longrightarrow>
      \<not> completes model h0 ?R1 s'') = (\<not> completes model h0 ?R1 s')"
    using step by auto
  show ?thesis
    unfolding only
    by (rule disjE[OF explore_pushed[OF S c R m refl step h' b' round, of k]])
      (rule child, assumption+, rule notE[OF no_win], assumption+)
qed

lemma explore_candidates:
  assumes S: "searchable model h0 F n"
    and IH: "\<And>q' R' st' k' cs' r' rest'. length R' < length R \<Longrightarrow> conf model hn h0 F n q' R' st' \<Longrightarrow>
      cache_ok model h0 F st' \<Longrightarrow> R' = cs' @ r' # rest' \<Longrightarrow> \<forall>b\<in>set cs'. pn_match (h0 ! b) \<noteq> None \<Longrightarrow>
      pn_match (h0 ! r') = None \<Longrightarrow> cs_entry st' = hdo cs' (Some r') \<Longrightarrow>
      explored model hn h0 F n cp q' R' cs' r' k' st'"
    and "conf model hn h0 F n q R st" "cache_ok model h0 F st" "R = xs @ cs @ r # rest"
    and "\<forall>b\<in>set (xs @ cs). pn_match (h0 ! b) \<noteq> None" "pn_match (h0 ! r) = None" "cs_entry st = hdo cs (Some r)"
  shows "explored model hn h0 F n cp q R cs r k st"
  using assms(3-8)
proof (induction cs arbitrary: xs st k)
  case Nil
  then show ?case
    unfolding explored_def by (intro disjI2 exI[of _ k] exI[of _ st]) simp
next
  case (Cons a cs)
  note c = Cons.prems(1) and ko = Cons.prems(2)
  let ?loop = "checkSingle_loop model cp (\<lambda>_. False) (Some hn)"
  let ?i = "pn_id (h0 ! a)"
  let ?R1 = "drop_id h0 ?i R"
  obtain m where m: "pn_match (h0 ! a) = Some m"
    using Cons.prems(4) by auto
  have R: "R = xs @ a # cs @ r # rest" "\<forall>b\<in>set xs. pn_match (h0 ! b) \<noteq> None"
    "R = (xs @ [a]) @ cs @ r # rest" "\<forall>b\<in>set ((xs @ [a]) @ cs). pn_match (h0 ! b) \<noteq> None" "R \<noteq> []"
    using Cons.prems(3,4) by auto
  have e: "cs_entry st = Some a"
    using Cons.prems(6) by simp
  have onward: "\<exists>k3 st3. ?loop k st = ?loop k3 st3 \<and>
      conf model hn h0 F n q R st3 \<and> cs_entry st3 = hdo (cs @ r # rest) None \<and> cs_heap st3 = cs_heap st \<and>
      cs_linearized st3 = cs_linearized st \<and> cs_calls st3 = cs_calls st \<and> cs_state st3 = cs_state st \<and>
      (\<forall>e\<in>cached st3. e \<in> cached st \<or> dead model h0 F e) \<and>
      (\<forall>s'. mo_Step model (cs_state st) (pn_value (h0 ! a)) (pn_value (h0 ! m)) = Some (True, s') \<longrightarrow>
        \<not> completes model h0 ?R1 s')"
    if "\<not> (\<exists>st'. ?loop k st = Some (True, st') \<and> won model h0 F n st')"
    by (rule explore_one[OF S IH c ko R(1,2) m e that]) assumption+
  show ?case
  proof (cases "\<exists>st'. ?loop k st = Some (True, st') \<and> won model h0 F n st'")
    case True
    then show ?thesis
      unfolding explored_def by (rule disjI1)
  next
    case False
    obtain k3 st3 where s3: "?loop k st = ?loop k3 st3" "conf model hn h0 F n q R st3"
      "cs_entry st3 = hdo (cs @ r # rest) None" "cs_heap st3 = cs_heap st"
      "cs_linearized st3 = cs_linearized st" "cs_calls st3 = cs_calls st" "cs_state st3 = cs_state st"
      "\<forall>e\<in>cached st3. e \<in> cached st \<or> dead model h0 F e"
      "\<forall>s'. mo_Step model (cs_state st) (pn_value (h0 ! a)) (pn_value (h0 ! m)) = Some (True, s') \<longrightarrow>
        \<not> completes model h0 ?R1 s'"
      using onward[OF False] by (elim exE conjE)
    have ko3: "cache_ok model h0 F st3"
      using ko s3(8) unfolding cache_ok_def s3(5) by blast
    have "explored model hn h0 F n cp q R cs r k3 st3"
      using Cons.IH[OF s3(2) ko3 R(3,4) Cons.prems(5)] s3(3) by simp
    then show ?thesis
      by (rule explored_continue[OF _ s3(1,4-8)]) (use s3(9) m in auto)
  qed
qed

lemma explore:
  assumes S: "searchable model h0 F n"
  shows "conf model hn h0 F n q R st \<Longrightarrow> cache_ok model h0 F st \<Longrightarrow> R = cs @ r # rest \<Longrightarrow>
    \<forall>b\<in>set cs. pn_match (h0 ! b) \<noteq> None \<Longrightarrow> pn_match (h0 ! r) = None \<Longrightarrow> cs_entry st = hdo cs (Some r) \<Longrightarrow>
    explored model hn h0 F n cp q R cs r k st"
proof (induction "length R" arbitrary: q R st k cs r rest rule: less_induct)
  case less
  show ?case
    by (rule explore_candidates[OF S less.hyps less.prems(1,2), where xs = "[]"]) (use less.prems in simp_all)
qed

section \<open>The whole search\<close>

lemma loop_result:
  assumes S: "searchable model h0 F n" and c: "conf model hn h0 F n [] F st"
    and calls: "cs_calls st = []" "cached st = {}" "cs_entry st = hdo F None" "cs_state st = mo_Init model"
  shows "\<exists>st'. checkSingle_loop model cp (\<lambda>_. False) (Some hn) 0 st = Some (completes model h0 F (mo_Init model), st') \<and>
    length (cs_longest st') = n \<and> seqs_ok model h0 F (cs_longest st') (cs_seqs st') \<and>
    (completes model h0 F (mo_Init model) \<longrightarrow> won model h0 F n st')"
proof (cases "F = []")
  case True
  obtain st' where "checkSingle_loop model cp (\<lambda>_. False) (Some hn) 0 st = Some (True, st')" "won model h0 F n st'"
    using loop_finish[of model hn h0 F n "[]" st cp "\<lambda>_. False" 0] c True by metis
  then show ?thesis
    unfolding won_def by auto
next
  case False
  obtain cs r rest where F: "F = cs @ r # rest" "\<forall>b\<in>set cs. pn_match (h0 ! b) \<noteq> None" "pn_match (h0 ! r) = None"
    using wfl_split[OF searchableD(1)[OF S] False] by blast
  have "cache_ok model h0 F st"
    using calls(2) by (simp add: cache_ok_def)
  from explore[OF S c this F, of cp 0] have "explored model hn h0 F n cp [] F cs r 0 st"
    using calls(3) F(1) by simp
  then show ?thesis
    unfolding explored_def
  proof (elim disjE exE conjE)
    fix st' assume "checkSingle_loop model cp (\<lambda>_. False) (Some hn) 0 st = Some (True, st')" "won model h0 F n st'"
    then show ?thesis
      unfolding won_def by auto
  next
    fix k' st'
    assume l: "checkSingle_loop model cp (\<lambda>_. False) (Some hn) 0 st = checkSingle_loop model cp (\<lambda>_. False) (Some hn) k' st'"
      and c': "conf model hn h0 F n [] F st'" and e: "cs_entry st' = Some r" and nc: "cs_calls st' = cs_calls st"
      and no: "\<forall>c\<in>set cs. \<forall>m s'. pn_match (h0 ! c) = Some m \<and>
          mo_Step model (cs_state st) (pn_value (h0 ! c)) (pn_value (h0 ! m)) = Some (True, s') \<longrightarrow>
          \<not> completes model h0 (drop_id h0 (pn_id (h0 ! c)) F) s'"
    have fail: "\<not> completes model h0 F (mo_Init model)"
      using all_refuted[OF F(1,3), of model "mo_Init model"] no unfolding calls(4) by blast
    have "r \<in> set F"
      by (simp add: F(1))
    note r = conf_in[OF c' this]
    have "checkSingle_round model cp False (Some hn) st' = Some (Inl (False, st'))"
      using e nc calls(1) r F(3) by (simp add: checkSingle_round_def)
    then have "checkSingle_loop model cp (\<lambda>_. False) (Some hn) k' st' = Some (False, st')"
      using conf_head[OF c'] False by (subst checkSingle_loop.simps) (cases F; simp)
    then show ?thesis
      using l fail confD(8,9)[OF c'] by simp
  qed
qed

end
