(* ===== verification/Porcupine_Linked.thy ===== *)
theory Porcupine_Linked
  imports Porcupine_Loop
begin

text \<open>
  The linked list that \<open>makeLinkedEntries\<close> builds, and what a search over it decides, stated on
  the entries: the search for a well-formed list of entries ends, and its verdict says whether
  the calls can be put into an order that the model accepts and that respects which operation
  returned before which was called.
\<close>

section \<open>Building the list\<close>

fun node_stats :: "(int \<rightharpoonup> nat) \<Rightarrow> nat \<Rightarrow> 'v pc_entry list \<Rightarrow> ('v iface \<times> ptr \<times> int) list" where
  "node_stats match k [] = []"
| "node_stats match k (e # es) =
     (en_value e, if en_kind e = ReturnEntry then None else match (en_id e), en_id e) #
     node_stats (if en_kind e = ReturnEntry then match(en_id e \<mapsto> k) else match) (k + 1) es"

lemma node_stats_length [simp]: "length (node_stats match k es) = length es"
  by (induction es arbitrary: match k) auto

lemma insert_new:
  assumes "dll h xs"
  shows "\<exists>h'. insertBefore (Some (length h)) (hdo xs None) (snd (new_node v m i h)) = Some h' \<and>
    dll h' (length h # xs) \<and> statics h' = statics h @ [(v, m, i)]"
proof (cases xs)
  case Nil
  then show ?thesis
    by (simp add: insertBefore_def new_node_def dll_def statics_def)
next
  case (Cons x ys)
  let ?h1 = "h @ [\<lparr>pn_value = v, pn_match = m, pn_id = i, pn_next = None, pn_prev = None\<rparr>]"
  let ?h = "?h1[x := (h ! x)\<lparr>pn_prev := Some (length h)\<rparr>,
    length h := \<lparr>pn_value = v, pn_match = m, pn_id = i, pn_next = Some x, pn_prev = None\<rparr>]"
  have x: "x < length h" "pn_prev (h ! x) = None" "set xs \<subseteq> {..<length h}" "distinct xs" "dseg h None xs None"
    using assms Cons by (auto simp: dll_def)
  have "insertBefore (Some (length h)) (hdo xs None) (snd (new_node v m i h)) = Some ?h"
    using x(1,2) Cons by (simp add: insertBefore_def new_node_def Let_def nth_append)
  moreover have "statics ?h = statics h @ [(v, m, i)]"
    using x(1) by (simp add: statics_def map_update nth_append list_update_append list_update_same_conv)
  moreover have "dseg ?h (Some x) ys None = dseg h (Some x) ys None"
    using x(3,4) Cons by (intro dseg_cong) (auto simp: nth_append nth_list_update)
  then have "dll ?h (length h # xs)"
    using x Cons by (auto simp: dll_def nth_append)
  ultimately show ?thesis
    by blast
qed

lemma link_loop_ok:
  "dll h (rev [0..<length h]) \<Longrightarrow>
   \<exists>h'. link_loop es match (hdo (rev [0..<length h]) None) h = Some (hdo (rev [0..<length h']) None, h') \<and>
     dll h' (rev [0..<length h']) \<and> statics h' = statics h @ node_stats match (length h) es"
proof (induction es arbitrary: match h)
  case (Cons e es)
  let ?m = "if en_kind e = ReturnEntry then None else match (en_id e)"
  let ?match = "if en_kind e = ReturnEntry then match(en_id e \<mapsto> length h) else match"
  obtain h1 where h1: "insertBefore (Some (length h)) (hdo (rev [0..<length h]) None)
      (snd (new_node (en_value e) ?m (en_id e) h)) = Some h1"
    "dll h1 (length h # rev [0..<length h])" "statics h1 = statics h @ [(en_value e, ?m, en_id e)]"
    using insert_new[OF Cons.prems] by blast
  have len: "length h1 = Suc (length h)"
    using arg_cong[OF h1(3), of length] by (simp add: statics_def)
  have "dll h1 (rev [0..<length h1])"
    using h1(2) len by simp
  from Cons.IH[OF this, of ?match] obtain h' where
    "link_loop es ?match (hdo (rev [0..<length h1]) None) h1 = Some (hdo (rev [0..<length h']) None, h')"
    "dll h' (rev [0..<length h'])" "statics h' = statics h1 @ node_stats ?match (length h1) es"
    by blast
  then show ?case
    using h1 len by (intro exI[of _ h']) (cases "en_kind e = ReturnEntry"; simp add: new_node_def)
qed simp

lemma list_length_dseg:
  "dseg h p xs None \<Longrightarrow> set xs \<subseteq> {..<length h} \<Longrightarrow> list_length h (hdo xs None) l = Some (l + length xs)"
proof (induction xs arbitrary: p l)
  case Nil
  then show ?case
    by (simp add: list_length.simps)
next
  case (Cons a xs)
  then show ?case
    using Cons.IH[of "Some a" "l + 1"] by (simp add: list_length.simps[of h "Some a"])
qed

lemma makeLinkedEntries_ok:
  "\<exists>h. makeLinkedEntries entries = Some (hdo (rev [0..<length entries]) None, h) \<and>
     dll h (rev [0..<length entries]) \<and> statics h = node_stats Map.empty 0 (rev entries) \<and> length h = length entries"
proof -
  have "dll [] (rev [0..<length ([] :: 'a pnode list)])"
    by (simp add: dll_def)
  from link_loop_ok[OF this, of "rev entries" Map.empty] obtain h where
    h: "link_loop (rev entries) Map.empty None [] = Some (hdo (rev [0..<length h]) None, h)"
    "dll h (rev [0..<length h])" "statics h = node_stats Map.empty 0 (rev entries)"
    by (auto simp: statics_def)
  moreover have "length h = length entries"
    using arg_cong[OF h(3), of length] by (simp add: statics_def)
  ultimately show ?thesis
    by (simp add: makeLinkedEntries_def)
qed

section \<open>The nodes of well-formed entries\<close>

text \<open>
  Every operation number below half the length has one call and one return, the call first.
\<close>

definition wf_entries :: "'v pc_entry list \<Rightarrow> bool" where
  "wf_entries es \<longleftrightarrow> distinct (map (\<lambda>e. (en_id e, en_kind e)) es) \<and>
     (\<forall>e\<in>set es. 0 \<le> en_id e \<and> en_id e < int (length es div 2)) \<and>
     (\<forall>p<length es. en_kind (es ! p) = CallEntry \<longrightarrow>
        (\<exists>q>p. q < length es \<and> en_kind (es ! q) = ReturnEntry \<and> en_id (es ! q) = en_id (es ! p))) \<and>
     (\<forall>q<length es. en_kind (es ! q) = ReturnEntry \<longrightarrow>
        (\<exists>p<q. en_kind (es ! p) = CallEntry \<and> en_id (es ! p) = en_id (es ! q)))"

lemma wf_entriesD:
  assumes "wf_entries es"
  shows "distinct (map (\<lambda>e. (en_id e, en_kind e)) es)"
    "e \<in> set es \<Longrightarrow> 0 \<le> en_id e \<and> en_id e < int (length es div 2)"
    "p < length es \<Longrightarrow> en_kind (es ! p) = CallEntry \<Longrightarrow>
       \<exists>q>p. q < length es \<and> en_kind (es ! q) = ReturnEntry \<and> en_id (es ! q) = en_id (es ! p)"
    "q < length es \<Longrightarrow> en_kind (es ! q) = ReturnEntry \<Longrightarrow>
       \<exists>p<q. en_kind (es ! p) = CallEntry \<and> en_id (es ! p) = en_id (es ! q)"
  using assms unfolding wf_entries_def by - (elim conjE, blast)+

lemma wf_unique:
  assumes "wf_entries es" "p < length es" "q < length es" "en_kind (es ! p) = en_kind (es ! q)" "en_id (es ! p) = en_id (es ! q)"
  shows "p = q"
  using nth_eq_iff_index_eq[OF wf_entriesD(1)[OF assms(1)], of p q] assms(2-5) by simp

fun rets :: "(int \<rightharpoonup> nat) \<Rightarrow> nat \<Rightarrow> 'v pc_entry list \<Rightarrow> (int \<rightharpoonup> nat)" where
  "rets match k [] = match"
| "rets match k (e # es) = rets (if en_kind e = ReturnEntry then match(en_id e \<mapsto> k) else match) (k + 1) es"

lemma node_stats_nth:
  "j < length es \<Longrightarrow> node_stats match k es ! j =
     (en_value (es ! j), if en_kind (es ! j) = ReturnEntry then None else rets match k (take j es) (en_id (es ! j)), en_id (es ! j))"
  by (induction es arbitrary: match k j) (auto simp: nth_Cons' take_Cons')

lemma rets_SomeD:
  "rets match k es i = Some m \<Longrightarrow>
   match i = Some m \<or> (\<exists>j<length es. m = k + j \<and> en_kind (es ! j) = ReturnEntry \<and> en_id (es ! j) = i)"
proof (induction es arbitrary: match k)
  case (Cons e es)
  from Cons.IH[OF Cons.prems[unfolded rets.simps]] show ?case
    by (force split: if_splits)
qed simp

lemma rets_mono: "match i \<noteq> None \<Longrightarrow> rets match k es i \<noteq> None"
  by (induction es arbitrary: match k) auto

lemma rets_ex:
  "j < length es \<Longrightarrow> en_kind (es ! j) = ReturnEntry \<Longrightarrow> en_id (es ! j) = i \<Longrightarrow> rets match k es i \<noteq> None"
proof (induction es arbitrary: match k j)
  case (Cons e es)
  then show ?case
    by (cases j) (auto simp del: not_None_eq intro!: rets_mono)
qed simp

text \<open>The same facts on the reversed list: the address of a node is its position there.\<close>

lemma wf_rev:
  assumes w: "wf_entries entries"
  defines "es \<equiv> rev entries"
  shows "a < length es \<Longrightarrow> en_kind (es ! a) = CallEntry \<Longrightarrow>
      \<exists>b<a. en_kind (es ! b) = ReturnEntry \<and> en_id (es ! b) = en_id (es ! a)"
    "b < length es \<Longrightarrow> en_kind (es ! b) = ReturnEntry \<Longrightarrow>
      \<exists>a>b. a < length es \<and> en_kind (es ! a) = CallEntry \<and> en_id (es ! a) = en_id (es ! b)"
    "a < length es \<Longrightarrow> b < length es \<Longrightarrow> en_kind (es ! a) = en_kind (es ! b) \<Longrightarrow> en_id (es ! a) = en_id (es ! b) \<Longrightarrow> a = b"
proof -
  let ?n = "length entries"
  have nth: "es ! a = entries ! (?n - Suc a)" if "a < ?n" for a
    using that by (simp add: es_def rev_nth)
  have fwd: "entries ! q = es ! (?n - Suc q)" if "q < ?n" for q
    using that by (simp add: es_def rev_nth)
  {
    assume a: "a < length es" "en_kind (es ! a) = CallEntry"
    have "a < ?n" using a(1) by (simp add: es_def)
    then have lt: "?n - Suc a < ?n" by simp
    obtain q where q: "?n - Suc a < q" "q < ?n" "en_kind (entries ! q) = ReturnEntry" "en_id (entries ! q) = en_id (es ! a)"
      using wf_entriesD(3)[OF w lt] a(2) nth[OF \<open>a < ?n\<close>] by auto
    then show "\<exists>b<a. en_kind (es ! b) = ReturnEntry \<and> en_id (es ! b) = en_id (es ! a)"
      using fwd[of q] by (intro exI[of _ "?n - Suc q"]) auto
  }
  {
    assume b: "b < length es" "en_kind (es ! b) = ReturnEntry"
    have "b < ?n" using b(1) by (simp add: es_def)
    then have lt: "?n - Suc b < ?n" by simp
    obtain p where p: "p < ?n - Suc b" "en_kind (entries ! p) = CallEntry" "en_id (entries ! p) = en_id (es ! b)"
      using wf_entriesD(4)[OF w lt] b(2) nth[OF \<open>b < ?n\<close>] by auto
    then show "\<exists>a>b. a < length es \<and> en_kind (es ! a) = CallEntry \<and> en_id (es ! a) = en_id (es ! b)"
      using fwd[of p] \<open>b < ?n\<close> by (intro exI[of _ "?n - Suc p"]) (auto simp: es_def)
  }
  {
    assume ab: "a < length es" "b < length es" "en_kind (es ! a) = en_kind (es ! b)" "en_id (es ! a) = en_id (es ! b)"
    then have "?n - Suc a = ?n - Suc b"
      using wf_unique[OF w, of "?n - Suc a" "?n - Suc b"] nth[of a] nth[of b] by (simp add: es_def)
    then show "a = b"
      using ab(1,2) by (simp add: es_def)
  }
qed

lemma node_facts:
  assumes w: "wf_entries entries" and st: "statics h = node_stats Map.empty 0 (rev entries) @ extra"
    and a: "a < length entries"
  shows "pn_value (h ! a) = en_value (rev entries ! a)" "pn_id (h ! a) = en_id (rev entries ! a)"
    "pn_match (h ! a) = None \<longleftrightarrow> en_kind (rev entries ! a) = ReturnEntry"
    "pn_match (h ! a) = Some m \<Longrightarrow> m < a \<and> en_kind (rev entries ! m) = ReturnEntry \<and> en_id (rev entries ! m) = en_id (rev entries ! a)"
proof -
  let ?es = "rev entries"
  have "length h = length entries + length extra"
    using arg_cong[OF st, of length] by (simp add: statics_def)
  then have "(pn_value (h ! a), pn_match (h ! a), pn_id (h ! a)) = node_stats Map.empty 0 ?es ! a"
    using arg_cong[OF st, of "\<lambda>xs. xs ! a"] a by (simp add: statics_def nth_append)
  then have eq: "pn_value (h ! a) = en_value (?es ! a)" "pn_id (h ! a) = en_id (?es ! a)"
    "pn_match (h ! a) = (if en_kind (?es ! a) = ReturnEntry then None else rets Map.empty 0 (take a ?es) (en_id (?es ! a)))"
    using node_stats_nth[of a ?es Map.empty 0] a by simp_all
  show "pn_value (h ! a) = en_value (?es ! a)" "pn_id (h ! a) = en_id (?es ! a)"
    by (fact eq)+
  have "rets Map.empty 0 (take a ?es) (en_id (?es ! a)) \<noteq> None" if c: "en_kind (?es ! a) \<noteq> ReturnEntry"
  proof -
    have "en_kind (?es ! a) = CallEntry"
      using c by (cases "en_kind (?es ! a)") auto
    then obtain b where b: "b < a" "en_kind (?es ! b) = ReturnEntry" "en_id (?es ! b) = en_id (?es ! a)"
      using wf_rev(1)[OF w, of a] a by auto
    then show ?thesis
      using rets_ex[of b "take a ?es" "en_id (?es ! a)"] a by simp
  qed
  then show "pn_match (h ! a) = None \<longleftrightarrow> en_kind (?es ! a) = ReturnEntry"
    using eq(3) by auto
  assume "pn_match (h ! a) = Some m"
  then have "rets Map.empty 0 (take a ?es) (en_id (?es ! a)) = Some m"
    using eq(3) by (simp split: if_splits)
  from rets_SomeD[OF this] show "m < a \<and> en_kind (?es ! m) = ReturnEntry \<and> en_id (?es ! m) = en_id (?es ! a)"
    using a by auto
qed

lemma rev_upt_split: "rev [0..<n] = xs @ a # ys \<Longrightarrow> set ys = {..<a} \<and> a < n"
proof (induction n arbitrary: xs)
  case (Suc n)
  show ?case
  proof (cases xs)
    case Nil
    then show ?thesis
      using Suc.prems by auto
  next
    case (Cons x xs')
    then have "rev [0..<n] = xs' @ a # ys"
      using arg_cong[OF Suc.prems, of tl] by simp
    from Suc.IH[OF this] show ?thesis
      by simp
  qed
qed simp

lemma wfl_entries:
  assumes w: "wf_entries entries" and st: "statics h = node_stats Map.empty 0 (rev entries) @ extra"
  shows "wfl h (rev [0..<length entries])"
proof -
  let ?es = "rev entries"
  let ?F = "rev [0..<length entries]"
  note nf = node_facts[OF w st]
  have 1: "m \<in> set ys \<and> pn_match (h ! m) = None \<and> pn_id (h ! m) = pn_id (h ! a)"
    if F: "?F = xs @ a # ys" and m: "pn_match (h ! a) = Some m" for xs a ys m
  proof -
    have ys: "set ys = {..<a}" "a < length entries"
      using rev_upt_split[OF F] by auto
    have "m < a" "en_kind (?es ! m) = ReturnEntry" "en_id (?es ! m) = en_id (?es ! a)"
      using nf(4)[OF ys(2) m] by auto
    then show ?thesis
      using ys nf(2,3)[of m] nf(2)[OF ys(2)] by simp
  qed
  have 2: "a = b \<or> pn_match (h ! a) = Some b \<or> pn_match (h ! b) = Some a"
    if ab: "a \<in> set ?F" "b \<in> set ?F" "pn_id (h ! a) = pn_id (h ! b)" for a b
  proof (cases "en_kind (?es ! a) = en_kind (?es ! b)")
    case True
    then show ?thesis
      using wf_rev(3)[OF w, of a b] ab nf(2)[of a] nf(2)[of b] by simp
  next
    case False
    have one: "pn_match (h ! c) = Some d"
      if c: "c < length entries" "d < length entries" "en_id (?es ! c) = en_id (?es ! d)"
        "en_kind (?es ! c) \<noteq> ReturnEntry" "en_kind (?es ! d) = ReturnEntry" for c d
    proof -
      obtain m where m: "pn_match (h ! c) = Some m"
        using nf(3)[OF c(1)] c(4) by auto
      then have "m = d"
        using nf(4)[OF c(1) m] wf_rev(3)[OF w, of m d] c by auto
      then show ?thesis
        using m by simp
    qed
    show ?thesis
      using one[of a b] one[of b a] False ab nf(2)[of a] nf(2)[of b]
      by (cases "en_kind (?es ! a)"; cases "en_kind (?es ! b)") auto
  qed
  have 3: "\<exists>a\<in>set ?F. pn_match (h ! a) = Some b" if b: "b \<in> set ?F" "pn_match (h ! b) = None" for b
  proof -
    obtain a where a: "a < length entries" "en_kind (?es ! a) = CallEntry" "en_id (?es ! a) = en_id (?es ! b)" "b < a"
      using wf_rev(2)[OF w, of b] b nf(3)[of b] by auto
    obtain m where m: "pn_match (h ! a) = Some m"
      using nf(3)[OF a(1)] a(2) by auto
    then have "m = b"
      using nf(4)[OF a(1) m] wf_rev(3)[OF w, of m b] a b nf(3)[of b] by auto
    then show ?thesis
      using m a(1) by (intro bexI[of _ a]) simp_all
  qed
  show ?thesis
    unfolding wfl_def by (intro conjI allI impI ballI 2 3) (simp, (elim conjE, drule (1) 1, elim conjE, assumption)+)
qed

section \<open>Runs are linearizations\<close>

fun accepts :: "('v, 's) pc_model \<Rightarrow> 's \<Rightarrow> ('v iface \<times> 'v iface) list \<Rightarrow> bool" where
  "accepts model s [] = True"
| "accepts model s ((i, out) # ops) =
     (case mo_Step model s i out of Some (True, s') \<Rightarrow> accepts model s' ops | _ \<Rightarrow> False)"

text \<open>
  A partial linearization of the operations \<open>I\<close> with inputs \<open>inp\<close> and outputs \<open>out\<close>, where
  \<open>bef j i\<close> says that \<open>j\<close> returned before \<open>i\<close> was called: a sequence of them that the model
  accepts, that never puts \<open>i\<close> in front of an operation that precedes it, and that has every
  operation that precedes one of its members.
\<close>

definition partial_lin :: "('v, 's) pc_model \<Rightarrow> 's \<Rightarrow> int set \<Rightarrow> (int \<Rightarrow> 'v iface) \<Rightarrow> (int \<Rightarrow> 'v iface) \<Rightarrow>
    (int \<Rightarrow> int \<Rightarrow> bool) \<Rightarrow> int list \<Rightarrow> bool" where
  "partial_lin model s I inp out bef p \<longleftrightarrow> distinct p \<and> set p \<subseteq> I \<and> sorted_wrt (\<lambda>i j. \<not> bef j i) p \<and>
     (\<forall>i\<in>set p. \<forall>j\<in>I. bef j i \<longrightarrow> j \<in> set p) \<and> accepts model s (map (\<lambda>i. (inp i, out i)) p)"

definition described :: "'v pheap \<Rightarrow> nat list \<Rightarrow> (int \<Rightarrow> 'v iface) \<Rightarrow> (int \<Rightarrow> 'v iface) \<Rightarrow> (int \<Rightarrow> int \<Rightarrow> bool) \<Rightarrow> bool" where
  "described h R inp out bef \<longleftrightarrow> sorted_wrt (>) R \<and>
     (\<forall>a\<in>set R. \<forall>m. pn_match (h ! a) = Some m \<longrightarrow>
        pn_value (h ! a) = inp (pn_id (h ! a)) \<and> pn_value (h ! m) = out (pn_id (h ! a))) \<and>
     (\<forall>a\<in>set R. \<forall>b\<in>set R. pn_match (h ! a) \<noteq> None \<and> pn_match (h ! b) = None \<longrightarrow>
        (a < b \<longleftrightarrow> bef (pn_id (h ! b)) (pn_id (h ! a))))"

lemma describedD:
  assumes "described h R inp out bef"
  shows "sorted_wrt (>) R"
    "a \<in> set R \<Longrightarrow> pn_match (h ! a) = Some m \<Longrightarrow> pn_value (h ! a) = inp (pn_id (h ! a)) \<and> pn_value (h ! m) = out (pn_id (h ! a))"
    "a \<in> set R \<Longrightarrow> b \<in> set R \<Longrightarrow> pn_match (h ! a) = Some m \<Longrightarrow> pn_match (h ! b) = None \<Longrightarrow>
       a < b \<longleftrightarrow> bef (pn_id (h ! b)) (pn_id (h ! a))"
  using assms unfolding described_def by (elim conjE, simp)+

lemma described_drop: "described h R inp out bef \<Longrightarrow> described h (drop_id h i R) inp out bef"
  unfolding described_def drop_id_def by (auto simp: sorted_wrt_filter)

lemma ids_drop: "(\<lambda>a. pn_id (h ! a)) ` set (drop_id h i R) = (\<lambda>a. pn_id (h ! a)) ` set R - {i}"
  unfolding drop_id_def by auto

text \<open>Every operation of a well-formed list has a call and a return in it.\<close>

lemma wfl_both:
  assumes w: "wfl h R" and c: "c \<in> set R"
  shows "\<exists>a\<in>set R. \<exists>b\<in>set R. pn_match (h ! a) = Some b \<and> pn_match (h ! b) = None \<and>
    pn_id (h ! a) = pn_id (h ! c) \<and> pn_id (h ! b) = pn_id (h ! c)"
proof (cases "pn_match (h ! c)")
  case None
  then obtain a where "a \<in> set R" "pn_match (h ! a) = Some c"
    using wflD(4)[OF w c] by auto
  then show ?thesis
    using wfl_match[OF w] None c by metis
next
  case (Some m)
  then show ?thesis
    using wfl_match[OF w c Some] c by metis
qed

lemma fire_first:
  assumes w: "wfl h R" and d: "described h R inp out bef" and R: "R = xs @ a # ys" "\<forall>b\<in>set xs. pn_match (h ! b) \<noteq> None"
    and m: "pn_match (h ! a) = Some m" and c: "c \<in> set R" "pn_id (h ! c) \<noteq> pn_id (h ! a)"
  shows "\<not> bef (pn_id (h ! c)) (pn_id (h ! a))"
proof
  assume bef: "bef (pn_id (h ! c)) (pn_id (h ! a))"
  obtain b where b: "b \<in> set R" "pn_match (h ! b) = None" "pn_id (h ! b) = pn_id (h ! c)"
    using wfl_both[OF w c(1)] by auto
  have aR: "a \<in> set R"
    by (simp add: R)
  have "a < b"
    using describedD(3)[OF d aR b(1) m b(2)] bef b(3) by simp
  moreover have "\<forall>y\<in>set ys. y < a"
    using describedD(1)[OF d] R(1) by (simp add: sorted_wrt_append)
  ultimately have "b \<in> set xs"
    using b(1) R(1) by auto
  then show False
    using R(2) b(2) by blast
qed

lemma runs_partial:
  "wfl h R \<Longrightarrow> described h R inp out bef \<Longrightarrow> runs model h R s p R' s' \<Longrightarrow>
   partial_lin model s ((\<lambda>a. pn_id (h ! a)) ` set R) inp out bef p \<and> R' = filter (\<lambda>a. pn_id (h ! a) \<notin> set p) R"
proof (induction p arbitrary: R s)
  case Nil
  then show ?case
    by (simp add: partial_lin_def)
next
  case (Cons i p)
  note w = Cons.prems(1) and d = Cons.prems(2)
  let ?id = "\<lambda>a. pn_id (h ! a)"
  obtain R1 s1 where f: "fires model h R s i R1 s1" and r: "runs model h R1 s1 p R' s'"
    using Cons.prems(3) unfolding runs_Cons_iff by blast
  obtain xs a ys m where a: "R = xs @ a # ys" "\<forall>b\<in>set xs. pn_match (h ! b) \<noteq> None" "pn_match (h ! a) = Some m"
    "i = ?id a" "mo_Step model s (pn_value (h ! a)) (pn_value (h ! m)) = Some (True, s1)" "R1 = drop_id h i R"
    using f unfolding fires_def by auto
  have aR: "a \<in> set R"
    by (simp add: a(1))
  have IH: "partial_lin model s1 (?id ` set R1) inp out bef p" "R' = filter (\<lambda>a. ?id a \<notin> set p) R1"
    using Cons.IH[of R1 s1] wfl_drop[OF w] described_drop[OF d] r unfolding a(6) by auto
  have ids: "?id ` set R1 = ?id ` set R - {i}"
    unfolding a(6) by (rule ids_drop)
  have first: "\<not> bef j i" if j: "j \<in> ?id ` set R" "j \<noteq> i" for j
    using fire_first[OF w d a(1-3)] j a(4) by auto
  have "accepts model s (map (\<lambda>i. (inp i, out i)) (i # p))"
    using describedD(2)[OF d aR a(3)] a(4,5) IH(1) by (simp add: partial_lin_def)
  moreover have "\<forall>i'\<in>set (i # p). \<forall>j\<in>?id ` set R. bef j i' \<longrightarrow> j \<in> set (i # p)"
  proof (intro ballI impI)
    fix i' j assume *: "i' \<in> set (i # p)" "j \<in> ?id ` set R" "bef j i'"
    show "j \<in> set (i # p)"
    proof (cases "i' = i \<or> j = i")
      case True
      then show ?thesis
        using first[OF *(2)] *(3) by auto
    next
      case False
      then have "j \<in> ?id ` set R1"
        using *(2) ids by blast
      then show ?thesis
        using IH(1) * False unfolding partial_lin_def by auto
    qed
  qed
  moreover have p: "distinct p" "set p \<subseteq> ?id ` set R - {i}" "sorted_wrt (\<lambda>i j. \<not> bef j i) p"
    using IH(1) unfolding partial_lin_def ids by auto
  moreover have "\<forall>j\<in>set p. \<not> bef j i"
    using p(2) first by blast
  ultimately have "partial_lin model s (?id ` set R) inp out bef (i # p)"
    using aR a(4) unfolding partial_lin_def by auto
  moreover have "R' = filter (\<lambda>a. ?id a \<notin> set (i # p)) R"
    unfolding IH(2) a(6) drop_id_def filter_filter by (rule filter_cong) auto
  ultimately show ?case
    by blast
qed

lemma partial_runs:
  "wfl h R \<Longrightarrow> described h R inp out bef \<Longrightarrow> partial_lin model s ((\<lambda>a. pn_id (h ! a)) ` set R) inp out bef p \<Longrightarrow>
   \<exists>R' s'. runs model h R s p R' s'"
proof (induction p arbitrary: R s)
  case Nil
  then show ?case
    by auto
next
  case (Cons i p)
  note w = Cons.prems(1) and d = Cons.prems(2) and l = Cons.prems(3)
  let ?id = "\<lambda>a. pn_id (h ! a)"
  obtain c where c: "c \<in> set R" "?id c = i"
    using l unfolding partial_lin_def by auto
  obtain a m where a: "a \<in> set R" "pn_match (h ! a) = Some m" "?id a = i" "pn_match (h ! m) = None" "m \<in> set R" "?id m = i"
    using wfl_both[OF w c(1)] c(2) by auto
  obtain xs ys where R: "R = xs @ a # ys"
    using split_list[OF a(1)] by blast
  have calls: "\<forall>b\<in>set xs. pn_match (h ! b) \<noteq> None"
  proof
    fix b assume b: "b \<in> set xs"
    show "pn_match (h ! b) \<noteq> None"
    proof
      assume none: "pn_match (h ! b) = None"
      have bR: "b \<in> set R" "a < b"
        using b describedD(1)[OF d] R by (auto simp: sorted_wrt_append)
      then have bef: "bef (?id b) i"
        using describedD(3)[OF d a(1) bR(1) a(2) none] a(3) by simp
      have "?id b \<noteq> i"
      proof
        assume "?id b = i"
        then have "b = a \<or> pn_match (h ! a) = Some b"
          using wflD(3)[OF w bR(1) a(1)] a(3) none by auto
        then have "b = m"
          using a(2) bR(2) by auto
        then show False
          using wflD(2)[OF w R a(2)] wflD(1)[OF w] R b by auto
      qed
      moreover have "?id b \<in> set (i # p)"
        using l bef bR(1) unfolding partial_lin_def by auto
      ultimately show False
        using l bef unfolding partial_lin_def by auto
    qed
  qed
  obtain s1 where s1: "mo_Step model s (inp i) (out i) = Some (True, s1)" "accepts model s1 (map (\<lambda>i. (inp i, out i)) p)"
    using l unfolding partial_lin_def by (auto split: option.splits prod.splits bool.splits)
  have f: "fires model h R s i (drop_id h i R) s1"
    unfolding fires_def using R calls a(2,3) s1(1) describedD(2)[OF d a(1,2)] by metis
  have "partial_lin model s1 (?id ` set (drop_id h i R)) inp out bef p"
    using l s1(2) unfolding partial_lin_def ids_drop by auto
  then obtain R' s' where "runs model h (drop_id h i R) s1 p R' s'"
    using Cons.IH[OF wfl_drop[OF w] described_drop[OF d]] by blast
  from runs_Cons[OF f this] show ?case
    by blast
qed

lemma completes_iff:
  assumes w: "wfl h R" and d: "described h R inp out bef"
  shows "completes model h R s \<longleftrightarrow>
    (\<exists>p. partial_lin model s ((\<lambda>a. pn_id (h ! a)) ` set R) inp out bef p \<and> set p = (\<lambda>a. pn_id (h ! a)) ` set R)"
    (is "_ \<longleftrightarrow> (\<exists>p. ?lin p \<and> set p = ?I)")
proof
  assume "completes model h R s"
  then obtain p s' where r: "runs model h R s p [] s'"
    unfolding completes_def by auto
  have "?lin p" "[] = filter (\<lambda>a. pn_id (h ! a) \<notin> set p) R"
    using runs_partial[OF w d r] by auto
  then show "\<exists>p. ?lin p \<and> set p = ?I"
    unfolding partial_lin_def by (intro exI[of _ p]) (auto simp: filter_empty_conv dest: sym)
next
  assume "\<exists>p. ?lin p \<and> set p = ?I"
  then obtain p where p: "?lin p" "set p = ?I"
    by blast
  obtain R' s' where r: "runs model h R s p R' s'"
    using partial_runs[OF w d p(1)] by blast
  then have "R' = []"
    using runs_partial[OF w d r] p(2) by (simp add: filter_empty_conv)
  then show "completes model h R s"
    unfolding completes_def using r by auto
qed

end
