(* ===== verification/Porcupine_Operations.thy ===== *)
theory Porcupine_Operations
  imports Porcupine_Linked "HOL-Library.Multiset"
begin

text \<open>
  The linearizability checker on histories of operations: \<open>checkSingle\<close> on the sorted entries of
  a history decides linearizability, and \<open>checkParallel\<close> combines the verdicts of the
  partitions in whatever order they arrive.
\<close>

section \<open>The search on well-formed entries\<close>

text \<open>The inputs, the outputs and the order of the operations of a list of entries.\<close>

definition entries_desc :: "'v pc_entry list \<Rightarrow> (int \<Rightarrow> 'v iface) \<Rightarrow> (int \<Rightarrow> 'v iface) \<Rightarrow> (int \<Rightarrow> int \<Rightarrow> bool) \<Rightarrow> bool" where
  "entries_desc es inp out bef \<longleftrightarrow>
     (\<forall>e\<in>set es. en_value e = (if en_kind e = CallEntry then inp (en_id e) else out (en_id e))) \<and>
     (\<forall>p<length es. \<forall>q<length es. en_kind (es ! p) = CallEntry \<and> en_kind (es ! q) = ReturnEntry \<longrightarrow>
        (q < p \<longleftrightarrow> bef (en_id (es ! q)) (en_id (es ! p))))"

lemma described_entries:
  assumes w: "wf_entries es" and d: "entries_desc es inp out bef"
    and st: "statics h = node_stats Map.empty 0 (rev es) @ extra"
  shows "described h (rev [0..<length es]) inp out bef"
proof -
  let ?n = "length es"
  note nf = node_facts[OF w st]
  have val: "en_value (rev es ! a) = (if en_kind (rev es ! a) = CallEntry then inp (en_id (rev es ! a)) else out (en_id (rev es ! a)))"
    if a: "a < ?n" for a
  proof -
    have "rev es ! a \<in> set es"
      using nth_mem[of a "rev es"] a by simp
    then show ?thesis
      using d unfolding entries_desc_def by blast
  qed
  have "pn_value (h ! a) = inp (pn_id (h ! a)) \<and> pn_value (h ! m) = out (pn_id (h ! a))"
    if a: "a < ?n" and m: "pn_match (h ! a) = Some m" for a m
  proof -
    have m': "m < a" "en_kind (rev es ! m) = ReturnEntry" "en_id (rev es ! m) = en_id (rev es ! a)"
      using nf(4)[OF a m] by auto
    have "en_kind (rev es ! a) = CallEntry"
      using nf(3)[OF a] m by (cases "en_kind (rev es ! a)") auto
    then show ?thesis
      using nf(1,2)[OF a] nf(1)[of m] m' a val[OF a] val[of m] by simp
  qed
  moreover have "a < b \<longleftrightarrow> bef (pn_id (h ! b)) (pn_id (h ! a))"
    if a: "a < ?n" "b < ?n" and k: "pn_match (h ! a) \<noteq> None" "pn_match (h ! b) = None" for a b
  proof -
    have "en_kind (rev es ! a) = CallEntry" "en_kind (rev es ! b) = ReturnEntry"
      using nf(3)[OF a(1)] nf(3)[OF a(2)] k by (cases "en_kind (rev es ! a)"; auto)+
    moreover have "?n - Suc b < ?n" "?n - Suc a < ?n"
      using a by auto
    ultimately have "?n - Suc b < ?n - Suc a \<longleftrightarrow> bef (en_id (rev es ! b)) (en_id (rev es ! a))"
      using d a unfolding entries_desc_def by (simp add: rev_nth)
    then show ?thesis
      using a nf(2)[OF a(1)] nf(2)[OF a(2)] by auto
  qed
  moreover have "sorted_wrt (>) (rev [0..<?n])"
    by (simp add: sorted_wrt_rev)
  ultimately show ?thesis
    unfolding described_def by simp
qed

lemma entries_ids:
  assumes w: "wf_entries es" and h0: "statics h0 = node_stats Map.empty 0 (rev es) @ [(None, None, - 1)]"
  shows "(\<lambda>a. pn_id (h0 ! a)) ` set (rev [0..<length es]) = en_id ` set es"
proof -
  have "(\<lambda>a. pn_id (h0 ! a)) ` set (rev [0..<length es]) = (\<lambda>a. en_id (rev es ! a)) ` {..<length es}"
    using node_facts(2)[OF w h0] by (auto simp: image_iff intro!: bexI)
  also have "\<dots> = en_id ` set (rev es)"
    unfolding set_conv_nth by auto
  finally show ?thesis by simp
qed

lemma entries_searchable:
  assumes w: "wf_entries es" and d: "entries_desc es inp out bef"
    and eq: "mo_Equal model = Some eq" "equal_ok model eq"
    and total: "\<And>i s. i \<in> en_id ` set es \<Longrightarrow> mo_Step model s (inp i) (out i) \<noteq> None"
    and h0: "dll h0 (length es # rev [0..<length es])" "statics h0 = node_stats Map.empty 0 (rev es) @ [(None, None, - 1)]"
  shows "searchable model h0 (rev [0..<length es]) (length es div 2)"
  unfolding searchable_def
proof (intro conjI ballI allI impI wfl_entries[OF w h0(2)])
  show "\<exists>eq. mo_Equal model = Some eq \<and> equal_ok model eq"
    using eq by blast
next
  let ?F = "rev [0..<length es]"
  fix a assume aF: "a \<in> set ?F"
  then have a: "a < length es" by simp
  have mem: "rev es ! a \<in> set es"
    using nth_mem[of a "rev es"] a by simp
  show "a < length h0" "0 \<le> pn_id (h0 ! a)" "pn_id (h0 ! a) < int (length es div 2)"
    using h0(1) a node_facts(2)[OF w h0(2) a] wf_entriesD(2)[OF w mem] by (auto simp: dll_def)
  fix m s assume m: "pn_match (h0 ! a) = Some m"
  have "pn_id (h0 ! a) \<in> en_id ` set es"
    using entries_ids[OF w h0(2)] aF by auto
  then show "mo_Step model s (pn_value (h0 ! a)) (pn_value (h0 ! m)) \<noteq> None"
    using describedD(2)[OF described_entries[OF w d h0(2)] _ m] a total by simp
qed

text \<open>A run that leaves no entry has linearized all of them.\<close>

lemma runs_full:
  assumes "wfl h F" "described h F inp out bef" "runs model h F s p [] s'"
  shows "set p = (\<lambda>a. pn_id (h ! a)) ` set F"
proof -
  have e: "filter (\<lambda>a. pn_id (h ! a) \<notin> set p) F = []" and sub: "set p \<subseteq> (\<lambda>a. pn_id (h ! a)) ` set F"
    using runs_partial[OF assms] unfolding partial_lin_def by auto
  have "(\<lambda>a. pn_id (h ! a)) ` set F \<subseteq> set p"
    using e unfolding filter_empty_conv by blast
  with sub show ?thesis
    by (rule subset_antisym)
qed

lemma checkSingle_entries:
  assumes w: "wf_entries es" and d: "entries_desc es inp out bef"
    and eq: "mo_Equal model = Some eq" "equal_ok model eq"
    and total: "\<And>i s. i \<in> en_id ` set es \<Longrightarrow> mo_Step model s (inp i) (out i) \<noteq> None"
  defines "lin \<equiv> partial_lin model (mo_Init model) (en_id ` set es) inp out bef"
  shows "\<exists>longest seqs. checkSingle model es computePartial (\<lambda>_. False) = Some (\<exists>p. lin p \<and> set p = en_id ` set es, longest, seqs) \<and>
    length longest = length es div 2 \<and> (\<forall>a. Some a \<in> set longest \<longrightarrow> a < length seqs \<and> lin (seqs ! a)) \<and>
    ((\<exists>p. lin p \<and> set p = en_id ` set es) \<longrightarrow>
      (\<forall>l\<in>set longest. \<exists>a. l = Some a \<and> set (seqs ! a) = en_id ` set es))"
proof -
  let ?N = "length es"
  let ?n = "?N div 2"
  let ?F = "rev [0..<?N]"
  obtain h1 where h1: "makeLinkedEntries es = Some (hdo ?F None, h1)" "dll h1 ?F"
    "statics h1 = node_stats Map.empty 0 (rev es)" "length h1 = ?N"
    using makeLinkedEntries_ok by blast
  have len: "list_length h1 (hdo ?F None) 0 = Some ?N"
    using list_length_dseg[of h1 None ?F 0] h1(2) by (simp add: dll_def)
  obtain h0 where h0: "insertBefore (Some ?N) (hdo ?F None) (snd (new_node None None (- 1) h1)) = Some h0"
    "dll h0 (?N # ?F)" "statics h0 = node_stats Map.empty 0 (rev es) @ [(None, None, - 1)]"
    using insert_new[OF h1(2), of None None "- 1"] h1(3,4) by auto
  have wf: "wfl h0 ?F"
    by (rule wfl_entries[OF w h0(3)])
  have desc: "described h0 ?F inp out bef"
    by (rule described_entries[OF w d h0(3)])
  note ids = entries_ids[OF w h0(3)]
  have S: "searchable model h0 ?F ?n"
    by (rule entries_searchable[OF w d eq total h0(2,3)])
  let ?st = "\<lparr>cs_heap = h0, cs_entry = hdo ?F None, cs_linearized = newBitset ?n, cs_cache = (\<lambda>_. []), cs_calls = [],
        cs_longest = replicate ?n None, cs_seqs = [], cs_state = mo_Init model\<rparr>"
  have "conf model ?N h0 ?F ?n [] ?F ?st"
    using h0(2) unfolding conf_def seqs_ok_def by (auto simp: left_in_def intro: runs_Nil)
  from loop_result[OF S this, of computePartial] obtain st' where
    l: "checkSingle_loop model computePartial (\<lambda>_. False) (Some ?N) 0 ?st = Some (completes model h0 ?F (mo_Init model), st')"
    "length (cs_longest st') = ?n" "seqs_ok model h0 ?F (cs_longest st') (cs_seqs st')"
    "completes model h0 ?F (mo_Init model) \<longrightarrow> won model h0 ?F ?n st'"
    by (auto simp: cached_def)
  have c: "completes model h0 ?F (mo_Init model) \<longleftrightarrow> (\<exists>p. lin p \<and> set p = en_id ` set es)"
    using completes_iff[OF wf desc, of model "mo_Init model"] unfolding ids lin_def .
  have run: "lin p" if "runs model h0 ?F (mo_Init model) p R s" for p R s
    using runs_partial[OF wf desc that] unfolding ids lin_def by blast
  have full: "set p = en_id ` set es" if "runs model h0 ?F (mo_Init model) p [] s" for p s
    using runs_full[OF wf desc that] unfolding ids .
  have "checkSingle model es computePartial (\<lambda>_. False) =
      Some (\<exists>p. lin p \<and> set p = en_id ` set es, cs_longest st', cs_seqs st')"
    using h1(1) len h0(1) l(1) h1(4) unfolding checkSingle_def c by (simp add: new_node_def)
  moreover have "\<forall>a. Some a \<in> set (cs_longest st') \<longrightarrow> a < length (cs_seqs st') \<and> lin (cs_seqs st' ! a)"
    using l(3) run unfolding seqs_ok_def by (metis nth_mem)
  moreover have "\<forall>l\<in>set (cs_longest st'). \<exists>a. l = Some a \<and> set (cs_seqs st' ! a) = en_id ` set es"
    if "\<exists>p. lin p \<and> set p = en_id ` set es"
  proof -
    have "won model h0 ?F ?n st'"
      using l(4) c that by blast
    then show ?thesis
      using full unfolding won_def by blast
  qed
  ultimately show ?thesis
    using l(2) by blast
qed

section \<open>Histories of operations\<close>

definition op_inp :: "'v operation list \<Rightarrow> int \<Rightarrow> 'v iface" where
  "op_inp history i = op_Input (history ! nat i)"

definition op_out :: "'v operation list \<Rightarrow> int \<Rightarrow> 'v iface" where
  "op_out history i = op_Output (history ! nat i)"

definition op_bef :: "'v operation list \<Rightarrow> int \<Rightarrow> int \<Rightarrow> bool" where
  "op_bef history j i \<longleftrightarrow> op_Return (history ! nat j) < op_Call (history ! nat i)"

text \<open>Linearizability: some order of all operations is a linearization.\<close>

definition linearization :: "('v, 's) pc_model \<Rightarrow> 'v operation list \<Rightarrow> int list \<Rightarrow> bool" where
  "linearization model history p \<longleftrightarrow> partial_lin model (mo_Init model) {0..<int (length history)}
     (op_inp history) (op_out history) (op_bef history) p"

definition linearizable :: "('v, 's) pc_model \<Rightarrow> 'v operation list \<Rightarrow> bool" where
  "linearizable model history \<longleftrightarrow> (\<exists>p. linearization model history p \<and> set p = {0..<int (length history)})"

definition well_timed :: "'v operation list \<Rightarrow> bool" where
  "well_timed history \<longleftrightarrow> (\<forall>opn\<in>set history. op_Call opn \<le> op_Return opn)"

definition sorts :: "'v sorter \<Rightarrow> bool" where
  "sorts srt \<longleftrightarrow> (\<forall>xs. mset (srt byTime_Less xs) = mset xs \<and>
     sorted_wrt (\<lambda>a b. \<not> byTime_Less b a) (srt byTime_Less xs))"

definition call_entry :: "int \<Rightarrow> 'v operation \<Rightarrow> 'v pc_entry" where
  "call_entry i el = \<lparr>en_kind = CallEntry, en_value = op_Input el, en_id = i, en_time = op_Call el, en_clientId = op_ClientId el\<rparr>"

definition ret_entry :: "int \<Rightarrow> 'v operation \<Rightarrow> 'v pc_entry" where
  "ret_entry i el = \<lparr>en_kind = ReturnEntry, en_value = op_Output el, en_id = i, en_time = op_Return el, en_clientId = op_ClientId el\<rparr>"

lemma entry_sel [simp]:
  "en_kind (call_entry i el) = CallEntry" "en_kind (ret_entry i el) = ReturnEntry"
  "en_id (call_entry i el) = i" "en_id (ret_entry i el) = i"
  "en_time (call_entry i el) = op_Call el" "en_time (ret_entry i el) = op_Return el"
  "en_value (call_entry i el) = op_Input el" "en_value (ret_entry i el) = op_Output el"
  by (simp_all add: call_entry_def ret_entry_def)

lemma call_neq_ret [simp]: "call_entry i a \<noteq> ret_entry j b" "ret_entry j b \<noteq> call_entry i a"
  by (metis entry_kind.distinct(1) entry_sel(1,2))+

lemma loop_eq:
  "makeEntries_loop k (el # history) = call_entry k el # ret_entry k el # makeEntries_loop (k + 1) history"
  by (simp add: call_entry_def ret_entry_def)

lemma set_loop:
  "set (makeEntries_loop k history) =
     (\<lambda>j. call_entry (k + int j) (history ! j)) ` {..<length history} \<union> (\<lambda>j. ret_entry (k + int j) (history ! j)) ` {..<length history}"
proof (induction history arbitrary: k)
  case (Cons el history)
  have "{..<length (el # history)} = insert 0 (Suc ` {..<length history})"
    by (auto simp: image_iff gr0_conv_Suc less_Suc_eq_0_disj)
  then show ?case
    unfolding loop_eq using Cons[of "k + 1"] by (simp add: image_image add.commute add.left_commute insert_commute)
qed simp

lemma length_loop [simp]: "length (makeEntries_loop k history) = 2 * length history"
  by (induction history arbitrary: k) (simp_all del: makeEntries_loop.simps(2) add: loop_eq)

lemma distinct_loop: "distinct (map (\<lambda>e. (en_id e, en_kind e)) (makeEntries_loop k history))"
proof (induction history arbitrary: k)
  case (Cons el history)
  have "k < en_id e" if "e \<in> set (makeEntries_loop (k + 1) history)" for e
    using that unfolding set_loop by auto
  then show ?case
    unfolding loop_eq using Cons[of "k + 1"] by auto
qed simp

lemma makeEntries_mem:
  assumes "sorts srt"
  shows "e \<in> set (makeEntries srt history) \<longleftrightarrow>
      (\<exists>j<length history. e = call_entry (int j) (history ! j) \<or> e = ret_entry (int j) (history ! j))"
proof -
  have "set (makeEntries srt history) = set (makeEntries_loop 0 history)"
    using assms unfolding sorts_def makeEntries_def by (metis set_mset_mset)
  then show ?thesis
    unfolding set_loop by auto
qed

lemma makeEntries_length: "sorts srt \<Longrightarrow> length (makeEntries srt history) = 2 * length history"
  unfolding sorts_def makeEntries_def by (metis length_loop size_mset)

lemma makeEntries_distinct:
  assumes "sorts srt"
  shows "distinct (map (\<lambda>e. (en_id e, en_kind e)) (makeEntries srt history))"
proof -
  have "mset (map (\<lambda>e. (en_id e, en_kind e)) (makeEntries srt history)) =
      mset (map (\<lambda>e. (en_id e, en_kind e)) (makeEntries_loop 0 history))"
    using assms unfolding sorts_def makeEntries_def by simp
  then show ?thesis
    using distinct_loop mset_eq_imp_distinct_iff by blast
qed

lemma makeEntries_ids:
  assumes "sorts srt"
  shows "en_id ` set (makeEntries srt history) = {0..<int (length history)}"
proof -
  have "i \<in> en_id ` set (makeEntries srt history)" if "0 \<le> i" "i < int (length history)" for i
    using makeEntries_mem[OF assms, of "call_entry i (history ! nat i)" history] that
    by (intro image_eqI[of _ _ "call_entry i (history ! nat i)"]) (auto intro!: exI[of _ "nat i"])
  then show ?thesis
    using makeEntries_mem[OF assms] by fastforce
qed

lemma makeEntries_order:
  assumes s: "sorts srt" and p: "p < length (makeEntries srt history)" "q < length (makeEntries srt history)"
    and k: "en_kind (makeEntries srt history ! p) = CallEntry" "en_kind (makeEntries srt history ! q) = ReturnEntry"
  shows "q < p \<longleftrightarrow> op_bef history (en_id (makeEntries srt history ! q)) (en_id (makeEntries srt history ! p))"
proof -
  let ?es = "makeEntries srt history"
  have sw: "sorted_wrt (\<lambda>a b. \<not> byTime_Less b a) ?es"
    using s unfolding sorts_def makeEntries_def by blast
  have sorted: "\<not> byTime_Less (?es ! j) (?es ! i)" if "i < j" "j < length ?es" for i j
    using sorted_wrt_nth_less[OF sw that] .
  obtain i where i: "i < length history" "?es ! p = call_entry (int i) (history ! i)"
    using makeEntries_mem[OF s, of "?es ! p" history] nth_mem[OF p(1)] k(1) by auto
  obtain j where j: "j < length history" "?es ! q = ret_entry (int j) (history ! j)"
    using makeEntries_mem[OF s, of "?es ! q" history] nth_mem[OF p(2)] k(2) by auto
  have less: "byTime_Less (?es ! p) (?es ! q) \<longleftrightarrow> op_Call (history ! i) \<le> op_Return (history ! j)"
    "byTime_Less (?es ! q) (?es ! p) \<longleftrightarrow> op_Return (history ! j) < op_Call (history ! i)"
    by (auto simp: byTime_Less_def i(2) j(2))
  have bef: "op_bef history (en_id (?es ! q)) (en_id (?es ! p)) \<longleftrightarrow> op_Return (history ! j) < op_Call (history ! i)"
    by (simp add: op_bef_def i(2) j(2))
  have "p \<noteq> q"
    using k by auto
  then show ?thesis
    unfolding bef using sorted[of q p] sorted[of p q] p less by (cases "q < p") auto
qed

lemma makeEntries_wf:
  assumes s: "sorts srt" and t: "well_timed history"
  shows "wf_entries (makeEntries srt history)"
proof -
  let ?es = "makeEntries srt history"
  have at: "\<exists>q<length ?es. ?es ! q = e" if "e \<in> set ?es" for e
    using that by (simp add: in_set_conv_nth)
  have own: "\<not> op_bef history (int i) (int i)" if "i < length history" for i
    using t that unfolding well_timed_def op_bef_def by (auto simp: not_less)
  have "\<exists>q>p. q < length ?es \<and> en_kind (?es ! q) = ReturnEntry \<and> en_id (?es ! q) = en_id (?es ! p)"
    if p: "p < length ?es" "en_kind (?es ! p) = CallEntry" for p
  proof -
    obtain i where i: "i < length history" "?es ! p = call_entry (int i) (history ! i)"
      using makeEntries_mem[OF s, of "?es ! p" history] nth_mem[OF p(1)] p(2) by auto
    obtain q where q: "q < length ?es" "?es ! q = ret_entry (int i) (history ! i)"
      using at[of "ret_entry (int i) (history ! i)"] makeEntries_mem[OF s, of "ret_entry (int i) (history ! i)" history] i(1) by auto
    have "\<not> q < p" "p \<noteq> q"
      using makeEntries_order[OF s p(1) q(1)] p(2) q(2) i own[of i] by auto
    then show ?thesis
      using q i by (intro exI[of _ q]) auto
  qed
  moreover have "\<exists>p<q. en_kind (?es ! p) = CallEntry \<and> en_id (?es ! p) = en_id (?es ! q)"
    if q: "q < length ?es" "en_kind (?es ! q) = ReturnEntry" for q
  proof -
    obtain i where i: "i < length history" "?es ! q = ret_entry (int i) (history ! i)"
      using makeEntries_mem[OF s, of "?es ! q" history] nth_mem[OF q(1)] q(2) by auto
    obtain p where p: "p < length ?es" "?es ! p = call_entry (int i) (history ! i)"
      using at[of "call_entry (int i) (history ! i)"] makeEntries_mem[OF s, of "call_entry (int i) (history ! i)" history] i(1) by auto
    have "\<not> q < p" "p \<noteq> q"
      using makeEntries_order[OF s p(1) q(1)] q(2) p(2) i own[of i] by auto
    then show ?thesis
      using p i by (intro exI[of _ p]) auto
  qed
  moreover have "0 \<le> en_id e \<and> en_id e < int (length ?es div 2)" if "e \<in> set ?es" for e
    using makeEntries_ids[OF s, of history] that makeEntries_length[OF s, of history] by force
  ultimately show ?thesis
    unfolding wf_entries_def using makeEntries_distinct[OF s, of history] by blast
qed

lemma makeEntries_desc:
  assumes s: "sorts srt"
  shows "entries_desc (makeEntries srt history) (op_inp history) (op_out history) (op_bef history)"
  unfolding entries_desc_def
proof (intro conjI ballI allI impI)
  fix e assume "e \<in> set (makeEntries srt history)"
  then show "en_value e = (if en_kind e = CallEntry then op_inp history (en_id e) else op_out history (en_id e))"
    using makeEntries_mem[OF s, of e history] by (auto simp: op_inp_def op_out_def)
qed (use makeEntries_order[OF s] in blast)

text \<open>The steps of a model on the operations of a history do not panic.\<close>

definition step_total :: "('v, 's) pc_model \<Rightarrow> 'v operation list \<Rightarrow> bool" where
  "step_total model history \<longleftrightarrow> (\<forall>opn\<in>set history. \<forall>s. mo_Step model s (op_Input opn) (op_Output opn) \<noteq> None)"

lemma checkSingle_operations:
  assumes s: "sorts srt" and t: "well_timed history" and total: "step_total model history"
    and eq: "mo_Equal model = Some eq" "equal_ok model eq"
  shows "\<exists>longest seqs. checkSingle model (makeEntries srt history) computePartial (\<lambda>_. False) =
      Some (linearizable model history, longest, seqs) \<and> length longest = length history \<and>
    (\<forall>a. Some a \<in> set longest \<longrightarrow> a < length seqs \<and> linearization model history (seqs ! a)) \<and>
    (linearizable model history \<longrightarrow> (\<forall>l\<in>set longest. \<exists>a. l = Some a \<and> set (seqs ! a) = {0..<int (length history)}))"
proof -
  have "mo_Step model st (op_inp history i) (op_out history i) \<noteq> None" if "i \<in> {0..<int (length history)}" for i st
    using total that unfolding step_total_def op_inp_def op_out_def by (auto dest!: bspec[of _ _ "history ! nat i"])
  then show ?thesis
    using checkSingle_entries[OF makeEntries_wf[OF s t] makeEntries_desc[OF s] eq, of computePartial]
    unfolding makeEntries_ids[OF s] makeEntries_length[OF s] linearizable_def linearization_def by simp
qed

section \<open>All partitions\<close>

text \<open>
  A schedule in which the results of all partitions arrive, each once. A run of the loop reads
  a prefix of it.
\<close>

definition all_arrive :: "nat \<Rightarrow> select_event list \<Rightarrow> bool" where
  "all_arrive len sched \<longleftrightarrow> (\<exists>order. sched = map GotResult order \<and> distinct order \<and> set order = {..<len})"

lemma select_loop_arrive:
  "distinct (received @ order) \<Longrightarrow> set (received @ order) = {..<len} \<Longrightarrow> order \<noteq> [] \<Longrightarrow>
   (\<forall>i<len. results i = Some (v i)) \<Longrightarrow>
   \<exists>received'. select_loop results timeout computeInfo len (map GotResult order) received ok =
     Some (Returns (ok \<and> (\<forall>i\<in>set order. v i), False, received'))"
proof (induction order arbitrary: received ok)
  case (Cons i order)
  have i: "i < len" "i \<notin> set received" "results i = Some (v i)"
    using Cons.prems by auto
  have len: "length received + Suc (length order) = len"
    using distinct_card[OF Cons.prems(1)] Cons.prems(2) by simp
  show ?case
  proof (cases "order = []")
    case True
    then show ?thesis
      using i len by (auto simp: Let_def)
  next
    case False
    then have "\<not> len \<le> Suc (length received)"
      using len by (cases order) auto
    moreover have "distinct ((received @ [i]) @ order)" "set ((received @ [i]) @ order) = {..<len}"
      using Cons.prems by auto
    note IH = Cons.IH[OF this False Cons.prems(4), of "ok \<and> v i"]
    ultimately show ?thesis
      using i IH by (auto simp: Let_def)
  qed
qed simp

lemma select_loop_all:
  assumes "all_arrive len sched" "0 < len" "\<forall>i<len. results i = Some (v i)"
  shows "\<exists>received. select_loop results timeout computeInfo len sched [] True = Some (Returns (\<forall>i<len. v i, False, received))"
proof -
  obtain order where o: "sched = map GotResult order" "distinct order" "set order = {..<len}"
    using assms(1) unfolding all_arrive_def by blast
  have "set order \<noteq> {}"
    unfolding o(3) using assms(2) by blast
  then have ne: "order \<noteq> []"
    by simp
  have "distinct ([] @ order)" "set ([] @ order) = {..<len}"
    using o(2,3) by simp_all
  from select_loop_arrive[OF this ne assms(3), of timeout computeInfo True] show ?thesis
    unfolding o(1,3) by (simp add: Ball_def)
qed

lemma map_selected_Returns:
  assumes "map_selected f x = Returns y"
  obtains z where "x = Returns z" "f z = y"
  using assms by (cases x) auto

lemma checkParallel_all:
  assumes "all_arrive (length l) sched" "l \<noteq> []"
    and "\<And>i. i < length l \<Longrightarrow> map_option fst (checkSingle model (l ! i) False (\<lambda>_. False)) = Some (v i)"
  shows "map_option (map_selected fst) (checkParallel visit sched kill model l False timeout) =
    Some (Returns (if \<forall>i<length l. v i then CheckOk else CheckIllegal))"
proof -
  let ?res = "\<lambda>i. map_option fst (checkSingle model (l ! i) False (\<lambda>_. False))"
  have "\<exists>received. select_loop ?res (timeout > 0) False (length l) sched [] True = Some (Returns (\<forall>i<length l. v i, False, received))"
    using assms by (intro select_loop_all) auto
  then obtain received where
    "select_loop ?res (timeout > 0) False (length l) sched [] True = Some (Returns (\<forall>i<length l. v i, False, received))"
    by blast
  then show ?thesis
    unfolding checkParallel_def by (simp add: Let_def)
qed

lemma fillDefault_sel [simp]:
  "mo_Init (fillDefault model) = mo_Init model" "mo_Step (fillDefault model) = mo_Step model"
  by (simp_all add: fillDefault_def Let_def)

lemma accepts_fillDefault [simp]: "accepts (fillDefault model) s ops = accepts model s ops"
  by (induction ops arbitrary: s) (auto split: option.splits bool.splits)

lemma linearizable_fillDefault [simp]: "linearizable (fillDefault model) history = linearizable model history"
  by (simp add: linearizable_def linearization_def partial_lin_def)

lemma step_total_fillDefault [simp]: "step_total (fillDefault model) history = step_total model history"
  by (simp add: step_total_def)

lemma equal_ok_fillDefault [simp]: "equal_ok (fillDefault model) eq = equal_ok model eq"
  by (simp add: equal_ok_def)

section \<open>The contract of a model\<close>

text \<open>
  What the checker needs of a model: its equality, the default one if it has none, relates
  only states with the same steps.
\<close>

locale porcupine_model =
  fixes model :: "('v, 's) pc_model" and eq :: "'s \<Rightarrow> 's \<Rightarrow> bool"
  assumes equal: "mo_Equal (fillDefault model) = Some eq"
    and congruence: "equal_ok model eq"
begin

lemma partition_verdict:
  assumes "sorts srt" "well_timed history" "step_total model history"
  shows "map_option fst (checkSingle (fillDefault model) (makeEntries srt history) False (\<lambda>_. False)) =
    Some (linearizable model history)"
  using checkSingle_operations[OF assms(1,2), of "fillDefault model" eq False] assms(3) equal congruence by auto

lemma check_partitions:
  assumes s: "sorts srt" and part: "mo_Partition (fillDefault model) = Some part" "part history = Some partitions" "partitions \<noteq> []"
    and ok: "\<forall>h\<in>set partitions. well_timed h \<and> step_total model h"
    and sched: "all_arrive (length partitions) sched"
  shows "CheckOperations visit sched kill srt model history = Some (Returns (\<forall>h\<in>set partitions. linearizable model h))"
proof -
  let ?m = "fillDefault model"
  let ?l = "map (makeEntries srt) partitions"
  have "map_option fst (checkSingle ?m (?l ! i) False (\<lambda>_. False)) = Some (linearizable model (partitions ! i))"
    if "i < length ?l" for i
    using partition_verdict[OF s, of "partitions ! i"] ok that by simp
  then have "map_option (map_selected fst) (checkParallel visit sched kill ?m ?l False 0) =
      Some (Returns (if \<forall>i<length ?l. linearizable model (partitions ! i) then CheckOk else CheckIllegal))"
    using sched part(3) by (intro checkParallel_all) simp_all
  moreover have "(\<forall>i<length ?l. linearizable model (partitions ! i)) \<longleftrightarrow> (\<forall>h\<in>set partitions. linearizable model h)"
    by (simp add: all_set_conv_all_nth)
  ultimately obtain info where "checkParallel visit sched kill ?m ?l False 0 =
      Some (Returns (if \<forall>h\<in>set partitions. linearizable model h then CheckOk else CheckIllegal, info))"
    by (auto elim: map_selected_Returns)
  then show ?thesis
    using part(1,2) by (simp add: CheckOperations_def checkOperations_def)
qed

end

text \<open>Without a partition and a timeout no event can occur.\<close>

lemma CheckOperations_no_partitions:
  assumes "mo_Partition (fillDefault model) = Some part" "part history = Some []"
  shows "CheckOperations visit sched kill srt model history = Some (if sched = [] then Waits else Impossible)"
proof -
  have "select_loop results False False 0 sched received ok = Some (if sched = [] then Waits else Impossible)"
    for results received ok
    by (cases "(results, False, False, 0 :: nat, sched, received, ok)" rule: select_loop.cases) auto
  then show ?thesis
    using assms by (simp add: CheckOperations_def checkOperations_def checkParallel_def)
qed

end
