(* ===== verification/Porcupine_Kv.thy ===== *)
theory Porcupine_Kv
  imports Porcupine_Operations "HOL-Library.List_Lexorder" "HOL-Library.Char_ord"
begin

text \<open>
  The model of the key/value store that the tests give the linearizability checker
  (\<^verbatim>\<open>src/src/models/kv.go\<close>), which treats every key alone, and the proof that checking the keys
  one by one decides linearizability of the whole store.
\<close>

section \<open>The model\<close>

record kv_input =
  ki_Op :: "8 word"
  ki_Key :: string
  ki_Value :: string

record kv_output =
  ko_Value :: string

datatype kv_value = KvIn kv_input | KvOut kv_output

text \<open>The type assertions \<open>.(KvInput)\<close> and \<open>.(KvOutput)\<close>, which panic on another type.\<close>

definition as_input :: "kv_value iface \<Rightarrow> kv_input option" where
  "as_input v = (case v of Some (KvIn i) \<Rightarrow> Some i | _ \<Rightarrow> None)"

definition as_output :: "kv_value iface \<Rightarrow> kv_output option" where
  "as_output v = (case v of Some (KvOut out) \<Rightarrow> Some out | _ \<Rightarrow> None)"

fun group_loop :: "(string, kv_value operation list) go_map \<Rightarrow> kv_value operation list \<Rightarrow>
    (string, kv_value operation list) go_map option" where
  "group_loop m [] = Some m"
| "group_loop m (v # history) = do {
     inp \<leftarrow> as_input (op_Input v);
     let key = ki_Key inp;
     group_loop (AList.update key (gm_get [] m key @ [v]) m) history }"

definition kv_Partition :: "kv_value operation list \<Rightarrow> kv_value operation list list option" where
  "kv_Partition history = do {
     m \<leftarrow> group_loop [] history;
     let keys = sort (map fst m);
     Some (map (\<lambda>k. gm_get [] m k) keys) }"

definition kv_Step :: "string \<Rightarrow> kv_value iface \<Rightarrow> kv_value iface \<Rightarrow> (bool \<times> string) option" where
  "kv_Step st input output = do {
     inp \<leftarrow> as_input input;
     out \<leftarrow> as_output output;
     if ki_Op inp = 0 then Some (ko_Value out = st, st)
     else if ki_Op inp = 1 then Some (True, ki_Value inp)
     else Some (True, st @ ki_Value inp) }"

definition KvModel :: "(kv_value, string) pc_model" where
  "KvModel = \<lparr>mo_Partition = Some kv_Partition, mo_PartitionEvent = None, mo_Init = [], mo_Step = kv_Step, mo_Equal = None\<rparr>"

interpretation kv_model: porcupine_model KvModel ShallowEqual
  by unfold_locales (simp_all add: fillDefault_def KvModel_def equal_ok_def ShallowEqual_def)

section \<open>Partitions by key\<close>

definition kv_key :: "kv_value operation \<Rightarrow> string" where
  "kv_key opn = (case as_input (op_Input opn) of Some i \<Rightarrow> ki_Key i | None \<Rightarrow> [])"

definition kv_typed :: "kv_value operation list \<Rightarrow> bool" where
  "kv_typed history \<longleftrightarrow> (\<forall>opn\<in>set history. as_input (op_Input opn) \<noteq> None \<and> as_output (op_Output opn) \<noteq> None)"

definition on_key :: "string \<Rightarrow> kv_value operation list \<Rightarrow> kv_value operation list" where
  "on_key k history = filter (\<lambda>opn. kv_key opn = k) history"

lemma group_loop_eq:
  assumes "kv_typed history" "gm_ok m"
  shows "\<exists>m'. group_loop m history = Some m' \<and> gm_ok m' \<and> gm_keys m' = gm_keys m \<union> kv_key ` set history \<and>
    (\<forall>k. gm_get [] m' k = gm_get [] m k @ on_key k history)"
  using assms
proof (induction history arbitrary: m)
  case (Cons v history)
  obtain i where i: "as_input (op_Input v) = Some i" "kv_key v = ki_Key i"
    using Cons.prems(1) by (auto simp: kv_typed_def kv_key_def)
  let ?m = "AList.update (ki_Key i) (gm_get [] m (ki_Key i) @ [v]) m"
  have "kv_typed history" "gm_ok ?m"
    using Cons.prems by (auto simp: kv_typed_def distinct_update)
  from Cons.IH[OF this] show ?case
    using i by (auto simp: on_key_def)
qed (simp add: on_key_def)

lemma kv_Partition_eq:
  assumes "kv_typed history"
  shows "\<exists>keys. kv_Partition history = Some (map (\<lambda>k. on_key k history) keys) \<and> distinct keys \<and> set keys = kv_key ` set history"
proof -
  obtain m where m: "group_loop [] history = Some m" "gm_ok m" "gm_keys m = kv_key ` set history"
    "\<forall>k. gm_get [] m k = on_key k history"
    using group_loop_eq[OF assms, of "[]"] by auto
  then show ?thesis
    by (intro exI[of _ "sort (map fst m)"]) (simp add: kv_Partition_def)
qed

section \<open>Linearizations as sequences of operations\<close>

definition respects_time :: "'v operation list \<Rightarrow> bool" where
  "respects_time ops \<longleftrightarrow> sorted_wrt (\<lambda>a b. \<not> op_Return b < op_Call a) ops"

abbreviation io :: "'v operation list \<Rightarrow> ('v iface \<times> 'v iface) list" where
  "io ops \<equiv> map (\<lambda>opn. (op_Input opn, op_Output opn)) ops"

lemma mset_indices:
  "mset ops = mset history \<Longrightarrow> \<exists>p. distinct p \<and> set p = {..<length history} \<and> map (\<lambda>i. history ! i) p = ops"
proof (induction ops arbitrary: history)
  case (Cons x ops)
  then obtain us vs where h: "history = us @ x # vs"
    by (metis in_set_conv_decomp list.set_intros(1) set_mset_mset)
  have "mset ops = mset (us @ vs)"
    using Cons.prems h by simp
  from Cons.IH[OF this] obtain p where p: "distinct p" "set p = {..<length (us @ vs)}" "map (\<lambda>i. (us @ vs) ! i) p = ops"
    by blast
  let ?sh = "\<lambda>i. if i < length us then i else Suc i"
  have "distinct (length us # map ?sh p)"
    using p(1) by (auto simp: distinct_map inj_on_def split: if_splits)
  moreover have "set (length us # map ?sh p) = {..<length history}"
  proof (intro set_eqI iffI)
    fix i assume "i \<in> {..<length history}"
    then show "i \<in> set (length us # map ?sh p)"
      using p(2) h by (cases i "length us" rule: linorder_cases)
        (auto simp: image_iff intro: bexI[of _ i] bexI[of _ "i - 1"])
  next
    fix i assume "i \<in> set (length us # map ?sh p)"
    then consider "i = length us" | j where "j \<in> set p" "i = ?sh j"
      by auto
    then show "i \<in> {..<length history}"
      using p(2) h by cases auto
  qed
  moreover have "history ! ?sh i = (us @ vs) ! i" for i
    by (simp add: h nth_append Suc_diff_le)
  then have "map (\<lambda>i. history ! i) (length us # map ?sh p) = x # ops"
    unfolding p(3)[symmetric] by (simp add: h comp_def)
  ultimately show ?case
    by (intro exI[of _ "length us # map ?sh p"] conjI)
qed simp

lemma int_range: "int ` {..<n} = {0..<int n}"
  using image_int_atLeastLessThan[of 0 n] by (simp add: atLeast0LessThan)

lemma linearizable_iff:
  "linearizable model history \<longleftrightarrow>
     (\<exists>ops. mset ops = mset history \<and> respects_time ops \<and> accepts model (mo_Init model) (io ops))"
proof
  assume "linearizable model history"
  then obtain p where p: "distinct p" "set p = {0..<int (length history)}"
    "sorted_wrt (\<lambda>i j. \<not> op_bef history j i) p"
    "accepts model (mo_Init model) (map (\<lambda>i. (op_inp history i, op_out history i)) p)"
    unfolding linearizable_def linearization_def partial_lin_def by blast
  let ?ops = "map (\<lambda>i. history ! nat i) p"
  have "mset p = mset_set (set p)"
    using p(1) by (simp add: mset_set_set)
  also have "\<dots> = image_mset int (mset_set {..<length history})"
    by (simp add: p(2) image_mset_mset_set flip: int_range)
  finally have "mset ?ops = image_mset (\<lambda>i. history ! i) (mset_set {..<length history})"
    by (simp add: multiset.map_comp comp_def)
  also have "\<dots> = mset history"
    by (metis atLeast0LessThan map_nth mset_map mset_upt)
  finally have "mset ?ops = mset history" .
  moreover have "respects_time ?ops"
    using p(3) unfolding respects_time_def op_bef_def by (simp add: sorted_wrt_map)
  moreover have "accepts model (mo_Init model) (io ?ops)"
    using p(4) unfolding op_inp_def op_out_def by (simp add: comp_def)
  ultimately show "\<exists>ops. mset ops = mset history \<and> respects_time ops \<and> accepts model (mo_Init model) (io ops)"
    by blast
next
  assume "\<exists>ops. mset ops = mset history \<and> respects_time ops \<and> accepts model (mo_Init model) (io ops)"
  then obtain ops where m: "mset ops = mset history" and o: "respects_time ops" "accepts model (mo_Init model) (io ops)"
    by (elim exE conjE)
  obtain p where p: "distinct p" "set p = {..<length history}" "map (\<lambda>i. history ! i) p = ops"
    using mset_indices[OF m] by (elim exE conjE)
  have all: "set (map int p) = {0..<int (length history)}"
    using p(2) by (simp add: int_range)
  have "partial_lin model (mo_Init model) {0..<int (length history)} (op_inp history) (op_out history) (op_bef history) (map int p)"
    unfolding partial_lin_def
  proof (intro conjI)
    show "distinct (map int p)"
      using p(1) by (simp add: distinct_map)
    show "sorted_wrt (\<lambda>i j. \<not> op_bef history j i) (map int p)"
      using o(1) unfolding p(3)[symmetric] respects_time_def op_bef_def by (simp add: sorted_wrt_map)
    show "accepts model (mo_Init model) (map (\<lambda>i. (op_inp history i, op_out history i)) (map int p))"
      using o(2) unfolding p(3)[symmetric] op_inp_def op_out_def by (simp add: comp_def)
  qed (use all in simp_all)
  with all have "\<exists>p. linearization model history p \<and> set p = {0..<int (length history)}"
    unfolding linearization_def by (intro exI[of _ "map int p"] conjI)
  then show "linearizable model history"
    unfolding linearizable_def .
qed

section \<open>Checking key by key\<close>

text \<open>
  The store as a whole: a value for every key, empty at first; a get returns the value of its
  key, a put replaces it and an append extends it.
\<close>

definition store_Step :: "(string \<Rightarrow> string) \<Rightarrow> kv_value iface \<Rightarrow> kv_value iface \<Rightarrow> (bool \<times> (string \<Rightarrow> string)) option" where
  "store_Step st input output = do {
     inp \<leftarrow> as_input input;
     out \<leftarrow> as_output output;
     let key = ki_Key inp;
     if ki_Op inp = 0 then Some (ko_Value out = st key, st)
     else if ki_Op inp = 1 then Some (True, st(key := ki_Value inp))
     else Some (True, st(key := st key @ ki_Value inp)) }"

definition StoreModel :: "(kv_value, string \<Rightarrow> string) pc_model" where
  "StoreModel = \<lparr>mo_Partition = None, mo_PartitionEvent = None, mo_Init = (\<lambda>_. []), mo_Step = store_Step, mo_Equal = None\<rparr>"

lemma store_step_key:
  assumes "as_input (op_Input opn) \<noteq> None"
  shows "mo_Step StoreModel st (op_Input opn) (op_Output opn) =
    map_option (\<lambda>(ok, v). (ok, st(kv_key opn := v))) (mo_Step KvModel (st (kv_key opn)) (op_Input opn) (op_Output opn))"
  using assms by (cases "as_output (op_Output opn)")
    (auto simp: StoreModel_def KvModel_def store_Step_def kv_Step_def kv_key_def Let_def)

lemma accepts_Cons_iff:
  "accepts model s (io (opn # ops)) \<longleftrightarrow>
     (\<exists>s'. mo_Step model s (op_Input opn) (op_Output opn) = Some (True, s') \<and> accepts model s' (io ops))"
  by (auto split: option.splits prod.splits bool.splits)

lemma accepts_on_key:
  "kv_typed ops \<Longrightarrow> accepts StoreModel st (io ops) \<Longrightarrow> accepts KvModel (st k) (io (on_key k ops))"
proof (induction ops arbitrary: st)
  case (Cons opn ops)
  have ty: "as_input (op_Input opn) \<noteq> None" "kv_typed ops"
    using Cons.prems(1) by (auto simp: kv_typed_def)
  obtain v where v: "mo_Step KvModel (st (kv_key opn)) (op_Input opn) (op_Output opn) = Some (True, v)"
    "accepts StoreModel (st(kv_key opn := v)) (io ops)"
    using Cons.prems(2) unfolding accepts_Cons_iff store_step_key[OF ty(1)] by auto
  from Cons.IH[OF ty(2) v(2)] have "accepts KvModel ((st(kv_key opn := v)) k) (io (on_key k ops))" .
  then show ?case
    using v(1) by (cases "kv_key opn = k") (simp_all add: on_key_def del: accepts.simps(2) list.map(2) add: accepts_Cons_iff)
qed (simp add: on_key_def)

text \<open>
  Linearizations of the single keys can be merged: of the operations still to be placed, take
  the one that returns first; the first operation left on its key was called before that, so
  nothing left returned before it was called.
\<close>

text \<open>
  One of the sequences of the keys begins with an operation that may come first of all: the
  operation that returns first is behind the head of the sequence of its key, or is that head.
\<close>

lemma first_operation:
  assumes "M \<noteq> {#}" "\<forall>opn\<in>#M. op_Call opn \<le> op_Return opn"
    and f: "\<forall>k. mset (f k) = filter_mset (\<lambda>opn. kv_key opn = k) M" and "\<forall>k. respects_time (f k)"
  obtains h t where "f (kv_key h) = h # t" "h \<in># M" "\<forall>y\<in>#M. \<not> op_Return y < op_Call h"
proof -
  obtain x where x: "x \<in># M" "\<forall>y\<in>#M. op_Return x \<le> op_Return y"
    using ex_min_if_finite[of "op_Return ` set_mset M"] assms(1) by (auto simp: not_less)
  have "x \<in># mset (f (kv_key x))"
    using f x(1) by simp
  then obtain h t where ht: "f (kv_key x) = h # t" and xht: "x = h \<or> x \<in> set t"
    by (cases "f (kv_key x)") auto
  have "h \<in># filter_mset (\<lambda>opn. kv_key opn = kv_key x) M"
    using f ht by (metis list.set_intros(1) set_mset_mset)
  then have hM: "h \<in># M" "kv_key h = kv_key x"
    by simp_all
  have "op_Call h \<le> op_Return x"
    using xht
  proof
    assume "x \<in> set t"
    then show ?thesis
      using assms(4)[rule_format, of "kv_key x"] unfolding ht respects_time_def by auto
  qed (use assms(2) hM(1) in blast)
  then have "\<forall>y\<in>#M. \<not> op_Return y < op_Call h"
    using x(2) by fastforce
  with that[of h t] hM ht show thesis
    by simp
qed

lemma filter_mset_tail:
  assumes "\<forall>k. mset (f k) = filter_mset (\<lambda>x. g x = k) M" "f (g h) = h # t"
  shows "mset ((f(g h := t)) k) = filter_mset (\<lambda>x. g x = k) (M - {#h#})"
proof (cases "k = g h")
  case True
  have "add_mset h (mset t) = filter_mset (\<lambda>x. g x = k) M"
    using assms(1)[rule_format, of k] assms(2) True by simp
  then have "mset t = filter_mset (\<lambda>x. g x = k) M - {#h#}"
    by (metis add_mset_remove_trivial)
  then show ?thesis
    using True by simp
qed (use assms(1)[rule_format, of k] in auto)

lemma merge_keys:
  assumes "\<forall>opn\<in>#M. as_input (op_Input opn) \<noteq> None \<and> op_Call opn \<le> op_Return opn"
    and "\<forall>k. mset (f k) = filter_mset (\<lambda>opn. kv_key opn = k) M"
    and "\<forall>k. respects_time (f k) \<and> accepts KvModel (st k) (io (f k))"
  shows "\<exists>ops. mset ops = M \<and> respects_time ops \<and> accepts StoreModel st (io ops)"
  using assms
proof (induction "size M" arbitrary: M f st)
  case 0
  then show ?case
    by (intro exI[of _ "[]"]) (simp add: respects_time_def)
next
  case (Suc n)
  have "M \<noteq> {#}"
    using Suc.hyps(2) by auto
  then obtain h t where ht: "f (kv_key h) = h # t" and hM: "h \<in># M" and first: "\<forall>y\<in>#M. \<not> op_Return y < op_Call h"
    by (rule first_operation[of M f]) (use Suc.prems in auto)
  let ?k = "kv_key h"
  obtain v where v: "mo_Step KvModel (st ?k) (op_Input h) (op_Output h) = Some (True, v)" "accepts KvModel v (io t)"
    using Suc.prems(3)[rule_format, of ?k] unfolding ht accepts_Cons_iff by blast
  let ?M = "M - {#h#}"
  let ?f = "f(?k := t)"
  let ?st = "st(?k := v)"
  have "n = size ?M"
    using Suc.hyps(2) hM by (simp add: size_Diff_singleton)
  moreover have "\<forall>opn\<in>#?M. as_input (op_Input opn) \<noteq> None \<and> op_Call opn \<le> op_Return opn"
    using Suc.prems(1) by (meson in_diffD)
  moreover have "\<forall>k. mset (?f k) = filter_mset (\<lambda>opn. kv_key opn = k) ?M"
    using filter_mset_tail[OF Suc.prems(2) ht] by blast
  moreover have "\<forall>k. respects_time (?f k) \<and> accepts KvModel (?st k) (io (?f k))"
  proof
    fix k
    show "respects_time (?f k) \<and> accepts KvModel (?st k) (io (?f k))"
      using Suc.prems(3)[rule_format, of k] ht v(2) by (cases "k = ?k") (simp_all add: respects_time_def)
  qed
  ultimately obtain ops where ops: "mset ops = ?M" "respects_time ops" "accepts StoreModel ?st (io ops)"
    using Suc.hyps(1)[of ?M ?f ?st] by blast
  have "mset (h # ops) = M"
    using ops(1) hM by simp
  moreover have "respects_time (h # ops)"
  proof -
    have "y \<in># M" if "y \<in> set ops" for y
      using in_diffD[of y M "{#h#}"] that unfolding ops(1)[symmetric] by simp
    then show ?thesis
      using ops(2) first unfolding respects_time_def by simp
  qed
  moreover have "as_input (op_Input h) \<noteq> None"
    using Suc.prems(1) hM by blast
  then have "accepts StoreModel st (io (h # ops))"
    unfolding accepts_Cons_iff using store_step_key[of h st] v(1) ops(3) by (intro exI[of _ ?st]) simp
  ultimately show ?case
    by blast
qed

lemma linearizable_by_key:
  assumes ty: "kv_typed history" and t: "well_timed history"
  shows "(\<forall>k. linearizable KvModel (on_key k history)) \<longleftrightarrow> linearizable StoreModel history"
proof
  assume "linearizable StoreModel history"
  then obtain ops where ops: "mset ops = mset history" "respects_time ops" "accepts StoreModel (\<lambda>_. []) (io ops)"
    unfolding linearizable_iff by (auto simp: StoreModel_def)
  have "kv_typed ops"
    using ty ops(1) unfolding kv_typed_def by (metis set_mset_mset)
  show "\<forall>k. linearizable KvModel (on_key k history)"
  proof
    fix k
    have "mset (on_key k ops) = mset (on_key k history)" "respects_time (on_key k ops)"
      using ops(1,2) by (simp_all add: on_key_def respects_time_def sorted_wrt_filter)
    moreover have "accepts KvModel (mo_Init KvModel) (io (on_key k ops))"
      using accepts_on_key[OF \<open>kv_typed ops\<close> ops(3), of k] by (simp add: KvModel_def)
    ultimately show "linearizable KvModel (on_key k history)"
      unfolding linearizable_iff by blast
  qed
next
  assume "\<forall>k. linearizable KvModel (on_key k history)"
  then have "\<forall>k. \<exists>ops. mset ops = filter_mset (\<lambda>opn. kv_key opn = k) (mset history) \<and>
      respects_time ops \<and> accepts KvModel [] (io ops)"
    unfolding linearizable_iff by (simp add: on_key_def KvModel_def)
  from choice[OF this] obtain f where f: "\<forall>k. mset (f k) = filter_mset (\<lambda>opn. kv_key opn = k) (mset history) \<and>
      respects_time (f k) \<and> accepts KvModel [] (io (f k))"
    by blast
  then show "linearizable StoreModel history"
    using merge_keys[of "mset history" f "\<lambda>_. []"] ty t
    unfolding linearizable_iff kv_typed_def well_timed_def by (simp add: StoreModel_def)
qed

section \<open>What the checker decides\<close>

lemma kv_Step_total: "as_input i = Some x \<Longrightarrow> as_output out = Some y \<Longrightarrow> kv_Step s i out \<noteq> None"
  by (auto simp: kv_Step_def)

lemma step_total_on_key: "kv_typed history \<Longrightarrow> step_total KvModel (on_key k history)"
  using kv_Step_total unfolding kv_typed_def step_total_def on_key_def KvModel_def by fastforce

lemma well_timed_on_key: "well_timed history \<Longrightarrow> well_timed (on_key k history)"
  by (simp add: well_timed_def on_key_def)

lemma fillDefault_Kv: "mo_Partition (fillDefault KvModel) = Some kv_Partition"
  by (simp add: fillDefault_def KvModel_def Let_def)

lemma partitions_ok:
  "kv_typed history \<Longrightarrow> well_timed history \<Longrightarrow>
   \<forall>h\<in>set (map (\<lambda>k. on_key k history) keys). well_timed h \<and> step_total KvModel h"
  using step_total_on_key well_timed_on_key by auto

lemma linearizable_Nil: "linearizable model []"
  unfolding linearizable_iff by (simp add: respects_time_def)

text \<open>
  (C3) The checker with the key/value model decides linearizability of the store. For a
  non-empty history of key/value operations, none of which returns before it is called, and
  whatever the order in which the results of the partitions arrive, \<open>CheckOperations\<close> returns,
  and returns true exactly if all operations, on all keys together, can be put into one order
  that respects real time and that a map from keys to strings could have executed. In
  particular checking every key alone loses nothing.
\<close>

theorem kv_check_decides:
  assumes "sorts srt" "kv_typed history" "well_timed history" "history \<noteq> []"
    and "all_arrive (card (kv_key ` set history)) sched"
  shows "CheckOperations visit sched kill srt KvModel history = Some (Returns (linearizable StoreModel history))"
proof -
  obtain keys where k: "kv_Partition history = Some (map (\<lambda>k. on_key k history) keys)" "distinct keys" "set keys = kv_key ` set history"
    using kv_Partition_eq[OF assms(2)] by blast
  let ?parts = "map (\<lambda>k. on_key k history) keys"
  have ne: "?parts \<noteq> []"
    using k(3) assms(4) by auto
  have "length ?parts = card (kv_key ` set history)"
    using distinct_card[OF k(2)] k(3) by simp
  then have arrive: "all_arrive (length ?parts) sched"
    using assms(5) by simp
  have "linearizable KvModel (on_key k' history)" if "k' \<notin> set keys" for k'
  proof -
    have "on_key k' history = []"
      using that k(3) by (auto simp: on_key_def filter_empty_conv)
    then show ?thesis
      by (simp add: linearizable_Nil)
  qed
  then have "(\<forall>h\<in>set ?parts. linearizable KvModel h) \<longleftrightarrow> (\<forall>k. linearizable KvModel (on_key k history))"
    by auto
  then show ?thesis
    using kv_model.check_partitions[OF assms(1) fillDefault_Kv k(1) ne partitions_ok[OF assms(2,3)] arrive, of visit kill]
      linearizable_by_key[OF assms(2,3)] by simp
qed

text \<open>A sorting function, and a history of a write and a concurrent read that sees it.\<close>

definition key_sort :: "'v sorter" where
  "key_sort le xs = sort_key (\<lambda>e. 2 * en_time e + (if en_kind e = CallEntry then 0 else 1)) xs"

lemma sorts_key_sort: "sorts key_sort"
proof -
  have "sorted_wrt (\<lambda>a b. 2 * en_time a + (if en_kind a = CallEntry then 0 else 1) \<le>
      2 * en_time b + (if en_kind b = CallEntry then 0 else 1 :: int)) (key_sort byTime_Less xs)" for xs :: "'a pc_entry list"
    using sorted_sort_key[of "\<lambda>e. 2 * en_time e + (if en_kind e = CallEntry then 0 else 1)" xs]
    unfolding key_sort_def sorted_map .
  then have "sorted_wrt (\<lambda>a b. \<not> byTime_Less b a) (key_sort byTime_Less xs)" for xs :: "'a pc_entry list"
    by (rule sorted_wrt_mono_rel[rotated]) (auto simp: byTime_Less_def split: if_splits)
  then show ?thesis
    unfolding sorts_def by (simp add: key_sort_def)
qed

definition ex_put :: "kv_value operation" where
  "ex_put = \<lparr>op_ClientId = 0, op_Input = Some (KvIn \<lparr>ki_Op = 1, ki_Key = ''x'', ki_Value = ''a''\<rparr>), op_Call = 0,
     op_Output = Some (KvOut \<lparr>ko_Value = ''''\<rparr>), op_Return = 3\<rparr>"

definition ex_get :: "kv_value operation" where
  "ex_get = \<lparr>op_ClientId = 1, op_Input = Some (KvIn \<lparr>ki_Op = 0, ki_Key = ''x'', ki_Value = ''''\<rparr>), op_Call = 1,
     op_Output = Some (KvOut \<lparr>ko_Value = ''a''\<rparr>), op_Return = 2\<rparr>"

lemma ex_history: "kv_typed [ex_get, ex_put]" "well_timed [ex_get, ex_put]" "kv_key ` set [ex_get, ex_put] = {''x''}"
  by (simp_all add: kv_typed_def well_timed_def kv_key_def as_input_def as_output_def ex_get_def ex_put_def)

lemma ex_linearizable: "linearizable StoreModel [ex_get, ex_put]" "linearizable KvModel [ex_get, ex_put]"
  unfolding linearizable_iff
  by (intro exI[of _ "[ex_put, ex_get]"] conjI; simp add: respects_time_def StoreModel_def KvModel_def store_Step_def kv_Step_def Let_def
      as_input_def as_output_def ex_get_def ex_put_def add_mset_commute)+

theorem kv_check_decides_witness:
  "CheckOperations id [GotResult 0] (\<lambda>_ _. False) key_sort KvModel [ex_get, ex_put] = Some (Returns True)"
proof -
  have "all_arrive (card (kv_key ` set [ex_get, ex_put])) [GotResult 0]"
    unfolding ex_history(3) all_arrive_def by (intro exI[of _ "[0]"]) auto
  then show ?thesis
    using kv_check_decides[OF sorts_key_sort ex_history(1,2), of "[GotResult 0]" id "\<lambda>_ _. False"] ex_linearizable(1) by simp
qed

text \<open>
  (C40) When \<open>CheckOperations\<close> returns. With the key/value model it returns on every non-empty
  history, for some order of arrival, and on no other: an empty history gives no partition, so no
  goroutine is started and no timeout is set, no event can ever occur, and the \<open>select\<close> of
  \<open>checkParallel\<close> waits for ever, without a panic.
\<close>

theorem kv_check_empty_blocks:
  assumes "sorts srt" "kv_typed history" "well_timed history"
  shows "((\<exists>sched b. CheckOperations visit sched kill srt KvModel history = Some (Returns b)) \<longleftrightarrow> history \<noteq> []) \<and>
    (history = [] \<longrightarrow> CheckOperations visit [] kill srt KvModel history = Some Waits \<and>
      (\<forall>ev sched. CheckOperations visit (ev # sched) kill srt KvModel history = Some Impossible))"
proof (cases "history = []")
  case True
  have "CheckOperations visit sched kill srt KvModel [] = Some (if sched = [] then Waits else Impossible)" for sched
    by (rule CheckOperations_no_partitions[OF fillDefault_Kv]) (simp add: kv_Partition_def)
  then show ?thesis
    using True by simp
next
  case False
  obtain keys where k: "kv_Partition history = Some (map (\<lambda>k. on_key k history) keys)" "set keys = kv_key ` set history"
    using kv_Partition_eq[OF assms(2)] by blast
  let ?parts = "map (\<lambda>k. on_key k history) keys"
  have ne: "?parts \<noteq> []"
    using k(2) False by auto
  have "all_arrive (length ?parts) (map GotResult [0..<length ?parts])"
    unfolding all_arrive_def by (intro exI[of _ "[0..<length ?parts]"]) auto
  from kv_model.check_partitions[OF assms(1) fillDefault_Kv k(1) ne partitions_ok[OF assms(2,3)] this, of visit kill]
  show ?thesis
    using False by blast
qed

text \<open>A history on which the checker returns, and the empty one.\<close>

theorem kv_check_empty_blocks_witness:
  "(\<exists>sched b. CheckOperations id sched (\<lambda>_ _. False) key_sort KvModel [ex_get, ex_put] = Some (Returns b)) \<and>
   CheckOperations id [] (\<lambda>_ _. False) key_sort KvModel [] = Some Waits"
proof -
  have nil: "kv_typed []" "well_timed []"
    by (simp_all add: kv_typed_def well_timed_def)
  show ?thesis
    using kv_check_empty_blocks[OF sorts_key_sort ex_history(1,2), of id "\<lambda>_ _. False"]
      kv_check_empty_blocks[OF sorts_key_sort nil, of id "\<lambda>_ _. False"] by blast
qed

text \<open>
  (C13) The search of the checker decides linearizability. For a history in which no operation
  returns before it is called, a sorting function that sorts, a model whose steps do not panic
  on the history and whose equality is a congruence, \<open>checkSingle\<close>, not being killed, ends
  without a panic; its verdict is true exactly if some order of the operations that respects
  real time is accepted by the model. Every sequence it reports in \<open>longest\<close> is a partial
  linearization, and after success each is a full one.
\<close>

theorem checkSingle_decides:
  assumes "sorts srt" "well_timed history" "step_total model history" "mo_Equal model = Some eq" "equal_ok model eq"
  shows "\<exists>longest seqs. checkSingle model (makeEntries srt history) computePartial (\<lambda>_. False) =
      Some (linearizable model history, longest, seqs) \<and> length longest = length history \<and>
    (\<forall>a. Some a \<in> set longest \<longrightarrow> a < length seqs \<and> linearization model history (seqs ! a)) \<and>
    (linearizable model history \<longrightarrow> (\<forall>l\<in>set longest. \<exists>a. l = Some a \<and> set (seqs ! a) = {0..<int (length history)}))"
  by (rule checkSingle_operations[OF assms])

theorem checkSingle_decides_witness:
  "\<exists>longest seqs. checkSingle (fillDefault KvModel) (makeEntries key_sort [ex_get, ex_put]) True (\<lambda>_. False) =
     Some (True, longest, seqs) \<and> length longest = 2"
proof -
  have eq: "mo_Equal (fillDefault KvModel) = Some ShallowEqual" "equal_ok (fillDefault KvModel) ShallowEqual"
    using kv_model.equal kv_model.congruence by simp_all
  have "on_key ''x'' [ex_get, ex_put] = [ex_get, ex_put]"
    using ex_history(3) by (simp add: on_key_def)
  then have "step_total (fillDefault KvModel) [ex_get, ex_put]"
    using step_total_on_key[OF ex_history(1), of "''x''"] by simp
  from checkSingle_decides[OF sorts_key_sort ex_history(2) this eq, of True] show ?thesis
    using ex_linearizable(2) by auto
qed

end
