(* ===== verification/Raft_Transport.thy ===== *)
theory Raft_Transport
  imports Raft_Node "HOL-Library.Word"
begin

text \<open>
  The transports of a Raft node (\<^verbatim>\<open>src/src/raft/transport.go\<close>, \<^verbatim>\<open>transport_inmem.go\<close>,
  \<^verbatim>\<open>transport_grpc.go\<close>).

  An interface is a record of its methods; a method that changes the state of whoever
  implements it works on a world \<open>'w\<close>. In-memory transports point at each other: they live in
  a heap, a list of records, and a pointer is an index of it. The gRPC library, the network and
  the generated client are parameters; the message types of the generated code have its field
  widths, so that every conversion of the transport shows.
\<close>

section \<open>Interfaces\<close>

record ('c, 'b, 'w) rpc_handler =
  rh_HandleRequestVote :: "request_vote_request \<Rightarrow> 'w \<Rightarrow> (request_vote_response \<times> 'w) option"
  rh_HandleAppendEntries :: "'c append_entries_request \<Rightarrow> 'w \<Rightarrow> (append_entries_response \<times> 'w) option"
  rh_HandleInstallSnapshot :: "'b install_snapshot_request \<Rightarrow> 'w \<Rightarrow> (int \<times> 'w) option"

datatype 'e ctx_error = DeadlineExceeded | Canceled | RpcError 'e

text \<open>What a call of an endpoint gives: a panic, or an error or a response.\<close>

type_synonym ('e, 'r, 'w) call_result = "(('e ctx_error + 'r) \<times> 'w) option"

section \<open>In-memory transport\<close>

record ('c, 'b, 'w) inmem_transport =
  it_peers :: "int \<rightharpoonup> nat"
  it_me :: int
  it_peerCount :: int
  it_handler :: "('c, 'b, 'w) rpc_handler option"
  it_timeout :: int
  it_closed :: bool

type_synonym ('c, 'b, 'w) inmem_heap = "('c, 'b, 'w) inmem_transport list"

definition NewInmemTransport :: "int \<Rightarrow> int \<Rightarrow> ('c, 'b, 'w) inmem_heap \<Rightarrow> nat \<times> ('c, 'b, 'w) inmem_heap" where
  "NewInmemTransport peerID peerCount H = (length H, H @ [\<lparr>it_peers = Map.empty, it_me = peerID, it_peerCount = peerCount,
     it_handler = None, it_timeout = 100000000, it_closed = False\<rparr>])"

definition it_Connect :: "nat \<Rightarrow> int \<Rightarrow> nat \<Rightarrow> ('c, 'b, 'w) inmem_heap \<Rightarrow> ('c, 'b, 'w) inmem_heap" where
  "it_Connect t peerID peer H = H[t := (H ! t)\<lparr>it_peers := (it_peers (H ! t))(peerID \<mapsto> peer)\<rparr>]"

definition it_GetPeerCount :: "nat \<Rightarrow> ('c, 'b, 'w) inmem_heap \<Rightarrow> int" where
  "it_GetPeerCount t H = it_peerCount (H ! t)"

definition it_GetPeerID :: "nat \<Rightarrow> ('c, 'b, 'w) inmem_heap \<Rightarrow> int" where
  "it_GetPeerID t H = it_me (H ! t)"

text \<open>
  The result is an interface value that holds a pointer to a transport. The pointer is nil for
  an unknown peer, but the interface value that holds it is not.
\<close>

datatype endpoint = InmemEndpoint "nat option" | NoEndpoint

definition it_GetEndpoint :: "nat \<Rightarrow> int \<Rightarrow> ('c, 'b, 'w) inmem_heap \<Rightarrow> endpoint" where
  "it_GetEndpoint t peerID H =
     (if peerID = it_me (H ! t) then InmemEndpoint (Some t) else InmemEndpoint (it_peers (H ! t) peerID))"

definition it_RegisterHandler :: "nat \<Rightarrow> ('c, 'b, 'w) rpc_handler \<Rightarrow> ('c, 'b, 'w) inmem_heap \<Rightarrow> ('c, 'b, 'w) inmem_heap" where
  "it_RegisterHandler t handler H = H[t := (H ! t)\<lparr>it_handler := Some handler\<rparr>]"

definition it_Stop :: "nat \<Rightarrow> ('c, 'b, 'w) inmem_heap \<Rightarrow> ('c, 'b, 'w) inmem_heap" where
  "it_Stop t H = (if it_closed (H ! t) then H else H[t := (H ! t)\<lparr>it_closed := True\<rparr>])"

definition it_SendRequestVote :: "endpoint \<Rightarrow> request_vote_request \<Rightarrow> ('c, 'b, 'w) inmem_heap \<Rightarrow> 'w \<Rightarrow>
    ('e, request_vote_response, 'w) call_result" where
  "it_SendRequestVote ep req H w = (case ep of
     InmemEndpoint (Some t) \<Rightarrow>
       (case it_handler (H ! t) of None \<Rightarrow> Some (Inl DeadlineExceeded, w)
        | Some handler \<Rightarrow> do { (resp, w) \<leftarrow> rh_HandleRequestVote handler req w; Some (Inr resp, w) })
   | _ \<Rightarrow> None)"

definition it_SendAppendEntries :: "endpoint \<Rightarrow> 'c append_entries_request \<Rightarrow> ('c, 'b, 'w) inmem_heap \<Rightarrow> 'w \<Rightarrow>
    ('e, append_entries_response, 'w) call_result" where
  "it_SendAppendEntries ep req H w = (case ep of
     InmemEndpoint (Some t) \<Rightarrow>
       (case it_handler (H ! t) of None \<Rightarrow> Some (Inl DeadlineExceeded, w)
        | Some handler \<Rightarrow> do { (resp, w) \<leftarrow> rh_HandleAppendEntries handler req w; Some (Inr resp, w) })
   | _ \<Rightarrow> None)"

definition it_SendInstallSnapshot :: "endpoint \<Rightarrow> 'b install_snapshot_request \<Rightarrow> ('c, 'b, 'w) inmem_heap \<Rightarrow> 'w \<Rightarrow>
    ('e, int, 'w) call_result" where
  "it_SendInstallSnapshot ep req H w = (case ep of
     InmemEndpoint (Some t) \<Rightarrow>
       (case it_handler (H ! t) of None \<Rightarrow> Some (Inl DeadlineExceeded, w)
        | Some handler \<Rightarrow> do { (resp, w) \<leftarrow> rh_HandleInstallSnapshot handler req w; Some (Inr resp, w) })
   | _ \<Rightarrow> None)"

record ('c, 'b, 'w) inmem_network =
  in_trans :: "(int, nat) go_map"
  in_handlers :: "int \<rightharpoonup> ('c, 'b, 'w) rpc_handler"
  in_peerCount :: int

definition NewInmemNetwork :: "int \<Rightarrow> ('c, 'b, 'w) inmem_network" where
  "NewInmemNetwork peerCount = \<lparr>in_trans = [], in_handlers = Map.empty, in_peerCount = peerCount\<rparr>"

fun connect_loop :: "int \<Rightarrow> nat \<Rightarrow> (int, nat) go_map \<Rightarrow> ('c, 'b, 'w) inmem_heap \<Rightarrow> ('c, 'b, 'w) inmem_heap" where
  "connect_loop peerID t [] H = H"
| "connect_loop peerID t ((i, other) # others) H =
     connect_loop peerID t others
       (if i \<noteq> peerID then it_Connect other peerID t (it_Connect t i other H) else H)"

definition CreateTransport :: "int \<Rightarrow> ('c, 'b, 'w) inmem_network \<Rightarrow> ('c, 'b, 'w) inmem_heap \<Rightarrow>
    nat \<times> ('c, 'b, 'w) inmem_network \<times> ('c, 'b, 'w) inmem_heap" where
  "CreateTransport peerID n H =
     (let (t, H) = NewInmemTransport peerID (in_peerCount n) H;
          n = n\<lparr>in_trans := AList.update peerID t (in_trans n)\<rparr>
      in (t, n, connect_loop peerID t (in_trans n) H))"

definition in_RegisterHandler :: "int \<Rightarrow> ('c, 'b, 'w) rpc_handler \<Rightarrow> ('c, 'b, 'w) inmem_network \<Rightarrow> ('c, 'b, 'w) inmem_heap \<Rightarrow>
    ('c, 'b, 'w) inmem_network \<times> ('c, 'b, 'w) inmem_heap" where
  "in_RegisterHandler peerID handler n H =
     (n\<lparr>in_handlers := (in_handlers n)(peerID \<mapsto> handler)\<rparr>,
      case map_of (in_trans n) peerID of Some t \<Rightarrow> it_RegisterHandler t handler H | None \<Rightarrow> H)"

definition in_GetTransport :: "int \<Rightarrow> ('c, 'b, 'w) inmem_network \<Rightarrow> nat option" where
  "in_GetTransport peerID n = map_of (in_trans n) peerID"

section \<open>gRPC transport\<close>

type_synonym byte = "8 word"

text \<open>Commands are of type \<open>interface{}\<close>: bytes, a string, or a value of some other type.\<close>

datatype 'x go_command = CmdBytes "byte list" | CmdString "byte list" | CmdOther 'x

record pb_log_entry =
  pe_Term :: "32 word"
  pe_CommandValid :: bool
  pe_Command :: "byte list"

record pb_vote_request =
  pvq_Term :: "32 word"
  pvq_CandidateId :: "32 word"
  pvq_LastLogIndex :: "32 word"
  pvq_LastLogTerm :: "32 word"

record pb_vote_response =
  pvr_Term :: "32 word"
  pvr_VoteGranted :: bool

record pb_append_request =
  paq_Term :: "32 word"
  paq_LeaderId :: "32 word"
  paq_PrevLogIndex :: "32 word"
  paq_PrevLogTerm :: "32 word"
  paq_Entries :: "pb_log_entry list"
  paq_LeaderCommit :: "32 word"

record pb_append_response =
  par_Term :: "32 word"
  par_Success :: bool
  par_ConflictIdx :: "32 word"
  par_ConflictTerm :: "32 word"

record pb_snapshot_request =
  psq_Term :: "32 word"
  psq_LeaderId :: "32 word"
  psq_LastIncludedIndex :: "32 word"
  psq_LastIncludedTerm :: "32 word"
  psq_Snapshot :: "byte list"

text \<open>The conversions \<open>int32(x)\<close>, which keeps the low 32 bits, and \<open>int(y)\<close> of an \<open>int32\<close>.\<close>

definition int32 :: "int \<Rightarrow> 32 word" where
  "int32 x = word_of_int x"

definition of_int32 :: "32 word \<Rightarrow> int" where
  "of_int32 y = sint y"

definition marshalCommand :: "'x go_command option \<Rightarrow> byte list" where
  "marshalCommand cmd = (case cmd of None \<Rightarrow> [] | Some (CmdBytes v) \<Rightarrow> v | Some (CmdString v) \<Rightarrow> v | Some (CmdOther _) \<Rightarrow> [])"

definition unmarshalCommand :: "byte list \<Rightarrow> 'x go_command option" where
  "unmarshalCommand data = (if length data = 0 then None else Some (CmdBytes data))"

text \<open>The requests as the endpoint encodes and the server decodes them.\<close>

definition pb_of_vote :: "request_vote_request \<Rightarrow> pb_vote_request" where
  "pb_of_vote req = \<lparr>pvq_Term = int32 (va_Term req), pvq_CandidateId = int32 (va_CandidateId req),
     pvq_LastLogIndex = int32 (va_LastLogIndex req), pvq_LastLogTerm = int32 (va_LastLogTerm req)\<rparr>"

definition vote_of_pb :: "pb_vote_request \<Rightarrow> request_vote_request" where
  "vote_of_pb req = \<lparr>va_Term = of_int32 (pvq_Term req), va_CandidateId = of_int32 (pvq_CandidateId req),
     va_LastLogIndex = of_int32 (pvq_LastLogIndex req), va_LastLogTerm = of_int32 (pvq_LastLogTerm req)\<rparr>"

definition pb_of_entry :: "'x go_command log_entry \<Rightarrow> pb_log_entry" where
  "pb_of_entry e = \<lparr>pe_Term = int32 (le_Term e), pe_CommandValid = le_CommandValid e, pe_Command = marshalCommand (le_Command e)\<rparr>"

definition entry_of_pb :: "pb_log_entry \<Rightarrow> 'x go_command log_entry" where
  "entry_of_pb e = \<lparr>le_Term = of_int32 (pe_Term e), le_CommandValid = pe_CommandValid e, le_Command = unmarshalCommand (pe_Command e)\<rparr>"

definition pb_of_append :: "'x go_command append_entries_request \<Rightarrow> pb_append_request" where
  "pb_of_append req = \<lparr>paq_Term = int32 (aa_Term req), paq_LeaderId = int32 (aa_LeaderId req),
     paq_PrevLogIndex = int32 (aa_PrevLogIndex req), paq_PrevLogTerm = int32 (aa_PrevLogTerm req),
     paq_Entries = map pb_of_entry (aa_Entries req), paq_LeaderCommit = int32 (aa_LeaderCommit req)\<rparr>"

definition append_of_pb :: "pb_append_request \<Rightarrow> 'x go_command append_entries_request" where
  "append_of_pb req = \<lparr>aa_Term = of_int32 (paq_Term req), aa_LeaderId = of_int32 (paq_LeaderId req),
     aa_PrevLogIndex = of_int32 (paq_PrevLogIndex req), aa_PrevLogTerm = of_int32 (paq_PrevLogTerm req),
     aa_Entries = map entry_of_pb (paq_Entries req), aa_LeaderCommit = of_int32 (paq_LeaderCommit req)\<rparr>"

definition pb_of_snapshot :: "byte install_snapshot_request \<Rightarrow> pb_snapshot_request" where
  "pb_of_snapshot req = \<lparr>psq_Term = int32 (sa_Term req), psq_LeaderId = int32 (sa_LeaderId req),
     psq_LastIncludedIndex = int32 (sa_LastIncludedIndex req), psq_LastIncludedTerm = int32 (sa_LastIncludedTerm req),
     psq_Snapshot = sa_Snapshot req\<rparr>"

definition snapshot_of_pb :: "pb_snapshot_request \<Rightarrow> byte install_snapshot_request" where
  "snapshot_of_pb req = \<lparr>sa_Term = of_int32 (psq_Term req), sa_LeaderId = of_int32 (psq_LeaderId req),
     sa_LastIncludedIndex = of_int32 (psq_LastIncludedIndex req), sa_LastIncludedTerm = of_int32 (psq_LastIncludedTerm req),
     sa_Snapshot = psq_Snapshot req\<rparr>"

text \<open>The endpoint over a client, the generated stub, which is a parameter.\<close>

definition ge_SendRequestVote :: "(pb_vote_request \<Rightarrow> 'w \<Rightarrow> ('e, pb_vote_response, 'w) call_result) \<Rightarrow>
    request_vote_request \<Rightarrow> 'w \<Rightarrow> ('e, request_vote_response, 'w) call_result" where
  "ge_SendRequestVote client req w = do {
     (r, w) \<leftarrow> client (pb_of_vote req) w;
     Some (case r of Inl err \<Rightarrow> Inl err
           | Inr resp \<Rightarrow> Inr \<lparr>vr_Term = of_int32 (pvr_Term resp), vr_VoteGranted = pvr_VoteGranted resp\<rparr>, w) }"

definition ge_SendAppendEntries :: "(pb_append_request \<Rightarrow> 'w \<Rightarrow> ('e, pb_append_response, 'w) call_result) \<Rightarrow>
    'x go_command append_entries_request \<Rightarrow> 'w \<Rightarrow> ('e, append_entries_response, 'w) call_result" where
  "ge_SendAppendEntries client req w = do {
     (r, w) \<leftarrow> client (pb_of_append req) w;
     Some (case r of Inl err \<Rightarrow> Inl err
           | Inr resp \<Rightarrow> Inr \<lparr>ar_Term = of_int32 (par_Term resp), ar_Success = par_Success resp,
               ar_ConfilictIndex = of_int32 (par_ConflictIdx resp), ar_ConfilictTerm = of_int32 (par_ConflictTerm resp)\<rparr>, w) }"

definition ge_SendInstallSnapshot :: "(pb_snapshot_request \<Rightarrow> 'w \<Rightarrow> ('e, 32 word, 'w) call_result) \<Rightarrow>
    byte install_snapshot_request \<Rightarrow> 'w \<Rightarrow> ('e, int, 'w) call_result" where
  "ge_SendInstallSnapshot client req w = do {
     (r, w) \<leftarrow> client (pb_of_snapshot req) w;
     Some (case r of Inl err \<Rightarrow> Inl err | Inr resp \<Rightarrow> Inr (of_int32 resp), w) }"

record ('c, 'b, 'w, 'srv, 'cn) grpc_transport =
  gt_me :: int
  gt_peers :: "(int, string) go_map"
  gt_listenAddr :: string
  gt_handler :: "('c, 'b, 'w) rpc_handler option"
  gt_server :: "'srv option"
  gt_clients :: "int \<rightharpoonup> 'cn"
  gt_conns :: "(int, 'cn) go_map"
  gt_closed :: bool

definition NewGrpcTransport :: "string list \<Rightarrow> int \<Rightarrow> string \<Rightarrow> ('c, 'b, 'w, 'srv, 'cn) grpc_transport" where
  "NewGrpcTransport peers peerID listenAddr =
     \<lparr>gt_me = peerID,
      gt_peers = fold (\<lambda>(i, addr) m. AList.update (int i) addr m) (enumerate 0 peers) [],
      gt_listenAddr = listenAddr, gt_handler = None, gt_server = None, gt_clients = Map.empty,
      gt_conns = [], gt_closed = False\<rparr>"

definition gt_GetPeerCount :: "('c, 'b, 'w, 'srv, 'cn) grpc_transport \<Rightarrow> int" where
  "gt_GetPeerCount t = int (length (gt_peers t))"

definition gt_GetPeerID :: "('c, 'b, 'w, 'srv, 'cn) grpc_transport \<Rightarrow> int" where
  "gt_GetPeerID t = gt_me t"

text \<open>An endpoint is known by the connection of its client; nil is \<^const>\<open>None\<close>.\<close>

definition gt_GetEndpoint :: "int \<Rightarrow> ('c, 'b, 'w, 'srv, 'cn) grpc_transport \<Rightarrow> 'cn option" where
  "gt_GetEndpoint peerID t = gt_clients t peerID"

definition gt_RegisterHandler :: "('c, 'b, 'w) rpc_handler \<Rightarrow> ('c, 'b, 'w, 'srv, 'cn) grpc_transport \<Rightarrow>
    ('c, 'b, 'w, 'srv, 'cn) grpc_transport" where
  "gt_RegisterHandler handler t = t\<lparr>gt_handler := Some handler\<rparr>"

definition gt_getHandler :: "('c, 'b, 'w, 'srv, 'cn) grpc_transport \<Rightarrow> ('c, 'b, 'w) rpc_handler option" where
  "gt_getHandler t = gt_handler t"

text \<open>
  \<open>Start\<close>: the result of \<open>net.Listen\<close> and the new server are arguments; the result lists the
  goroutines that it starts, in the order of the range loop.
\<close>

definition gt_Start :: "'e option \<Rightarrow> 'srv \<Rightarrow> ('c, 'b, 'w, 'srv, 'cn) grpc_transport \<Rightarrow>
    'e option \<times> (int \<times> string) list \<times> ('c, 'b, 'w, 'srv, 'cn) grpc_transport" where
  "gt_Start listenErr server t = (case listenErr of
     Some err \<Rightarrow> (Some err, [], t)
   | None \<Rightarrow> (None, filter (\<lambda>(i, addr). i \<noteq> gt_me t) (gt_peers t), t\<lparr>gt_server := Some server\<rparr>))"

text \<open>
  A round of \<open>connectToPeer\<close>: \<open>dial\<close> is the outcome of \<open>grpc.Dial\<close>, \<open>t0\<close> the transport when the
  flag is read and \<open>t\<close> when the connection is stored. The result says whether the goroutine
  goes on, which connections it closes, and the new state.
\<close>

definition connectToPeer_round :: "int \<Rightarrow> 'e + 'cn \<Rightarrow> ('c, 'b, 'w, 'srv, 'cn) grpc_transport \<Rightarrow>
    ('c, 'b, 'w, 'srv, 'cn) grpc_transport \<Rightarrow> bool \<times> 'cn list \<times> ('c, 'b, 'w, 'srv, 'cn) grpc_transport" where
  "connectToPeer_round i dial t0 t =
     (if gt_closed t0 then (False, [], t)
      else case dial of
        Inl err \<Rightarrow> (True, [], t)
      | Inr conn \<Rightarrow>
          if gt_closed t then (False, [conn], t)
          else (False, case map_of (gt_conns t) i of Some old \<Rightarrow> [old] | None \<Rightarrow> [],
                t\<lparr>gt_conns := AList.update i conn (gt_conns t), gt_clients := (gt_clients t)(i \<mapsto> conn)\<rparr>))"

text \<open>\<open>Stop\<close>: whether the server is stopped, and the connections closed.\<close>

definition gt_Stop :: "('c, 'b, 'w, 'srv, 'cn) grpc_transport \<Rightarrow>
    'srv option \<times> 'cn list \<times> ('c, 'b, 'w, 'srv, 'cn) grpc_transport" where
  "gt_Stop t = (if gt_closed t then (None, [], t) else (gt_server t, map snd (gt_conns t), t\<lparr>gt_closed := True\<rparr>))"

definition rs_RequestVote :: "('x go_command, byte, 'w, 'srv, 'cn) grpc_transport \<Rightarrow> pb_vote_request \<Rightarrow> 'w \<Rightarrow>
    ('e, pb_vote_response, 'w) call_result" where
  "rs_RequestVote t req w = (case gt_getHandler t of
     None \<Rightarrow> Some (Inl Canceled, w)
   | Some handler \<Rightarrow> do {
       (resp, w) \<leftarrow> rh_HandleRequestVote handler (vote_of_pb req) w;
       Some (Inr \<lparr>pvr_Term = int32 (vr_Term resp), pvr_VoteGranted = vr_VoteGranted resp\<rparr>, w) })"

definition rs_AppendEntries :: "('x go_command, byte, 'w, 'srv, 'cn) grpc_transport \<Rightarrow> pb_append_request \<Rightarrow> 'w \<Rightarrow>
    ('e, pb_append_response, 'w) call_result" where
  "rs_AppendEntries t req w = (case gt_getHandler t of
     None \<Rightarrow> Some (Inl Canceled, w)
   | Some handler \<Rightarrow> do {
       (resp, w) \<leftarrow> rh_HandleAppendEntries handler (append_of_pb req) w;
       Some (Inr \<lparr>par_Term = int32 (ar_Term resp), par_Success = ar_Success resp,
         par_ConflictIdx = int32 (ar_ConfilictIndex resp), par_ConflictTerm = int32 (ar_ConfilictTerm resp)\<rparr>, w) })"

definition rs_InstallSnapshot :: "('x go_command, byte, 'w, 'srv, 'cn) grpc_transport \<Rightarrow> pb_snapshot_request \<Rightarrow> 'w \<Rightarrow>
    ('e, 32 word, 'w) call_result" where
  "rs_InstallSnapshot t req w = (case gt_getHandler t of
     None \<Rightarrow> Some (Inl Canceled, w)
   | Some handler \<Rightarrow> do {
       (resp, w) \<leftarrow> rh_HandleInstallSnapshot handler (snapshot_of_pb req) w;
       Some (Inr (int32 resp), w) })"

section \<open>What the in-memory network delivers\<close>

text \<open>
  Every transport of the network knows itself and, for every other peer, the current transport
  of that peer, if it has one.
\<close>

definition net_ok :: "('c, 'b, 'w) inmem_network \<Rightarrow> ('c, 'b, 'w) inmem_heap \<Rightarrow> bool" where
  "net_ok n H \<longleftrightarrow> gm_ok (in_trans n) \<and>
     (\<forall>i a. map_of (in_trans n) i = Some a \<longrightarrow> a < length H \<and> it_me (H ! a) = i) \<and>
     (\<forall>i a j. map_of (in_trans n) i = Some a \<and> i \<noteq> j \<longrightarrow> it_peers (H ! a) j = map_of (in_trans n) j)"

lemma net_okD:
  assumes "net_ok n H"
  shows "gm_ok (in_trans n)" "map_of (in_trans n) i = Some a \<Longrightarrow> a < length H \<and> it_me (H ! a) = i"
    "map_of (in_trans n) i = Some a \<Longrightarrow> i \<noteq> j \<Longrightarrow> it_peers (H ! a) j = map_of (in_trans n) j"
  using assms unfolding net_ok_def by blast+

lemma update_keeps_field: "f y = f (H ! b) \<Longrightarrow> f (H[b := y] ! a) = f (H ! a)"
  by (cases "b < length H"; cases "a = b"; simp add: list_update_beyond)

lemma connect_loop_keeps:
  "length (connect_loop peerID t others H) = length H \<and> it_me (connect_loop peerID t others H ! a) = it_me (H ! a) \<and>
   it_handler (connect_loop peerID t others H ! a) = it_handler (H ! a)"
proof (induction others arbitrary: H)
  case (Cons x others)
  obtain i other where x: "x = (i, other)"
    by (cases x)
  have "it_me (it_Connect b j c H ! a) = it_me (H ! a)" "it_handler (it_Connect b j c H ! a) = it_handler (H ! a)"
    "length (it_Connect b j c H) = length H"
    for b j c and H :: "('a, 'b, 'c) inmem_heap"
    by (simp_all add: it_Connect_def update_keeps_field)
  then show ?case
    using Cons.IH by (simp add: x)
qed simp

lemma connect_loop_own:
  assumes "t < length H" "\<forall>(i, b)\<in>set others. i \<noteq> peerID \<longrightarrow> b \<noteq> t" "distinct (map fst others)"
  shows "it_peers (connect_loop peerID t others H ! t) j =
    (if j \<noteq> peerID \<and> j \<in> fst ` set others then map_of others j else it_peers (H ! t) j)"
  using assms
proof (induction others arbitrary: H)
  case (Cons x others)
  obtain i other where x: "x = (i, other)"
    by (cases x)
  let ?H = "if i \<noteq> peerID then it_Connect other peerID t (it_Connect t i other H) else H"
  have "it_peers (?H ! t) = (if i \<noteq> peerID then (it_peers (H ! t))(i \<mapsto> other) else it_peers (H ! t))" "t < length ?H"
    using Cons.prems by (auto simp: x it_Connect_def)
  then show ?case
    using Cons.IH[of ?H] Cons.prems by (auto simp: x)
qed simp

lemma connect_loop_other:
  assumes "a < length H" "a \<noteq> t" "\<forall>(i, b)\<in>set others. b < length H"
  shows "it_peers (connect_loop peerID t others H ! a) =
    (if \<exists>i. i \<noteq> peerID \<and> (i, a) \<in> set others then (it_peers (H ! a))(peerID \<mapsto> t) else it_peers (H ! a))"
  using assms
proof (induction others arbitrary: H)
  case (Cons x others)
  obtain i other where x: "x = (i, other)"
    by (cases x)
  let ?H = "if i \<noteq> peerID then it_Connect other peerID t (it_Connect t i other H) else H"
  have "it_peers (?H ! a) = (if i \<noteq> peerID \<and> other = a then (it_peers (H ! a))(peerID \<mapsto> t) else it_peers (H ! a))" "length ?H = length H"
    using Cons.prems by (auto simp: x it_Connect_def nth_list_update)
  then show ?case
    using Cons.IH[of ?H] Cons.prems by (auto simp: x)
qed simp

lemma CreateTransport_bounds:
  fixes p :: int and t :: nat and n :: "('c, 'b, 'w) inmem_network"
  defines "tr \<equiv> AList.update p t (in_trans n)"
  assumes ok: "net_ok n H" and t: "t = length H"
  shows "gm_ok tr" "(i, b) \<in> set tr \<Longrightarrow> i \<noteq> p \<Longrightarrow> b \<noteq> t" "(i, b) \<in> set tr \<Longrightarrow> b < Suc (length H)"
proof -
  show gm: "gm_ok tr"
    using net_okD(1)[OF ok] by (simp add: tr_def distinct_update)
  have mo: "map_of tr = (map_of (in_trans n))(p \<mapsto> t)"
    by (simp add: tr_def update_conv')
  have old: "b < length H" if "(i, b) \<in> set tr" "i \<noteq> p"
    using map_of_is_SomeI[OF gm that(1)] that(2) net_okD(2)[OF ok, of i b] by (simp add: mo)
  show "b \<noteq> t" if "(i, b) \<in> set tr" "i \<noteq> p"
    using old[OF that] t by simp
  show "b < Suc (length H)" if m: "(i, b) \<in> set tr"
    using old[OF m] map_of_is_SomeI[OF gm m] t by (cases "i = p") (simp_all add: mo)
qed

lemma CreateTransport_ok:
  assumes ok: "net_ok n H" and c: "CreateTransport p n H = (t, n', H')"
  shows "net_ok n' H'"
proof -
  let ?H = "snd (NewInmemTransport p (in_peerCount n) H)"
  let ?tr = "AList.update p t (in_trans n)"
  have t: "t = length H" "n' = n\<lparr>in_trans := ?tr\<rparr>" "H' = connect_loop p t ?tr ?H"
    using c by (auto simp: CreateTransport_def NewInmemTransport_def Let_def)
  have H: "length ?H = Suc (length H)" "it_me (?H ! t) = p" "\<And>a. a < length H \<Longrightarrow> ?H ! a = H ! a"
    by (simp_all add: NewInmemTransport_def t(1) nth_append)
  have mo: "map_of ?tr = (map_of (in_trans n))(p \<mapsto> t)"
    by (simp add: update_conv')
  note bounds = CreateTransport_bounds[where p = p, OF ok t(1)]
  have gm: "gm_ok ?tr"
    by (rule bounds(1))
  have all: "\<forall>(i, b)\<in>set ?tr. b < length ?H" "\<forall>(i, b)\<in>set ?tr. i \<noteq> p \<longrightarrow> b \<noteq> t"
    using bounds(2,3) unfolding H(1) by auto
  have tl: "t < length ?H"
    by (simp add: H(1) t(1))
  have tr': "in_trans n' = ?tr"
    by (simp add: t(2))
  show ?thesis
    unfolding net_ok_def tr' mo
  proof (intro conjI allI impI)
    fix i a assume "((map_of (in_trans n))(p \<mapsto> t)) i = Some a"
    then show "a < length H'" "it_me (H' ! a) = i"
      using net_okD(2)[OF ok, of i a] H connect_loop_keeps[of p t ?tr ?H a] tl by (auto simp: t(3) split: if_splits)
  next
    fix i a j assume "((map_of (in_trans n))(p \<mapsto> t)) i = Some a \<and> i \<noteq> j"
    then have i: "((map_of (in_trans n))(p \<mapsto> t)) i = Some a" and ne: "i \<noteq> j"
      by auto
    show "it_peers (H' ! a) j = ((map_of (in_trans n))(p \<mapsto> t)) j"
    proof (cases "i = p")
      case True
      then have at: "a = t" and jp: "j \<noteq> p"
        using i ne by simp_all
      have none: "it_peers (?H ! t) j = None"
        by (simp add: NewInmemTransport_def t(1))
      show ?thesis
        unfolding at t(3) connect_loop_own[OF tl all(2) gm] mo[symmetric]
      proof (cases "j \<in> fst ` set ?tr")
        case False
        then have "map_of ?tr j = None"
          unfolding map_of_eq_None_iff .
        then show "(if j \<noteq> p \<and> j \<in> fst ` set ?tr then map_of ?tr j else it_peers (?H ! t) j) = map_of ?tr j"
          using none by (metis (full_types))
      qed (use jp in metis)
    next
      case False
      then have a: "map_of (in_trans n) i = Some a" "a < length H"
        using i net_okD(2)[OF ok, of i a] by auto
      have "(i, a) \<in> set ?tr"
        using map_of_SomeD[of ?tr i a] i unfolding mo by blast
      then have "it_peers (H' ! a) = (it_peers (H ! a))(p \<mapsto> t)"
        using connect_loop_other[of a ?H t ?tr p] all(1) a(2) H(1,3) t(1) False by (auto simp: t(3))
      then show ?thesis
        using ne net_okD(3)[OF ok a(1) ne] by simp
    qed
  qed (fact gm)
qed

text \<open>
  The operations on a network and, through \<open>GetTransport\<close>, on its transports. The last two are
  method calls on a nil pointer, and panic, if the peer has no transport.
\<close>

datatype ('c, 'b, 'w) net_op =
  OpCreate int
| OpRegister int "('c, 'b, 'w) rpc_handler"
| OpHandler int "('c, 'b, 'w) rpc_handler"
| OpStop int

fun net_step :: "('c, 'b, 'w) net_op \<Rightarrow> ('c, 'b, 'w) inmem_network \<times> ('c, 'b, 'w) inmem_heap \<Rightarrow>
    (('c, 'b, 'w) inmem_network \<times> ('c, 'b, 'w) inmem_heap) option" where
  "net_step (OpCreate p) (n, H) = Some (snd (CreateTransport p n H))"
| "net_step (OpRegister p h) (n, H) = Some (in_RegisterHandler p h n H)"
| "net_step (OpHandler p h) (n, H) = map_option (\<lambda>t. (n, it_RegisterHandler t h H)) (in_GetTransport p n)"
| "net_step (OpStop p) (n, H) = map_option (\<lambda>t. (n, it_Stop t H)) (in_GetTransport p n)"

fun net_run :: "('c, 'b, 'w) net_op list \<Rightarrow> ('c, 'b, 'w) inmem_network \<times> ('c, 'b, 'w) inmem_heap \<Rightarrow>
    (('c, 'b, 'w) inmem_network \<times> ('c, 'b, 'w) inmem_heap) option" where
  "net_run [] s = Some s"
| "net_run (op # ops) s = net_step op s \<bind> net_run ops"

text \<open>
  The handler of each peer, read off the operations alone: \<open>None\<close> for a peer without a transport,
  \<open>Some None\<close> for one whose transport has no handler. A new transport has none, a handler that is
  registered for a peer without a transport is lost, and stopping changes nothing.
\<close>

fun registers :: "('c, 'b, 'w) net_op \<Rightarrow> (int \<rightharpoonup> ('c, 'b, 'w) rpc_handler option) \<Rightarrow> int \<rightharpoonup> ('c, 'b, 'w) rpc_handler option" where
  "registers (OpCreate p) reg = reg(p \<mapsto> None)"
| "registers (OpRegister p h) reg = (if reg p = None then reg else reg(p \<mapsto> Some h))"
| "registers (OpHandler p h) reg = reg(p \<mapsto> Some h)"
| "registers (OpStop p) reg = reg"

definition registered :: "('c, 'b, 'w) net_op list \<Rightarrow> int \<rightharpoonup> ('c, 'b, 'w) rpc_handler option" where
  "registered ops = fold registers ops Map.empty"

text \<open>A call for such a peer: a panic, an error, or a call of the handler.\<close>

definition delivers :: "('c, 'b, 'w) rpc_handler option option \<Rightarrow> (('c, 'b, 'w) rpc_handler \<Rightarrow> 'w \<Rightarrow> ('r \<times> 'w) option) \<Rightarrow>
    'w \<Rightarrow> ('e, 'r, 'w) call_result" where
  "delivers reg call w = (case reg of
     None \<Rightarrow> None
   | Some None \<Rightarrow> Some (Inl DeadlineExceeded, w)
   | Some (Some h) \<Rightarrow> map_option (\<lambda>(r, w). (Inr r, w)) (call h w))"

definition handlers_ok :: "(int \<rightharpoonup> ('c, 'b, 'w) rpc_handler option) \<Rightarrow> ('c, 'b, 'w) inmem_network \<Rightarrow> ('c, 'b, 'w) inmem_heap \<Rightarrow> bool" where
  "handlers_ok reg n H \<longleftrightarrow> (\<forall>p. reg p = map_option (\<lambda>t. it_handler (H ! t)) (map_of (in_trans n) p))"

lemma net_ok_same:
  assumes "net_ok n H" "in_trans n' = in_trans n" "length H' = length H"
    "\<And>a. a < length H \<Longrightarrow> it_me (H' ! a) = it_me (H ! a) \<and> it_peers (H' ! a) = it_peers (H ! a)"
  shows "net_ok n' H'"
  unfolding net_ok_def assms(2,3)
proof (intro conjI allI impI)
  fix i a assume "map_of (in_trans n) i = Some a"
  then show "a < length H" "it_me (H' ! a) = i"
    using net_okD(2)[OF assms(1), of i a] assms(4)[of a] by simp_all
next
  fix i a j assume *: "map_of (in_trans n) i = Some a \<and> i \<noteq> j"
  then have "a < length H" "it_peers (H ! a) j = map_of (in_trans n) j"
    using net_okD(2,3)[OF assms(1)] by blast+
  then show "it_peers (H' ! a) j = map_of (in_trans n) j"
    using assms(4)[of a] by simp
qed (fact net_okD(1)[OF assms(1)])

lemma map_option_pair_bind: "map_option (\<lambda>(r, w). (f r, w)) x = x \<bind> (\<lambda>(r, w). Some (f r, w))"
  by (cases x) auto

lemma create_handlers:
  assumes "net_ok n H" "handlers_ok reg n H" "CreateTransport p n H = (t, n', H')"
  shows "handlers_ok (reg(p \<mapsto> None)) n' H'"
proof -
  let ?H = "snd (NewInmemTransport p (in_peerCount n) H)"
  have t: "t = length H" "in_trans n' = AList.update p t (in_trans n)" "H' = connect_loop p t (AList.update p t (in_trans n)) ?H"
    using assms(3) by (auto simp: CreateTransport_def NewInmemTransport_def Let_def)
  have h: "it_handler (H' ! a) = it_handler (?H ! a)" for a
    by (simp add: t(3) connect_loop_keeps)
  show ?thesis
    unfolding handlers_ok_def
  proof
    fix q
    show "(reg(p \<mapsto> None)) q = map_option (\<lambda>t. it_handler (H' ! t)) (map_of (in_trans n') q)"
      using assms(2)[unfolded handlers_ok_def, rule_format, of q] net_okD(2)[OF assms(1), of q]
      by (cases "map_of (in_trans n) q")
        (auto simp: t(1,2) h update_conv' NewInmemTransport_def nth_append)
  qed
qed

lemma set_handler:
  assumes "net_ok n H" "handlers_ok reg n H" "map_of (in_trans n) p = Some t"
  shows "net_ok n (it_RegisterHandler t h H)" "handlers_ok (reg(p \<mapsto> Some h)) n (it_RegisterHandler t h H)"
proof -
  show "net_ok n (it_RegisterHandler t h H)"
    by (rule net_ok_same[OF assms(1)]) (auto simp: it_RegisterHandler_def update_keeps_field)
  have h: "it_handler (it_RegisterHandler t h H ! a) = (if a = t then Some h else it_handler (H ! a))" for a
    using net_okD(2)[OF assms(1,3)] by (simp add: it_RegisterHandler_def nth_list_update)
  show "handlers_ok (reg(p \<mapsto> Some h)) n (it_RegisterHandler t h H)"
    unfolding handlers_ok_def h
  proof
    fix q
    have "a \<noteq> t" if "map_of (in_trans n) q = Some a" "q \<noteq> p" for a
      using net_okD(2)[OF assms(1) that(1)] net_okD(2)[OF assms(1,3)] that(2) by auto
    then show "(reg(p \<mapsto> Some h)) q = map_option (\<lambda>a. if a = t then Some h else it_handler (H ! a)) (map_of (in_trans n) q)"
      using assms(2)[unfolded handlers_ok_def, rule_format, of q] assms(3) by (cases "map_of (in_trans n) q") auto
  qed
qed

lemma net_step_ok:
  assumes "net_ok n H" "handlers_ok reg n H" "net_step op (n, H) = Some (n', H')"
  shows "net_ok n' H' \<and> handlers_ok (registers op reg) n' H'"
proof (cases op)
  case (OpCreate p)
  then obtain t where "CreateTransport p n H = (t, n', H')"
    using assms(3) by (cases "CreateTransport p n H") simp
  then show ?thesis
    using CreateTransport_ok[OF assms(1)] create_handlers[OF assms(1,2)] OpCreate by simp
next
  case (OpRegister p h)
  have n': "net_ok n' G \<longleftrightarrow> net_ok n G" "handlers_ok r n' G \<longleftrightarrow> handlers_ok r n G" for r G
    using assms(3) by (auto simp: OpRegister in_RegisterHandler_def net_ok_def handlers_ok_def)
  show ?thesis
  proof (cases "map_of (in_trans n) p")
    case None
    then have "reg p = None" "H' = H"
      using assms(2,3) by (auto simp: OpRegister in_RegisterHandler_def handlers_ok_def)
    then show ?thesis
      using assms(1,2) by (simp add: n' OpRegister)
  next
    case (Some t)
    then have "reg p = Some (it_handler (H ! t))" "H' = it_RegisterHandler t h H"
      using assms(2,3) by (auto simp: OpRegister in_RegisterHandler_def handlers_ok_def)
    then show ?thesis
      using set_handler[OF assms(1,2) Some] by (simp add: n' OpRegister)
  qed
next
  case (OpHandler p h)
  then obtain t where "map_of (in_trans n) p = Some t" "n' = n" "H' = it_RegisterHandler t h H"
    using assms(3) by (auto simp: in_GetTransport_def)
  then show ?thesis
    using set_handler[OF assms(1,2), of p t h] by (simp add: OpHandler)
next
  case (OpStop p)
  then obtain t where H': "n' = n" "H' = it_Stop t H"
    using assms(3) by auto
  have "net_ok n H'"
    unfolding H' by (rule net_ok_same[OF assms(1)]) (auto simp: it_Stop_def update_keeps_field)
  moreover have "it_handler (H' ! a) = it_handler (H ! a)" for a
    by (simp add: H' it_Stop_def update_keeps_field)
  ultimately show ?thesis
    using assms(2) by (simp add: H'(1) OpStop handlers_ok_def)
qed

lemma net_run_ok:
  assumes "net_ok n H" "handlers_ok reg n H" "net_run ops (n, H) = Some (n', H')"
  shows "net_ok n' H' \<and> handlers_ok (fold registers ops reg) n' H'"
  using assms
proof (induction ops arbitrary: n H reg)
  case (Cons op ops)
  then obtain n1 H1 where 1: "net_step op (n, H) = Some (n1, H1)" "net_run ops (n1, H1) = Some (n', H')"
    by (auto simp: bind_eq_Some_conv)
  show ?case
    using Cons.IH[of n1 H1 "registers op reg"] 1(2) net_step_ok[OF Cons.prems(1,2) 1(1)] by simp
qed simp

lemma net_run_new:
  assumes "net_run ops (NewInmemNetwork k, []) = Some (n, H)"
  shows "net_ok n H" "handlers_ok (registered ops) n H"
  using net_run_ok[OF _ _ assms, of Map.empty]
  by (simp_all add: net_ok_def handlers_ok_def NewInmemNetwork_def registered_def)

text \<open>
  (C25) However the transports of an in-memory network were created, re-created, given handlers and
  stopped: each of the three calls on the endpoint that the current transport of any peer \<open>i\<close> has
  for any peer \<open>j\<close>, possibly itself, is exactly a call of the handler that was registered last for
  the current transport of \<open>j\<close>. It fails with a deadline error when there is none, so when \<open>j\<close>'s
  transport was created after its handler was registered, and panics when \<open>j\<close> has no transport.
\<close>

theorem inmem_delivers:
  assumes "net_run ops (NewInmemNetwork k, []) = Some (n, H)" "in_GetTransport i n = Some a"
  shows "it_GetEndpoint a j H = InmemEndpoint (in_GetTransport j n) \<and>
    it_SendRequestVote (it_GetEndpoint a j H) v H w = delivers (registered ops j) (\<lambda>h. rh_HandleRequestVote h v) w \<and>
    it_SendAppendEntries (it_GetEndpoint a j H) ae H w = delivers (registered ops j) (\<lambda>h. rh_HandleAppendEntries h ae) w \<and>
    it_SendInstallSnapshot (it_GetEndpoint a j H) sn H w = delivers (registered ops j) (\<lambda>h. rh_HandleInstallSnapshot h sn) w"
proof -
  note ok = net_run_new[OF assms(1)]
  have a: "map_of (in_trans n) i = Some a"
    using assms(2) by (simp add: in_GetTransport_def)
  have ep: "it_GetEndpoint a j H = InmemEndpoint (in_GetTransport j n)"
    using net_okD(2)[OF ok(1) a] net_okD(3)[OF ok(1) a, of j] a by (auto simp: it_GetEndpoint_def in_GetTransport_def)
  have reg: "registered ops j = map_option (\<lambda>t. it_handler (H ! t)) (in_GetTransport j n)"
    using ok(2) by (simp add: handlers_ok_def in_GetTransport_def)
  show ?thesis
    unfolding ep reg
    by (simp add: it_SendRequestVote_def it_SendAppendEntries_def it_SendInstallSnapshot_def delivers_def
        map_option_pair_bind split: option.split)
qed

text \<open>Two peers; the first calls the second, whose handler was registered, and itself, without one.\<close>

theorem inmem_delivers_witness:
  "\<exists>n H (h :: (nat, nat, nat) rpc_handler).
     net_run [OpCreate 0, OpRegister 1 h, OpCreate 1, OpRegister 1 h, OpStop 1] (NewInmemNetwork 2, []) = Some (n, H) \<and>
     it_GetEndpoint 0 1 H = InmemEndpoint (Some 1) \<and>
     it_SendInstallSnapshot (it_GetEndpoint 0 1 H) \<lparr>sa_Term = 3, sa_LeaderId = 0, sa_LastIncludedIndex = 5, sa_LastIncludedTerm = 2, sa_Snapshot = [7]\<rparr> H 10 =
       Some (Inr 3 :: nat ctx_error + int, 11) \<and>
     it_SendInstallSnapshot (it_GetEndpoint 0 0 H) \<lparr>sa_Term = 3, sa_LeaderId = 0, sa_LastIncludedIndex = 5, sa_LastIncludedTerm = 2, sa_Snapshot = [7]\<rparr> H 10 =
       Some (Inl DeadlineExceeded :: nat ctx_error + int, 10)"
proof -
  define h :: "(nat, nat, nat) rpc_handler" where
    "h = \<lparr>rh_HandleRequestVote = \<lambda>v w. None, rh_HandleAppendEntries = \<lambda>a w. None,
      rh_HandleInstallSnapshot = \<lambda>s w. Some (sa_Term s, w + 1)\<rparr>"
  let ?ops = "[OpCreate 0, OpRegister 1 h, OpCreate 1, OpRegister 1 h, OpStop 1]"
  let ?s = "\<lparr>sa_Term = 3, sa_LeaderId = 0, sa_LastIncludedIndex = 5, sa_LastIncludedTerm = 2, sa_Snapshot = [7]\<rparr>"
  obtain n H where run: "net_run ?ops (NewInmemNetwork 2, []) = Some (n, H)" and
    t: "in_GetTransport 0 n = Some 0" "in_GetTransport 1 n = Some 1"
    by (simp add: NewInmemNetwork_def CreateTransport_def NewInmemTransport_def in_RegisterHandler_def in_GetTransport_def)
  have h: "rh_HandleInstallSnapshot h ?s 10 = Some (3, 11)"
    by (simp add: h_def)
  have r: "registered ?ops 1 = Some (Some h)" "registered ?ops 0 = Some None"
    by (simp_all add: registered_def)
  have "it_GetEndpoint 0 1 H = InmemEndpoint (Some 1)"
    using inmem_delivers[OF run t(1), THEN conjunct1, of 1] t(2) by simp
  moreover have "it_SendInstallSnapshot (it_GetEndpoint 0 1 H) ?s H 10 = Some (Inr 3 :: nat ctx_error + int, 11)"
    using inmem_delivers[OF run t(1), THEN conjunct2, THEN conjunct2, THEN conjunct2, of 1 ?s 10]
    by (simp add: r delivers_def h)
  moreover have "it_SendInstallSnapshot (it_GetEndpoint 0 0 H) ?s H 10 = Some (Inl DeadlineExceeded :: nat ctx_error + int, 10)"
    using inmem_delivers[OF run t(1), THEN conjunct2, THEN conjunct2, THEN conjunct2, of 0 ?s 10]
    by (simp add: r delivers_def)
  ultimately show ?thesis
    using run by blast
qed

section \<open>What the gRPC transport delivers\<close>

text \<open>The values that an \<open>int32\<close> can hold, and the commands that the wire can carry.\<close>

definition fits :: "int \<Rightarrow> bool" where
  "fits x \<longleftrightarrow> - (2 ^ 31) \<le> x \<and> x < 2 ^ 31"

fun wire_command :: "'x go_command option \<Rightarrow> bool" where
  "wire_command None = True"
| "wire_command (Some (CmdBytes v)) = (v \<noteq> [])"
| "wire_command (Some c) = False"

lemma int32_roundtrip: "of_int32 (int32 x) = x \<longleftrightarrow> fits x"
  by (simp add: of_int32_def int32_def fits_def sint_sbintrunc' signed_take_bit_int_eq_self_iff)

lemma command_roundtrip: "unmarshalCommand (marshalCommand c) = c \<longleftrightarrow> wire_command c"
  by (cases c rule: wire_command.cases) (simp_all add: marshalCommand_def unmarshalCommand_def)

lemma entry_roundtrip: "entry_of_pb (pb_of_entry e) = e \<longleftrightarrow> fits (le_Term e) \<and> wire_command (le_Command e)"
  by (cases e) (simp add: entry_of_pb_def pb_of_entry_def int32_roundtrip command_roundtrip)

lemma map_fixed: "map f xs = xs \<longleftrightarrow> list_all (\<lambda>x. f x = x) xs"
  by (induction xs) auto

text \<open>
  (C26) The gRPC transport carries a request unchanged exactly when every number of it fits in 32
  bits and, for a log entry, its command is absent or a non-empty byte string. Any other
  command, a string and every structured command of the services included, reaches the
  follower as something else.
\<close>

theorem grpc_request_roundtrip:
  "(vote_of_pb (pb_of_vote v) = v \<longleftrightarrow>
      fits (va_Term v) \<and> fits (va_CandidateId v) \<and> fits (va_LastLogIndex v) \<and> fits (va_LastLogTerm v)) \<and>
   (append_of_pb (pb_of_append a) = a \<longleftrightarrow>
      fits (aa_Term a) \<and> fits (aa_LeaderId a) \<and> fits (aa_PrevLogIndex a) \<and> fits (aa_PrevLogTerm a) \<and>
      list_all (\<lambda>e. fits (le_Term e) \<and> wire_command (le_Command e)) (aa_Entries a) \<and> fits (aa_LeaderCommit a)) \<and>
   (snapshot_of_pb (pb_of_snapshot s) = s \<longleftrightarrow>
      fits (sa_Term s) \<and> fits (sa_LeaderId s) \<and> fits (sa_LastIncludedIndex s) \<and> fits (sa_LastIncludedTerm s))"
proof (intro conjI)
  show "vote_of_pb (pb_of_vote v) = v \<longleftrightarrow>
      fits (va_Term v) \<and> fits (va_CandidateId v) \<and> fits (va_LastLogIndex v) \<and> fits (va_LastLogTerm v)"
    by (cases v) (simp add: vote_of_pb_def pb_of_vote_def int32_roundtrip)
  show "append_of_pb (pb_of_append a) = a \<longleftrightarrow>
      fits (aa_Term a) \<and> fits (aa_LeaderId a) \<and> fits (aa_PrevLogIndex a) \<and> fits (aa_PrevLogTerm a) \<and>
      list_all (\<lambda>e. fits (le_Term e) \<and> wire_command (le_Command e)) (aa_Entries a) \<and> fits (aa_LeaderCommit a)"
    by (cases a) (simp add: append_of_pb_def pb_of_append_def int32_roundtrip map_fixed entry_roundtrip)
  show "snapshot_of_pb (pb_of_snapshot s) = s \<longleftrightarrow>
      fits (sa_Term s) \<and> fits (sa_LeaderId s) \<and> fits (sa_LastIncludedIndex s) \<and> fits (sa_LastIncludedTerm s)"
    by (cases s) (simp add: snapshot_of_pb_def pb_of_snapshot_def int32_roundtrip)
qed

text \<open>
  An endpoint whose client reaches the server of a transport with a handler: the call is a call
  of that handler, on the request and with the response as the wire carries them.
\<close>

lemma grpc_call:
  assumes "gt_handler t = Some h"
  shows "ge_SendRequestVote (rs_RequestVote t) v w =
      map_option (\<lambda>(r, w). (Inr \<lparr>vr_Term = of_int32 (int32 (vr_Term r)), vr_VoteGranted = vr_VoteGranted r\<rparr>, w))
        (rh_HandleRequestVote h (vote_of_pb (pb_of_vote v)) w)"
    and "ge_SendInstallSnapshot (rs_InstallSnapshot t) s w =
      map_option (\<lambda>(r, w). (Inr (of_int32 (int32 r)), w)) (rh_HandleInstallSnapshot h (snapshot_of_pb (pb_of_snapshot s)) w)"
    and "ge_SendAppendEntries (rs_AppendEntries t) a w =
      map_option (\<lambda>(r, w). (Inr \<lparr>ar_Term = of_int32 (int32 (ar_Term r)), ar_Success = ar_Success r,
          ar_ConfilictIndex = of_int32 (int32 (ar_ConfilictIndex r)), ar_ConfilictTerm = of_int32 (int32 (ar_ConfilictTerm r))\<rparr>, w))
        (rh_HandleAppendEntries h (append_of_pb (pb_of_append a)) w)"
  by (auto simp: assms gt_getHandler_def ge_SendRequestVote_def rs_RequestVote_def ge_SendInstallSnapshot_def
      rs_InstallSnapshot_def ge_SendAppendEntries_def rs_AppendEntries_def split: Option.bind_splits)

section \<open>Endpoints as one contract\<close>

text \<open>
  What a node expects of an endpoint, whichever transport it comes from: a call is a call of
  the handler of the other side, as long as the transport can carry the request and the
  response. A conversation of several calls is then the same calls of the handler.
\<close>

fun conversation :: "('q \<Rightarrow> 'w \<Rightarrow> ('e, 'r, 'w) call_result) \<Rightarrow> 'q list \<Rightarrow> 'w \<Rightarrow> (('e ctx_error + 'r) list \<times> 'w) option" where
  "conversation send [] w = Some ([], w)"
| "conversation send (q # qs) w = do {
     (r, w) \<leftarrow> send q w;
     (rs, w) \<leftarrow> conversation send qs w;
     Some (r # rs, w) }"

locale endpoint_contract =
  fixes send :: "'q \<Rightarrow> 'w \<Rightarrow> ('e, 'r, 'w) call_result" and handle :: "'q \<Rightarrow> 'w \<Rightarrow> ('r \<times> 'w) option"
    and carries :: "'q \<Rightarrow> bool" and carries_back :: "'r \<Rightarrow> bool"
  assumes transparent: "carries q \<Longrightarrow> handle q w = Some (r, w') \<Longrightarrow> carries_back r \<Longrightarrow> send q w = Some (Inr r, w')"
    and panics: "carries q \<Longrightarrow> handle q w = None \<Longrightarrow> send q w = None"
begin

lemma conversation_transparent:
  assumes "\<forall>q\<in>set qs. carries q" "\<forall>q w r w'. handle q w = Some (r, w') \<longrightarrow> carries_back r"
  shows "conversation send qs w = conversation (\<lambda>q w. map_option (\<lambda>(r, w). (Inr r, w)) (handle q w)) qs w"
  using assms(1)
proof (induction qs arbitrary: w)
  case (Cons q qs)
  have "send q w = map_option (\<lambda>(r, w). (Inr r, w)) (handle q w)"
    using Cons.prems transparent[of q w] panics[of q w] assms(2)[rule_format, of q w] by (cases "handle q w") auto
  then show ?case
    using Cons.IH Cons.prems by simp
qed simp

end

abbreviation registered_inmem :: "int \<Rightarrow> int \<Rightarrow> ('c, 'b, 'w) rpc_handler \<Rightarrow> ('c, 'b, 'w) inmem_heap" where
  "registered_inmem peerID peerCount h \<equiv> it_RegisterHandler 0 h (snd (NewInmemTransport peerID peerCount []))"

abbreviation registered_grpc :: "string list \<Rightarrow> int \<Rightarrow> string \<Rightarrow> ('x go_command, byte, 'w) rpc_handler \<Rightarrow>
    ('x go_command, byte, 'w, 'srv, 'cn) grpc_transport" where
  "registered_grpc addrs peerID addr h \<equiv> gt_RegisterHandler h (NewGrpcTransport addrs peerID addr)"

lemma registered_grpc_handler: "gt_handler (registered_grpc addrs peerID addr h) = Some h"
  by (simp add: gt_RegisterHandler_def)

interpretation inmem_votes: endpoint_contract
  "\<lambda>req. it_SendRequestVote (it_GetEndpoint 0 peerID (registered_inmem peerID peerCount h)) req (registered_inmem peerID peerCount h)"
  "rh_HandleRequestVote h" "\<lambda>_. True" "\<lambda>_. True" for peerID peerCount h
  by unfold_locales
    (simp_all add: it_GetEndpoint_def it_SendRequestVote_def it_RegisterHandler_def NewInmemTransport_def)

interpretation grpc_votes: endpoint_contract
  "ge_SendRequestVote (rs_RequestVote (registered_grpc addrs peerID addr h))" "rh_HandleRequestVote h"
  "\<lambda>v. fits (va_Term v) \<and> fits (va_CandidateId v) \<and> fits (va_LastLogIndex v) \<and> fits (va_LastLogTerm v)"
  "\<lambda>r. fits (vr_Term r)" for addrs peerID addr h
proof unfold_locales
  fix q :: request_vote_request and w assume q: "fits (va_Term q) \<and> fits (va_CandidateId q) \<and> fits (va_LastLogIndex q) \<and> fits (va_LastLogTerm q)"
  have id: "vote_of_pb (pb_of_vote q) = q"
    using q by (cases q) (simp add: vote_of_pb_def pb_of_vote_def int32_roundtrip)
  show "ge_SendRequestVote (rs_RequestVote (registered_grpc addrs peerID addr h)) q w = Some (Inr r, w')"
    if "rh_HandleRequestVote h q w = Some (r, w')" "fits (vr_Term r)" for r w'
    using that by (cases r) (simp add: grpc_call(1)[OF registered_grpc_handler] id int32_roundtrip)
  show "ge_SendRequestVote (rs_RequestVote (registered_grpc addrs peerID addr h)) q w = None"
    if "rh_HandleRequestVote h q w = None"
    using that by (simp add: grpc_call(1)[OF registered_grpc_handler] id)
qed

interpretation inmem_appends: endpoint_contract
  "\<lambda>req. it_SendAppendEntries (it_GetEndpoint 0 peerID (registered_inmem peerID peerCount h)) req (registered_inmem peerID peerCount h)"
  "rh_HandleAppendEntries h" "\<lambda>_. True" "\<lambda>_. True" for peerID peerCount h
  by unfold_locales
    (simp_all add: it_GetEndpoint_def it_SendAppendEntries_def it_RegisterHandler_def NewInmemTransport_def)

interpretation grpc_appends: endpoint_contract
  "ge_SendAppendEntries (rs_AppendEntries (registered_grpc addrs peerID addr h))" "rh_HandleAppendEntries h"
  "\<lambda>a. fits (aa_Term a) \<and> fits (aa_LeaderId a) \<and> fits (aa_PrevLogIndex a) \<and> fits (aa_PrevLogTerm a) \<and>
     list_all (\<lambda>e. fits (le_Term e) \<and> wire_command (le_Command e)) (aa_Entries a) \<and> fits (aa_LeaderCommit a)"
  "\<lambda>r. fits (ar_Term r) \<and> fits (ar_ConfilictIndex r) \<and> fits (ar_ConfilictTerm r)"
  for addrs peerID addr and h :: "('x go_command, byte, 'w) rpc_handler"
proof unfold_locales
  fix q :: "'x go_command append_entries_request" and w
  assume q: "fits (aa_Term q) \<and> fits (aa_LeaderId q) \<and> fits (aa_PrevLogIndex q) \<and> fits (aa_PrevLogTerm q) \<and>
     list_all (\<lambda>e. fits (le_Term e) \<and> wire_command (le_Command e)) (aa_Entries q) \<and> fits (aa_LeaderCommit q)"
  have id: "append_of_pb (pb_of_append q) = q"
    using q by (cases q) (simp add: append_of_pb_def pb_of_append_def int32_roundtrip map_fixed entry_roundtrip)
  show "ge_SendAppendEntries (rs_AppendEntries (registered_grpc addrs peerID addr h)) q w = Some (Inr r, w')"
    if "rh_HandleAppendEntries h q w = Some (r, w')" "fits (ar_Term r) \<and> fits (ar_ConfilictIndex r) \<and> fits (ar_ConfilictTerm r)" for r w'
    using that by (cases r) (simp add: grpc_call(3)[OF registered_grpc_handler] id int32_roundtrip)
  show "ge_SendAppendEntries (rs_AppendEntries (registered_grpc addrs peerID addr h)) q w = None"
    if "rh_HandleAppendEntries h q w = None"
    using that by (simp add: grpc_call(3)[OF registered_grpc_handler] id)
qed

text \<open>Appends that the wire can carry have the same effect and answers over either transport.\<close>

lemma appends_either_transport:
  assumes "\<forall>a\<in>set qs. fits (aa_Term a) \<and> fits (aa_LeaderId a) \<and> fits (aa_PrevLogIndex a) \<and> fits (aa_PrevLogTerm a) \<and>
     list_all (\<lambda>e. fits (le_Term e) \<and> wire_command (le_Command e)) (aa_Entries a) \<and> fits (aa_LeaderCommit a)"
    and "\<forall>q w r w'. rh_HandleAppendEntries h q w = Some (r, w') \<longrightarrow>
      fits (ar_Term r) \<and> fits (ar_ConfilictIndex r) \<and> fits (ar_ConfilictTerm r)"
  shows "conversation (ge_SendAppendEntries (rs_AppendEntries (registered_grpc addrs peerID addr h))) qs w =
    conversation (\<lambda>req. it_SendAppendEntries (it_GetEndpoint 0 peerID (registered_inmem peerID peerCount h)) req
      (registered_inmem peerID peerCount h)) qs w"
  unfolding grpc_appends.conversation_transparent[OF assms]
  by (rule inmem_appends.conversation_transparent[symmetric]) simp_all

end
