(* ===== verification/Lab_Rpc.thy ===== *)
theory Lab_Rpc
  imports Go_Base "HOL-Library.Word"
begin

text \<open>
  The simulated network that the services run on (\<^verbatim>\<open>src/src/labrpc/labrpc.go\<close>).

  A call goes through the goroutine of \<open>Call\<close>, the goroutine of the network, \<open>processReq\<close>, the
  goroutine that runs the handler and back. All calls in progress are a list; each has the
  position of its goroutines. The steps of the code between two points where it waits or takes
  a lock are one function each; delays are arbitrary scheduling and random numbers are
  arguments. Names are values of a type \<open>'n\<close>, the nil name is \<^const>\<open>None\<close>; a pointer to a server
  is an index of a heap. Reflection and the encoder of \<^verbatim>\<open>encoding/gob\<close> are parameters, the
  record \<open>codec\<close>; the receivers of the methods are part of a world \<open>'w\<close> that other goroutines
  change too. \<open>log.Fatalf\<close> and a panic stop the program: the function gives \<^const>\<open>None\<close>.
\<close>

section \<open>Messages, services and servers\<close>

type_synonym bytes = "8 word list"

record ('n, 'ty) req_msg =
  rq_endname :: 'n
  rq_svcMeth :: string
  rq_argsType :: 'ty
  rq_args :: bytes

record reply_msg =
  rp_ok :: bool
  rp_reply :: bytes

text \<open>
  Decoding writes into a variable, so it takes the old value and gives whether it succeeded and
  the new value.
\<close>

record ('ty, 'v) codec =
  cd_TypeOf :: "'v \<Rightarrow> 'ty"
  cd_New :: "'ty \<Rightarrow> 'v"
  cd_Encode :: "'v \<Rightarrow> bytes option"
  cd_EncodeValue :: "'v \<Rightarrow> bytes"
  cd_Decode :: "bytes \<Rightarrow> 'v \<Rightarrow> bool \<times> 'v"

text \<open>What reflection tells about a method: \<open>me_In2Ptr\<close> and \<open>me_In2Elem\<close> are about its third input.\<close>

record ('ty, 'v, 'w) rpc_method =
  me_Name :: string
  me_PkgPath :: string
  me_NumIn :: nat
  me_In2Ptr :: bool
  me_In2Elem :: 'ty
  me_NumOut :: nat
  me_Func :: "'v \<Rightarrow> 'v \<Rightarrow> 'w \<Rightarrow> ('v \<times> 'w) option"

record ('ty, 'v, 'w) rpc_service =
  sv_name :: string
  sv_methods :: "string \<rightharpoonup> ('ty, 'v, 'w) rpc_method"

fun methods_loop :: "('ty, 'v, 'w) rpc_method list \<Rightarrow> (string \<rightharpoonup> ('ty, 'v, 'w) rpc_method) \<Rightarrow>
    (string \<rightharpoonup> ('ty, 'v, 'w) rpc_method)" where
  "methods_loop [] ms = ms"
| "methods_loop (method # rest) ms =
     methods_loop rest
       (if me_PkgPath method \<noteq> '''' \<or> me_NumIn method \<noteq> 3 \<or> \<not> me_In2Ptr method \<or> me_NumOut method \<noteq> 0
        then ms else ms(me_Name method \<mapsto> method))"

definition MakeService :: "string \<Rightarrow> ('ty, 'v, 'w) rpc_method list \<Rightarrow> ('ty, 'v, 'w) rpc_service" where
  "MakeService name typ = \<lparr>sv_name = name, sv_methods = methods_loop typ Map.empty\<rparr>"

definition service_dispatch :: "('ty, 'v) codec \<Rightarrow> ('ty, 'v, 'w) rpc_service \<Rightarrow> string \<Rightarrow> ('n, 'ty) req_msg \<Rightarrow> 'w \<Rightarrow>
    (reply_msg \<times> 'w) option" where
  "service_dispatch cd svc methname req w = do {
     method \<leftarrow> sv_methods svc methname;
     let args = snd (cd_Decode cd (rq_args req) (cd_New cd (rq_argsType req)));
     (replyv, w) \<leftarrow> me_Func method args (cd_New cd (me_In2Elem method)) w;
     Some (\<lparr>rp_ok = True, rp_reply = cd_EncodeValue cd replyv\<rparr>, w) }"

record ('ty, 'v, 'w) rpc_server =
  se_services :: "string \<rightharpoonup> ('ty, 'v, 'w) rpc_service"
  se_count :: int

definition MakeServer :: "('ty, 'v, 'w) rpc_server" where
  "MakeServer = \<lparr>se_services = Map.empty, se_count = 0\<rparr>"

definition AddService :: "('ty, 'v, 'w) rpc_service \<Rightarrow> ('ty, 'v, 'w) rpc_server \<Rightarrow> ('ty, 'v, 'w) rpc_server" where
  "AddService svc rs = rs\<lparr>se_services := (se_services rs)(sv_name svc \<mapsto> svc)\<rparr>"

definition se_GetCount :: "('ty, 'v, 'w) rpc_server \<Rightarrow> int" where
  "se_GetCount rs = se_count rs"

text \<open>\<open>strings.LastIndex\<close> for a single character.\<close>

fun LastIndex :: "string \<Rightarrow> char \<Rightarrow> int" where
  "LastIndex [] c = -1"
| "LastIndex (x # xs) c = (let i = LastIndex xs c in if i \<ge> 0 then i + 1 else if x = c then 0 else -1)"

text \<open>The part of \<open>dispatch\<close> under the lock: the service and the name of the method to call.\<close>

definition server_dispatch :: "string \<Rightarrow> ('ty, 'v, 'w) rpc_server \<Rightarrow>
    (('ty, 'v, 'w) rpc_service \<times> string \<times> ('ty, 'v, 'w) rpc_server) option" where
  "server_dispatch svcMeth rs = do {
     let rs = rs\<lparr>se_count := se_count rs + 1\<rparr>;
     let dot = LastIndex svcMeth (CHR ''.'');
     serviceName \<leftarrow> slice_to svcMeth dot;
     methodName \<leftarrow> slice_from svcMeth (dot + 1);
     service \<leftarrow> se_services rs serviceName;
     Some (service, methodName, rs) }"

section \<open>The network\<close>

record 'n rpc_network =
  nt_reliable :: bool
  nt_longDelays :: bool
  nt_longReordering :: bool
  nt_ends :: "'n set"
  nt_enabled :: "'n \<rightharpoonup> bool"
  nt_servers :: "'n \<rightharpoonup> nat option"
  nt_connections :: "'n \<rightharpoonup> 'n option"
  nt_done :: bool
  nt_count :: "32 word"
  nt_bytes :: "64 word"

definition MakeNetwork :: "'n rpc_network" where
  "MakeNetwork = \<lparr>nt_reliable = True, nt_longDelays = False, nt_longReordering = False, nt_ends = {},
     nt_enabled = Map.empty, nt_servers = Map.empty, nt_connections = Map.empty, nt_done = False,
     nt_count = 0, nt_bytes = 0\<rparr>"

text \<open>Closing a channel that is closed is a panic.\<close>

definition Cleanup :: "'n rpc_network \<Rightarrow> 'n rpc_network option" where
  "Cleanup rn = (if nt_done rn then None else Some (rn\<lparr>nt_done := True\<rparr>))"

definition Reliable :: "bool \<Rightarrow> 'n rpc_network \<Rightarrow> 'n rpc_network" where
  "Reliable yes rn = rn\<lparr>nt_reliable := yes\<rparr>"

definition LongReordering :: "bool \<Rightarrow> 'n rpc_network \<Rightarrow> 'n rpc_network" where
  "LongReordering yes rn = rn\<lparr>nt_longReordering := yes\<rparr>"

definition LongDelays :: "bool \<Rightarrow> 'n rpc_network \<Rightarrow> 'n rpc_network" where
  "LongDelays yes rn = rn\<lparr>nt_longDelays := yes\<rparr>"

text \<open>Reading an absent entry of a map gives the zero value: false, or a nil name or pointer.\<close>

definition enabledAt :: "'n rpc_network \<Rightarrow> 'n \<Rightarrow> bool" where
  "enabledAt rn endname = (nt_enabled rn endname = Some True)"

definition serverAt :: "'n rpc_network \<Rightarrow> 'n \<Rightarrow> nat option" where
  "serverAt rn servername = (case nt_servers rn servername of None \<Rightarrow> None | Some s \<Rightarrow> s)"

definition connectedTo :: "'n rpc_network \<Rightarrow> 'n \<Rightarrow> 'n option" where
  "connectedTo rn endname = (case nt_connections rn endname of None \<Rightarrow> None | Some s \<Rightarrow> s)"

definition readEndnameInfo :: "'n \<Rightarrow> 'n rpc_network \<Rightarrow> bool \<times> 'n option \<times> nat option \<times> bool \<times> bool" where
  "readEndnameInfo endname rn =
     (let servername = connectedTo rn endname;
          server = (case servername of None \<Rightarrow> None | Some name \<Rightarrow> serverAt rn name)
      in (enabledAt rn endname, servername, server, nt_reliable rn, nt_longReordering rn))"

definition isServerDead :: "'n \<Rightarrow> 'n \<Rightarrow> nat \<Rightarrow> 'n rpc_network \<Rightarrow> bool" where
  "isServerDead endname servername server rn =
     (enabledAt rn endname = False \<or> serverAt rn servername \<noteq> Some server)"

definition MakeEnd :: "'n \<Rightarrow> 'n rpc_network \<Rightarrow> 'n rpc_network option" where
  "MakeEnd endname rn =
     (if endname \<in> nt_ends rn then None
      else Some (rn\<lparr>nt_ends := insert endname (nt_ends rn), nt_enabled := (nt_enabled rn)(endname \<mapsto> False),
             nt_connections := (nt_connections rn)(endname \<mapsto> None)\<rparr>))"

definition AddServer :: "'n \<Rightarrow> nat \<Rightarrow> 'n rpc_network \<Rightarrow> 'n rpc_network" where
  "AddServer servername rs rn = rn\<lparr>nt_servers := (nt_servers rn)(servername \<mapsto> Some rs)\<rparr>"

definition DeleteServer :: "'n \<Rightarrow> 'n rpc_network \<Rightarrow> 'n rpc_network" where
  "DeleteServer servername rn = rn\<lparr>nt_servers := (nt_servers rn)(servername \<mapsto> None)\<rparr>"

definition Connect :: "'n \<Rightarrow> 'n \<Rightarrow> 'n rpc_network \<Rightarrow> 'n rpc_network" where
  "Connect endname servername rn = rn\<lparr>nt_connections := (nt_connections rn)(endname \<mapsto> Some servername)\<rparr>"

definition Enable :: "'n \<Rightarrow> bool \<Rightarrow> 'n rpc_network \<Rightarrow> 'n rpc_network" where
  "Enable endname enabled rn = rn\<lparr>nt_enabled := (nt_enabled rn)(endname \<mapsto> enabled)\<rparr>"

text \<open>The count of a deleted server is a nil dereference.\<close>

definition nt_GetCount :: "'n \<Rightarrow> 'n rpc_network \<Rightarrow> ('ty, 'v, 'w) rpc_server list \<Rightarrow> int option" where
  "nt_GetCount servername rn heap = do {
     svr \<leftarrow> serverAt rn servername;
     Some (se_GetCount (heap ! svr)) }"

definition GetTotalCount :: "'n rpc_network \<Rightarrow> int" where
  "GetTotalCount rn = sint (nt_count rn)"

definition GetTotalBytes :: "'n rpc_network \<Rightarrow> 64 word" where
  "GetTotalBytes rn = nt_bytes rn"

section \<open>A call\<close>

text \<open>
  Where \<open>Call\<close> and \<open>processReq\<close> are: before the request is sent; sent; waiting for the handler,
  with what \<open>readEndnameInfo\<close> returned; with the reply of the handler; with a reply that is to be
  sent on \<open>replyCh\<close>; returned, with the result and the variable of the caller.
\<close>

datatype ('n, 'v) call_pc =
    CSend
  | CSent
  | CWait 'n nat bool bool
  | CGot 'n nat bool bool reply_msg
  | CReply reply_msg
  | CReturned bool 'v

text \<open>Where the goroutine is that runs the handler.\<close>

datatype ('ty, 'v, 'w) handler_st =
    HNone
  | HStart nat
  | HRun "('ty, 'v, 'w) rpc_service" string
  | HSent reply_msg

record ('n, 'ty, 'v, 'w) rpc_call =
  ca_req :: "('n, 'ty) req_msg"
  ca_var :: 'v
  ca_pc :: "('n, 'v) call_pc"
  ca_handler :: "('ty, 'v, 'w) handler_st"

definition lost :: reply_msg where
  "lost = \<lparr>rp_ok = False, rp_reply = []\<rparr>"

definition Call :: "('ty, 'v) codec \<Rightarrow> 'n \<Rightarrow> string \<Rightarrow> 'v \<Rightarrow> 'v \<Rightarrow> ('n, 'ty, 'v, 'w) rpc_call option" where
  "Call cd endname svcMeth args reply = do {
     bs \<leftarrow> cd_Encode cd args;
     Some \<lparr>ca_req = \<lparr>rq_endname = endname, rq_svcMeth = svcMeth, rq_argsType = cd_TypeOf cd args, rq_args = bs\<rparr>,
       ca_var = reply, ca_pc = CSend, ca_handler = HNone\<rparr> }"

text \<open>\<open>Call\<close> after the rendezvous on \<open>replyCh\<close>.\<close>

definition Call_return :: "('ty, 'v) codec \<Rightarrow> reply_msg \<Rightarrow> 'v \<Rightarrow> ('n, 'v) call_pc option" where
  "Call_return cd rep reply =
     (if rp_ok rep then
        case cd_Decode cd (rp_reply rep) reply of (ok, v) \<Rightarrow> if ok then Some (CReturned True v) else None
      else Some (CReturned False reply))"

text \<open>The beginning of \<open>processReq\<close>; \<open>roll\<close> is the value of \<open>rand.Int()\<close>.\<close>

definition processReq_begin :: "int \<Rightarrow> ('n, 'ty) req_msg \<Rightarrow> 'n rpc_network \<Rightarrow> ('n, 'v) call_pc \<times> ('ty, 'v, 'w) handler_st" where
  "processReq_begin roll req rn =
     (let (enabled, servername, server, reliable, longreordering) = readEndnameInfo (rq_endname req) rn
      in case (servername, server) of
           (Some name, Some srv) \<Rightarrow>
             if enabled then
               if reliable = False \<and> roll mod 1000 < 100 then (CReply lost, HNone)
               else (CWait name srv reliable longreordering, HStart srv)
             else (CReply lost, HNone)
         | _ \<Rightarrow> (CReply lost, HNone))"

text \<open>
  The wait loop: a reply on \<open>ech\<close>, or a timeout with the check whether the server is gone; the
  check is made once more after the loop, but without a reply it changes nothing.
\<close>

definition processReq_wait :: "bool \<Rightarrow> ('n, 'ty) req_msg \<Rightarrow> 'n rpc_network \<Rightarrow> ('ty, 'v, 'w) handler_st \<Rightarrow>
    ('n, 'v) call_pc \<Rightarrow> ('n, 'v) call_pc" where
  "processReq_wait timeout req rn h pc = (case pc of
     CWait name srv reliable longreordering \<Rightarrow>
       if timeout then
         if isServerDead (rq_endname req) name srv rn then CReply lost else pc
       else (case h of HSent reply \<Rightarrow> CGot name srv reliable longreordering reply | _ \<Rightarrow> pc)
   | _ \<Rightarrow> pc)"

text \<open>
  After the loop; \<open>roll\<close> is the value of \<open>rand.Int()\<close> for an unreliable network. Long reordering
  only delays the sending of the reply.
\<close>

definition processReq_end :: "int \<Rightarrow> ('n, 'ty) req_msg \<Rightarrow> 'n rpc_network \<Rightarrow> ('n, 'v) call_pc \<Rightarrow> ('n, 'v) call_pc" where
  "processReq_end roll req rn pc = (case pc of
     CGot name srv reliable longreordering reply \<Rightarrow>
       if isServerDead (rq_endname req) name srv rn then CReply lost
       else if reliable = False \<and> roll mod 1000 < 100 then CReply lost
       else CReply reply
   | _ \<Rightarrow> pc)"

section \<open>The system\<close>

text \<open>
  \<open>ry_runs\<close> records the handler executions: the call, the service, the method and the world it
  was executed in.
\<close>

record ('n, 'ty, 'v, 'w) rpc_sys =
  ry_net :: "'n rpc_network"
  ry_heap :: "('ty, 'v, 'w) rpc_server list"
  ry_world :: 'w
  ry_calls :: "('n, 'ty, 'v, 'w) rpc_call list"
  ry_runs :: "(nat \<times> ('ty, 'v, 'w) rpc_service \<times> string \<times> 'w) list"

inductive network_op :: "nat \<Rightarrow> 'n rpc_network \<Rightarrow> 'n rpc_network \<Rightarrow> bool" for k where
  op_cleanup: "Cleanup n = Some n' \<Longrightarrow> network_op k n n'"
| op_reliable: "network_op k n (Reliable yes n)"
| op_reordering: "network_op k n (LongReordering yes n)"
| op_delays: "network_op k n (LongDelays yes n)"
| op_end: "MakeEnd endname n = Some n' \<Longrightarrow> network_op k n n'"
| op_add: "rs < k \<Longrightarrow> network_op k n (AddServer servername rs n)"
| op_delete: "network_op k n (DeleteServer servername n)"
| op_connect: "network_op k n (Connect endname servername n)"
| op_enable: "network_op k n (Enable endname enabled n)"

definition setCall :: "nat \<Rightarrow> ('n, 'v) call_pc \<Rightarrow> ('ty, 'v, 'w) handler_st \<Rightarrow> ('n, 'ty, 'v, 'w) rpc_sys \<Rightarrow>
    ('n, 'ty, 'v, 'w) rpc_sys" where
  "setCall i pc h s = s\<lparr>ry_calls := (ry_calls s)[i := (ry_calls s ! i)\<lparr>ca_pc := pc, ca_handler := h\<rparr>]\<rparr>"

abbreviation call_at :: "('n, 'ty, 'v, 'w) rpc_sys \<Rightarrow> nat \<Rightarrow> ('n, 'ty, 'v, 'w) rpc_call" where
  "call_at s i \<equiv> ry_calls s ! i"

abbreviation count_bytes :: "nat \<Rightarrow> 'n rpc_network \<Rightarrow> 'n rpc_network" where
  "count_bytes k n \<equiv> n\<lparr>nt_bytes := nt_bytes n + of_nat k\<rparr>"

text \<open>
  The steps of the calls, of the goroutines that serve them, and of the operations of the tester.
  After \<open>Cleanup\<close> the selects of the caller and of the network may choose either of their cases:
  a request is refused or, since the network may not yet have stopped receiving, still accepted.
\<close>

inductive rpc_step :: "('ty, 'v) codec \<Rightarrow> ('n, 'ty, 'v, 'w) rpc_sys \<Rightarrow> ('n, 'ty, 'v, 'w) rpc_sys \<Rightarrow> bool" for cd where
  st_call: "endname \<in> nt_ends (ry_net s) \<Longrightarrow> Call cd endname svcMeth args reply = Some c \<Longrightarrow>
     rpc_step cd s (s\<lparr>ry_calls := ry_calls s @ [c]\<rparr>)"
| st_accept: "i < length (ry_calls s) \<Longrightarrow> ca_pc (call_at s i) = CSend \<Longrightarrow>
     rpc_step cd s (setCall i CSent (ca_handler (call_at s i))
       (s\<lparr>ry_net := count_bytes (length (rq_args (ca_req (call_at s i)))) ((ry_net s)\<lparr>nt_count := nt_count (ry_net s) + 1\<rparr>)\<rparr>))"
| st_refuse: "i < length (ry_calls s) \<Longrightarrow> ca_pc (call_at s i) = CSend \<Longrightarrow> nt_done (ry_net s) \<Longrightarrow>
     rpc_step cd s (setCall i (CReturned False (ca_var (call_at s i))) (ca_handler (call_at s i)) s)"
| st_begin: "i < length (ry_calls s) \<Longrightarrow> ca_pc (call_at s i) = CSent \<Longrightarrow>
     processReq_begin roll (ca_req (call_at s i)) (ry_net s) = (pc, h) \<Longrightarrow> rpc_step cd s (setCall i pc h s)"
| st_dispatch: "i < length (ry_calls s) \<Longrightarrow> ca_handler (call_at s i) = HStart srv \<Longrightarrow>
     server_dispatch (rq_svcMeth (ca_req (call_at s i))) (ry_heap s ! srv) = Some (svc, meth, rs) \<Longrightarrow>
     rpc_step cd s (setCall i (ca_pc (call_at s i)) (HRun svc meth) (s\<lparr>ry_heap := (ry_heap s)[srv := rs]\<rparr>))"
| st_run: "i < length (ry_calls s) \<Longrightarrow> ca_handler (call_at s i) = HRun svc meth \<Longrightarrow>
     service_dispatch cd svc meth (ca_req (call_at s i)) (ry_world s) = Some (r, w) \<Longrightarrow>
     rpc_step cd s (setCall i (ca_pc (call_at s i)) (HSent r)
       (s\<lparr>ry_world := w, ry_runs := ry_runs s @ [(i, svc, meth, ry_world s)]\<rparr>))"
| st_wait: "i < length (ry_calls s) \<Longrightarrow>
     rpc_step cd s (setCall i (processReq_wait timeout (ca_req (call_at s i)) (ry_net s) (ca_handler (call_at s i))
       (ca_pc (call_at s i))) (ca_handler (call_at s i)) s)"
| st_end: "i < length (ry_calls s) \<Longrightarrow>
     rpc_step cd s (setCall i (processReq_end roll (ca_req (call_at s i)) (ry_net s) (ca_pc (call_at s i)))
       (ca_handler (call_at s i)) s)"
| st_deliver: "i < length (ry_calls s) \<Longrightarrow> ca_pc (call_at s i) = CReply r \<Longrightarrow>
     Call_return cd r (ca_var (call_at s i)) = Some pc \<Longrightarrow>
     rpc_step cd s (setCall i pc (ca_handler (call_at s i)) (s\<lparr>ry_net := count_bytes (length (rp_reply r)) (ry_net s)\<rparr>))"
| st_network: "network_op (length (ry_heap s)) (ry_net s) n \<Longrightarrow> rpc_step cd s (s\<lparr>ry_net := n\<rparr>)"
| st_server: "rpc_step cd s (s\<lparr>ry_heap := ry_heap s @ [MakeServer]\<rparr>)"
| st_service: "rpc_step cd s (s\<lparr>ry_heap := (ry_heap s)[j := AddService svc (ry_heap s ! j)]\<rparr>)"
| st_world: "rpc_step cd s (s\<lparr>ry_world := w\<rparr>)"

inductive rpc_reach :: "('ty, 'v) codec \<Rightarrow> ('n, 'ty, 'v, 'w) rpc_sys \<Rightarrow> bool" for cd where
  rr_init: "rpc_reach cd \<lparr>ry_net = MakeNetwork, ry_heap = [], ry_world = w, ry_calls = [], ry_runs = []\<rparr>"
| rr_step: "rpc_reach cd s \<Longrightarrow> rpc_step cd s s' \<Longrightarrow> rpc_reach cd s'"

section \<open>A reply comes from one execution\<close>

definition runs_of :: "nat \<Rightarrow> ('n, 'ty, 'v, 'w) rpc_sys \<Rightarrow> (nat \<times> ('ty, 'v, 'w) rpc_service \<times> string \<times> 'w) list" where
  "runs_of i s = filter (\<lambda>r. fst r = i) (ry_runs s)"

definition addressed :: "('n, 'ty, 'v, 'w) rpc_call \<Rightarrow> ('ty, 'v, 'w) rpc_service \<Rightarrow> string \<Rightarrow> bool" where
  "addressed c svc meth \<longleftrightarrow> (\<exists>rs rs'. server_dispatch (rq_svcMeth (ca_req c)) rs = Some (svc, meth, rs'))"

text \<open>Without a reply of its handler a call can only end without success.\<close>

fun no_reply :: "'v \<Rightarrow> ('n, 'v) call_pc \<Rightarrow> bool" where
  "no_reply var (CReply r) = (r = lost)"
| "no_reply var (CReturned b v) = (\<not> b \<and> v = var)"
| "no_reply var (CGot n srv rel lr r) = False"
| "no_reply var pc = True"

fun with_reply :: "('ty, 'v) codec \<Rightarrow> reply_msg \<Rightarrow> 'v \<Rightarrow> ('n, 'v) call_pc \<Rightarrow> bool" where
  "with_reply cd r var (CGot n srv rel lr r') = (r' = r)"
| "with_reply cd r var (CReply r') = (r' = r \<or> r' = lost)"
| "with_reply cd r var (CReturned True v) = (cd_Decode cd (rp_reply r) var = (True, v))"
| "with_reply cd r var (CReturned False v) = (v = var)"
| "with_reply cd r var (CWait n srv rel lr) = True"
| "with_reply cd r var pc = False"

definition idle :: "('n, 'v) call_pc \<Rightarrow> bool" where
  "idle pc \<longleftrightarrow> pc = CSend \<or> pc = CSent"

fun call_ok :: "('ty, 'v) codec \<Rightarrow> (nat \<times> ('ty, 'v, 'w) rpc_service \<times> string \<times> 'w) list \<Rightarrow> nat \<Rightarrow>
    ('n, 'ty, 'v, 'w) rpc_call \<Rightarrow> ('ty, 'v, 'w) handler_st \<Rightarrow> bool" where
  "call_ok cd runs i c HNone = (runs = [] \<and> no_reply (ca_var c) (ca_pc c) \<and> (\<forall>n srv rel lr. ca_pc c \<noteq> CWait n srv rel lr))"
| "call_ok cd runs i c (HStart srv) = (runs = [] \<and> no_reply (ca_var c) (ca_pc c) \<and> \<not> idle (ca_pc c))"
| "call_ok cd runs i c (HRun svc meth) =
     (runs = [] \<and> no_reply (ca_var c) (ca_pc c) \<and> \<not> idle (ca_pc c) \<and> addressed c svc meth)"
| "call_ok cd runs i c (HSent r) = (\<exists>svc meth w w'. runs = [(i, svc, meth, w)] \<and> addressed c svc meth \<and>
     service_dispatch cd svc meth (ca_req c) w = Some (r, w') \<and> with_reply cd r (ca_var c) (ca_pc c))"

definition calls_ok :: "('ty, 'v) codec \<Rightarrow> ('n, 'ty, 'v, 'w) rpc_sys \<Rightarrow> bool" where
  "calls_ok cd s \<longleftrightarrow> (\<forall>i<length (ry_calls s). call_ok cd (runs_of i s) i (call_at s i) (ca_handler (call_at s i))) \<and>
     (\<forall>r\<in>set (ry_runs s). fst r < length (ry_calls s))"

lemma calls_okD:
  "calls_ok cd s \<Longrightarrow> i < length (ry_calls s) \<Longrightarrow> call_ok cd (runs_of i s) i (call_at s i) (ca_handler (call_at s i))"
  by (simp add: calls_ok_def)

lemma setCall_simps [simp]:
  "ry_net (setCall i pc h s) = ry_net s" "ry_heap (setCall i pc h s) = ry_heap s" "ry_world (setCall i pc h s) = ry_world s"
  "ry_runs (setCall i pc h s) = ry_runs s" "length (ry_calls (setCall i pc h s)) = length (ry_calls s)"
  "runs_of j (setCall i pc h s) = runs_of j s"
  by (simp_all add: setCall_def runs_of_def)

lemma setCall_at:
  "i < length (ry_calls s) \<Longrightarrow> ry_calls (setCall i pc h s) ! j = (if j = i then (call_at s i)\<lparr>ca_pc := pc, ca_handler := h\<rparr> else call_at s j)"
  by (simp add: setCall_def nth_list_update)

text \<open>A step of one call keeps the invariant if it keeps it for that call.\<close>

lemma calls_ok_setCall:
  assumes "calls_ok cd s" "i < length (ry_calls s)" "ry_calls s' = ry_calls s"
    and "ry_runs s' = ry_runs s \<or> (\<exists>x. ry_runs s' = ry_runs s @ [(i, x)])"
    and "call_ok cd (runs_of i s') i ((call_at s i)\<lparr>ca_pc := pc, ca_handler := h\<rparr>) h"
  shows "calls_ok cd (setCall i pc h s')"
proof -
  have "runs_of j s' = runs_of j s" if "j \<noteq> i" for j
    using assms(4) that by (auto simp: runs_of_def)
  moreover have "\<forall>r\<in>set (ry_runs s'). fst r < length (ry_calls s)"
    using assms(1,2,4) by (auto simp: calls_ok_def)
  ultimately show ?thesis
    using assms(1,2,3,5) by (simp add: calls_ok_def setCall_at)
qed

lemma addressed_upd [simp]:
  "addressed (c\<lparr>ca_pc := pc\<rparr>) = addressed c" "addressed (c\<lparr>ca_handler := h\<rparr>) = addressed c"
  by (simp_all add: addressed_def fun_eq_iff)

lemma no_reply_return: "r = lost \<Longrightarrow> Call_return cd r var = Some pc \<Longrightarrow> pc = CReturned False var"
  by (simp add: Call_return_def lost_def)

lemma call_ok_deliver:
  assumes "call_ok cd runs i c h" "ca_handler c = h" "ca_pc c = CReply r" "Call_return cd r (ca_var c) = Some pc"
  shows "call_ok cd runs i (c\<lparr>ca_pc := pc, ca_handler := h\<rparr>) h"
proof (cases h)
  case (HSent r')
  then have "r = r' \<or> r = lost"
    using assms by auto
  then have "with_reply cd r' (ca_var c) pc"
    using assms(4) no_reply_return[of r cd "ca_var c" pc] by (auto simp: Call_return_def split: if_splits prod.splits)
  then show ?thesis
    using assms HSent by auto
qed (use assms no_reply_return[of r cd "ca_var c" pc] in \<open>auto simp: idle_def\<close>)

lemma call_ok_wait:
  assumes "call_ok cd runs i c h"
  shows "call_ok cd runs i (c\<lparr>ca_pc := processReq_wait timeout (ca_req c) n h (ca_pc c), ca_handler := h\<rparr>) h"
  using assms by (cases h; cases "ca_pc c") (auto simp: processReq_wait_def idle_def)

lemma call_ok_end:
  assumes "call_ok cd runs i c h"
  shows "call_ok cd runs i (c\<lparr>ca_pc := processReq_end roll (ca_req c) n (ca_pc c), ca_handler := h\<rparr>) h"
  using assms by (cases h; cases "ca_pc c") (auto simp: processReq_end_def idle_def)

lemma processReq_begin_cases:
  assumes "processReq_begin roll req n = (pc, h)"
  shows "pc = CReply lost \<and> h = HNone \<or>
    (\<exists>name srv rel lr. pc = CWait name srv rel lr \<and> h = HStart srv \<and> serverAt n name = Some srv)"
  using assms by (auto simp: processReq_begin_def readEndnameInfo_def Let_def split: option.splits if_splits)

lemma call_ok_begin:
  assumes "call_ok cd runs i c (ca_handler c)" "ca_pc c = CSent" "processReq_begin roll req n = (pc, h)"
  shows "call_ok cd runs i (c\<lparr>ca_pc := pc, ca_handler := h\<rparr>) h"
  using assms(1,2) processReq_begin_cases[OF assms(3)] by (cases "ca_handler c") (auto simp: idle_def)

lemma rpc_step_calls_ok:
  assumes "rpc_step cd s s'" "calls_ok cd s"
  shows "calls_ok cd s'"
  using assms
proof (induction rule: rpc_step.induct)
  case (st_call endname s svcMeth args reply c)
  then have c: "ca_pc c = CSend" "ca_handler c = HNone"
    by (auto simp: Call_def)
  have "runs_of (length (ry_calls s)) s = []"
    using st_call.prems by (auto simp: calls_ok_def runs_of_def filter_empty_conv)
  then show ?case
    using st_call.prems c by (auto simp: calls_ok_def nth_append runs_of_def less_Suc_eq)
next
  case (st_accept i s)
  show ?case
    using calls_okD[OF st_accept.prems st_accept.hyps(1)] st_accept.hyps(2)
    by (intro calls_ok_setCall[OF st_accept.prems st_accept.hyps(1)])
      (cases "ca_handler (call_at s i)"; auto simp: runs_of_def idle_def)+
next
  case (st_refuse i s)
  show ?case
    using calls_okD[OF st_refuse.prems st_refuse.hyps(1)] st_refuse.hyps(2)
    by (intro calls_ok_setCall[OF st_refuse.prems st_refuse.hyps(1)])
      (cases "ca_handler (call_at s i)"; auto simp: runs_of_def idle_def)+
next
  case (st_begin i s roll pc h)
  show ?case
    by (rule calls_ok_setCall[OF st_begin.prems st_begin.hyps(1) refl disjI1[OF refl]
        call_ok_begin[OF calls_okD[OF st_begin.prems st_begin.hyps(1)] st_begin.hyps(2,3)]])
next
  case (st_dispatch i s srv svc meth rs)
  have "addressed (call_at s i) svc meth"
    using st_dispatch.hyps(3) by (auto simp: addressed_def)
  then show ?case
    using calls_okD[OF st_dispatch.prems st_dispatch.hyps(1)] st_dispatch.hyps(2)
    by (intro calls_ok_setCall[OF st_dispatch.prems st_dispatch.hyps(1)]) (auto simp: runs_of_def)
next
  case (st_run i s svc meth r w)
  let ?s = "s\<lparr>ry_world := w, ry_runs := ry_runs s @ [(i, svc, meth, ry_world s)]\<rparr>"
  have ok: "runs_of i s = []" "no_reply (ca_var (call_at s i)) (ca_pc (call_at s i))" "\<not> idle (ca_pc (call_at s i))"
    "addressed (call_at s i) svc meth"
    using calls_okD[OF st_run.prems st_run.hyps(1)] st_run.hyps(2) by simp_all
  have runs: "runs_of i ?s = [(i, svc, meth, ry_world s)]"
    using ok(1) by (simp add: runs_of_def)
  have "with_reply cd r (ca_var (call_at s i)) (ca_pc (call_at s i))"
    using ok(2,3) by (cases "ca_pc (call_at s i)") (auto simp: idle_def)
  then have "call_ok cd (runs_of i ?s) i ((call_at s i)\<lparr>ca_pc := ca_pc (call_at s i), ca_handler := HSent r\<rparr>) (HSent r)"
    using st_run.hyps(3) ok(4) unfolding runs by auto
  then show ?case
    by (intro calls_ok_setCall[OF st_run.prems st_run.hyps(1)]) auto
next
  case (st_wait i s timeout)
  show ?case
    by (rule calls_ok_setCall[OF st_wait.prems st_wait.hyps(1) refl disjI1[OF refl]
        call_ok_wait[OF calls_okD[OF st_wait.prems st_wait.hyps(1)]]])
next
  case (st_end i s roll)
  show ?case
    by (rule calls_ok_setCall[OF st_end.prems st_end.hyps(1) refl disjI1[OF refl]
        call_ok_end[OF calls_okD[OF st_end.prems st_end.hyps(1)]]])
next
  case (st_deliver i s r pc)
  show ?case
    using call_ok_deliver[OF calls_okD[OF st_deliver.prems st_deliver.hyps(1)] refl st_deliver.hyps(2,3)]
    by (intro calls_ok_setCall[OF st_deliver.prems st_deliver.hyps(1)]) (simp_all add: runs_of_def)
qed (auto simp: calls_ok_def runs_of_def)

lemma rpc_reach_calls_ok: "rpc_reach cd s \<Longrightarrow> calls_ok cd s"
proof (induction rule: rpc_reach.induct)
  case (rr_step s s')
  show ?case
    by (rule rpc_step_calls_ok[OF rr_step.hyps(2) rr_step.IH])
qed (simp add: calls_ok_def)

text \<open>
  (C27) Whatever requests and replies the network loses, delays and reorders, and however servers
  are added, deleted, connected and disabled meanwhile, the handler of a call is executed at
  most once. If \<open>Call\<close> returns true, then exactly one execution took place, of the method that
  the call names, on the arguments that were sent, and the variable of the caller holds its
  reply; if it returns false, the variable is untouched.
\<close>

theorem rpc_call_once:
  assumes "rpc_reach cd s" "i < length (ry_calls s)" and c: "c = ry_calls s ! i"
  shows "length (runs_of i s) \<le> 1 \<and>
    (ca_pc c = CReturned False v \<longrightarrow> v = ca_var c) \<and>
    (ca_pc c = CReturned True v \<longrightarrow> (\<exists>svc meth w r w'. runs_of i s = [(i, svc, meth, w)] \<and> addressed c svc meth \<and>
      service_dispatch cd svc meth (ca_req c) w = Some (r, w') \<and> cd_Decode cd (rp_reply r) (ca_var c) = (True, v)))"
  using calls_okD[OF rpc_reach_calls_ok[OF assms(1)] assms(2)] unfolding c[symmetric]
  by (cases "ca_handler c") auto

section \<open>Deleted servers\<close>

fun doomed :: "'n \<Rightarrow> nat \<Rightarrow> 'n rpc_network \<Rightarrow> ('n, 'v) call_pc \<Rightarrow> bool" where
  "doomed name srv n (CWait name' srv' rel lr) = (name' = name \<and> srv' = srv \<and> serverAt n name \<noteq> Some srv)"
| "doomed name srv n (CGot name' srv' rel lr r) = (name' = name \<and> srv' = srv \<and> serverAt n name \<noteq> Some srv)"
| "doomed name srv n (CReply r) = (r = lost)"
| "doomed name srv n (CReturned b v) = (\<not> b)"
| "doomed name srv n pc = False"

lemma doomed_other_net: "doomed name srv n pc \<Longrightarrow> serverAt n' name \<noteq> Some srv \<Longrightarrow> doomed name srv n' pc"
  by (cases pc) auto

lemma doomed_step:
  assumes "rpc_step cd s s'" "serverAt (ry_net s') name \<noteq> Some srv"
    and "i < length (ry_calls s) \<and> doomed name srv (ry_net s) (ca_pc (call_at s i))"
  shows "i < length (ry_calls s') \<and> doomed name srv (ry_net s') (ca_pc (call_at s' i))"
  using assms
proof (induction rule: rpc_step.induct)
  case (st_call endname s svcMeth args reply c)
  then show ?case
    by (simp add: nth_append)
next
  case (st_accept k s)
  then show ?case
    by (auto simp: setCall_at elim: doomed_other_net)
next
  case (st_refuse k s)
  then show ?case
    by (auto simp: setCall_at)
next
  case (st_begin k s roll pc h)
  then show ?case
    by (auto simp: setCall_at)
next
  case (st_dispatch k s srv' svc meth rs)
  then show ?case
    by (auto simp: setCall_at)
next
  case (st_run k s svc meth r w)
  then show ?case
    by (auto simp: setCall_at)
next
  case (st_wait k s timeout)
  then show ?case
    by (cases "ca_pc (call_at s i)") (auto simp: setCall_at processReq_wait_def split: handler_st.splits)
next
  case (st_end k s roll)
  then show ?case
    by (cases "ca_pc (call_at s i)") (auto simp: setCall_at processReq_end_def isServerDead_def)
next
  case (st_deliver k s r pc)
  have "doomed name srv (ry_net s) pc" if "k = i"
    using st_deliver.prems(2) st_deliver.hyps(2,3) that no_reply_return[of r cd "ca_var (call_at s k)" pc] by simp
  then show ?case
    using st_deliver.prems st_deliver.hyps(1) by (auto simp: setCall_at elim: doomed_other_net)
qed (auto elim: doomed_other_net)

text \<open>
  (C29) A server that is deleted while it works on a call no longer answers it: from then on,
  whatever happens, also if its handler still completes, \<open>Call\<close> does not return true, as long as
  the same server is not added again under its name.
\<close>

theorem rpc_deleted_server_silent:
  assumes i: "i < length (ry_calls s)"
    and wait: "ca_pc (ry_calls s ! i) = CWait name srv rel lr \<or> ca_pc (ry_calls s ! i) = CGot name srv rel lr r"
    and run: "(\<lambda>s s'. rpc_step cd s s' \<and> serverAt (ry_net s') name \<noteq> Some srv)\<^sup>*\<^sup>* (s\<lparr>ry_net := DeleteServer name (ry_net s)\<rparr>) s'"
  shows "ca_pc (ry_calls s' ! i) \<noteq> CReturned True v"
proof -
  have "serverAt (DeleteServer name (ry_net s)) name = None"
    by (simp add: serverAt_def DeleteServer_def)
  then have "i < length (ry_calls s) \<and> doomed name srv (DeleteServer name (ry_net s)) (ca_pc (call_at s i))"
    using i wait by auto
  with run have "i < length (ry_calls s') \<and> doomed name srv (ry_net s') (ca_pc (call_at s' i))"
  proof (induction rule: rtranclp_induct)
    case (step y z)
    then show ?case
      using doomed_step[of cd y z name srv i] by blast
  qed simp
  then show ?thesis
    by auto
qed

section \<open>Calls return\<close>

text \<open>A handler that returns, with a reply that the caller can decode.\<close>

definition handled :: "('ty, 'v) codec \<Rightarrow> ('ty, 'v, 'w) rpc_service \<Rightarrow> string \<Rightarrow> ('n, 'ty, 'v, 'w) rpc_call \<Rightarrow> bool" where
  "handled cd svc meth c \<longleftrightarrow> (\<forall>w. \<exists>r w'. service_dispatch cd svc meth (ca_req c) w = Some (r, w') \<and>
     fst (cd_Decode cd (rp_reply r) (ca_var c)))"

definition serves :: "('ty, 'v) codec \<Rightarrow> ('n, 'ty, 'v, 'w) rpc_call \<Rightarrow> ('ty, 'v, 'w) rpc_server \<Rightarrow> bool" where
  "serves cd c rs \<longleftrightarrow> (\<exists>svc meth rs'. server_dispatch (rq_svcMeth (ca_req c)) rs = Some (svc, meth, rs') \<and> handled cd svc meth c)"

lemma serves_upd [simp]: "serves cd (c\<lparr>ca_pc := pc\<rparr>) = serves cd c" "serves cd (c\<lparr>ca_handler := h\<rparr>) = serves cd c"
  by (simp_all add: serves_def handled_def fun_eq_iff)

fun handler_ends :: "('ty, 'v) codec \<Rightarrow> ('n, 'ty, 'v, 'w) rpc_call \<Rightarrow> ('ty, 'v, 'w) handler_st \<Rightarrow> bool" where
  "handler_ends cd c (HRun svc meth) = handled cd svc meth c"
| "handler_ends cd c (HSent r) = fst (cd_Decode cd (rp_reply r) (ca_var c))"
| "handler_ends cd c h = True"

definition returns :: "('ty, 'v) codec \<Rightarrow> nat \<Rightarrow> ('n, 'ty, 'v, 'w) rpc_sys \<Rightarrow> bool" where
  "returns cd i s \<longleftrightarrow> (\<exists>s' b v. (rpc_step cd)\<^sup>*\<^sup>* s s' \<and> ca_pc (ry_calls s' ! i) = CReturned b v)"

lemma returns_step: "rpc_step cd s s' \<Longrightarrow> returns cd i s' \<Longrightarrow> returns cd i s"
  unfolding returns_def by (blast intro: converse_rtranclp_into_rtranclp)

lemma returns_now: "ca_pc (call_at s i) = CReturned b v \<Longrightarrow> returns cd i s"
  unfolding returns_def by blast

lemma returns_reply:
  fixes s :: "('n, 'ty, 'v, 'w) rpc_sys"
  assumes "i < length (ry_calls s)" "ca_pc (call_at s i) = CReply r"
    and "r = lost \<or> fst (cd_Decode cd (rp_reply r) (ca_var (call_at s i)))"
  shows "returns cd i s"
proof -
  have "\<exists>b v. Call_return cd r (ca_var (call_at s i)) = Some (CReturned b v :: ('n, 'v) call_pc)"
    using assms(3) by (cases "cd_Decode cd (rp_reply r) (ca_var (call_at s i))"; cases "rp_ok r") (auto simp: Call_return_def lost_def)
  then obtain b v where "Call_return cd r (ca_var (call_at s i)) = Some (CReturned b v :: ('n, 'v) call_pc)"
    by blast
  then show ?thesis
    using assms(1) by (intro returns_step[OF st_deliver[OF assms(1,2)]] returns_now[of _ i b v]) (simp_all add: setCall_at)
qed

lemma returns_got:
  assumes i: "i < length (ry_calls s)" and pc: "ca_pc (call_at s i) = CGot name srv rel lr r"
    and d: "fst (cd_Decode cd (rp_reply r) (ca_var (call_at s i)))"
  shows "returns cd i s"
proof (rule returns_step[OF st_end[OF i, of cd 0]])
  let ?pc = "processReq_end 0 (ca_req (call_at s i)) (ry_net s) (ca_pc (call_at s i))"
  have "?pc = CReply lost \<or> ?pc = CReply r"
    by (simp add: processReq_end_def pc)
  then obtain r' where "?pc = CReply r'" "r' = lost \<or> r' = r"
    by auto
  then show "returns cd i (setCall i ?pc (ca_handler (call_at s i)) s)"
    using i d by (intro returns_reply[of i _ r']) (auto simp: setCall_at)
qed

lemma returns_sent:
  assumes i: "i < length (ry_calls s)" and pc: "ca_pc (call_at s i) = CWait name srv rel lr"
    and h: "ca_handler (call_at s i) = HSent r" and d: "fst (cd_Decode cd (rp_reply r) (ca_var (call_at s i)))"
  shows "returns cd i s"
proof (rule returns_step[OF st_wait[OF i, of cd False]])
  show "returns cd i (setCall i (processReq_wait False (ca_req (call_at s i)) (ry_net s) (ca_handler (call_at s i))
      (ca_pc (call_at s i))) (ca_handler (call_at s i)) s)"
    using i d by (intro returns_got[of i _ name srv rel lr r]) (simp_all add: setCall_at processReq_wait_def pc h)
qed

lemma returns_run:
  assumes i: "i < length (ry_calls s)" and pc: "ca_pc (call_at s i) = CWait name srv rel lr"
    and h: "ca_handler (call_at s i) = HRun svc meth" and d: "handled cd svc meth (call_at s i)"
  shows "returns cd i s"
proof -
  obtain r w where r: "service_dispatch cd svc meth (ca_req (call_at s i)) (ry_world s) = Some (r, w)"
    "fst (cd_Decode cd (rp_reply r) (ca_var (call_at s i)))"
    using d unfolding handled_def by blast
  show ?thesis
    using i r(2) pc by (intro returns_step[OF st_run[OF i h r(1)]] returns_sent[of i _ name srv rel lr r]) (simp_all add: setCall_at)
qed

lemma returns_start:
  assumes i: "i < length (ry_calls s)" and pc: "ca_pc (call_at s i) = CWait name srv rel lr"
    and h: "ca_handler (call_at s i) = HStart srv'" and d: "serves cd (call_at s i) (ry_heap s ! srv')"
  shows "returns cd i s"
proof -
  obtain svc meth rs where r: "server_dispatch (rq_svcMeth (ca_req (call_at s i))) (ry_heap s ! srv') = Some (svc, meth, rs)"
    "handled cd svc meth (call_at s i)"
    using d unfolding serves_def by blast
  show ?thesis
    using i r(2) pc by (intro returns_step[OF st_dispatch[OF i h r(1)]] returns_run[of i _ name srv rel lr svc meth])
      (simp_all add: setCall_at handled_def)
qed

text \<open>Pointers to servers are in the heap.\<close>

definition ptrs_ok :: "('n, 'ty, 'v, 'w) rpc_sys \<Rightarrow> bool" where
  "ptrs_ok s \<longleftrightarrow> (\<forall>name srv. serverAt (ry_net s) name = Some srv \<longrightarrow> srv < length (ry_heap s)) \<and>
     (\<forall>i<length (ry_calls s). \<forall>srv. ca_handler (call_at s i) = HStart srv \<longrightarrow> srv < length (ry_heap s))"

lemma network_op_servers:
  assumes "network_op k n n'" "serverAt n' name = Some srv"
  shows "serverAt n name = Some srv \<or> srv < k"
  using assms
  by (induction rule: network_op.induct)
    (auto simp: serverAt_def Cleanup_def Reliable_def LongReordering_def LongDelays_def MakeEnd_def AddServer_def
      DeleteServer_def Connect_def Enable_def split: if_splits)

lemma rpc_step_ptrs_ok:
  assumes "rpc_step cd s s'" "ptrs_ok s"
  shows "ptrs_ok s'"
  using assms
proof (induction rule: rpc_step.induct)
  case (st_call endname s svcMeth args reply c)
  then show ?case
    by (auto simp: ptrs_ok_def nth_append Call_def)
next
  case (st_begin i s roll pc h)
  then show ?case
    using processReq_begin_cases[OF st_begin.hyps(3)] by (auto simp: ptrs_ok_def setCall_at)
next
  case (st_network s n)
  then show ?case
    using network_op_servers[OF st_network.hyps] by (auto simp: ptrs_ok_def)
qed (auto simp: ptrs_ok_def setCall_at serverAt_def less_Suc_eq)

lemma rpc_reach_ptrs_ok: "rpc_reach cd s \<Longrightarrow> ptrs_ok s"
proof (induction rule: rpc_reach.induct)
  case (rr_step s s')
  show ?case
    by (rule rpc_step_ptrs_ok[OF rr_step.hyps(2) rr_step.IH])
qed (simp add: ptrs_ok_def serverAt_def MakeNetwork_def)

lemma returns_begin:
  fixes s :: "('n, 'ty, 'v, 'w) rpc_sys"
  assumes i: "i < length (ry_calls s)" and pc: "ca_pc (call_at s i) = CSent"
    and ptrs: "ptrs_ok s" and d: "list_all (serves cd (call_at s i)) (ry_heap s)"
  shows "returns cd i s"
proof -
  obtain pc' :: "('n, 'v) call_pc" and h' :: "('ty, 'v, 'w) handler_st" where b: "processReq_begin 0 (ca_req (call_at s i)) (ry_net s) = (pc', h')"
    by fastforce
  have "returns cd i (setCall i pc' h' s)"
    using processReq_begin_cases[OF b]
  proof (elim disjE exE conjE)
    assume "pc' = CReply lost" "h' = HNone"
    then show ?thesis
      using i by (intro returns_reply[of i _ lost]) (simp_all add: setCall_at)
  next
    fix name srv rel lr assume *: "pc' = CWait name srv rel lr" "h' = HStart srv" "serverAt (ry_net s) name = Some srv"
    then have "serves cd (call_at s i) (ry_heap s ! srv)"
      using ptrs d by (simp add: ptrs_ok_def list_all_length)
    then show ?thesis
      using i * by (intro returns_start[of i _ name srv rel lr srv]) (simp_all add: setCall_at)
  qed
  then show ?thesis
    by (rule returns_step[OF st_begin[OF i pc b]])
qed

lemma returns_send:
  assumes i: "i < length (ry_calls s)" and pc: "ca_pc (call_at s i) = CSend"
    and ptrs: "ptrs_ok s" and d: "list_all (serves cd (call_at s i)) (ry_heap s)"
  shows "returns cd i s"
proof (cases "nt_done (ry_net s)")
  case True
  then show ?thesis
    using i by (intro returns_step[OF st_refuse[OF i pc]] returns_now[of _ i False "ca_var (call_at s i)"]) (simp_all add: setCall_at)
next
  case False
  let ?s = "setCall i CSent (ca_handler (call_at s i))
    (s\<lparr>ry_net := count_bytes (length (rq_args (ca_req (call_at s i)))) ((ry_net s)\<lparr>nt_count := nt_count (ry_net s) + 1\<rparr>)\<rparr>)"
  have st: "rpc_step cd s ?s"
    by (rule st_accept[OF i pc])
  have "list_all (serves cd (call_at ?s i)) (ry_heap ?s)"
    using d i by (simp add: setCall_at)
  then show ?thesis
    using i by (intro returns_step[OF st] returns_begin rpc_step_ptrs_ok[OF st ptrs]) (simp_all add: setCall_at)
qed

text \<open>
  (C28) A call can always return. In every reachable state, if every server would execute the
  method that the call names and its handlers return replies that the caller can decode, then
  there are steps after which \<open>Call\<close> has returned, also when the network was cleaned up, the
  server deleted or the end disabled: only a handler that does not return can hold it up.
\<close>

theorem rpc_call_returns:
  assumes reach: "rpc_reach cd s" and i: "i < length (ry_calls s)" and c: "c = ry_calls s ! i"
    and "list_all (serves cd c) (ry_heap s)" "handler_ends cd c (ca_handler c)"
  shows "returns cd i s"
proof (cases "ca_pc (call_at s i)")
  case (CWait name srv rel lr)
  have ok: "call_ok cd (runs_of i s) i c (ca_handler c)"
    unfolding c by (rule calls_okD[OF rpc_reach_calls_ok[OF reach] i])
  show ?thesis
  proof (cases "ca_handler c")
    case HNone
    then show ?thesis
      using ok CWait c by auto
  next
    case (HStart srv')
    then have "serves cd (call_at s i) (ry_heap s ! srv')"
      using assms(4) rpc_reach_ptrs_ok[OF reach] i c by (simp add: ptrs_ok_def list_all_length)
    then show ?thesis
      using returns_start[OF i CWait, of srv' cd] HStart c by simp
  next
    case (HRun svc meth)
    then show ?thesis
      using returns_run[OF i CWait, of svc meth cd] assms(5) c by simp
  next
    case (HSent r)
    then show ?thesis
      using returns_sent[OF i CWait, of r cd] assms(5) c by simp
  qed
next
  case (CGot name srv rel lr r)
  then have "ca_handler c = HSent r"
    using calls_okD[OF rpc_reach_calls_ok[OF reach] i] c by (cases "ca_handler c") auto
  then show ?thesis
    using returns_got[OF i CGot, of cd] assms(5) c by simp
next
  case (CReply r)
  then have "r = lost \<or> ca_handler c = HSent r"
    using calls_okD[OF rpc_reach_calls_ok[OF reach] i] c by (cases "ca_handler c") auto
  then show ?thesis
    using returns_reply[OF i CReply, of cd] assms(5) c by auto
qed (use returns_send[OF i] returns_begin[OF i] rpc_reach_ptrs_ok[OF reach] assms(4) c in \<open>auto intro: returns_now\<close>)

section \<open>An example\<close>

text \<open>A server with one method that returns its argument plus one and counts its executions.\<close>

definition ex_codec :: "(unit, nat) codec" where
  "ex_codec = \<lparr>cd_TypeOf = \<lambda>_. (), cd_New = \<lambda>_. 0, cd_Encode = \<lambda>v. Some [of_nat v], cd_EncodeValue = \<lambda>v. [of_nat v],
     cd_Decode = \<lambda>bs v. (True, unat (hd bs))\<rparr>"

definition ex_service :: "(unit, nat, nat) rpc_service" where
  "ex_service = MakeService ''S'' [\<lparr>me_Name = ''Inc'', me_PkgPath = '''', me_NumIn = 3, me_In2Ptr = True, me_In2Elem = (),
     me_NumOut = 0, me_Func = \<lambda>a r w. Some (a + 1, w + 1)\<rparr>]"

definition ex_net :: "nat rpc_network" where
  "ex_net = Enable 7 True (Connect 7 8 (AddServer 8 0 (the (MakeEnd 7 MakeNetwork))))"

definition ex_call :: "(nat, nat) call_pc \<Rightarrow> (unit, nat, nat) handler_st \<Rightarrow> (nat, unit, nat, nat) rpc_call" where
  "ex_call pc h = \<lparr>ca_req = \<lparr>rq_endname = 7, rq_svcMeth = ''S.Inc'', rq_argsType = (), rq_args = [4]\<rparr>, ca_var = 0,
     ca_pc = pc, ca_handler = h\<rparr>"

definition ex_sys :: "(nat, nat) call_pc \<Rightarrow> (unit, nat, nat) handler_st \<Rightarrow> nat rpc_network \<Rightarrow> int \<Rightarrow>
    (nat \<times> (unit, nat, nat) rpc_service \<times> string \<times> nat) list \<Rightarrow> (nat, unit, nat, nat) rpc_sys" where
  "ex_sys pc h n k runs = \<lparr>ry_net = n, ry_heap = [(AddService ex_service MakeServer)\<lparr>se_count := k\<rparr>], ry_world = length runs,
     ry_calls = [ex_call pc h], ry_runs = runs\<rparr>"

abbreviation ex_sent :: "nat rpc_network" where
  "ex_sent \<equiv> count_bytes 1 (ex_net\<lparr>nt_count := 1\<rparr>)"

abbreviation ex_reply :: reply_msg where
  "ex_reply \<equiv> \<lparr>rp_ok = True, rp_reply = [5]\<rparr>"

lemma rr_stepI: "rpc_reach cd s \<Longrightarrow> rpc_step cd s t \<Longrightarrow> t = s' \<Longrightarrow> rpc_reach cd s'"
  by (auto intro: rr_step)

lemma ex_net_simps [simp]:
  "nt_ends ex_net = {7}" "\<not> nt_done ex_net" "nt_count ex_net = 0" "nt_bytes ex_net = 0" "nt_reliable ex_net" "\<not> nt_longReordering ex_net"
  "nt_enabled ex_net 7 = Some True" "nt_connections ex_net 7 = Some (Some 8)" "nt_servers ex_net 8 = Some (Some 0)"
  by (simp_all add: ex_net_def Enable_def Connect_def AddServer_def MakeEnd_def MakeNetwork_def)

lemma ex_service_simps:
  "server_dispatch ''S.Inc'' ((AddService ex_service MakeServer)\<lparr>se_count := k\<rparr>) =
     Some (ex_service, ''Inc'', (AddService ex_service MakeServer)\<lparr>se_count := k + 1\<rparr>)"
  "service_dispatch ex_codec ex_service ''Inc'' (ca_req (ex_call pc h)) w = Some (ex_reply, w + 1)"
  by (simp_all add: server_dispatch_def service_dispatch_def ex_codec_def ex_service_def MakeService_def AddService_def MakeServer_def
      ex_call_def slice_to_def slice_from_def)

abbreviation ex_idle :: "nat rpc_network \<Rightarrow> (nat, unit, nat, nat) rpc_sys" where
  "ex_idle n \<equiv> \<lparr>ry_net = n, ry_heap = [AddService ex_service MakeServer], ry_world = 0, ry_calls = [], ry_runs = []\<rparr>"

lemma ex_reach_op:
  assumes "rpc_reach ex_codec (ex_idle n)" "network_op 1 n n'"
  shows "rpc_reach ex_codec (ex_idle n')"
proof (rule rr_stepI[OF assms(1) st_network])
  show "network_op (length (ry_heap (ex_idle n))) (ry_net (ex_idle n)) n'"
    using assms(2) by simp
qed simp

lemma ex_reach_idle: "rpc_reach ex_codec (ex_idle ex_net)"
proof -
  let ?s0 = "\<lparr>ry_net = MakeNetwork, ry_heap = [], ry_world = 0, ry_calls = [], ry_runs = []\<rparr> :: (nat, unit, nat, nat) rpc_sys"
  have "rpc_reach ex_codec (?s0\<lparr>ry_heap := [MakeServer]\<rparr>)"
    by (rule rr_stepI[OF rr_init[of _ 0] st_server]) simp
  then have 0: "rpc_reach ex_codec (ex_idle MakeNetwork)"
    by (rule rr_stepI[OF _ st_service[of _ _ 0 ex_service]]) simp
  have "rpc_reach ex_codec (ex_idle (the (MakeEnd 7 MakeNetwork)))"
    by (rule ex_reach_op[OF 0 op_end[of 7]]) (simp add: MakeEnd_def MakeNetwork_def)
  then show ?thesis
    unfolding ex_net_def by (intro ex_reach_op[OF _ op_enable] ex_reach_op[OF _ op_connect] ex_reach_op[OF _ op_add]) simp_all
qed

lemma ex_reach_send: "rpc_reach ex_codec (ex_sys CSend HNone ex_net 0 [])"
proof (rule rr_stepI[OF ex_reach_idle st_call])
  show "Call ex_codec 7 ''S.Inc'' 4 0 = Some (ex_call CSend HNone :: (nat, unit, nat, nat) rpc_call)"
    by (simp add: Call_def ex_codec_def ex_call_def)
qed (simp_all add: ex_sys_def AddService_def MakeServer_def)

lemma ex_reach_wait: "rpc_reach ex_codec (ex_sys (CWait 8 0 True False) (HStart 0) ex_sent 0 [])"
proof -
  have "rpc_reach ex_codec (ex_sys CSent HNone ex_sent 0 [])"
    by (rule rr_stepI[OF ex_reach_send st_accept[of 0]]) (simp_all add: ex_sys_def ex_call_def setCall_def)
  then show ?thesis
    by (rule rr_stepI[OF _ st_begin[of 0 _ 0]])
      (simp_all add: ex_sys_def ex_call_def setCall_def processReq_begin_def readEndnameInfo_def enabledAt_def connectedTo_def serverAt_def)
qed

lemma ex_reach_returned:
  "rpc_reach ex_codec (ex_sys (CReturned True 5) (HSent ex_reply) (count_bytes 1 ex_sent) 1 [(0, ex_service, ''Inc'', 0)])"
proof -
  let ?runs = "[(0, ex_service, ''Inc'', 0)]"
  have "rpc_reach ex_codec (ex_sys (CWait 8 0 True False) (HRun ex_service ''Inc'') ex_sent 1 [])"
    by (rule rr_stepI[OF ex_reach_wait st_dispatch[of 0 _ 0 ex_service "''Inc''" "(AddService ex_service MakeServer)\<lparr>se_count := 0 + 1\<rparr>"]])
      (simp_all add: ex_sys_def ex_call_def setCall_def ex_service_simps(1))
  then have "rpc_reach ex_codec (ex_sys (CWait 8 0 True False) (HSent ex_reply) ex_sent 1 ?runs)"
    by (rule rr_stepI[OF _ st_run[of 0 _ ex_service "''Inc''" _ ex_reply "0 + 1"]])
      (simp_all only: ex_sys_def setCall_def ex_service_simps(2) rpc_sys.simps list.size nth_Cons_0, simp_all add: ex_call_def)
  then have "rpc_reach ex_codec (ex_sys (CGot 8 0 True False ex_reply) (HSent ex_reply) ex_sent 1 ?runs)"
    by (rule rr_stepI[OF _ st_wait[of 0 _ _ False]]) (simp_all add: ex_sys_def ex_call_def setCall_def processReq_wait_def)
  then have "rpc_reach ex_codec (ex_sys (CReply ex_reply) (HSent ex_reply) ex_sent 1 ?runs)"
    by (rule rr_stepI[OF _ st_end[of 0 _ _ 0]])
      (simp_all add: ex_sys_def ex_call_def setCall_def processReq_end_def isServerDead_def enabledAt_def serverAt_def)
  then show ?thesis
    by (rule rr_stepI[OF _ st_deliver[where i = 0 and r = ex_reply and pc = "CReturned True 5"]]) (simp_all add: ex_sys_def ex_call_def setCall_def Call_return_def ex_codec_def)
qed

theorem rpc_call_once_witness:
  "\<exists>s :: (nat, unit, nat, nat) rpc_sys. rpc_reach ex_codec s \<and> ca_pc (ry_calls s ! 0) = CReturned True 5 \<and> length (runs_of 0 s) = 1"
proof -
  let ?s = "ex_sys (CReturned True 5) (HSent ex_reply) (count_bytes 1 ex_sent) 1 [(0, ex_service, ''Inc'', 0)]"
  have "0 < length (ry_calls ?s)" "ca_pc (ry_calls ?s ! 0) = CReturned True 5"
    by (simp_all add: ex_sys_def ex_call_def)
  then show ?thesis
    using ex_reach_returned rpc_call_once[OF ex_reach_returned _ refl, of 0 5] by (intro exI[of _ ?s]) auto
qed

theorem rpc_deleted_server_silent_witness:
  "ca_pc (ry_calls ((ex_sys (CWait 8 0 True False) (HStart 0) ex_sent 0 [])\<lparr>ry_net := DeleteServer 8 ex_sent\<rparr>) ! 0) \<noteq> CReturned True 5"
  using rpc_deleted_server_silent[of 0 "ex_sys (CWait 8 0 True False) (HStart 0) ex_sent 0 []" 8 0 True False ex_reply ex_codec _ 5]
  by (simp add: ex_sys_def ex_call_def)

theorem rpc_call_returns_witness: "returns ex_codec 0 (ex_sys CSend HNone ex_net 0 [])"
proof (rule rpc_call_returns[OF ex_reach_send _ refl])
  have "serves ex_codec (ex_call CSend HNone) ((AddService ex_service MakeServer)\<lparr>se_count := 0\<rparr>)"
    using ex_service_simps(1)[of 0] ex_service_simps(2)[of CSend HNone]
    unfolding serves_def handled_def by (simp add: ex_call_def ex_codec_def)
  then show "list_all (serves ex_codec (ry_calls (ex_sys CSend HNone ex_net 0 []) ! 0)) (ry_heap (ex_sys CSend HNone ex_net 0 []))"
    by (simp add: ex_sys_def)
qed (simp_all add: ex_sys_def ex_call_def)

end
