(* ===== verification/Spec2Isabelle.thy ===== *)
theory Spec2Isabelle
  imports Raft_Cluster Raft_Node_Faults Kv_Server Ctrler_Server Shard_Safety Porcupine_Kv Raft_Transport Lab_Rpc
begin

text \<open>
  \<^bold>\<open>A verification of Multi-Raft.\<close> The repository (\<^verbatim>\<open>src/src\<close>) holds two implementations of the
  Raft consensus protocol, three replicated services on top of the first, a simulated network
  that these run on, and the linearizability checker with which the tests judge the services.
  This theory imports the whole development; each other theory opens with a text of its own.

  \<^bold>\<open>The parts and how they interact.\<close>
  A peer of \<^verbatim>\<open>raft/raft.go\<close> keeps a log (\<^verbatim>\<open>raft_log.go\<close>), elects leaders (\<^verbatim>\<open>raft_election.go\<close>),
  replicates (\<^verbatim>\<open>raft_replication.go\<close>), compacts (\<^verbatim>\<open>raft_compaction.go\<close>), saves its state
  (\<^verbatim>\<open>raft_persistence.go\<close>, \<^verbatim>\<open>persister.go\<close>) and delivers what is committed (\<^verbatim>\<open>raft_application.go\<close>)
  to the service above it: the key/value store (\<^verbatim>\<open>kvraft\<close>), the shard controller
  (\<^verbatim>\<open>shardctrler\<close>) or a group of the sharded store (\<^verbatim>\<open>shardkv\<close>), whose groups fetch
  configurations from the controller and shards from each other. All calls between them go
  through \<^verbatim>\<open>labrpc\<close>. The node of \<^verbatim>\<open>raft/node.go\<close> is the second implementation, over a
  storage interface (\<^verbatim>\<open>storage.go\<close>) with a memory and a Badger implementation and a
  transport interface (\<^verbatim>\<open>transport.go\<close>) with an in-memory and a gRPC implementation. The checker
  is \<^verbatim>\<open>porcupine\<close> with the model \<^verbatim>\<open>models/kv.go\<close>.

  \<^bold>\<open>How Go is rendered.\<close>
  A struct is a \<^theory_text>\<open>record\<close>, an enumeration a \<^theory_text>\<open>datatype\<close>; definitions keep the names of the source,
  with a prefix where several types have a method of that name (\<open>log_\<close> for \<open>RaftLog\<close>, \<open>nd_\<close> for
  \<open>Node\<close>, \<open>kv_\<close>, \<open>sc_\<close>, \<open>sk_\<close> for the servers, \<open>bs_\<close> for \<open>bitset\<close> and so on). A Go \<open>int\<close> is an \<open>int\<close>; where
  the width matters (bit sets, protocol messages, counters) a number is a word. A function that
  may panic has an option type with \<^const>\<open>None\<close> for the panic. A map is an association list where
  a range loop makes its order visible, and a partial function otherwise; a range loop visits it in
  the order of the list, on which the replies and configurations of the controller are shown not to depend. Handlers and the
  bodies of loops that hold a lock are functions on the state; what happens between two of them
  is arbitrary interleaving, written as an inductive step relation. Time, random numbers, the
  outcomes of calls on the network and the order in which a select finds channels ready are
  arguments. Loops that may not end (clerks, the search of the checker) are
  \<^theory_text>\<open>partial_function (option)\<close>, with \<^const>\<open>None\<close> for not returning; there is no fuel anywhere, and
  what is claimed to return is proved to return.

  \<^bold>\<open>Theories.\<close>
  \<^item> \<open>Go_Base\<close>: slices, maps and lists; majorities intersect; the median of a sorted list.
  \<^item> \<open>Raft_Log\<close> (\<^verbatim>\<open>raft_log.go\<close>): every operation of the log. A log \<open>represents\<close> a snapshot index and
    the whole sequence of entries behind it; the operations are shown to be the operations on
    that sequence, compaction to change nothing, installing a snapshot to replace a prefix.
  \<^item> \<open>Raft_State\<close>, \<open>Raft_Election\<close>, \<open>Raft_Replication\<close>, \<open>Raft_Application\<close> (\<^verbatim>\<open>raft.go\<close> and the files of
    its methods): the peer as a record, every handler, one definition per round of a ticker, the
    handling of each reply, the application goroutine as a state machine of its own. Shown:
    which fields each operation leaves alone, that every operation keeps the invariant of a peer, the exact
    conditions and effects of \<^const>\<open>RequestVote\<close> and \<^const>\<open>AppendEntries\<close>, the commit rule, the order of
    delivery, and where the code falls short of the protocol. Delivery is a trace of the messages
    sent, in any interleaving with all handlers; a snapshot that is installed while an older one is
    being sent counts as delivered without being sent, and the trace has an event for that. A leader and
    a follower that has compacted too far are a step relation of their own, over any number of rounds.
  \<^item> \<open>Election_Safety\<close>: clusters over any peer that meets the locale \<open>election_peer\<close>, with lost, delayed
    and reordered messages, requests that are executed repeatedly, crashes and restarts; a term has
    at most one leader. Each call for a vote takes at most one reply, as in the code.
  \<^item> \<open>Raft_Cluster\<close>: the interpretation of \<open>election_peer\<close> by the peers of \<^verbatim>\<open>raft.go\<close>; every step leaves term,
    vote and log on stable storage.
  \<^item> \<open>Raft_Storage\<close> (\<^verbatim>\<open>storage.go\<close>, \<^verbatim>\<open>storage_memory.go\<close>, \<^verbatim>\<open>storage_badger.go\<close>): the locales \<open>raft_store\<close> and
    \<open>reliable_store\<close> say what a node relies on; the memory storage interprets them; the Badger
    storage, over a database that is a parameter with its documented behaviour as hypothesis,
    refines the memory storage, up to errors of the database and the empty key, which it refuses.
  \<^item> \<open>Raft_Node\<close> (\<^verbatim>\<open>node.go\<close>), \<open>Raft_Node_Safety\<close>, \<open>Raft_Node_Faults\<close>: the node over any storage; its
    exchange sort computes the commit index of the specification; nodes on a reliable store
    satisfy \<open>election_peer\<close>; restarts lose the log, deliveries are dropped, lagging followers are
    not helped.
  \<^item> \<open>Raft_Transport\<close> (\<^verbatim>\<open>transport.go\<close>, \<^verbatim>\<open>transport_inmem.go\<close>, \<^verbatim>\<open>transport_grpc.go\<close>): in-memory transports on a
    heap and the network of them, whose calls after any operations are read off these operations; the
    message conversions of the gRPC transport at 32 bits. The locale \<open>endpoint_contract\<close> says that a
    call is a call of the other side's handler, and both transports interpret it.
  \<^item> \<open>Lab_Rpc\<close> (\<^verbatim>\<open>labrpc/labrpc.go\<close>): network, servers, services, and a call as a state machine of
    its goroutines; at most one execution per call, silence of deleted servers, calls return.
  \<^item> \<open>Dedup\<close>, \<open>Service_Base\<close>, \<open>Log_Client\<close>: what the services share. The locale \<open>dedup_service\<close> is
    the contract of executing requests through a duplicate table and gives that every request is
    executed once; \<open>log_client\<close> is the contract between a peer and the \<open>applyTask\<close> of a service and
    gives that a replica holds the state of a prefix of the log. Notification channels, waiting
    handlers and the loop of a clerk are in \<open>Service_Base\<close>.
  \<^item> \<open>Kv_Server\<close> (\<^verbatim>\<open>kvraft\<close>), \<open>Ctrler_State_Machine\<close> and \<open>Ctrler_Server\<close> (\<^verbatim>\<open>shardctrler\<close>), \<open>Shard_Kv\<close> (\<^verbatim>\<open>shardkv\<close>):
    state machines, servers, handlers, background tasks and clerks; each server interprets both
    locales. Join and Leave are balanced and move no more than they must, the balancing loop
    ends, and the result does not depend on the order in which maps are visited.
  \<^item> \<open>Shard_Handover\<close>, \<open>Shard_Migration\<close>, \<open>Shard_Safety\<close>: all groups together, as a step relation over the
    commands in their logs, the data requests between them and the configurations of the controller. At any time at most
    one group serves a shard; a read returns what all writes executed so far, on whichever
    groups, have made of the key; a write takes effect once.
  \<^item> \<open>Porcupine_Bitset\<close>, \<open>Porcupine_Checker\<close>, \<open>Porcupine_Search\<close>, \<open>Porcupine_Loop\<close>, \<open>Porcupine_Linked\<close>,
    \<open>Porcupine_Operations\<close>, \<open>Porcupine_Kv\<close> (\<^verbatim>\<open>porcupine\<close>, \<^verbatim>\<open>models/kv.go\<close>): bit sets on 64-bit words are sets; the doubly linked list
    lives on a heap, and \<open>unlift\<close> restores what \<open>lift\<close> changed; the backtracking search with its cache ends and
    decides linearizability for any model of the locale \<open>porcupine_model\<close>; with the key/value model, which interprets
    it, the parallel check of the keys decides linearizability of the whole store. The select that collects
    the results returns, still waits or, for a schedule that cannot occur, is marked as impossible;
    on an empty history it waits for ever.

  \<^bold>\<open>Assumptions.\<close>
  Cluster theorems assume a fixed number of peers with the indexes of the slice of peers.
  Safety of the shard handover assumes that the configurations are those of one controller,
  numbered in sequence, in which a shard that has an owner keeps one: the code loses the data of
  a shard that is taken from a group and given to nobody. The checker is told
  histories in which no operation returns before it is called, and sorts with any function that
  sorts. Encoded values decode to what was encoded. That a replica holds the state of a prefix of
  the log assumes that the messages agree with the log and that no snapshot is overtaken by a newer
  one while it is sent.

  \<^bold>\<open>Not modelled.\<close>
  \<^verbatim>\<open>labgob\<close> prints warnings found by reflection around \<^verbatim>\<open>encoding/gob\<close>, which is a codec here.
  \<^verbatim>\<open>porcupine/visualization.go\<close> writes an HTML page. The four \<^verbatim>\<open>config.go\<close> files are
  test harnesses: what they do to servers (restart, partition, delete) are steps of the models.
  \<^verbatim>\<open>raft/util.go\<close> and the calls of \<open>LOG\<close> and \<open>DPrintf\<close> print debugging lines. \<^verbatim>\<open>raft/pb\<close> is generated
  code and \<^verbatim>\<open>raft/example\<close> a demonstration. Lengths of delays, data races and aliasing
  (the sharing of the backing array of a slice with a message that is being encoded, or with the caller
  of the memory storage, which keeps the slice it is given) and the memory model of Go are outside the models: what
  runs under a lock is one step. Log matching and leader completeness of the whole cluster are
  not claimed: a delayed AppendEntries can remove entries that a follower has acknowledged, as
  is proved in \<open>Raft_Replication\<close>, so an entry that a majority acknowledged need not stay on one.
\<close>

end
